(* ===== verification/Prelude.thy ===== *)
theory Prelude
  imports Main "HOL-Library.Word" "HOL-Library.AList"
begin

text \<open>
  Shared vocabulary of the development: the machine integers and byte strings of the Rust
  code, the little-endian field codec behind \<open>to_le_bytes\<close>, \<open>from_le_bytes\<close>, \<open>put_u32_le\<close>
  and \<open>get_u32_le\<close>, byte-wise XOR, the saturating arithmetic of the standard library, the
  random source \<open>OsRng\<close> as an explicit stream, decimal rendering for \<open>format!\<close>, the interface
  \<open>byte_code\<close> of the one-byte wire codes (frame type, AEAD id, handshake type, traffic
  profile), and the generic list lemmas the component theories share.
\<close>

unbundle bit_operations_syntax

section \<open>Types\<close>

type_synonym byte = "8 word"
type_synonym bytes = "8 word list"
type_synonym u16 = "16 word"
type_synonym u32 = "32 word"
type_synonym u64 = "64 word"

text \<open>A point on the monotonic clock (\<open>std::time::Instant\<close>) and a \<open>Duration\<close>, in nanoseconds.
  An instant may lie before the clock's origin (\<open>Instant::now() - d\<close>), so it is an integer.\<close>

type_synonym instant = int
type_synonym duration = nat

text \<open>\<open>later.duration_since(earlier)\<close> and \<open>elapsed()\<close> saturate at zero.\<close>

definition duration_since :: "instant \<Rightarrow> instant \<Rightarrow> duration" where
  "duration_since later earlier = nat (later - earlier)"

definition secs :: "nat \<Rightarrow> duration" where
  "secs n = n * 1000000000"

definition millis :: "nat \<Rightarrow> duration" where
  "millis n = n * 1000000"

named_theorems wire_len \<open>lengths of the encoders\<close>
named_theorems wire_dec \<open>decoders applied to their encoders\<close>

section \<open>Little-endian fields\<close>

fun le_bytes :: "nat \<Rightarrow> nat \<Rightarrow> bytes" where
  "le_bytes 0 n = []"
| "le_bytes (Suc k) n = of_nat n # le_bytes k (n div 256)"

fun le_nat :: "bytes \<Rightarrow> nat" where
  "le_nat [] = 0"
| "le_nat (b # bs) = unat b + 256 * le_nat bs"

definition u16_to_le :: "u16 \<Rightarrow> bytes" where
  "u16_to_le w = le_bytes 2 (unat w)"

definition u32_to_le :: "u32 \<Rightarrow> bytes" where
  "u32_to_le w = le_bytes 4 (unat w)"

definition u64_to_le :: "u64 \<Rightarrow> bytes" where
  "u64_to_le w = le_bytes 8 (unat w)"

definition u16_from_le :: "bytes \<Rightarrow> u16" where
  "u16_from_le bs = of_nat (le_nat bs)"

definition u32_from_le :: "bytes \<Rightarrow> u32" where
  "u32_from_le bs = of_nat (le_nat bs)"

definition u64_from_le :: "bytes \<Rightarrow> u64" where
  "u64_from_le bs = of_nat (le_nat bs)"

lemma unat_of_nat_byte: "unat (of_nat n :: byte) = n mod 256"
  by (simp add: unat_of_nat)

lemma unat_word_less [simp]: "unat (w :: 'a::len word) < 2 ^ LENGTH('a)"
  by (rule unsigned_less)

lemma unat_byte_less: "unat (b :: byte) < 256"
  using unat_word_less [of b] by simp

lemma length_le_bytes [simp]: "length (le_bytes k n) = k"
  by (induction k arbitrary: n) auto

lemma le_nat_le_bytes: "le_nat (le_bytes k n) = n mod 256 ^ k"
proof (induction k arbitrary: n)
  case 0
  show ?case by simp
next
  case (Suc k)
  then show ?case
    by (simp add: unat_of_nat_byte mod_mult2_eq)
qed

lemma le_nat_bound: "le_nat bs < 256 ^ length bs"
proof (induction bs)
  case Nil
  show ?case by simp
next
  case (Cons b bs)
  with unat_byte_less [of b] show ?case by simp
qed

lemma le_bytes_le_nat: "le_bytes (length bs) (le_nat bs) = bs"
proof (induction bs)
  case Nil
  show ?case by simp
next
  case (Cons b bs)
  have "(of_nat (unat b + 256 * le_nat bs) :: byte) = b"
    by (rule word_unat_eq_iff [THEN iffD2], simp only: unat_of_nat_byte)
      (simp add: unat_byte_less)
  with Cons show ?case by (simp add: unat_byte_less)
qed

lemma u16_to_le_length [simp, wire_len]: "length (u16_to_le w) = 2"
  by (simp add: u16_to_le_def)

lemma u32_to_le_length [simp, wire_len]: "length (u32_to_le w) = 4"
  by (simp add: u32_to_le_def)

lemma u64_to_le_length [simp, wire_len]: "length (u64_to_le w) = 8"
  by (simp add: u64_to_le_def)

lemma u16_from_to_le [simp, wire_dec]: "u16_from_le (u16_to_le w) = w"
  using unat_word_less [of w] by (simp add: u16_from_le_def u16_to_le_def le_nat_le_bytes del: unat_word_less)

lemma u32_from_to_le [simp, wire_dec]: "u32_from_le (u32_to_le w) = w"
  using unat_word_less [of w] by (simp add: u32_from_le_def u32_to_le_def le_nat_le_bytes del: unat_word_less)

lemma u64_from_to_le [simp, wire_dec]: "u64_from_le (u64_to_le w) = w"
  using unat_word_less [of w] by (simp add: u64_from_le_def u64_to_le_def le_nat_le_bytes del: unat_word_less)

lemma u16_to_from_le: "length bs = 2 \<Longrightarrow> u16_to_le (u16_from_le bs) = bs"
  using le_nat_bound [of bs] le_bytes_le_nat [of bs]
  by (simp add: u16_from_le_def u16_to_le_def unat_of_nat)

lemma u32_to_from_le: "length bs = 4 \<Longrightarrow> u32_to_le (u32_from_le bs) = bs"
  using le_nat_bound [of bs] le_bytes_le_nat [of bs]
  by (simp add: u32_from_le_def u32_to_le_def unat_of_nat)

lemma u64_to_from_le: "length bs = 8 \<Longrightarrow> u64_to_le (u64_from_le bs) = bs"
  using le_nat_bound [of bs] le_bytes_le_nat [of bs]
  by (simp add: u64_from_le_def u64_to_le_def unat_of_nat)

lemma u16_to_le_inject [simp]: "u16_to_le v = u16_to_le w \<longleftrightarrow> v = w"
  by (metis u16_from_to_le)

lemma u32_to_le_inject [simp]: "u32_to_le v = u32_to_le w \<longleftrightarrow> v = w"
  by (metis u32_from_to_le)

lemma u64_to_le_inject [simp]: "u64_to_le v = u64_to_le w \<longleftrightarrow> v = w"
  by (metis u64_from_to_le)

text \<open>A byte-string literal \<open>b"..."\<close>.\<close>

definition ascii :: "string \<Rightarrow> bytes" where
  "ascii s = map of_char s"

section \<open>XOR masks\<close>

definition xor_bytes :: "bytes \<Rightarrow> bytes \<Rightarrow> bytes" where
  "xor_bytes xs ys = map2 (XOR) xs ys"

lemma length_xor_bytes [simp]: "length (xor_bytes xs ys) = min (length xs) (length ys)"
  by (simp add: xor_bytes_def)

lemma xor_bytes_cancel: "length xs \<le> length ys \<Longrightarrow> xor_bytes (xor_bytes xs ys) ys = xs"
  by (rule nth_equalityI) (auto simp: xor_bytes_def xor.assoc)

lemma xor_bytes_inject:
  "length xs = length ys \<Longrightarrow> length ys \<le> length m \<Longrightarrow>
    xor_bytes xs m = xor_bytes ys m \<longleftrightarrow> xs = ys"
  by (metis xor_bytes_cancel)

section \<open>Saturating arithmetic\<close>

definition sat_add :: "u64 \<Rightarrow> u64 \<Rightarrow> u64" where
  "sat_add a b = (if unat a + unat b < 2 ^ 64 then a + b else - 1)"

definition sat_sub :: "u64 \<Rightarrow> u64 \<Rightarrow> u64" where
  "sat_sub a b = (if b \<le> a then a - b else 0)"

lemma unat_sat_add: "unat (sat_add a b) = min (unat a + unat b) (2 ^ 64 - 1)"
  by (auto simp: sat_add_def unat_word_ariths unsigned_minus_1_eq_mask mask_eq_exp_minus_1)

lemma unat_sat_sub: "unat (sat_sub a b) = unat a - unat b"
  by (auto simp: sat_sub_def unat_sub word_le_nat_alt)

section \<open>Random source\<close>

text \<open>
  \<open>OsRng\<close> is an unknown stream of bytes that every draw consumes from the front. A draw of
  \<open>n\<close> bytes returns the first \<open>n\<close> and the rest of the stream, so two draws of one function
  read disjoint parts.
\<close>

type_synonym rng = "nat \<Rightarrow> byte"

definition fill_bytes :: "rng \<Rightarrow> nat \<Rightarrow> bytes \<times> rng" where
  "fill_bytes r n = (map r [0..<n], (\<lambda>i. r (n + i)))"

lemma length_fill_bytes [simp, wire_len]: "length (fst (fill_bytes r n)) = n"
  by (simp add: fill_bytes_def)

section \<open>Decimal rendering\<close>

fun show_nat :: "nat \<Rightarrow> string" where
  "show_nat n = (if n < 10 then [char_of (48 + n)]
                 else show_nat (n div 10) @ [char_of (48 + n mod 10)])"

declare show_nat.simps [simp del]

section \<open>One-byte codes\<close>

text \<open>
  What the code relies on wherever an enum travels as one byte (\<open>as u8\<close> and \<open>from_u8\<close>):
  decoding is a partial inverse of encoding, in both directions.
\<close>

locale byte_code =
  fixes enc :: "'a \<Rightarrow> byte option"
    and dec :: "byte \<Rightarrow> 'a option"
  assumes dec_enc: "enc x = Some b \<Longrightarrow> dec b = Some x"
    and enc_dec: "dec b = Some x \<Longrightarrow> enc x = Some b"
begin

lemma enc_inj: "enc x = Some b \<Longrightarrow> enc y = Some b \<Longrightarrow> x = y"
  by (metis dec_enc option.inject)

lemma dec_inj: "dec a = Some x \<Longrightarrow> dec b = Some x \<Longrightarrow> a = b"
  by (metis enc_dec option.inject)

lemma dec_None_iff: "dec b = None \<longleftrightarrow> (\<forall>x. enc x \<noteq> Some b)"
  by (metis dec_enc enc_dec not_None_eq option.distinct(1))

end

section \<open>Lists\<close>

lemma take_append_exact: "length xs = n \<Longrightarrow> take n (xs @ ys) = xs"
  by simp

lemma drop_append_exact: "length xs = n \<Longrightarrow> drop n (xs @ ys) = ys"
  by simp

lemma take_drop_split: "n \<le> length xs \<Longrightarrow> xs = take n xs @ drop n xs"
  by simp

text \<open>A field of \<open>m\<close> bytes at offset \<open>k\<close>, as the parsers cut it.\<close>

lemma field_split: "take m (drop k xs) @ drop (k + m) xs = drop k xs"
  by (metis add.commute append_take_drop_id drop_drop)

lemma hd_split: "0 < length xs \<Longrightarrow> [xs ! 0] @ drop 1 xs = xs"
  by (cases xs) auto

text \<open>\<open>slice.chunks(n)\<close>: consecutive pieces of \<open>n\<close> elements, the last one possibly shorter.\<close>

function chunks_of :: "nat \<Rightarrow> 'a list \<Rightarrow> 'a list list" where
  "chunks_of n xs = (if xs = [] \<or> n = 0 then [] else take n xs # chunks_of n (drop n xs))"
  by pat_completeness auto
termination
  by (relation "measure (\<lambda>(n, xs). length xs)") auto

declare chunks_of.simps [simp del]

lemma chunks_of_Nil [simp]: "chunks_of n [] = []"
  by (simp add: chunks_of.simps)

lemma concat_chunks_of: "0 < n \<Longrightarrow> concat (chunks_of n xs) = xs"
  by (induction n xs rule: chunks_of.induct) (subst chunks_of.simps, auto)

lemma chunks_of_bound: "c \<in> set (chunks_of n xs) \<Longrightarrow> c \<noteq> [] \<and> length c \<le> n"
proof (induction n xs rule: chunks_of.induct)
  case (1 n xs)
  then show ?case
    by (subst (asm) (2) chunks_of.simps) (auto split: if_splits)
qed

lemma length_chunks_of: "0 < n \<Longrightarrow> length (chunks_of n xs) = (length xs + n - 1) div n"
proof (induction n xs rule: chunks_of.induct)
  case (1 n xs)
  show ?case
  proof (cases "xs = []")
    case True
    with "1.prems" show ?thesis by simp
  next
    case False
    with "1" have len: "length (chunks_of n xs) = Suc ((length xs - n + n - 1) div n)"
      by (subst chunks_of.simps) auto
    have "length xs + n - 1 = (length xs - 1) + n"
      using False by (cases xs) auto
    then have "(length xs + n - 1) div n = Suc ((length xs - 1) div n)"
      using "1.prems" by (simp only: div_add_self2 neq0_conv)
    moreover have "(length xs - n + n - 1) div n = (length xs - 1) div n"
      using "1.prems" by (cases "n \<le> length xs") auto
    ultimately show ?thesis using len by simp
  qed
qed

end
