(* ===== verification/Errors.thy ===== *)
theory Errors
  imports Prelude
begin

text \<open>
  The error hierarchy of \<open>src/error.rs\<close> and the result type every fallible operation of the
  crate returns. \<open>std::io::Error\<close> and the rendered messages are strings; the state and
  message of a handshake error are kept, because callers and tests tell the error paths apart
  by them. \<open>rbind\<close> is the \<open>?\<close> operator.
\<close>

datatype chameleon_error =
    Io string
  | PacketTooShort nat nat
  | UnknownFrameType byte
  | PayloadTooLarge nat
  | HandshakeErr string string
  | DecryptionFailed
  | Kdf string
  | ChannelClosed
  | RekeyRequired
  | RouteErr string
  | KillSwitchErr string
  | DnsErr string
  | InternalErr string

type_synonym 'a result = "chameleon_error + 'a"

abbreviation Ok :: "'a \<Rightarrow> 'a result" where
  "Ok \<equiv> Inr"

abbreviation Err :: "chameleon_error \<Rightarrow> 'a result" where
  "Err \<equiv> Inl"

definition is_ok :: "'a result \<Rightarrow> bool" where
  "is_ok r = (case r of Ok _ \<Rightarrow> True | Err _ \<Rightarrow> False)"

fun rbind :: "'a result \<Rightarrow> ('a \<Rightarrow> 'b result) \<Rightarrow> 'b result" where
  "rbind (Ok x) f = f x"
| "rbind (Err e) f = Err e"

lemma is_ok_simps [simp]: "is_ok (Ok x)" "\<not> is_ok (Err e)"
  by (simp_all add: is_ok_def)

lemma rbind_eq_Ok: "rbind m f = Ok y \<longleftrightarrow> (\<exists>x. m = Ok x \<and> f x = Ok y)"
  by (cases m) auto

lemma rbind_eq_Err: "rbind m f = Err e \<longleftrightarrow> m = Err e \<or> (\<exists>x. m = Ok x \<and> f x = Err e)"
  by (cases m) auto

lemma rbind_assoc: "rbind (rbind m f) g = rbind m (\<lambda>x. rbind (f x) g)"
  by (cases m) auto

text \<open>\<open>option.ok_or(e)\<close> and \<open>result.map_err(|_| e)\<close>.\<close>

definition ok_or :: "'a option \<Rightarrow> chameleon_error \<Rightarrow> 'a result" where
  "ok_or x e = (case x of Some v \<Rightarrow> Ok v | None \<Rightarrow> Err e)"

lemma ok_or_simps [simp]: "ok_or (Some v) e = Ok v" "ok_or None e = Err e"
  by (simp_all add: ok_or_def)

lemma ok_or_eq_Ok [simp]: "ok_or x e = Ok v \<longleftrightarrow> x = Some v"
  by (cases x) auto

text \<open>\<open>collect()\<close> of an iterator of results: the first error wins.\<close>

fun collect_results :: "'a result list \<Rightarrow> 'a list result" where
  "collect_results [] = Ok []"
| "collect_results (x # xs) = rbind x (\<lambda>v. rbind (collect_results xs) (\<lambda>vs. Ok (v # vs)))"

lemma collect_results_Ok: "collect_results (map (\<lambda>x. Ok (f x)) xs) = Ok (map f xs)"
  by (induction xs) auto

lemma collect_results_OkD:
  "collect_results rs = Ok vs \<Longrightarrow> length vs = length rs \<and> (\<forall>i<length rs. rs ! i = Ok (vs ! i))"
  by (induction rs arbitrary: vs) (auto simp: rbind_eq_Ok less_Suc_eq_0_disj)

lemma collect_results_nth:
  "length vs = length rs \<Longrightarrow> (\<And>i. i < length rs \<Longrightarrow> rs ! i = Ok (vs ! i)) \<Longrightarrow> collect_results rs = Ok vs"
proof (induction rs arbitrary: vs)
  case (Cons x rs)
  then obtain v vs' where "vs = v # vs'" by (cases vs) auto
  with Cons.prems(1) Cons.prems(2) [of 0] Cons.IH [of vs'] Cons.prems(2) [of "Suc _"] show ?case
    by simp
qed simp

lemma collect_results_Err:
  "x \<in> set rs \<Longrightarrow> \<not> is_ok x \<Longrightarrow> \<not> is_ok (collect_results rs)"
proof (induction rs)
  case (Cons y rs)
  then show ?case by (cases y; cases "collect_results rs") auto
qed simp

end
