(* ===== verification/Crypto_Lib.thy ===== *)
theory Crypto_Lib
  imports Errors
begin

text \<open>
  The cryptographic crates the program calls (\<open>ring\<close>, \<open>aegis\<close>, \<open>sha2\<close>, \<open>hkdf\<close>,
  \<open>x25519-dalek\<close>, \<open>pqcrypto-mlkem\<close>, \<open>pqcrypto-mldsa\<close>) are not part of the repository. They are
  a parameter of the model: the record \<open>crypto_lib\<close> has one field per primitive the code
  calls, and \<open>crypto_ok\<close> collects the documented functional behaviour the code relies on:
  output lengths, that opening is the inverse of sealing and accepts nothing else, that the
  two ends of a key agreement compute the same secret, and that honest signatures verify.
  Nothing is assumed about secrecy or unforgeability. Primitives that draw randomness take
  the random stream and return the rest of it. \<open>toy_crypto\<close> is a concrete instance that meets the
  contract; the witnesses of the properties run on it.
\<close>

record crypto_lib =
  c_sha256 :: "bytes \<Rightarrow> bytes"
  c_hmac :: "bytes \<Rightarrow> bytes \<Rightarrow> bytes"
  c_hkdf :: "bytes option \<Rightarrow> bytes \<Rightarrow> bytes \<Rightarrow> nat \<Rightarrow> bytes"
  c_chacha_seal :: "bytes \<Rightarrow> bytes \<Rightarrow> bytes \<Rightarrow> bytes \<Rightarrow> bytes option"
  c_chacha_open :: "bytes \<Rightarrow> bytes \<Rightarrow> bytes \<Rightarrow> bytes \<Rightarrow> bytes option"
  c_aegis_encrypt :: "bytes \<Rightarrow> bytes \<Rightarrow> bytes \<Rightarrow> bytes \<Rightarrow> bytes \<times> bytes"
  c_aegis_decrypt :: "bytes \<Rightarrow> bytes \<Rightarrow> bytes \<Rightarrow> bytes \<Rightarrow> bytes \<Rightarrow> bytes option"
  c_x_public :: "bytes \<Rightarrow> bytes"
  c_x_dh :: "bytes \<Rightarrow> bytes \<Rightarrow> bytes"
  c_kem_keypair :: "rng \<Rightarrow> (bytes \<times> bytes) \<times> rng"
  c_kem_pk_ok :: "bytes \<Rightarrow> bool"
  c_kem_ct_ok :: "bytes \<Rightarrow> bool"
  c_kem_encaps :: "bytes \<Rightarrow> rng \<Rightarrow> (bytes \<times> bytes) \<times> rng"
  c_kem_decaps :: "bytes \<Rightarrow> bytes \<Rightarrow> bytes"
  c_ed_seed_ok :: "bytes \<Rightarrow> bool"
  c_ed_public :: "bytes \<Rightarrow> bytes"
  c_ed_sign :: "bytes \<Rightarrow> bytes \<Rightarrow> bytes"
  c_ed_verify :: "bytes \<Rightarrow> bytes \<Rightarrow> bytes \<Rightarrow> bool"
  c_mldsa_keypair :: "rng \<Rightarrow> (bytes \<times> bytes) \<times> rng"
  c_mldsa_pk_ok :: "bytes \<Rightarrow> bool"
  c_mldsa_sk_ok :: "bytes \<Rightarrow> bool"
  c_mldsa_sig_ok :: "bytes \<Rightarrow> bool"
  c_mldsa_sig_len :: nat
  c_mldsa_sign :: "bytes \<Rightarrow> bytes \<Rightarrow> rng \<Rightarrow> bytes \<times> rng"
  c_mldsa_verify :: "bytes \<Rightarrow> bytes \<Rightarrow> bytes \<Rightarrow> bool"

text \<open>The longest plaintext the AEADs accept; \<open>ring\<close> bounds a ChaCha20 message by \<open>2 ^ 38 - 64\<close> bytes.\<close>

definition aead_max_input :: nat where
  "aead_max_input = 2 ^ 38 - 64"

definition hash_ok :: "crypto_lib \<Rightarrow> bool" where
  "hash_ok C \<longleftrightarrow>
     (\<forall>m. length (c_sha256 C m) = 32) \<and>
     (\<forall>k m. length (c_hmac C k m) = 32) \<and>
     (\<forall>s i f n. length (c_hkdf C s i f n) = n)"

definition aead_ok :: "crypto_lib \<Rightarrow> bool" where
  "aead_ok C \<longleftrightarrow>
     (\<forall>k n a p c. c_chacha_open C k n a c = Some p \<longleftrightarrow> c_chacha_seal C k n a p = Some c) \<and>
     (\<forall>k n a p c. c_chacha_seal C k n a p = Some c \<longrightarrow> length c = length p + 16) \<and>
     (\<forall>k n a p. length p \<le> aead_max_input \<longrightarrow> c_chacha_seal C k n a p \<noteq> None) \<and>
     (\<forall>k n p a c t. c_aegis_decrypt C k n c t a = Some p \<longleftrightarrow> c_aegis_encrypt C k n p a = (c, t)) \<and>
     (\<forall>k n p a c t. c_aegis_encrypt C k n p a = (c, t) \<longrightarrow> length c = length p \<and> length t = 32)"

definition kex_ok :: "crypto_lib \<Rightarrow> bool" where
  "kex_ok C \<longleftrightarrow>
     (\<forall>s. length (c_x_public C s) = 32) \<and>
     (\<forall>s p. length (c_x_dh C s p) = 32) \<and>
     (\<forall>a b. c_x_dh C a (c_x_public C b) = c_x_dh C b (c_x_public C a)) \<and>
     (\<forall>r pk sk r'. c_kem_keypair C r = ((pk, sk), r') \<longrightarrow> length pk = 1184 \<and> c_kem_pk_ok C pk) \<and>
     (\<forall>pk r ss ct r'. c_kem_encaps C pk r = ((ss, ct), r') \<longrightarrow>
        length ss = 32 \<and> length ct = 1088 \<and> c_kem_ct_ok C ct) \<and>
     (\<forall>r pk sk r' q ss ct q'. c_kem_keypair C r = ((pk, sk), r') \<longrightarrow>
        c_kem_encaps C pk q = ((ss, ct), q') \<longrightarrow> c_kem_decaps C ct sk = ss)"

definition sig_ok :: "crypto_lib \<Rightarrow> bool" where
  "sig_ok C \<longleftrightarrow>
     (\<forall>s. c_ed_seed_ok C s \<longleftrightarrow> length s = 32) \<and>
     (\<forall>s. length (c_ed_public C s) = 32) \<and>
     (\<forall>s m. length (c_ed_sign C s m) = 64) \<and>
     (\<forall>s m. c_ed_verify C (c_ed_public C s) m (c_ed_sign C s m)) \<and>
     (\<forall>r pk sk r'. c_mldsa_keypair C r = ((pk, sk), r') \<longrightarrow> c_mldsa_pk_ok C pk \<and> c_mldsa_sk_ok C sk) \<and>
     (\<forall>sk m r s r'. c_mldsa_sign C sk m r = (s, r') \<longrightarrow> length s = c_mldsa_sig_len C \<and> c_mldsa_sig_ok C s) \<and>
     (\<forall>r pk sk r' m q s q'. c_mldsa_keypair C r = ((pk, sk), r') \<longrightarrow>
        c_mldsa_sign C sk m q = (s, q') \<longrightarrow> c_mldsa_verify C s m pk)"

definition crypto_ok :: "crypto_lib \<Rightarrow> bool" where
  "crypto_ok C \<longleftrightarrow> hash_ok C \<and> aead_ok C \<and> kex_ok C \<and> sig_ok C"

named_theorems crypto \<open>consequences of the contract of the cryptographic library\<close>

lemma crypto_hash [crypto]:
  "crypto_ok C \<Longrightarrow> length (c_sha256 C m) = 32"
  "crypto_ok C \<Longrightarrow> length (c_hmac C k m) = 32"
  "crypto_ok C \<Longrightarrow> length (c_hkdf C s i f n) = n"
  by (simp_all add: crypto_ok_def hash_ok_def)

lemma chacha_open_iff [crypto]:
  "crypto_ok C \<Longrightarrow> c_chacha_open C k n a c = Some p \<longleftrightarrow> c_chacha_seal C k n a p = Some c"
  by (simp add: crypto_ok_def aead_ok_def)

lemma chacha_seal_length:
  "crypto_ok C \<Longrightarrow> c_chacha_seal C k n a p = Some c \<Longrightarrow> length c = length p + 16"
  by (auto simp: crypto_ok_def aead_ok_def)

lemma chacha_seal_neq_None:
  "crypto_ok C \<Longrightarrow> length p \<le> aead_max_input \<Longrightarrow> c_chacha_seal C k n a p \<noteq> None"
  by (simp add: crypto_ok_def aead_ok_def)

lemma aegis_decrypt_iff [crypto]:
  "crypto_ok C \<Longrightarrow> c_aegis_decrypt C k n c t a = Some p \<longleftrightarrow> c_aegis_encrypt C k n p a = (c, t)"
  by (simp add: crypto_ok_def aead_ok_def)

lemma aegis_encrypt_length:
  "crypto_ok C \<Longrightarrow> c_aegis_encrypt C k n p a = (c, t) \<Longrightarrow> length c = length p \<and> length t = 32"
  unfolding crypto_ok_def aead_ok_def by blast

lemma x_lengths [crypto]:
  "crypto_ok C \<Longrightarrow> length (c_x_public C s) = 32"
  "crypto_ok C \<Longrightarrow> length (c_x_dh C s p) = 32"
  by (simp_all add: crypto_ok_def kex_ok_def)

lemma x_agree:
  "crypto_ok C \<Longrightarrow> c_x_dh C a (c_x_public C b) = c_x_dh C b (c_x_public C a)"
  by (simp add: crypto_ok_def kex_ok_def)

lemma kem_keypair_ok:
  "crypto_ok C \<Longrightarrow> c_kem_keypair C r = ((pk, sk), r') \<Longrightarrow> length pk = 1184 \<and> c_kem_pk_ok C pk"
  unfolding crypto_ok_def kex_ok_def by blast

lemma kem_encaps_ok:
  "crypto_ok C \<Longrightarrow> c_kem_encaps C pk r = ((ss, ct), r') \<Longrightarrow>
    length ss = 32 \<and> length ct = 1088 \<and> c_kem_ct_ok C ct"
  unfolding crypto_ok_def kex_ok_def by blast

lemma kem_agree:
  "crypto_ok C \<Longrightarrow> c_kem_keypair C r = ((pk, sk), r') \<Longrightarrow>
    c_kem_encaps C pk q = ((ss, ct), q') \<Longrightarrow> c_kem_decaps C ct sk = ss"
  unfolding crypto_ok_def kex_ok_def by blast

lemma ed_laws [crypto]:
  "crypto_ok C \<Longrightarrow> c_ed_seed_ok C s \<longleftrightarrow> length s = 32"
  "crypto_ok C \<Longrightarrow> length (c_ed_public C s) = 32"
  "crypto_ok C \<Longrightarrow> length (c_ed_sign C s m) = 64"
  "crypto_ok C \<Longrightarrow> c_ed_verify C (c_ed_public C s) m (c_ed_sign C s m)"
  by (simp_all add: crypto_ok_def sig_ok_def)

lemma mldsa_keypair_ok:
  "crypto_ok C \<Longrightarrow> c_mldsa_keypair C r = ((pk, sk), r') \<Longrightarrow> c_mldsa_pk_ok C pk \<and> c_mldsa_sk_ok C sk"
  unfolding crypto_ok_def sig_ok_def by blast

lemma mldsa_sign_ok:
  "crypto_ok C \<Longrightarrow> c_mldsa_sign C sk m r = (s, r') \<Longrightarrow> length s = c_mldsa_sig_len C \<and> c_mldsa_sig_ok C s"
  unfolding crypto_ok_def sig_ok_def by blast

lemma mldsa_verify_sign:
  "crypto_ok C \<Longrightarrow> c_mldsa_keypair C r = ((pk, sk), r') \<Longrightarrow>
    c_mldsa_sign C sk m q = (s, q') \<Longrightarrow> c_mldsa_verify C s m pk"
  unfolding crypto_ok_def sig_ok_def by blast

section \<open>A concrete instance\<close>

text \<open>
  The toy primitives only have to satisfy the contract: the AEADs append a tag made of the
  padded key, the hashes pad or cut their input, the key agreement XORs the two publics.
\<close>

definition pad_to :: "nat \<Rightarrow> bytes \<Rightarrow> bytes" where
  "pad_to n bs = take n (bs @ replicate n 0)"

lemma length_pad_to [simp]: "length (pad_to n bs) = n"
  by (simp add: pad_to_def)

definition toy_tag_open :: "bytes \<Rightarrow> bytes \<Rightarrow> bytes option" where
  "toy_tag_open tag c =
     (if length tag \<le> length c \<and> drop (length c - length tag) c = tag
      then Some (take (length c - length tag) c) else None)"

lemma toy_tag_open_iff: "toy_tag_open tag c = Some p \<longleftrightarrow> p @ tag = c"
proof
  assume "toy_tag_open tag c = Some p"
  then show "p @ tag = c"
    by (auto simp: toy_tag_open_def split: if_splits) (metis append_take_drop_id)
next
  assume "p @ tag = c"
  then have "c = p @ tag" by simp
  then show "toy_tag_open tag c = Some p"
    by (simp add: toy_tag_open_def)
qed

definition toy_dh :: "bytes \<Rightarrow> bytes \<Rightarrow> bytes" where
  "toy_dh s p = 1 # xor_bytes (pad_to 31 s) (pad_to 31 p)"

definition toy_crypto :: crypto_lib where
  "toy_crypto =
     \<lparr> c_sha256 = pad_to 32,
       c_hmac = (\<lambda>k m. pad_to 32 (m @ k)),
       c_hkdf = (\<lambda>s i f n. pad_to n (f @ i)),
       c_chacha_seal = (\<lambda>k n a p. Some (p @ pad_to 16 k)),
       c_chacha_open = (\<lambda>k n a c. toy_tag_open (pad_to 16 k) c),
       c_aegis_encrypt = (\<lambda>k n p a. (p, pad_to 32 k)),
       c_aegis_decrypt = (\<lambda>k n c t a. if t = pad_to 32 k then Some c else None),
       c_x_public = pad_to 32,
       c_x_dh = toy_dh,
       c_kem_keypair = (\<lambda>r. let (s, r') = fill_bytes r 32 in ((s @ replicate 1152 0, s), r')),
       c_kem_pk_ok = (\<lambda>pk. length pk = 1184),
       c_kem_ct_ok = (\<lambda>ct. length ct = 1088),
       c_kem_encaps = (\<lambda>pk r. let (s, r') = fill_bytes r 32 in ((s, s @ replicate 1056 0), r')),
       c_kem_decaps = (\<lambda>ct sk. take 32 ct),
       c_ed_seed_ok = (\<lambda>s. length s = 32),
       c_ed_public = pad_to 32,
       c_ed_sign = (\<lambda>s m. pad_to 32 s @ pad_to 32 m),
       c_ed_verify = (\<lambda>p m s. s = p @ pad_to 32 m),
       c_mldsa_keypair = (\<lambda>r. let (s, r') = fill_bytes r 32 in ((s, s), r')),
       c_mldsa_pk_ok = (\<lambda>pk. length pk = 32),
       c_mldsa_sk_ok = (\<lambda>sk. length sk = 32),
       c_mldsa_sig_ok = (\<lambda>s. length s = 64),
       c_mldsa_sig_len = 64,
       c_mldsa_sign = (\<lambda>sk m r. (pad_to 32 sk @ pad_to 32 m, r)),
       c_mldsa_verify = (\<lambda>s m pk. s = pad_to 32 pk @ pad_to 32 m) \<rparr>"

lemma xor_bytes_commute: "xor_bytes xs ys = xor_bytes ys xs"
  by (rule nth_equalityI) (auto simp: xor_bytes_def xor.commute)

lemma pad_to_take: "k \<le> n \<Longrightarrow> pad_to k (pad_to n bs) = pad_to k bs"
  by (simp add: pad_to_def min_def)

lemma toy_dh_agree: "toy_dh a (pad_to 32 b) = toy_dh b (pad_to 32 a)"
  by (simp add: toy_dh_def pad_to_take xor_bytes_commute)

lemma toy_dh_length: "length (toy_dh s p) = 32"
  by (simp add: toy_dh_def)

lemma toy_hash_ok: "hash_ok toy_crypto"
  by (simp add: hash_ok_def toy_crypto_def)

lemma toy_aead_ok: "aead_ok toy_crypto"
  by (auto simp: aead_ok_def toy_crypto_def toy_tag_open_iff)

lemma toy_kex_ok: "kex_ok toy_crypto"
  unfolding kex_ok_def
  by (intro conjI allI impI)
    (auto simp: toy_crypto_def toy_dh_agree toy_dh_length fill_bytes_def Let_def)

lemma toy_sig_ok: "sig_ok toy_crypto"
  unfolding sig_ok_def
  by (intro conjI allI impI)
    (auto simp: toy_crypto_def fill_bytes_def Let_def pad_to_def)

lemma toy_crypto_ok: "crypto_ok toy_crypto"
  by (simp add: crypto_ok_def toy_hash_ok toy_aead_ok toy_kex_ok toy_sig_ok)

end
