(* ===== verification/Aead.thy ===== *)
theory Aead
  imports Crypto_Lib
begin

text \<open>
  The pluggable AEAD layer of the data path (\<open>src/aead.rs\<close>): the two algorithms with their wire
  ids, the start-up choice \<open>pick_preferred\<close>, the negotiation rule, and the one-direction
  ciphers behind the trait \<open>DirectionalAead\<close>. The trait is the locale \<open>directional_aead\<close>: what
  the session and the manager rely on is that \<open>open\<close> returns a plaintext exactly for its own
  sealing under the same key, nonce and associated data, that a sealing is one tag longer
  than its plaintext, and that every failure is \<open>DecryptionFailed\<close>. It is interpreted on the
  model of \<open>ChaChaDir\<close> and \<open>AegisDir\<close>.
\<close>

section \<open>Algorithms\<close>

datatype aead_algo = ChaCha20Poly1305 | Aegis256X2

fun aead_as_u8 :: "aead_algo \<Rightarrow> byte" where
  "aead_as_u8 ChaCha20Poly1305 = 0x01"
| "aead_as_u8 Aegis256X2 = 0x02"

definition aead_from_u8 :: "byte \<Rightarrow> aead_algo result" where
  "aead_from_u8 v =
     (if v = 0x01 then Ok ChaCha20Poly1305
      else if v = 0x02 then Ok Aegis256X2
      else Err (HandshakeErr ''aead'' (''unknown AEAD id '' @ show_nat (unat v))))"

fun nonce_len :: "aead_algo \<Rightarrow> nat" where
  "nonce_len ChaCha20Poly1305 = 12"
| "nonce_len Aegis256X2 = 32"

fun tag_len :: "aead_algo \<Rightarrow> nat" where
  "tag_len ChaCha20Poly1305 = 16"
| "tag_len Aegis256X2 = 32"

definition negotiate :: "aead_algo \<Rightarrow> aead_algo \<Rightarrow> aead_algo" where
  "negotiate local peer =
     (if local = Aegis256X2 \<and> peer = Aegis256X2 then Aegis256X2 else ChaCha20Poly1305)"

section \<open>One direction of a session cipher\<close>

definition AEGIS_TAG_LEN :: nat where
  "AEGIS_TAG_LEN = 32"

datatype directional = ChaChaDir (dir_key: bytes) | AegisDir (dir_key: bytes)

definition chacha_dir_new :: "bytes \<Rightarrow> directional result" where
  "chacha_dir_new key =
     (if length key = 32 then Ok (ChaChaDir key) else Err (Kdf ''chacha key''))"

definition aegis_dir_new :: "bytes \<Rightarrow> directional result" where
  "aegis_dir_new key = Ok (AegisDir key)"

definition chacha_seal :: "crypto_lib \<Rightarrow> bytes \<Rightarrow> bytes \<Rightarrow> bytes \<Rightarrow> bytes \<Rightarrow> bytes result" where
  "chacha_seal C key nonce aad plaintext =
     (if length nonce \<noteq> 12 then Err DecryptionFailed
      else ok_or (c_chacha_seal C key nonce aad plaintext) DecryptionFailed)"

definition chacha_open :: "crypto_lib \<Rightarrow> bytes \<Rightarrow> bytes \<Rightarrow> bytes \<Rightarrow> bytes \<Rightarrow> bytes result" where
  "chacha_open C key nonce aad ciphertext =
     (if length nonce \<noteq> 12 then Err DecryptionFailed
      else ok_or (c_chacha_open C key nonce aad ciphertext) DecryptionFailed)"

definition aegis_seal :: "crypto_lib \<Rightarrow> bytes \<Rightarrow> bytes \<Rightarrow> bytes \<Rightarrow> bytes \<Rightarrow> bytes result" where
  "aegis_seal C key nonce aad plaintext =
     (if length nonce \<noteq> 32 then Err DecryptionFailed
      else let (ct, tag) = c_aegis_encrypt C key nonce plaintext aad in Ok (ct @ tag))"

definition aegis_open :: "crypto_lib \<Rightarrow> bytes \<Rightarrow> bytes \<Rightarrow> bytes \<Rightarrow> bytes \<Rightarrow> bytes result" where
  "aegis_open C key nonce aad ciphertext =
     (if length nonce \<noteq> 32 \<or> length ciphertext < AEGIS_TAG_LEN then Err DecryptionFailed
      else let split = length ciphertext - AEGIS_TAG_LEN;
               ct = take split ciphertext;
               tag = drop split ciphertext
           in ok_or (c_aegis_decrypt C key nonce ct tag aad) DecryptionFailed)"

fun dir_seal :: "crypto_lib \<Rightarrow> directional \<Rightarrow> bytes \<Rightarrow> bytes \<Rightarrow> bytes \<Rightarrow> bytes result" where
  "dir_seal C (ChaChaDir key) nonce aad plaintext = chacha_seal C key nonce aad plaintext"
| "dir_seal C (AegisDir key) nonce aad plaintext = aegis_seal C key nonce aad plaintext"

fun dir_open :: "crypto_lib \<Rightarrow> directional \<Rightarrow> bytes \<Rightarrow> bytes \<Rightarrow> bytes \<Rightarrow> bytes result" where
  "dir_open C (ChaChaDir key) nonce aad ciphertext = chacha_open C key nonce aad ciphertext"
| "dir_open C (AegisDir key) nonce aad ciphertext = aegis_open C key nonce aad ciphertext"

fun make_directional :: "aead_algo \<Rightarrow> bytes \<Rightarrow> directional result" where
  "make_directional ChaCha20Poly1305 key = chacha_dir_new key"
| "make_directional Aegis256X2 key = aegis_dir_new key"

fun dir_algo :: "directional \<Rightarrow> aead_algo" where
  "dir_algo (ChaChaDir k) = ChaCha20Poly1305"
| "dir_algo (AegisDir k) = Aegis256X2"

section \<open>Start-up choice of the cipher\<close>

text \<open>
  \<open>cpu_can_aegis\<close> has one body per target architecture; the features the CPU reports are the
  fields of \<open>cpu\<close>. \<open>bench_seal\<close> measures wall-clock time, so the measured duration is an
  argument; what the code decides is that an unusable cipher counts as \<open>Duration::MAX\<close>.
\<close>

datatype target_arch = X86 | AArch64 | OtherArch

record cpu =
  arch :: target_arch
  feat_aes :: bool
  feat_avx2 :: bool

definition cpu_can_aegis :: "cpu \<Rightarrow> bool" where
  "cpu_can_aegis c =
     (case arch c of
        X86 \<Rightarrow> feat_aes c \<and> feat_avx2 c
      | AArch64 \<Rightarrow> feat_aes c
      | OtherArch \<Rightarrow> False)"

definition DURATION_MAX :: duration where
  "DURATION_MAX = (2 ^ 64 - 1) * 1000000000 + 999999999"

definition bench_seal :: "aead_algo \<Rightarrow> duration \<Rightarrow> duration" where
  "bench_seal algo elapsed =
     (case make_directional algo (replicate 32 0) of
        Ok d \<Rightarrow> elapsed
      | Err e \<Rightarrow> DURATION_MAX)"

text \<open>The result is paired with the list of the algorithms that were executed to find it.\<close>

definition pick_preferred :: "cpu \<Rightarrow> (aead_algo \<Rightarrow> duration) \<Rightarrow> aead_algo \<times> aead_algo list" where
  "pick_preferred c measured =
     (if \<not> cpu_can_aegis c then (ChaCha20Poly1305, [])
      else let chacha = bench_seal ChaCha20Poly1305 (measured ChaCha20Poly1305);
               aegis = bench_seal Aegis256X2 (measured Aegis256X2)
           in (if aegis \<le> chacha then Aegis256X2 else ChaCha20Poly1305,
               [ChaCha20Poly1305, Aegis256X2]))"

section \<open>The trait as an interface\<close>

locale directional_aead =
  fixes usable :: "'d \<Rightarrow> bool"
    and nlen :: "'d \<Rightarrow> nat"
    and tlen :: "'d \<Rightarrow> nat"
    and seal :: "'d \<Rightarrow> bytes \<Rightarrow> bytes \<Rightarrow> bytes \<Rightarrow> bytes result"
    and unseal :: "'d \<Rightarrow> bytes \<Rightarrow> bytes \<Rightarrow> bytes \<Rightarrow> bytes result"
  assumes unseal_iff: "usable d \<Longrightarrow> unseal d n a c = Ok p \<longleftrightarrow> seal d n a p = Ok c"
    and seal_tag: "usable d \<Longrightarrow> seal d n a p = Ok c \<Longrightarrow> length c = length p + tlen d"
    and seal_ok: "usable d \<Longrightarrow> length n = nlen d \<Longrightarrow> length p \<le> aead_max_input \<Longrightarrow>
        is_ok (seal d n a p)"
    and seal_nonce: "length n \<noteq> nlen d \<Longrightarrow> seal d n a p = Err DecryptionFailed"
    and unseal_err: "unseal d n a c = Err e \<Longrightarrow> e = DecryptionFailed"
begin

lemma unseal_seal: "usable d \<Longrightarrow> seal d n a p = Ok c \<Longrightarrow> unseal d n a c = Ok p"
  by (simp add: unseal_iff)

lemma seal_inj: "usable d \<Longrightarrow> seal d n a p = Ok c \<Longrightarrow> seal d n a q = Ok c \<Longrightarrow> p = q"
  by (metis unseal_iff sum.inject(2))

lemma unseal_tag: "usable d \<Longrightarrow> unseal d n a c = Ok p \<Longrightarrow> length c = length p + tlen d"
  by (simp add: unseal_iff seal_tag)

lemma unseal_nonce: "usable d \<Longrightarrow> unseal d n a c = Ok p \<Longrightarrow> length n = nlen d"
  using seal_nonce by (fastforce simp: unseal_iff)

lemma unseal_short: "usable d \<Longrightarrow> length c < tlen d \<Longrightarrow> unseal d n a c = Err DecryptionFailed"
  by (cases "unseal d n a c") (auto dest: unseal_tag unseal_err)

lemma unseal_cases:
  obtains p where "unseal d n a c = Ok p" | "unseal d n a c = Err DecryptionFailed"
  by (cases "unseal d n a c") (auto dest: unseal_err)

lemma seal_obtain:
  assumes "usable d" "length n = nlen d" "length p \<le> aead_max_input"
  obtains c where "seal d n a p = Ok c"
  using seal_ok [OF assms, of a] by (cases "seal d n a p") auto

end

lemma chacha_open_seal:
  "crypto_ok C \<Longrightarrow> chacha_open C k n a c = Ok p \<longleftrightarrow> chacha_seal C k n a p = Ok c"
  by (simp add: chacha_open_def chacha_seal_def chacha_open_iff)

lemma aegis_open_seal:
  assumes "crypto_ok C"
  shows "aegis_open C k n a c = Ok p \<longleftrightarrow> aegis_seal C k n a p = Ok c"
proof
  assume "aegis_open C k n a c = Ok p"
  then show "aegis_seal C k n a p = Ok c"
    using assms
    by (auto simp: aegis_open_def aegis_seal_def aegis_decrypt_iff Let_def split: if_splits)
next
  assume s: "aegis_seal C k n a p = Ok c"
  obtain ct tag where e: "c_aegis_encrypt C k n p a = (ct, tag)"
    by fastforce
  have "length tag = 32"
    using aegis_encrypt_length [OF assms e] by simp
  with s e assms show "aegis_open C k n a c = Ok p"
    by (auto simp: aegis_open_def aegis_seal_def AEGIS_TAG_LEN_def aegis_decrypt_iff
        split: if_splits)
qed

lemma dir_open_seal: "crypto_ok C \<Longrightarrow> dir_open C d n a c = Ok p \<longleftrightarrow> dir_seal C d n a p = Ok c"
  by (cases d) (simp_all add: chacha_open_seal aegis_open_seal)

lemma dir_seal_tag:
  assumes "crypto_ok C" "dir_seal C d n a p = Ok c"
  shows "length c = length p + tag_len (dir_algo d)"
proof (cases d)
  case (ChaChaDir k)
  with assms show ?thesis
    by (auto simp: chacha_seal_def chacha_seal_length split: if_splits)
next
  case (AegisDir k)
  with assms show ?thesis
    by (auto simp: aegis_seal_def dest: aegis_encrypt_length split: if_splits prod.splits)
qed

interpretation dir: directional_aead
  "\<lambda>d. crypto_ok C" "\<lambda>d. nonce_len (dir_algo d)" "\<lambda>d. tag_len (dir_algo d)"
  "dir_seal C" "dir_open C" for C
proof unfold_locales
  fix d n a c p e
  show "crypto_ok C \<Longrightarrow> dir_open C d n a c = Ok p \<longleftrightarrow> dir_seal C d n a p = Ok c"
    by (rule dir_open_seal)
  show "crypto_ok C \<Longrightarrow> dir_seal C d n a p = Ok c \<Longrightarrow> length c = length p + tag_len (dir_algo d)"
    by (rule dir_seal_tag)
  show "is_ok (dir_seal C d n a p)"
    if "crypto_ok C" "length n = nonce_len (dir_algo d)" "length p \<le> aead_max_input"
    using that chacha_seal_neq_None [OF that(1) that(3)]
    by (cases d) (auto simp: chacha_seal_def aegis_seal_def ok_or_def split: prod.splits option.splits)
  show "length n \<noteq> nonce_len (dir_algo d) \<Longrightarrow> dir_seal C d n a p = Err DecryptionFailed"
    by (cases d) (auto simp: chacha_seal_def aegis_seal_def)
  show "dir_open C d n a c = Err e \<Longrightarrow> e = DecryptionFailed"
    by (cases d) (auto simp: chacha_open_def aegis_open_def ok_or_def Let_def
        split: if_splits option.splits)
qed

text \<open>The wire id is a \<open>byte_code\<close>; the handshake decodes it and binds it into the transcript.\<close>

definition aead_of_u8 :: "byte \<Rightarrow> aead_algo option" where
  "aead_of_u8 v = (case aead_from_u8 v of Ok a \<Rightarrow> Some a | Err e \<Rightarrow> None)"

interpretation aead_id: byte_code "\<lambda>a. Some (aead_as_u8 a)" aead_of_u8
proof unfold_locales
  fix a b
  show "Some (aead_as_u8 a) = Some b \<Longrightarrow> aead_of_u8 b = Some a"
    by (cases a) (auto simp: aead_of_u8_def aead_from_u8_def)
  show "aead_of_u8 b = Some a \<Longrightarrow> Some (aead_as_u8 a) = Some b"
    by (auto simp: aead_of_u8_def aead_from_u8_def split: if_splits)
qed

lemma aead_from_as_u8 [simp]: "aead_from_u8 (aead_as_u8 a) = Ok a"
  by (cases a) (simp_all add: aead_from_u8_def)

lemma make_directional_ok:
  "make_directional algo key = Ok d \<Longrightarrow> dir_algo d = algo \<and> dir_key d = key"
  by (cases algo) (auto simp: chacha_dir_new_def aegis_dir_new_def split: if_splits)

lemma make_directional_total:
  assumes "length key = 32"
  obtains d where "make_directional algo key = Ok d"
  using assms by (cases algo) (auto simp: chacha_dir_new_def aegis_dir_new_def)

lemma tag_len_ge: "16 \<le> tag_len a"
  by (cases a) simp_all

lemma negotiate_commute: "negotiate a b = negotiate b a"
  by (auto simp: negotiate_def)

lemma pick_preferred_aegis:
  "Aegis256X2 \<in> set (snd (pick_preferred c m)) \<or> fst (pick_preferred c m) = Aegis256X2 \<Longrightarrow>
    cpu_can_aegis c"
  by (auto simp: pick_preferred_def Let_def split: if_splits)

end
