(* ===== verification/Frame.thy ===== *)
theory Frame
  imports Errors
begin

text \<open>
  The clear-text frame of \<open>src/frame.rs\<close>: type, session id and sequence number in front of a
  payload that the datagram bounds. The frame type is a \<open>byte_code\<close>; \<open>fr_encode\<close> and
  \<open>fr_decode\<close> are inverse to each other on everything the encoder accepts.
\<close>

definition HEADER_LEN :: nat where
  "HEADER_LEN = 13"

definition MAX_PAYLOAD :: nat where
  "MAX_PAYLOAD = 1280 - HEADER_LEN"

datatype frame_type = FT_Data | FT_Handshake | FT_KeepAlive | FT_Close | FT_Padding | FT_Profile

fun ft_as_u8 :: "frame_type \<Rightarrow> byte" where
  "ft_as_u8 FT_Data = 0x01"
| "ft_as_u8 FT_Handshake = 0x02"
| "ft_as_u8 FT_KeepAlive = 0x03"
| "ft_as_u8 FT_Close = 0x04"
| "ft_as_u8 FT_Padding = 0x05"
| "ft_as_u8 FT_Profile = 0x06"

definition ft_from_u8 :: "byte \<Rightarrow> frame_type result" where
  "ft_from_u8 v =
     (if v = 0x01 then Ok FT_Data
      else if v = 0x02 then Ok FT_Handshake
      else if v = 0x03 then Ok FT_KeepAlive
      else if v = 0x04 then Ok FT_Close
      else if v = 0x05 then Ok FT_Padding
      else if v = 0x06 then Ok FT_Profile
      else Err (UnknownFrameType v))"

record frame =
  fr_type :: frame_type
  fr_session_id :: u32
  fr_sequence :: u64
  fr_payload :: bytes

definition new_data :: "u32 \<Rightarrow> u64 \<Rightarrow> bytes \<Rightarrow> frame" where
  "new_data session_id sequence payload =
     \<lparr> fr_type = FT_Data, fr_session_id = session_id, fr_sequence = sequence,
       fr_payload = payload \<rparr>"

definition new_handshake :: "bytes \<Rightarrow> frame" where
  "new_handshake payload =
     \<lparr> fr_type = FT_Handshake, fr_session_id = 0, fr_sequence = 0, fr_payload = payload \<rparr>"

definition fr_encode :: "frame \<Rightarrow> bytes result" where
  "fr_encode f =
     (let plen = length (fr_payload f) in
      if plen > MAX_PAYLOAD then Err (PayloadTooLarge plen)
      else Ok ([ft_as_u8 (fr_type f)] @ u32_to_le (fr_session_id f) @
               u64_to_le (fr_sequence f) @ fr_payload f))"

definition fr_decode :: "bytes \<Rightarrow> frame result" where
  "fr_decode raw =
     (if length raw < HEADER_LEN then Err (PacketTooShort (length raw) HEADER_LEN)
      else rbind (ft_from_u8 (raw ! 0)) (\<lambda>ft.
        Ok \<lparr> fr_type = ft,
             fr_session_id = u32_from_le (take 4 (drop 1 raw)),
             fr_sequence = u64_from_le (take 8 (drop 5 raw)),
             fr_payload = drop 13 raw \<rparr>))"

definition ft_of_u8 :: "byte \<Rightarrow> frame_type option" where
  "ft_of_u8 v = (case ft_from_u8 v of Ok t \<Rightarrow> Some t | Err e \<Rightarrow> None)"

interpretation ft_code: byte_code "\<lambda>t. Some (ft_as_u8 t)" ft_of_u8
proof unfold_locales
  fix t b
  show "Some (ft_as_u8 t) = Some b \<Longrightarrow> ft_of_u8 b = Some t"
    by (cases t) (auto simp: ft_of_u8_def ft_from_u8_def)
  show "ft_of_u8 b = Some t \<Longrightarrow> Some (ft_as_u8 t) = Some b"
    by (auto simp: ft_of_u8_def ft_from_u8_def split: if_splits)
qed

lemma ft_from_as_u8 [simp]: "ft_from_u8 (ft_as_u8 t) = Ok t"
  by (cases t) (simp_all add: ft_from_u8_def)

lemma ft_from_u8_OkD: "ft_from_u8 b = Ok t \<Longrightarrow> ft_as_u8 t = b"
  by (auto simp: ft_from_u8_def split: if_splits)

lemma ft_as_u8_inject [simp]: "ft_as_u8 s = ft_as_u8 t \<longleftrightarrow> s = t"
  by (cases s; cases t) simp_all

lemma ft_from_u8_Ok_iff: "is_ok (ft_from_u8 b) \<longleftrightarrow> 1 \<le> b \<and> b \<le> 6"
proof -
  have "1 \<le> b \<and> b \<le> 6 \<longleftrightarrow> b = 1 \<or> b = 2 \<or> b = 3 \<or> b = 4 \<or> b = 5 \<or> b = 6"
    by (auto simp: word_le_nat_alt word_unat_eq_iff)
  then show ?thesis
    by (auto simp: ft_from_u8_def)
qed

lemma fr_encode_length:
  "fr_encode f = Ok w \<Longrightarrow> length w = HEADER_LEN + length (fr_payload f) \<and> length w \<le> 1280"
  by (auto simp: fr_encode_def Let_def HEADER_LEN_def MAX_PAYLOAD_def split: if_splits)

lemma fr_split:
  assumes "13 \<le> length raw"
  shows "[raw ! 0] @ take 4 (drop 1 raw) @ take 8 (drop 5 raw) @ drop 13 raw = raw"
  using assms hd_split [of raw] field_split [of 4 1 raw] field_split [of 8 5 raw]
  by (cases raw) simp_all

lemma fr_decode_encode: "fr_encode f = Ok w \<Longrightarrow> fr_decode w = Ok f"
  by (auto simp: fr_encode_def fr_decode_def HEADER_LEN_def Let_def split: if_splits)

lemma fr_encode_decode:
  assumes "fr_decode w = Ok f" "length w \<le> 1280"
  shows "fr_encode f = Ok w"
proof -
  from assms have len: "13 \<le> length w" and t: "ft_as_u8 (fr_type f) = w ! 0"
    and s: "fr_session_id f = u32_from_le (take 4 (drop 1 w))"
    and q: "fr_sequence f = u64_from_le (take 8 (drop 5 w))"
    and p: "fr_payload f = drop 13 w"
    by (auto simp: fr_decode_def HEADER_LEN_def rbind_eq_Ok ft_from_u8_OkD split: if_splits)
  from len have "u32_to_le (fr_session_id f) = take 4 (drop 1 w)"
    "u64_to_le (fr_sequence f) = take 8 (drop 5 w)"
    unfolding s q by (simp_all add: u32_to_from_le u64_to_from_le)
  with fr_split [OF len] assms(2) show ?thesis
    by (simp add: fr_encode_def Let_def MAX_PAYLOAD_def HEADER_LEN_def t p)
qed

section \<open>Properties\<close>

text \<open>What \<open>Frame::encode\<close> and then \<open>Frame::decode\<close> return, for every frame: the frame itself,
  or the size error when the payload does not fit an MTU-safe datagram.\<close>

theorem frame_roundtrip:
  "rbind (fr_encode f) fr_decode =
     (if length (fr_payload f) > 1267 then Err (PayloadTooLarge (length (fr_payload f))) else Ok f)"
proof (cases "fr_encode f")
  case (Inl e)
  then show ?thesis
    by (auto simp: fr_encode_def Let_def MAX_PAYLOAD_def HEADER_LEN_def split: if_splits)
next
  case (Inr w)
  then show ?thesis
    using fr_decode_encode [OF Inr]
    by (auto simp: fr_encode_def Let_def MAX_PAYLOAD_def HEADER_LEN_def split: if_splits)
qed

text \<open>\<open>Frame::decode\<close> is canonical: the only MTU-safe datagram that decodes to a frame is the
  encoding of that frame, so no two different datagrams carry the same frame.\<close>

theorem frame_decode_canonical:
  "fr_decode w = Ok f \<and> length w \<le> 1280 \<longleftrightarrow> fr_encode f = Ok w"
  using fr_encode_decode fr_decode_encode fr_encode_length by blast

end
