(* ===== verification/Replay.thy ===== *)
theory Replay
  imports Errors
begin

text \<open>
  The sliding-window replay filter of \<open>src/session.rs\<close> (\<open>ReplayWindow\<close>): 32 words of 64 bits,
  bit \<open>d\<close> standing for the counter \<open>d\<close> below the highest one seen. \<open>window_rel\<close> relates a
  window to the set of the counters committed so far; \<open>check\<close> and \<open>commit\<close> refine membership
  and insertion on that set. The in-place, descending shift loops are kept as they are
  written and shown to compute the shifted bit set.
\<close>

definition WINDOW_BITS :: u64 where
  "WINDOW_BITS = 2048"

definition WINDOW_WORDS :: nat where
  "WINDOW_WORDS = 32"

record replay_window =
  rw_highest :: u64
  rw_bitmap :: "u64 list"
  rw_seeded :: bool

definition rw_new :: replay_window where
  "rw_new = \<lparr> rw_highest = 0, rw_bitmap = replicate WINDOW_WORDS 0, rw_seeded = False \<rparr>"

definition bit_is_set :: "replay_window \<Rightarrow> u64 \<Rightarrow> bool" where
  "bit_is_set w delta =
     (let word = unat (delta div 64); b = unat (delta mod 64)
      in (drop_bit b (rw_bitmap w ! word)) AND 1 = 1)"

definition set_bit_at :: "replay_window \<Rightarrow> u64 \<Rightarrow> replay_window" where
  "set_bit_at w delta =
     (let word = unat (delta div 64); b = unat (delta mod 64)
      in w\<lparr> rw_bitmap := (rw_bitmap w)[word := (rw_bitmap w ! word) OR push_bit b 1] \<rparr>)"

text \<open>The bodies of the two \<open>for i in (0..WINDOW_WORDS).rev()\<close> loops and the loop itself.\<close>

definition word_shift_body :: "nat \<Rightarrow> u64 list \<Rightarrow> nat \<Rightarrow> u64" where
  "word_shift_body word_shift bm i = (if i \<ge> word_shift then bm ! (i - word_shift) else 0)"

definition bit_shift_body :: "nat \<Rightarrow> nat \<Rightarrow> u64 list \<Rightarrow> nat \<Rightarrow> u64" where
  "bit_shift_body word_shift bit_shift bm i =
     (if i \<ge> word_shift
      then let v = push_bit bit_shift (bm ! (i - word_shift))
           in if i > word_shift
              then v OR drop_bit (64 - bit_shift) (bm ! (i - word_shift - 1)) else v
      else 0)"

definition rev_loop :: "(u64 list \<Rightarrow> nat \<Rightarrow> u64) \<Rightarrow> nat \<Rightarrow> u64 list \<Rightarrow> u64 list" where
  "rev_loop body n bm = foldl (\<lambda>bm i. bm[i := body bm i]) bm (rev [0..<n])"

definition shift_window :: "replay_window \<Rightarrow> u64 \<Rightarrow> replay_window" where
  "shift_window w shift =
     (if shift \<ge> WINDOW_BITS then w\<lparr> rw_bitmap := replicate WINDOW_WORDS 0 \<rparr>
      else let word_shift = unat (shift div 64);
               bit_shift = unat (shift mod 64)
           in if bit_shift = 0
              then w\<lparr> rw_bitmap := rev_loop (word_shift_body word_shift) WINDOW_WORDS (rw_bitmap w) \<rparr>
              else w\<lparr> rw_bitmap :=
                     rev_loop (bit_shift_body word_shift bit_shift) WINDOW_WORDS (rw_bitmap w) \<rparr>)"

definition rw_check :: "replay_window \<Rightarrow> u64 \<Rightarrow> unit result" where
  "rw_check w counter =
     (if \<not> rw_seeded w then Ok ()
      else if counter > rw_highest w then Ok ()
      else let delta = rw_highest w - counter in
        if delta \<ge> WINDOW_BITS then Err DecryptionFailed
        else if bit_is_set w delta then Err DecryptionFailed
        else Ok ())"

definition rw_commit :: "replay_window \<Rightarrow> u64 \<Rightarrow> replay_window" where
  "rw_commit w counter =
     (if \<not> rw_seeded w
      then set_bit_at (w\<lparr> rw_seeded := True, rw_highest := counter,
                          rw_bitmap := replicate WINDOW_WORDS 0 \<rparr>) 0
      else if counter > rw_highest w
      then let shift = counter - rw_highest w
           in set_bit_at ((shift_window w shift)\<lparr> rw_highest := counter \<rparr>) 0
      else let delta = rw_highest w - counter
           in if delta < WINDOW_BITS then set_bit_at w delta else w)"

section \<open>The bitmap as a set of distances\<close>

definition bm_bit :: "u64 list \<Rightarrow> nat \<Rightarrow> bool" where
  "bm_bit bm d \<longleftrightarrow> bit (bm ! (d div 64)) (d mod 64)"

lemma and_one_bit: "(drop_bit n (v :: 'a::len word)) AND 1 = 1 \<longleftrightarrow> bit v n"
  by (simp add: and_one_eq bit_iff_odd_drop_bit odd_iff_mod_2_eq_one)

lemma bit_is_set_bm: "bit_is_set w delta \<longleftrightarrow> bm_bit (rw_bitmap w) (unat delta)"
  by (simp add: bit_is_set_def bm_bit_def and_one_bit unat_div unat_mod Let_def)

lemma bm_bit_set:
  assumes "length bm = 32" "n < 2048" "d < 2048"
  shows "bm_bit (bm[n div 64 := (bm ! (n div 64)) OR push_bit (n mod 64) 1]) d \<longleftrightarrow>
    d = n \<or> bm_bit bm d"
proof (cases "d div 64 = n div 64")
  case True
  then have "d mod 64 = n mod 64 \<longleftrightarrow> d = n"
    by (metis div_mult_mod_eq)
  moreover have "d mod 64 < 64" by simp
  ultimately show ?thesis
    using assms True by (auto simp: bm_bit_def bit_simps)
next
  case False
  then show ?thesis
    using assms by (auto simp: bm_bit_def nth_list_update)
qed

lemma set_bit_at_bm:
  assumes "length (rw_bitmap w) = 32" "unat n < 2048" "d < 2048"
  shows "bm_bit (rw_bitmap (set_bit_at w n)) d \<longleftrightarrow> d = unat n \<or> bm_bit (rw_bitmap w) d"
  using bm_bit_set [OF assms] by (simp add: set_bit_at_def Let_def unat_div unat_mod)

lemma set_bit_at_fields [simp]:
  "rw_highest (set_bit_at w n) = rw_highest w"
  "rw_seeded (set_bit_at w n) = rw_seeded w"
  "length (rw_bitmap (set_bit_at w n)) = length (rw_bitmap w)"
  by (simp_all add: set_bit_at_def Let_def)

text \<open>A descending in-place loop whose body only reads the positions up to the current one
  computes every position from the original array.\<close>

lemma rev_loop_nth:
  assumes "\<And>bm bm' i. i < n \<Longrightarrow> \<forall>j\<le>i. bm ! j = bm' ! j \<Longrightarrow> body bm i = body bm' i"
    and "n \<le> length bm"
  shows "length (rev_loop body n bm) = length bm \<and>
    (\<forall>i. rev_loop body n bm ! i = (if i < n then body bm i else bm ! i))"
  using assms
proof (induction n arbitrary: bm)
  case 0
  then show ?case by (simp add: rev_loop_def)
next
  case (Suc n)
  let ?bm = "bm[n := body bm n]"
  have step: "rev_loop body (Suc n) bm = rev_loop body n ?bm"
    by (simp add: rev_loop_def)
  have IH: "length (rev_loop body n ?bm) = length ?bm \<and>
      (\<forall>i. rev_loop body n ?bm ! i = (if i < n then body ?bm i else ?bm ! i))"
    using Suc.prems by (intro Suc.IH) (auto simp: less_SucI)
  have "body ?bm i = body bm i" if "i < n" for i
    using that by (intro Suc.prems(1)) auto
  with IH Suc.prems(2) show ?case
    unfolding step by (auto simp: less_Suc_eq nth_list_update)
qed

lemma word_shift_loop:
  assumes "length bm = 32" "i < 32"
  shows "rev_loop (word_shift_body k) 32 bm ! i = (if i \<ge> k then bm ! (i - k) else 0)"
proof -
  have "length (rev_loop (word_shift_body k) 32 bm) = length bm \<and>
    (\<forall>i. rev_loop (word_shift_body k) 32 bm ! i =
      (if i < 32 then word_shift_body k bm i else bm ! i))"
    using assms by (intro rev_loop_nth) (auto simp: word_shift_body_def)
  with assms show ?thesis by (simp add: word_shift_body_def)
qed

lemma bit_shift_loop:
  assumes "length bm = 32" "i < 32"
  shows "rev_loop (bit_shift_body k b) 32 bm ! i = bit_shift_body k b bm i"
proof -
  have "length (rev_loop (bit_shift_body k b) 32 bm) = length bm \<and>
    (\<forall>i. rev_loop (bit_shift_body k b) 32 bm ! i =
      (if i < 32 then bit_shift_body k b bm i else bm ! i))"
    using assms by (intro rev_loop_nth) (auto simp: bit_shift_body_def Let_def)
  with assms show ?thesis by simp
qed

lemma length_rev_loop [simp]: "length (rev_loop body n bm) = length bm"
proof -
  have "length (foldl (\<lambda>bm i. bm[i := body bm i]) bm is) = length bm" for "is"
    by (induction "is" arbitrary: bm) auto
  then show ?thesis by (simp add: rev_loop_def)
qed

lemma bit_shift_body_bit:
  assumes "0 < b" "b < 64" "j < 64"
  shows "bit (bit_shift_body k b bm i) j \<longleftrightarrow>
    (if b \<le> j then k \<le> i \<and> bit (bm ! (i - k)) (j - b)
     else k < i \<and> bit (bm ! (i - k - 1)) (64 - b + j))"
proof -
  have "\<not> bit (v :: u64) (64 - b + j)" if "b \<le> j" for v
    using that assms by (intro impossible_bit) simp
  then show ?thesis
    using assms
    by (auto simp: bit_shift_body_def Let_def bit_or_iff bit_push_bit_iff bit_drop_bit_eq)
qed

lemma sub_no_borrow:
  fixes q k r b :: nat
  assumes "k \<le> q" "b \<le> r" "r < 64"
  shows "(64 * q + r - (64 * k + b)) div 64 = q - k"
    and "(64 * q + r - (64 * k + b)) mod 64 = r - b"
proof -
  have e: "64 * q + r - (64 * k + b) = (r - b) + 64 * (q - k)"
    using assms by (simp add: algebra_simps)
  have l: "r - b < 64" using assms by simp
  show "(64 * q + r - (64 * k + b)) div 64 = q - k"
    unfolding e using l by simp
  show "(64 * q + r - (64 * k + b)) mod 64 = r - b"
    unfolding e using l by simp
qed

lemma sub_borrow:
  fixes q k r b :: nat
  assumes "k < q" "r < b" "b < 64"
  shows "(64 * q + r - (64 * k + b)) div 64 = q - k - 1"
    and "(64 * q + r - (64 * k + b)) mod 64 = 64 - b + r"
proof -
  obtain t where q: "q = k + Suc t"
    using assms(1) less_natE by auto
  have e: "64 * q + r - (64 * k + b) = (64 - b + r) + 64 * (q - k - 1)"
    unfolding q using assms by (simp add: algebra_simps)
  have l: "64 - b + r < 64" using assms by simp
  show "(64 * q + r - (64 * k + b)) div 64 = q - k - 1"
    unfolding e using l by simp
  show "(64 * q + r - (64 * k + b)) mod 64 = 64 - b + r"
    unfolding e using l by simp
qed

lemma le_split:
  fixes q k r b :: nat
  assumes "r < 64" "b < 64"
  shows "64 * k + b \<le> 64 * q + r \<longleftrightarrow> (if b \<le> r then k \<le> q else k < q)"
  using assms by auto

text \<open>The distance of every surviving counter grows by the shift; the rest is cleared.\<close>

lemma shift_window_bm:
  assumes len: "length (rw_bitmap w) = 32" and d: "d < 2048"
  shows "bm_bit (rw_bitmap (shift_window w shift)) d \<longleftrightarrow>
    unat shift \<le> d \<and> bm_bit (rw_bitmap w) (d - unat shift)"
proof -
  let ?s = "unat shift"
  let ?bm = "rw_bitmap w"
  let ?k = "?s div 64"
  let ?b = "?s mod 64"
  have i: "d div 64 < 32" using d by simp
  consider "2048 \<le> ?s" | "?s < 2048" "?b = 0" | "?s < 2048" "0 < ?b"
    by linarith
  then show ?thesis
  proof cases
    case 1
    then have "WINDOW_BITS \<le> shift"
      by (simp add: WINDOW_BITS_def word_le_nat_alt)
    with 1 d i show ?thesis
      by (simp add: shift_window_def bm_bit_def WINDOW_WORDS_def)
  next
    case 2
    then have sh: "rw_bitmap (shift_window w shift) = rev_loop (word_shift_body ?k) 32 ?bm"
      by (simp add: shift_window_def WINDOW_BITS_def WINDOW_WORDS_def word_le_nat_alt
          unat_div unat_mod Let_def)
    have s: "64 * ?k = ?s" using 2 by auto
    have "?s \<le> d \<longleftrightarrow> ?k \<le> d div 64"
      using le_split [of "d mod 64" 0 ?k "d div 64"] s by simp
    moreover have "(d - ?s) div 64 = d div 64 - ?k" "(d - ?s) mod 64 = d mod 64" if "?k \<le> d div 64"
      using sub_no_borrow [OF that, of 0 "d mod 64"] s by simp_all
    ultimately show ?thesis
      unfolding bm_bit_def sh word_shift_loop [OF len i] by auto
  next
    case 3
    then have sh: "rw_bitmap (shift_window w shift) = rev_loop (bit_shift_body ?k ?b) 32 ?bm"
      by (simp add: shift_window_def WINDOW_BITS_def WINDOW_WORDS_def word_le_nat_alt
          unat_div unat_mod Let_def)
    have b: "?b < 64" "d mod 64 < 64" by simp_all
    have le: "?s \<le> d \<longleftrightarrow> (if ?b \<le> d mod 64 then ?k \<le> d div 64 else ?k < d div 64)"
      using le_split [OF b(2) b(1), of ?k "d div 64"] by simp
    show ?thesis
    proof (cases "?b \<le> d mod 64")
      case True
      have "(d - ?s) div 64 = d div 64 - ?k \<and> (d - ?s) mod 64 = d mod 64 - ?b"
        if "?k \<le> d div 64"
        using sub_no_borrow [OF that True b(2)] by simp
      with True le show ?thesis
        unfolding bm_bit_def sh bit_shift_loop [OF len i] bit_shift_body_bit [OF 3(2) b]
        by auto
    next
      case False
      have "(d - ?s) div 64 = d div 64 - ?k - 1 \<and> (d - ?s) mod 64 = 64 - ?b + d mod 64"
        if "?k < d div 64"
        using sub_borrow [OF that _ b(1), of "d mod 64"] False by simp
      with False le show ?thesis
        unfolding bm_bit_def sh bit_shift_loop [OF len i] bit_shift_body_bit [OF 3(2) b]
        by auto
    qed
  qed
qed

section \<open>Refinement of a set of counters\<close>

text \<open>The abstract filter: the set of the counters committed so far. A counter is fresh when it
  is not in the set and less than the window below every member.\<close>

definition window_rel :: "replay_window \<Rightarrow> nat set \<Rightarrow> bool" where
  "window_rel w S \<longleftrightarrow>
     length (rw_bitmap w) = 32 \<and>
     (if rw_seeded w
      then unat (rw_highest w) \<in> S \<and> (\<forall>c\<in>S. c \<le> unat (rw_highest w)) \<and>
           (\<forall>d<2048. bm_bit (rw_bitmap w) d \<longleftrightarrow>
              d \<le> unat (rw_highest w) \<and> unat (rw_highest w) - d \<in> S)
      else S = {})"

definition fresh :: "nat set \<Rightarrow> nat \<Rightarrow> bool" where
  "fresh S c \<longleftrightarrow> c \<notin> S \<and> (\<forall>h\<in>S. h < c + 2048)"

lemma window_rel_new: "window_rel rw_new {}"
  by (simp add: window_rel_def rw_new_def WINDOW_WORDS_def)

lemma rw_check_Err: "rw_check w c = Err e \<Longrightarrow> e = DecryptionFailed"
  by (auto simp: rw_check_def Let_def split: if_splits)

lemma rw_check_fresh:
  assumes "window_rel w S"
  shows "rw_check w c = Ok () \<longleftrightarrow> fresh S (unat c)"
proof (cases "rw_seeded w")
  case False
  with assms show ?thesis
    by (simp add: window_rel_def rw_check_def fresh_def)
next
  case True
  let ?h = "unat (rw_highest w)"
  from True assms have h: "?h \<in> S" "\<And>x. x \<in> S \<Longrightarrow> x \<le> ?h"
    and b: "\<And>d. d < 2048 \<Longrightarrow> bm_bit (rw_bitmap w) d \<longleftrightarrow> d \<le> ?h \<and> ?h - d \<in> S"
    by (auto simp: window_rel_def)
  show ?thesis
  proof (cases "c > rw_highest w")
    case gt: True
    then have "?h < unat c" by (simp add: word_less_nat_alt)
    with gt True h show ?thesis
      by (fastforce simp: rw_check_def fresh_def)
  next
    case False
    then have le: "unat c \<le> ?h" by (simp add: word_less_nat_alt)
    have d: "unat (rw_highest w - c) = ?h - unat c"
      using le by (simp add: unat_sub word_le_nat_alt)
    have "fresh S (unat c) \<longleftrightarrow> ?h < unat c + 2048 \<and> unat c \<notin> S"
      using h by (fastforce simp: fresh_def)
    moreover have "unat c \<in> S \<longleftrightarrow> bm_bit (rw_bitmap w) (?h - unat c)" if "?h < unat c + 2048"
      using b [of "?h - unat c"] that le by auto
    ultimately show ?thesis
      using True False le
      by (auto simp: rw_check_def Let_def WINDOW_BITS_def word_le_nat_alt d bit_is_set_bm)
  qed
qed

lemma shift_window_fields [simp]:
  "rw_highest (shift_window w s) = rw_highest w"
  "rw_seeded (shift_window w s) = rw_seeded w"
  "length (rw_bitmap w) = 32 \<Longrightarrow> length (rw_bitmap (shift_window w s)) = 32"
  by (simp_all add: shift_window_def Let_def WINDOW_WORDS_def)

lemma rw_commit_insert:
  assumes rel: "window_rel w S" and f: "fresh S (unat c)"
  shows "window_rel (rw_commit w c) (insert (unat c) S)"
proof (cases "rw_seeded w")
  case False
  let ?w = "w\<lparr> rw_seeded := True, rw_highest := c, rw_bitmap := replicate 32 (0 :: u64) \<rparr>"
  have c: "rw_commit w c = set_bit_at ?w 0"
    using False by (simp add: rw_commit_def WINDOW_WORDS_def)
  have "bm_bit (rw_bitmap (set_bit_at ?w 0)) d \<longleftrightarrow> d = 0" if "d < 2048" for d
    using that by (subst set_bit_at_bm) (auto simp: bm_bit_def)
  with False rel show ?thesis
    unfolding c window_rel_def by auto
next
  case True
  let ?h = "unat (rw_highest w)"
  from True rel have len: "length (rw_bitmap w) = 32"
    and h: "?h \<in> S" "\<And>x. x \<in> S \<Longrightarrow> x \<le> ?h"
    and b: "\<And>d. d < 2048 \<Longrightarrow> bm_bit (rw_bitmap w) d \<longleftrightarrow> d \<le> ?h \<and> ?h - d \<in> S"
    by (auto simp: window_rel_def)
  show ?thesis
  proof (cases "c > rw_highest w")
    case gt: True
    let ?s = "c - rw_highest w"
    let ?w = "(shift_window w ?s)\<lparr> rw_highest := c \<rparr>"
    have lt: "?h < unat c" using gt by (simp add: word_less_nat_alt)
    have s: "unat ?s = unat c - ?h"
      using lt by (simp add: unat_sub word_le_nat_alt)
    have com: "rw_commit w c = set_bit_at ?w 0"
      using True gt by (simp add: rw_commit_def Let_def)
    have "bm_bit (rw_bitmap (set_bit_at ?w 0)) d \<longleftrightarrow>
        d \<le> unat c \<and> unat c - d \<in> insert (unat c) S" if d: "d < 2048" for d
    proof -
      have "bm_bit (rw_bitmap (set_bit_at ?w 0)) d \<longleftrightarrow>
          d = 0 \<or> (unat c - ?h \<le> d \<and> bm_bit (rw_bitmap w) (d - (unat c - ?h)))"
        using d len by (subst set_bit_at_bm) (simp_all add: shift_window_bm s)
      also have "\<dots> \<longleftrightarrow> d = 0 \<or> (unat c - ?h \<le> d \<and> d \<le> unat c \<and> unat c - d \<in> S)"
        using b [of "d - (unat c - ?h)"] d lt by auto
      also have "\<dots> \<longleftrightarrow> d \<le> unat c \<and> unat c - d \<in> insert (unat c) S"
        using h(2) [of "unat c - d"] lt by auto
      finally show ?thesis .
    qed
    moreover have "x \<le> unat c" if "x \<in> S" for x
      using h(2) [OF that] lt by simp
    ultimately show ?thesis
      using True lt h len unfolding com window_rel_def by auto
  next
    case False
    then have le: "unat c \<le> ?h" by (simp add: word_less_nat_alt)
    have d: "unat (rw_highest w - c) = ?h - unat c"
      using le by (simp add: unat_sub word_le_nat_alt)
    have lt: "?h - unat c < 2048"
      using f h by (auto simp: fresh_def)
    then have com: "rw_commit w c = set_bit_at w (rw_highest w - c)"
      using True False by (simp add: rw_commit_def Let_def WINDOW_BITS_def word_less_nat_alt d)
    have "bm_bit (rw_bitmap (rw_commit w c)) e \<longleftrightarrow> e \<le> ?h \<and> ?h - e \<in> insert (unat c) S"
      if "e < 2048" for e
      using that len lt le b [OF that] unfolding com
      by (subst set_bit_at_bm) (auto simp: d)
    with True h le len show ?thesis
      unfolding com window_rel_def by auto
  qed
qed

section \<open>The filter as an interface\<close>

text \<open>
  What the session relies on: a window stands for the set of the counters committed to it,
  \<open>check\<close> decides freshness and \<open>commit\<close> of a fresh counter adds it. \<open>guarded_run\<close> offers a
  sequence of counters to a filter and reports which were accepted; \<open>spec_run\<close> is the same on
  the plain set.
\<close>

fun guarded_run ::
  "('w \<Rightarrow> u64 \<Rightarrow> unit result) \<Rightarrow> ('w \<Rightarrow> u64 \<Rightarrow> 'w) \<Rightarrow> 'w \<Rightarrow> u64 list \<Rightarrow> bool list" where
  "guarded_run check commit w [] = []"
| "guarded_run check commit w (c # cs) =
     (case check w c of
        Ok _ \<Rightarrow> True # guarded_run check commit (commit w c) cs
      | Err e \<Rightarrow> False # guarded_run check commit w cs)"

fun spec_run :: "nat set \<Rightarrow> nat list \<Rightarrow> bool list" where
  "spec_run S [] = []"
| "spec_run S (c # cs) =
     (if fresh S c then True # spec_run (insert c S) cs else False # spec_run S cs)"

definition accepted :: "'a list \<Rightarrow> bool list \<Rightarrow> 'a list" where
  "accepted cs bs = map fst (filter snd (zip cs bs))"

lemma accepted_simps [simp]:
  "accepted [] bs = []"
  "accepted (c # cs) (True # bs) = c # accepted cs bs"
  "accepted (c # cs) (False # bs) = accepted cs bs"
  by (simp_all add: accepted_def)

lemma spec_run_accepted: "distinct (accepted cs (spec_run S cs)) \<and> set (accepted cs (spec_run S cs)) \<inter> S = {}"
  by (induction S cs rule: spec_run.induct) (auto simp: fresh_def)

locale replay_filter =
  fixes rel :: "'w \<Rightarrow> nat set \<Rightarrow> bool"
    and fresh_window :: 'w
    and check :: "'w \<Rightarrow> u64 \<Rightarrow> unit result"
    and commit :: "'w \<Rightarrow> u64 \<Rightarrow> 'w"
  assumes rel_init: "rel fresh_window {}"
    and check_ok: "rel w S \<Longrightarrow> check w c = Ok () \<longleftrightarrow> fresh S (unat c)"
    and check_err: "check w c = Err e \<Longrightarrow> e = DecryptionFailed"
    and commit_ok: "rel w S \<Longrightarrow> fresh S (unat c) \<Longrightarrow> rel (commit w c) (insert (unat c) S)"
begin

lemma check_cases:
  assumes "rel w S"
  obtains "fresh S (unat c)" "check w c = Ok ()"
    | "\<not> fresh S (unat c)" "check w c = Err DecryptionFailed"
  using assms by (cases "check w c") (auto dest: check_err simp: check_ok [symmetric])

lemma run_refines: "rel w S \<Longrightarrow> guarded_run check commit w cs = spec_run S (map unat cs)"
proof (induction cs arbitrary: w S)
  case Nil
  show ?case by simp
next
  case (Cons c cs)
  show ?case
    using Cons.prems by (rule check_cases [of w S c]) (simp_all add: Cons commit_ok)
qed

lemma committed_rejected: "rel w S \<Longrightarrow> unat c \<in> S \<Longrightarrow> check w c = Err DecryptionFailed"
  by (rule check_cases [of w S c]) (auto simp: fresh_def)

end

interpretation rw: replay_filter window_rel rw_new rw_check rw_commit
  by unfold_locales
    (simp_all add: window_rel_new rw_check_fresh rw_check_Err rw_commit_insert)

section \<open>Properties\<close>

text \<open>C5: offered any sequence of counters, the bitmap window accepts exactly what the set of the
  counters accepted so far would: a counter is taken when it was not taken before and is
  less than 2048 below every counter taken. Reordered packets inside the window are not lost.\<close>

theorem replay_window_refines_set:
  "guarded_run rw_check rw_commit rw_new cs = spec_run {} (map unat cs)"
  using rw.run_refines [OF window_rel_new] .

text \<open>No counter is accepted twice, whatever counters arrive in whatever order.\<close>

theorem replay_window_accepts_once:
  "distinct (accepted cs (guarded_run rw_check rw_commit rw_new cs))"
proof -
  have "accepted (map unat cs) bs = map unat (accepted cs bs)" for bs
  proof (induction cs arbitrary: bs)
    case Nil
    show ?case by simp
  next
    case (Cons c cs)
    then show ?case by (cases bs) (auto simp: accepted_def)
  qed
  with spec_run_accepted [of "map unat cs" "{}"] show ?thesis
    by (simp add: rw.run_refines [OF window_rel_new] distinct_map)
qed

text \<open>\<open>shift_window\<close> moves every distance up by the shift, drops what leaves the window and
  clears the rest, for every shift width (whole words, bits with carry, past the window).\<close>

theorem shift_window_bits:
  "length (rw_bitmap w) = 32 \<and> delta < 2048 \<Longrightarrow>
    bit_is_set (shift_window w shift) delta \<longleftrightarrow> shift \<le> delta \<and> bit_is_set w (delta - shift)"
proof -
  assume a: "length (rw_bitmap w) = 32 \<and> delta < 2048"
  then have d: "unat delta < 2048" by (simp add: word_less_nat_alt)
  have "unat (delta - shift) = unat delta - unat shift" if "shift \<le> delta"
    using that by (simp add: unat_sub)
  with a d show ?thesis
    by (auto simp: bit_is_set_bm shift_window_bm word_le_nat_alt)
qed

theorem shift_window_bits_witness:
  "bit_is_set (shift_window (set_bit_at rw_new 5) 67) 72"
proof -
  have "bit_is_set (set_bit_at rw_new 5) 5"
    by (simp add: bit_is_set_bm set_bit_at_bm rw_new_def WINDOW_WORDS_def)
  then show ?thesis
    by (subst shift_window_bits) (auto simp: rw_new_def WINDOW_WORDS_def)
qed

end
