(* ===== verification/Session.thy ===== *)
theory Session
  imports Aead Obf Replay
begin

text \<open>
  The active session of \<open>src/session.rs\<close>: directional keys, the transmit counter, nonces and
  associated data, the AEAD core and the obfuscated data path. \<open>&self\<close> methods that touch the
  atomic counter or the replay mutex return the updated session. \<open>decrypt\<close> is split at the
  point where the code drops the lock, so its interleavings can be stated. \<open>paired\<close> relates
  the two ends of one handshake.
\<close>

section \<open>Keys\<close>

definition derive_directional_keys :: "crypto_lib \<Rightarrow> bytes \<Rightarrow> bool \<Rightarrow> (bytes \<times> bytes) result" where
  "derive_directional_keys C shared is_initiator =
     (let salt = Some (ascii ''Chameleon-PQ-v1-directional'');
          a = c_hkdf C salt shared (ascii ''key-A->B'') 32;
          b = c_hkdf C salt shared (ascii ''key-B->A'') 32
      in if is_initiator then Ok (a, b) else Ok (b, a))"

definition derive_obf_keys :: "crypto_lib \<Rightarrow> bytes \<Rightarrow> bool \<Rightarrow> (bytes \<times> bytes) result" where
  "derive_obf_keys C shared is_initiator =
     (let salt = Some (ascii ''Chameleon-PQ-v1-directional'');
          a = c_hkdf C salt shared (ascii ''obf-A->B'') 32;
          b = c_hkdf C salt shared (ascii ''obf-B->A'') 32
      in if is_initiator then Ok (a, b) else Ok (b, a))"

section \<open>The session\<close>

record session =
  s_id :: u32
  s_algo :: aead_algo
  s_tx_aead :: directional
  s_rx_aead :: directional
  s_tx_counter :: u64
  s_tx_salt :: bytes
  s_rx_salt :: bytes
  s_rekey_at :: u64
  s_replay :: replay_window
  s_tx_obf :: bytes
  s_rx_obf :: bytes

definition from_handshake_with_algo ::
  "crypto_lib \<Rightarrow> u32 \<Rightarrow> bytes \<Rightarrow> bool \<Rightarrow> aead_algo \<Rightarrow> session result" where
  "from_handshake_with_algo C session_id shared is_initiator algo =
     rbind (derive_directional_keys C shared is_initiator) (\<lambda>(tx_bytes, rx_bytes).
     rbind (make_directional algo tx_bytes) (\<lambda>tx_aead.
     rbind (make_directional algo rx_bytes) (\<lambda>rx_aead.
     rbind (derive_obf_keys C shared is_initiator) (\<lambda>(tx_obf, rx_obf).
     let (tx_salt, rx_salt) =
           (if is_initiator then ([0x01, 0, 0, 0], [0x02, 0, 0, 0])
            else ([0x02, 0, 0, 0], [0x01, 0, 0, 0]))
     in Ok \<lparr> s_id = session_id, s_algo = algo, s_tx_aead = tx_aead, s_rx_aead = rx_aead,
             s_tx_counter = 0, s_tx_salt = tx_salt, s_rx_salt = rx_salt,
             s_rekey_at = push_bit 48 1, s_replay = rw_new,
             s_tx_obf = tx_obf, s_rx_obf = rx_obf \<rparr>))))"

definition from_handshake :: "crypto_lib \<Rightarrow> u32 \<Rightarrow> bytes \<Rightarrow> bool \<Rightarrow> session result" where
  "from_handshake C session_id shared is_initiator =
     from_handshake_with_algo C session_id shared is_initiator ChaCha20Poly1305"

definition reserve_counters :: "session \<Rightarrow> u64 \<Rightarrow> u64 result \<times> session" where
  "reserve_counters s n =
     (let first = s_tx_counter s;
          s' = s\<lparr> s_tx_counter := first + n \<rparr>
      in if sat_add first (sat_sub n 1) \<ge> s_rekey_at s then (Err RekeyRequired, s')
         else (Ok first, s'))"

definition make_nonce :: "session \<Rightarrow> bytes \<Rightarrow> u64 \<Rightarrow> bytes" where
  "make_nonce s salt counter =
     salt @ u64_to_le counter @ replicate (nonce_len (s_algo s) - 12) 0"

definition data_aad :: "session \<Rightarrow> u64 \<Rightarrow> bytes" where
  "data_aad s counter = [0x01] @ u32_to_le (s_id s) @ u64_to_le counter"

definition seal_with_counter :: "crypto_lib \<Rightarrow> session \<Rightarrow> u64 \<Rightarrow> bytes \<Rightarrow> bytes result" where
  "seal_with_counter C s counter plaintext =
     dir_seal C (s_tx_aead s) (make_nonce s (s_tx_salt s) counter) (data_aad s counter) plaintext"

definition encrypt :: "crypto_lib \<Rightarrow> session \<Rightarrow> bytes \<Rightarrow> (u64 \<times> bytes) result \<times> session" where
  "encrypt C s plaintext =
     (case reserve_counters s 1 of
        (Err e, s') \<Rightarrow> (Err e, s')
      | (Ok counter, s') \<Rightarrow>
          (rbind (seal_with_counter C s' counter plaintext) (\<lambda>ct. Ok (counter, ct)), s'))"

text \<open>The two locked sections of \<open>decrypt\<close>: \<open>decrypt_begin\<close> is the pre-check and the AEAD open,
  which change nothing, \<open>decrypt_finish\<close> the re-check and the commit under one lock.\<close>

definition decrypt_begin :: "crypto_lib \<Rightarrow> session \<Rightarrow> u64 \<Rightarrow> bytes \<Rightarrow> bytes result" where
  "decrypt_begin C s counter ciphertext =
     rbind (rw_check (s_replay s) counter) (\<lambda>_.
     dir_open C (s_rx_aead s) (make_nonce s (s_rx_salt s) counter) (data_aad s counter) ciphertext)"

definition decrypt_finish :: "session \<Rightarrow> u64 \<Rightarrow> bytes \<Rightarrow> bytes result \<times> session" where
  "decrypt_finish s counter plain =
     (case rw_check (s_replay s) counter of
        Err e \<Rightarrow> (Err e, s)
      | Ok _ \<Rightarrow> (Ok plain, s\<lparr> s_replay := rw_commit (s_replay s) counter \<rparr>))"

definition decrypt :: "crypto_lib \<Rightarrow> session \<Rightarrow> u64 \<Rightarrow> bytes \<Rightarrow> bytes result \<times> session" where
  "decrypt C s counter ciphertext =
     (case decrypt_begin C s counter ciphertext of
        Err e \<Rightarrow> (Err e, s)
      | Ok plain \<Rightarrow> decrypt_finish s counter plain)"

section \<open>The obfuscated data path\<close>

definition seal_obf_core ::
  "crypto_lib \<Rightarrow> session \<Rightarrow> u64 \<Rightarrow> byte \<Rightarrow> bytes \<Rightarrow> pad_policy \<Rightarrow> rng \<Rightarrow> bytes result \<times> rng" where
  "seal_obf_core C s counter inner_type plaintext policy r =
     (let maxf = max_framed (tag_len (s_algo s));
          (framed, r') = pack_inner inner_type plaintext policy maxf r
      in (rbind (seal_with_counter C s counter framed) (\<lambda>ct.
            Ok (seal_wire C (s_tx_obf s) (s_id s) counter ct)), r'))"

definition seal_obf_with_counter ::
  "crypto_lib \<Rightarrow> session \<Rightarrow> u64 \<Rightarrow> byte \<Rightarrow> bytes \<Rightarrow> pad_policy \<Rightarrow> rng \<Rightarrow> bytes result \<times> rng" where
  "seal_obf_with_counter C s counter inner_type plaintext policy r =
     seal_obf_core C s counter inner_type plaintext policy r"

definition seal_obf ::
  "crypto_lib \<Rightarrow> session \<Rightarrow> byte \<Rightarrow> bytes \<Rightarrow> pad_policy \<Rightarrow> rng \<Rightarrow> bytes result \<times> session \<times> rng" where
  "seal_obf C s inner_type plaintext policy r =
     (case reserve_counters s 1 of
        (Err e, s') \<Rightarrow> (Err e, s', r)
      | (Ok counter, s') \<Rightarrow>
          let (d, r') = seal_obf_core C s' counter inner_type plaintext policy r in (d, s', r'))"

definition try_open_obf ::
  "crypto_lib \<Rightarrow> session \<Rightarrow> bytes \<Rightarrow> (frame_type \<times> bytes) option result \<times> session" where
  "try_open_obf C s datagram =
     (case unmask C (s_rx_obf s) datagram of
        None \<Rightarrow> (Ok None, s)
      | Some rec \<Rightarrow>
          if rec_session_id rec \<noteq> s_id s then (Ok None, s)
          else case decrypt C s (rec_counter rec) (ct_slice datagram) of
              (Ok framed, s') \<Rightarrow>
                (rbind (unpack_inner framed) (\<lambda>(inner_type, pt).
                 rbind (ft_from_u8 inner_type) (\<lambda>ft. Ok (Some (ft, pt)))), s')
            | (Err e, s') \<Rightarrow> (Ok None, s'))"

section \<open>Lemmas\<close>

definition session_wf :: "session \<Rightarrow> bool" where
  "session_wf s \<longleftrightarrow>
     length (s_tx_salt s) = 4 \<and> length (s_rx_salt s) = 4 \<and>
     dir_algo (s_tx_aead s) = s_algo s \<and> dir_algo (s_rx_aead s) = s_algo s"

definition paired :: "session \<Rightarrow> session \<Rightarrow> bool" where
  "paired a b \<longleftrightarrow>
     s_id a = s_id b \<and> s_algo a = s_algo b \<and>
     s_tx_aead a = s_rx_aead b \<and> s_rx_aead a = s_tx_aead b \<and>
     s_tx_salt a = s_rx_salt b \<and> s_rx_salt a = s_tx_salt b \<and>
     s_tx_obf a = s_rx_obf b \<and> s_rx_obf a = s_tx_obf b"

lemma from_handshake_total:
  assumes "crypto_ok C"
  obtains s where "from_handshake_with_algo C i sh ini algo = Ok s"
    "session_wf s" "s_id s = i" "s_algo s = algo" "s_tx_counter s = 0"
    "s_rekey_at s = 2 ^ 48" "s_replay s = rw_new"
proof -
  have "length (c_hkdf C x sh y 32) = 32" for x y
    using assms by (simp add: crypto_hash)
  then show thesis
    by (cases ini; cases algo; intro that)
      (auto simp: from_handshake_with_algo_def derive_directional_keys_def derive_obf_keys_def
        Let_def chacha_dir_new_def aegis_dir_new_def session_wf_def push_bit_eq_mult)
qed

lemma from_handshake_paired:
  assumes "crypto_ok C"
    "from_handshake_with_algo C i sh True algo = Ok a"
    "from_handshake_with_algo C i sh False algo = Ok b"
  shows "paired a b"
proof -
  have "length (c_hkdf C x sh y 32) = 32" for x y
    using assms by (simp add: crypto_hash)
  with assms show ?thesis
    by (cases algo)
      (auto simp: from_handshake_with_algo_def derive_directional_keys_def derive_obf_keys_def
        Let_def chacha_dir_new_def aegis_dir_new_def paired_def)
qed

lemma nonce_len_ge: "12 \<le> nonce_len a"
  by (cases a) simp_all

lemma length_make_nonce: "length salt = 4 \<Longrightarrow> length (make_nonce s salt c) = nonce_len (s_algo s)"
  using nonce_len_ge [of "s_algo s"] by (simp add: make_nonce_def)

lemma make_nonce_inject:
  "length salt = 4 \<Longrightarrow> length salt' = 4 \<Longrightarrow>
    make_nonce s salt c = make_nonce s salt' c' \<longleftrightarrow> salt = salt' \<and> c = c'"
  by (auto simp: make_nonce_def)

lemma length_data_aad [simp]: "length (data_aad s c) = 13"
  by (simp add: data_aad_def)

lemma seal_with_counter_length:
  assumes "crypto_ok C" "session_wf s" "seal_with_counter C s c p = Ok ct"
  shows "length ct = length p + tag_len (s_algo s)"
  using dir.seal_tag [OF assms(1) assms(3) [unfolded seal_with_counter_def]] assms(2)
  by (simp add: session_wf_def)

lemma seal_with_counter_total:
  assumes "crypto_ok C" "session_wf s" "length p \<le> aead_max_input"
  obtains ct where "seal_with_counter C s c p = Ok ct"
  unfolding seal_with_counter_def
  by (rule dir.seal_obtain [OF assms(1) _ assms(3)])
    (use assms(2) in \<open>auto simp: length_make_nonce session_wf_def\<close>)

text \<open>The receiver's open is the inverse of the paired sender's seal, counter by counter.\<close>

lemma paired_open_iff:
  assumes "crypto_ok C" "paired a b"
  shows "dir_open C (s_rx_aead b) (make_nonce b (s_rx_salt b) c) (data_aad b c) ct = Ok p \<longleftrightarrow>
    seal_with_counter C a c p = Ok ct"
proof -
  have "make_nonce b (s_rx_salt b) c = make_nonce a (s_tx_salt a) c" "data_aad b c = data_aad a c"
    using assms(2) by (simp_all add: paired_def make_nonce_def data_aad_def)
  with assms show ?thesis
    by (simp add: seal_with_counter_def paired_def dir.unseal_iff)
qed

lemma decrypt_finish_Ok:
  assumes "window_rel (s_replay s) S" "fresh S (unat c)"
  shows "decrypt_finish s c p = (Ok p, s\<lparr> s_replay := rw_commit (s_replay s) c \<rparr>)"
  using assms by (simp add: decrypt_finish_def rw.check_ok [THEN iffD2])

lemma decrypt_accept:
  assumes "crypto_ok C" "paired a b" "window_rel (s_replay b) S" "fresh S (unat c)"
    "seal_with_counter C a c p = Ok ct"
  shows "decrypt C b c ct = (Ok p, b\<lparr> s_replay := rw_commit (s_replay b) c \<rparr>)"
proof -
  have "rw_check (s_replay b) c = Ok ()"
    using assms(3,4) by (simp add: rw.check_ok)
  then have "decrypt_begin C b c ct = Ok p"
    using assms(5) by (simp add: decrypt_begin_def paired_open_iff [OF assms(1,2)])
  with assms(3,4) show ?thesis
    by (simp add: decrypt_def decrypt_finish_Ok)
qed

lemma decrypt_OkD:
  assumes "crypto_ok C" "paired a b" "window_rel (s_replay b) S"
    "decrypt C b c ct = (Ok p, b')"
  shows "fresh S (unat c) \<and> seal_with_counter C a c p = Ok ct \<and>
    b' = b\<lparr> s_replay := rw_commit (s_replay b) c \<rparr>"
  using assms(4) paired_open_iff [OF assms(1,2)] rw.check_ok [OF assms(3), of c]
  by (auto simp: decrypt_def decrypt_begin_def decrypt_finish_def rbind_eq_Ok
      split: sum.splits)

lemma decrypt_Err: "decrypt C b c ct = (Err e, b') \<Longrightarrow> e = DecryptionFailed \<and> b' = b"
  by (auto simp: decrypt_def decrypt_begin_def decrypt_finish_def rbind_eq_Err
      dest: rw_check_Err dir.unseal_err split: sum.splits)

lemma decrypt_committed:
  assumes "window_rel (s_replay b) S" "unat c \<in> S"
  shows "decrypt C b c ct = (Err DecryptionFailed, b)"
  using assms by (simp add: decrypt_def decrypt_begin_def rw.committed_rejected)

lemma decrypt_fields: "decrypt C b c ct = (r, b') \<Longrightarrow> b' = b\<lparr> s_replay := s_replay b' \<rparr>"
  by (auto simp: decrypt_def decrypt_finish_def split: sum.splits)

lemma try_open_obf_fields: "try_open_obf C b d = (r, b') \<Longrightarrow> b' = b\<lparr> s_replay := s_replay b' \<rparr>"
  by (auto simp: try_open_obf_def decrypt_fields split: option.splits if_splits prod.splits sum.splits)

text \<open>A datagram sealed under a counter opens to its framing, when the counter is fresh.\<close>

lemma try_open_sealed:
  assumes "crypto_ok C" "paired a b" "session_wf a" "window_rel (s_replay b) S"
    "fresh S (unat c)" "length pt < 2 ^ 16"
    "seal_obf_core C a c t pt pol r = (Ok d, r')" "ft_from_u8 t = Ok ft"
  shows "try_open_obf C b d = (Ok (Some (ft, pt)), b\<lparr> s_replay := rw_commit (s_replay b) c \<rparr>)"
proof -
  let ?framed = "fst (pack_inner t pt pol (max_framed (tag_len (s_algo a))) r)"
  from assms(7) obtain ct where ct: "seal_with_counter C a c ?framed = Ok ct"
    and d: "d = seal_wire C (s_tx_obf a) (s_id a) c ct"
    by (auto simp: seal_obf_core_def Let_def rbind_eq_Ok split: prod.splits)
  have len: "16 \<le> length ct"
    using seal_with_counter_length [OF assms(1,3) ct] tag_len_ge [of "s_algo a"] by simp
  have dec: "decrypt C b c ct = (Ok ?framed, b\<lparr> s_replay := rw_commit (s_replay b) c \<rparr>)"
    by (rule decrypt_accept [OF assms(1,2,4,5) ct])
  have key: "s_rx_obf b = s_tx_obf a" "s_id b = s_id a"
    using assms(2) by (simp_all add: paired_def)
  show ?thesis
    using dec unpack_pack [OF assms(6), of t pol "max_framed (tag_len (s_algo a))" r] assms(8)
    by (simp add: try_open_obf_def key d unmask_seal_wire [OF assms(1) len]
        ct_slice_seal_wire [OF assms(1)])
qed

lemma try_open_committed:
  assumes "window_rel (s_replay b) S" "unmask C (s_rx_obf b) d = Some rec" "unat (rec_counter rec) \<in> S"
  shows "try_open_obf C b d = (Ok None, b)"
  using assms by (simp add: try_open_obf_def decrypt_committed)

lemma seal_obf_core_total:
  assumes "crypto_ok C" "session_wf s" "length p < 2 ^ 16"
  obtains d r' where "seal_obf_core C s c t p pol r = (Ok d, r')"
proof -
  let ?m = "max_framed (tag_len (s_algo s))"
  let ?f = "fst (pack_inner t p pol ?m r)"
  have "length ?f \<le> max (3 + length p) ?m"
    by (simp add: length_pack_inner pad_target_le)
  also have "\<dots> \<le> aead_max_input"
    using assms(3) by (simp add: aead_max_input_def max_framed_def obf_consts)
  finally obtain ct where "seal_with_counter C s c ?f = Ok ct"
    by (rule seal_with_counter_total [OF assms(1,2)])
  then show thesis
    by (cases "pack_inner t p pol ?m r", intro that) (simp add: seal_obf_core_def Let_def)
qed

lemma seal_obf_core_length:
  assumes "crypto_ok C" "session_wf s" "seal_obf_core C s c t p pol r = (Ok d, r')"
  shows "length d = 13 + pad_target (3 + length p) pol (max_framed (tag_len (s_algo s))) +
    tag_len (s_algo s)"
proof -
  let ?m = "max_framed (tag_len (s_algo s))"
  let ?f = "fst (pack_inner t p pol ?m r)"
  from assms(3) obtain ct where ct: "seal_with_counter C s c ?f = Ok ct"
    and d: "d = seal_wire C (s_tx_obf s) (s_id s) c ct"
    by (auto simp: seal_obf_core_def Let_def rbind_eq_Ok split: prod.splits)
  show ?thesis
    using seal_with_counter_length [OF assms(1,2) ct]
    by (simp add: d length_seal_wire [OF assms(1)] length_pack_inner)
qed

section \<open>Counters handed out\<close>

text \<open>The counters a sequence of reservations grants, over the successful ones.\<close>

fun granted :: "session \<Rightarrow> u64 list \<Rightarrow> nat list" where
  "granted s [] = []"
| "granted s (n # ns) =
     (case reserve_counters s n of
        (Ok first, s') \<Rightarrow> [unat first..<unat first + unat n] @ granted s' ns
      | (Err e, s') \<Rightarrow> granted s' ns)"

lemma reserve_counters_cases:
  assumes "unat (s_tx_counter s) + unat n < 2 ^ 64"
  obtains s' where "s' = s\<lparr> s_tx_counter := s_tx_counter s + n \<rparr>"
    "unat (s_tx_counter s') = unat (s_tx_counter s) + unat n"
    "reserve_counters s n = (Err RekeyRequired, s') \<or>
     reserve_counters s n = (Ok (s_tx_counter s), s') \<and>
     unat (s_tx_counter s) + (unat n - 1) < unat (s_rekey_at s)"
proof (rule that [OF refl])
  show "unat (s_tx_counter (s\<lparr> s_tx_counter := s_tx_counter s + n \<rparr>)) =
      unat (s_tx_counter s) + unat n"
    using assms by (simp add: unat_word_ariths)
  show "reserve_counters s n = (Err RekeyRequired, s\<lparr> s_tx_counter := s_tx_counter s + n \<rparr>) \<or>
     reserve_counters s n = (Ok (s_tx_counter s), s\<lparr> s_tx_counter := s_tx_counter s + n \<rparr>) \<and>
     unat (s_tx_counter s) + (unat n - 1) < unat (s_rekey_at s)"
    using assms
    by (auto simp: reserve_counters_def Let_def word_le_nat_alt unat_sat_add unat_sat_sub)
qed

lemma granted_bounds:
  "unat (s_tx_counter s) + sum_list (map unat ns) < 2 ^ 64 \<Longrightarrow>
    distinct (granted s ns) \<and>
    (\<forall>c\<in>set (granted s ns). unat (s_tx_counter s) \<le> c \<and> c < unat (s_rekey_at s))"
proof (induction ns arbitrary: s)
  case Nil
  show ?case by simp
next
  case (Cons n ns)
  then have "unat (s_tx_counter s) + unat n < 2 ^ 64" by simp
  then obtain s' where s': "s' = s\<lparr> s_tx_counter := s_tx_counter s + n \<rparr>"
    and cnt: "unat (s_tx_counter s') = unat (s_tx_counter s) + unat n"
    and r: "reserve_counters s n = (Err RekeyRequired, s') \<or>
      reserve_counters s n = (Ok (s_tx_counter s), s') \<and>
      unat (s_tx_counter s) + (unat n - 1) < unat (s_rekey_at s)"
    by (rule reserve_counters_cases)
  have IH: "distinct (granted s' ns) \<and>
    (\<forall>c\<in>set (granted s' ns). unat (s_tx_counter s') \<le> c \<and> c < unat (s_rekey_at s'))"
  proof (rule Cons.IH)
    show "unat (s_tx_counter s') + sum_list (map unat ns) < 2 ^ 64"
      using Cons.prems cnt by simp
  qed
  have "s_rekey_at s' = s_rekey_at s" by (simp add: s')
  with IH cnt r show ?case by fastforce
qed

section \<open>Concurrent receivers\<close>

text \<open>
  Several tasks may be between the two locked sections of \<open>decrypt\<close> at once. A run holds the
  session, the opened packets that wait for their second lock, and the counters delivered.
\<close>

record decrypt_run =
  dr_sess :: session
  dr_open :: "(u64 \<times> bytes) list"
  dr_out :: "u64 list"

definition decrypt_run_start :: "session \<Rightarrow> decrypt_run" where
  "decrypt_run_start s = \<lparr> dr_sess = s, dr_open = [], dr_out = [] \<rparr>"

inductive decrypt_step :: "crypto_lib \<Rightarrow> decrypt_run \<Rightarrow> decrypt_run \<Rightarrow> bool" for C where
  begin_open: "decrypt_begin C (dr_sess st) c ct = Ok p \<Longrightarrow>
    decrypt_step C st (st\<lparr> dr_open := (c, p) # dr_open st \<rparr>)"
| finish_ok: "(c, p) \<in> set (dr_open st) \<Longrightarrow> decrypt_finish (dr_sess st) c p = (Ok q, s') \<Longrightarrow>
    decrypt_step C st (st\<lparr> dr_sess := s', dr_open := remove1 (c, p) (dr_open st),
                          dr_out := c # dr_out st \<rparr>)"
| finish_err: "(c, p) \<in> set (dr_open st) \<Longrightarrow> decrypt_finish (dr_sess st) c p = (Err e, s') \<Longrightarrow>
    decrypt_step C st (st\<lparr> dr_sess := s', dr_open := remove1 (c, p) (dr_open st) \<rparr>)"

inductive_cases decrypt_stepE: "decrypt_step C st st'"

definition decrypt_run_inv :: "decrypt_run \<Rightarrow> bool" where
  "decrypt_run_inv st \<longleftrightarrow>
     window_rel (s_replay (dr_sess st)) (unat ` set (dr_out st)) \<and> distinct (dr_out st)"

lemma decrypt_finish_OkD:
  assumes "window_rel (s_replay s) S" "decrypt_finish s c p = (Ok q, s')"
  shows "fresh S (unat c)" "window_rel (s_replay s') (insert (unat c) S)"
  using assms rw.check_ok [OF assms(1), of c] rw.commit_ok [OF assms(1), of c]
  by (auto simp: decrypt_finish_def split: sum.splits)

lemma decrypt_finish_ErrD: "decrypt_finish s c p = (Err e, s') \<Longrightarrow> s' = s"
  by (auto simp: decrypt_finish_def split: sum.splits)

lemma decrypt_step_inv: "decrypt_step C st st' \<Longrightarrow> decrypt_run_inv st \<Longrightarrow> decrypt_run_inv st'"
proof (induction rule: decrypt_step.induct)
  case (begin_open st c ct p)
  then show ?case by (simp add: decrypt_run_inv_def)
next
  case (finish_ok c p st q s')
  then have "window_rel (s_replay (dr_sess st)) (unat ` set (dr_out st))"
    by (simp add: decrypt_run_inv_def)
  from decrypt_finish_OkD [OF this finish_ok(2)] finish_ok(3) show ?case
    by (auto simp: decrypt_run_inv_def fresh_def)
next
  case (finish_err c p st e s')
  then show ?case
    by (auto simp: decrypt_run_inv_def dest: decrypt_finish_ErrD)
qed

lemma decrypt_steps_inv: "(decrypt_step C)\<^sup>*\<^sup>* st st' \<Longrightarrow> decrypt_run_inv st \<Longrightarrow> decrypt_run_inv st'"
  by (induction rule: rtranclp_induct) (auto intro: decrypt_step_inv)

section \<open>Properties\<close>

text \<open>The two ends of one handshake over the toy primitives, for the witnesses.\<close>

definition demo_session :: "bool \<Rightarrow> session" where
  "demo_session ini =
     projr (from_handshake_with_algo toy_crypto 7 (replicate 32 1) ini ChaCha20Poly1305)"

lemma demo_session:
  "session_wf (demo_session ini) \<and> s_replay (demo_session ini) = rw_new \<and>
   s_tx_counter (demo_session ini) = 0 \<and> s_rekey_at (demo_session ini) = 2 ^ 48 \<and>
   s_algo (demo_session ini) = ChaCha20Poly1305"
  by (rule from_handshake_total [OF toy_crypto_ok, of 7 "replicate 32 1" ini ChaCha20Poly1305])
    (simp add: demo_session_def)

lemma demo_paired: "paired (demo_session True) (demo_session False)"
proof -
  obtain a b where "from_handshake_with_algo toy_crypto 7 (replicate 32 1) True ChaCha20Poly1305 = Ok a"
    "from_handshake_with_algo toy_crypto 7 (replicate 32 1) False ChaCha20Poly1305 = Ok b"
    by (meson from_handshake_total [OF toy_crypto_ok])
  then show ?thesis
    using from_handshake_paired [OF toy_crypto_ok] by (simp add: demo_session_def)
qed

lemma demo_fresh:
  "window_rel (s_replay (demo_session False)) {}" "fresh {} (unat (s_tx_counter (demo_session True)))"
  by (simp_all add: demo_session window_rel_new fresh_def)

lemma demo_reserve:
  "reserve_counters (demo_session True) 1 = (Ok 0, (demo_session True)\<lparr> s_tx_counter := 1 \<rparr>)"
  by (simp add: reserve_counters_def demo_session sat_add_def sat_sub_def Let_def)

lemma demo_seal:
  obtains d a' r' where "seal_obf toy_crypto (demo_session True) 1 [42] PadOff (\<lambda>_. 0) = (Ok d, a', r')"
proof -
  have "session_wf ((demo_session True)\<lparr> s_tx_counter := 1 \<rparr>)"
    using demo_session [of True] by (simp add: session_wf_def)
  then obtain d r' where
    "seal_obf_core toy_crypto ((demo_session True)\<lparr> s_tx_counter := 1 \<rparr>) 0 1 [42] PadOff (\<lambda>_. 0) =
      (Ok d, r')"
    using seal_obf_core_total [OF toy_crypto_ok, where p = "[42]"]
    by (metis One_nat_def Suc_lessD length_Cons list.size(3) one_less_numeral_iff
        one_less_power semiring_norm(76) zero_less_numeral)
  then show thesis
    by (intro that) (simp add: seal_obf_def demo_reserve)
qed

text \<open>End-to-end delivery. A datagram the sender seals opens on the paired receiver to the
  frame type and payload that went in, under every padding policy and cipher, as long as the
  counter is still fresh there; the receiver's window then holds that counter.\<close>

theorem obf_datagram_delivered:
  assumes "crypto_ok C" "paired a b" "session_wf a" "window_rel (s_replay b) S"
    "fresh S (unat (s_tx_counter a))" "length pt < 2 ^ 16" "ft_from_u8 t = Ok ft"
    "seal_obf C a t pt pol r = (Ok d, a', r')"
  shows "try_open_obf C b d =
      (Ok (Some (ft, pt)), b\<lparr> s_replay := rw_commit (s_replay b) (s_tx_counter a) \<rparr>) \<and>
    window_rel (rw_commit (s_replay b) (s_tx_counter a)) (insert (unat (s_tx_counter a)) S)"
proof -
  from assms(8) obtain n where
    core: "seal_obf_core C (a\<lparr> s_tx_counter := n \<rparr>) (s_tx_counter a) t pt pol r = (Ok d, r')"
    by (auto simp: seal_obf_def reserve_counters_def Let_def split: if_splits prod.splits)
  have "paired (a\<lparr> s_tx_counter := n \<rparr>) b" "session_wf (a\<lparr> s_tx_counter := n \<rparr>)"
    using assms(2,3) by (simp_all add: paired_def session_wf_def)
  from try_open_sealed [OF assms(1) this assms(4,5,6) core assms(7)] assms(4,5)
  show ?thesis by (simp add: rw.commit_ok)
qed

theorem obf_datagram_delivered_witness:
  "\<exists>d a' r'. seal_obf toy_crypto (demo_session True) 1 [42] PadOff (\<lambda>_. 0) = (Ok d, a', r') \<and>
     fst (try_open_obf toy_crypto (demo_session False) d) = Ok (Some (FT_Data, [42]))"
proof -
  obtain d a' r' where
    d: "seal_obf toy_crypto (demo_session True) 1 [42] PadOff (\<lambda>_. 0) = (Ok d, a', r')"
    by (rule demo_seal)
  have "try_open_obf toy_crypto (demo_session False) d =
      (Ok (Some (FT_Data, [42])),
       (demo_session False)\<lparr> s_replay := rw_commit (s_replay (demo_session False))
         (s_tx_counter (demo_session True)) \<rparr>) \<and>
    window_rel (rw_commit (s_replay (demo_session False)) (s_tx_counter (demo_session True)))
      (insert (unat (s_tx_counter (demo_session True))) {})"
    by (rule obf_datagram_delivered [OF toy_crypto_ok demo_paired _ demo_fresh _ _ d])
      (simp_all add: demo_session ft_from_u8_def)
  with d show ?thesis by auto
qed

text \<open>C2: what a session accepts was sealed by its peer. If a datagram opens, the peer's sealing
  function produces it for that counter and framing, byte for byte after the first byte, the
  counter was fresh, and only the replay window changes.\<close>

theorem obf_accepts_only_peer_sealings:
  assumes "crypto_ok C" "paired a b" "window_rel (s_replay b) S"
    "try_open_obf C b d = (Ok (Some (ft, pt)), b')"
  shows "\<exists>c framed ct. seal_with_counter C a c framed = Ok ct \<and>
    unpack_inner framed = Ok (ft_as_u8 ft, pt) \<and>
    drop 1 d = drop 1 (seal_wire C (s_tx_obf a) (s_id a) c ct) \<and>
    fresh S (unat c) \<and> b' = b\<lparr> s_replay := rw_commit (s_replay b) c \<rparr>"
proof -
  have key: "s_rx_obf b = s_tx_obf a" "s_id b = s_id a"
    using assms(2) by (simp_all add: paired_def)
  from assms(4) obtain rec framed where u: "unmask C (s_tx_obf a) d = Some rec"
    and i: "rec_session_id rec = s_id a"
    and dec: "decrypt C b (rec_counter rec) (ct_slice d) = (Ok framed, b')"
    and unp: "unpack_inner framed = Ok (ft_as_u8 ft, pt)"
    by (auto simp: try_open_obf_def key rbind_eq_Ok dest: ft_from_u8_OkD
        split: option.splits if_splits prod.splits sum.splits)
  have seal: "fresh S (unat (rec_counter rec)) \<and>
      seal_with_counter C a (rec_counter rec) framed = Ok (ct_slice d) \<and>
      b' = b\<lparr> s_replay := rw_commit (s_replay b) (rec_counter rec) \<rparr>"
    by (rule decrypt_OkD [OF assms(1,2,3) dec])
  have len: "29 \<le> length d"
    using u by (auto simp: unmask_def obf_consts split: if_splits)
  let ?m = "header_mask C (s_tx_obf a) (sample_of d)"
  have m: "length ?m = 13" using assms(1) by (simp add: length_header_mask)
  have s: "sample_of d = sample_of (ct_slice d)"
    using sample_of_append [of "ct_slice d" "take 13 d"] len by (simp add: ct_slice_def obf_consts)
  have joined: "take 13 d @ ct_slice d = d" by (simp add: ct_slice_def obf_consts)
  have "take 13 d = xor_bytes (xor_bytes (take 13 d) ?m) ?m"
    using len m by (simp add: xor_bytes_cancel)
  also have "\<dots> = xor_bytes ([rec_wire_type rec] @ u32_to_le (s_id a) @ u64_to_le (rec_counter rec)) ?m"
    using unmask_header [OF assms(1) u] i by simp
  finally have "drop 1 (take 13 d) = drop 1 (xor_bytes (clear_header (s_id a) (rec_counter rec)) ?m)"
    using m by (cases ?m) (simp_all add: xor_bytes_def clear_header_def)
  then have "drop 1 (take 13 d @ ct_slice d) =
      drop 1 (xor_bytes (clear_header (s_id a) (rec_counter rec)) ?m @ ct_slice d)"
    using len m by simp
  then have "drop 1 d = drop 1 (seal_wire C (s_tx_obf a) (s_id a) (rec_counter rec) (ct_slice d))"
    by (simp only: joined seal_wire_def Let_def s)
  with seal unp show ?thesis by blast
qed

theorem obf_accepts_only_peer_sealings_witness:
  "\<exists>d c framed ct. fst (try_open_obf toy_crypto (demo_session False) d) = Ok (Some (FT_Data, [42])) \<and>
     seal_with_counter toy_crypto (demo_session True) c framed = Ok ct \<and>
     unpack_inner framed = Ok (1, [42]) \<and>
     drop 1 d = drop 1 (seal_wire toy_crypto (s_tx_obf (demo_session True)) (s_id (demo_session True)) c ct)"
proof -
  obtain d r' where d: "seal_obf_core toy_crypto (demo_session True) 0 1 [42] PadOff (\<lambda>_. 0) = (Ok d, r')"
    by (rule seal_obf_core_total [OF toy_crypto_ok, of "demo_session True" "[42]"])
      (simp_all add: demo_session)
  have "try_open_obf toy_crypto (demo_session False) d =
    (Ok (Some (FT_Data, [42])),
     (demo_session False)\<lparr> s_replay := rw_commit (s_replay (demo_session False)) 0 \<rparr>)"
    by (rule try_open_sealed [OF toy_crypto_ok demo_paired _ demo_fresh(1) _ _ d])
      (simp_all add: demo_session fresh_def ft_from_u8_def)
  then have opened: "fst (try_open_obf toy_crypto (demo_session False) d) = Ok (Some (FT_Data, [42]))"
    by simp
  obtain c framed ct where "seal_with_counter toy_crypto (demo_session True) c framed = Ok ct"
    "unpack_inner framed = Ok (ft_as_u8 FT_Data, [42])"
    "drop 1 d = drop 1 (seal_wire toy_crypto (s_tx_obf (demo_session True)) (s_id (demo_session True)) c ct)"
    using obf_accepts_only_peer_sealings [OF toy_crypto_ok demo_paired demo_fresh(1)]
      \<open>try_open_obf toy_crypto (demo_session False) d = _\<close> by blast
  with opened show ?thesis
    by (intro exI [of _ d] exI [of _ c] exI [of _ framed] exI [of _ ct]) simp
qed

text \<open>The first byte of a datagram is not authenticated: the type byte under the mask is recovered
  but never compared, and the associated data fixes it to \<open>0x01\<close>, so the receiver treats a
  datagram the same whatever its first byte is.\<close>

theorem obf_first_byte_ignored: "try_open_obf C s (x # d) = try_open_obf C s (y # d)"
proof (cases "29 \<le> length (x # d)")
  case False
  then show ?thesis by (simp add: try_open_obf_def unmask_def obf_consts)
next
  case True
  then have "16 \<le> length d" by simp
  then have sm: "sample_of (z # d) = sample_of d" for z
    using sample_of_append [of d "[z]"] by simp
  have tl: "drop 1 (xor_bytes (take 13 (z # d)) m) = xor_bytes (take 12 d) (drop 1 m)" for z m
    by (cases m) (simp_all add: xor_bytes_def take_Cons')
  have rest: "take 4 (drop 1 (xor_bytes (take 13 (x # d)) m)) = take 4 (drop 1 (xor_bytes (take 13 (y # d)) m))"
    "take 8 (drop 5 (xor_bytes (take 13 (x # d)) m)) = take 8 (drop 5 (xor_bytes (take 13 (y # d)) m))" for m
    using drop_drop [of 4 1 "xor_bytes (take 13 (x # d)) m"]
      drop_drop [of 4 1 "xor_bytes (take 13 (y # d)) m"] by (simp_all only: tl) simp_all
  let ?m = "header_mask C (s_rx_obf s) (sample_of d)"
  show ?thesis
    using True rest [of ?m]
    by (simp add: try_open_obf_def unmask_def sm Let_def ct_slice_def obf_consts)
qed

text \<open>A datagram that was delivered once is rejected ever after: as long as its counter is among
  the committed ones, the receiver answers "not for me" and does not change.\<close>

theorem obf_replay_rejected:
  assumes "crypto_ok C" "paired a b" "session_wf a" "window_rel (s_replay b) S"
    "unat (s_tx_counter a) \<in> S" "seal_obf C a t pt pol r = (Ok d, a', r')"
  shows "try_open_obf C b d = (Ok None, b)"
proof -
  let ?f = "fst (pack_inner t pt pol (max_framed (tag_len (s_algo a))) r)"
  from assms(6) obtain n ct where
    ct: "seal_with_counter C (a\<lparr> s_tx_counter := n \<rparr>) (s_tx_counter a) ?f = Ok ct"
    and d: "d = seal_wire C (s_tx_obf a) (s_id a) (s_tx_counter a) ct"
    by (auto simp: seal_obf_def seal_obf_core_def reserve_counters_def Let_def rbind_eq_Ok
        split: if_splits prod.splits)
  have "session_wf (a\<lparr> s_tx_counter := n \<rparr>)"
    using assms(3) by (simp add: session_wf_def)
  from seal_with_counter_length [OF assms(1) this ct] have "16 \<le> length ct"
    using tag_len_ge [of "s_algo a"] by simp
  from unmask_seal_wire [OF assms(1) this] assms(2) show ?thesis
    by (intro try_open_committed [OF assms(4) _]) (auto simp: paired_def d assms(5))
qed

theorem obf_replay_rejected_witness:
  "\<exists>d a' r'. seal_obf toy_crypto (demo_session True) 1 [42] PadOff (\<lambda>_. 0) = (Ok d, a', r') \<and>
     (let b = (demo_session False)\<lparr> s_replay := rw_commit rw_new 0 \<rparr>
      in try_open_obf toy_crypto b d = (Ok None, b))"
proof -
  let ?b = "(demo_session False)\<lparr> s_replay := rw_commit rw_new 0 \<rparr>"
  obtain d a' r' where
    d: "seal_obf toy_crypto (demo_session True) 1 [42] PadOff (\<lambda>_. 0) = (Ok d, a', r')"
    by (rule demo_seal)
  have p: "paired (demo_session True) ?b"
    using demo_paired by (simp add: paired_def)
  have w: "window_rel (s_replay ?b) {0}"
    using rw_commit_insert [OF window_rel_new, of 0] by (simp add: fresh_def)
  have "try_open_obf toy_crypto ?b d = (Ok None, ?b)"
    by (rule obf_replay_rejected [OF toy_crypto_ok p _ w _ d]) (simp_all add: demo_session)
  with d show ?thesis by (auto simp: Let_def)
qed

text \<open>C18: no transmit counter, and so no AEAD nonce, is handed out twice, and none reaches the rekey
  limit, over any sequence of batch reservations whose sizes (failed ones included) do not add
  up past \<open>2 ^ 64\<close>.\<close>

theorem tx_counters_unique:
  assumes "unat (s_tx_counter s) + sum_list (map unat ns) < 2 ^ 64"
  shows "distinct (granted s ns) \<and> (\<forall>c\<in>set (granted s ns). c < unat (s_rekey_at s))"
  using granted_bounds [OF assms] by blast

theorem tx_counters_unique_witness:
  "distinct (granted (demo_session True) [3, 1, 64])"
  using tx_counters_unique [of "demo_session True" "[3, 1, 64]"] by (simp add: demo_session)

text \<open>The bound on the sizes is needed. \<open>reserve_counters\<close> advances the counter with
  \<open>fetch_add\<close> before it checks the limit, also when it then fails, and \<open>fetch_add\<close> wraps: after a
  failed reservation of \<open>2 ^ 64 - 1\<close> the next one returns the counter used before.\<close>

theorem failed_reservation_rewinds:
  "granted (s\<lparr> s_tx_counter := 0, s_rekey_at := 2 ^ 48 \<rparr>) [1, - 1, 1] = [0, 0]"
  by (simp add: reserve_counters_def Let_def sat_add_def sat_sub_def unsigned_minus_1_eq_mask
      mask_eq_exp_minus_1)

text \<open>Counters are encoded injectively into nonces of the cipher's length, and the two directions
  of a session never share a nonce, because their salts differ.\<close>

theorem nonces_distinct:
  assumes "crypto_ok C" "from_handshake_with_algo C i sh ini algo = Ok s"
  shows "length (make_nonce s (s_tx_salt s) c) = nonce_len algo \<and>
    make_nonce s (s_tx_salt s) c \<noteq> make_nonce s (s_rx_salt s) c' \<and>
    inj (make_nonce s (s_tx_salt s))"
proof -
  have "session_wf s" "s_algo s = algo"
    using from_handshake_total [OF assms(1), of i sh ini algo] assms(2) by fastforce+
  moreover have "s_tx_salt s \<noteq> s_rx_salt s"
    using assms(2)
    by (auto simp: from_handshake_with_algo_def rbind_eq_Ok Let_def split: if_splits prod.splits)
  ultimately show ?thesis
    by (auto simp: length_make_nonce make_nonce_inject session_wf_def inj_def)
qed

theorem nonces_distinct_witness:
  "make_nonce (demo_session True) (s_tx_salt (demo_session True)) 3 \<noteq>
   make_nonce (demo_session True) (s_rx_salt (demo_session True)) 3"
proof -
  obtain s where "from_handshake_with_algo toy_crypto 7 (replicate 32 1) True ChaCha20Poly1305 = Ok s"
    by (rule from_handshake_total [OF toy_crypto_ok])
  then show ?thesis
    using nonces_distinct [OF toy_crypto_ok, of 7 "replicate 32 1" True ChaCha20Poly1305]
    by (simp add: demo_session_def)
qed

text \<open>C6: under any interleaving of concurrent \<open>decrypt\<close> calls, split where the code releases the
  replay lock, every counter is delivered at most once: two threads that both passed the
  pre-check cannot both pass the re-check.\<close>

theorem concurrent_decrypt_delivers_once:
  assumes "s_replay s = rw_new" "(decrypt_step C)\<^sup>*\<^sup>* (decrypt_run_start s) st"
  shows "distinct (dr_out st) \<and>
    window_rel (s_replay (dr_sess st)) (unat ` set (dr_out st))"
proof -
  have "decrypt_run_inv (decrypt_run_start s)"
    by (simp add: decrypt_run_inv_def decrypt_run_start_def assms(1) window_rel_new)
  from decrypt_steps_inv [OF assms(2) this] show ?thesis
    by (simp add: decrypt_run_inv_def)
qed

theorem concurrent_decrypt_delivers_once_witness:
  "\<exists>p st. decrypt_step toy_crypto (decrypt_run_start (demo_session False)) st \<and>
     dr_open st = [(0, p)] \<and> distinct (dr_out st)"
proof -
  obtain ct where ct: "seal_with_counter toy_crypto (demo_session True) 0 [1] = Ok ct"
    by (rule seal_with_counter_total [OF toy_crypto_ok, of "demo_session True" "[1]"])
      (simp_all add: demo_session aead_max_input_def)
  have b: "decrypt_begin toy_crypto (demo_session False) 0 ct = Ok [1]"
    using ct by (simp add: decrypt_begin_def paired_open_iff [OF toy_crypto_ok demo_paired]
        demo_session rw_check_def rw_new_def)
  let ?st = "(decrypt_run_start (demo_session False))\<lparr> dr_open := [(0, [1])] \<rparr>"
  have step: "decrypt_step toy_crypto (decrypt_run_start (demo_session False)) ?st"
    using decrypt_step.begin_open [of toy_crypto "decrypt_run_start (demo_session False)" 0 ct "[1]"] b
    by (simp add: decrypt_run_start_def)
  have "distinct (dr_out ?st)"
    using concurrent_decrypt_delivers_once [OF _ r_into_rtranclp, OF _ step]
    by (simp add: demo_session)
  with step show ?thesis
    by (intro exI [of _ "[1]"] exI [of _ ?st]) simp
qed

text \<open>The size of a data-path datagram: 13 header bytes, the padded framing and the tag. Full
  padding makes every datagram whose payload fits exactly 1280 bytes, and no policy pushes one
  over 1280 that would fit without padding.\<close>

theorem obf_datagram_size:
  assumes "crypto_ok C" "session_wf s" "seal_obf C s t p pol r = (Ok d, s', r')"
  shows "length d \<le> max 1280 (16 + length p + tag_len (s_algo s)) \<and>
    16 + length p + tag_len (s_algo s) \<le> length d \<and>
    (pol = PadFull \<longrightarrow> length d = max 1280 (16 + length p + tag_len (s_algo s)))"
proof -
  from assms(3) obtain n where
    core: "seal_obf_core C (s\<lparr> s_tx_counter := n \<rparr>) (s_tx_counter s) t p pol r = (Ok d, r')"
    by (auto simp: seal_obf_def reserve_counters_def Let_def split: if_splits prod.splits)
  have wf: "session_wf (s\<lparr> s_tx_counter := n \<rparr>)"
    using assms(2) by (simp add: session_wf_def)
  let ?m = "max_framed (tag_len (s_algo s))"
  have len: "length d = 13 + pad_target (3 + length p) pol ?m + tag_len (s_algo s)"
    using seal_obf_core_length [OF assms(1) wf core] by simp
  have m: "?m + tag_len (s_algo s) = 1267"
    by (cases "s_algo s") (simp_all add: max_framed_def obf_consts)
  show ?thesis
    using len m pad_target_ge [of "3 + length p" pol ?m] pad_target_le [of "3 + length p" pol ?m]
    by auto
qed

theorem obf_datagram_size_witness:
  "\<exists>d a' r'. seal_obf toy_crypto (demo_session True) 1 [42] PadOff (\<lambda>_. 0) = (Ok d, a', r') \<and>
     length d \<le> 1280"
proof -
  obtain d a' r' where
    d: "seal_obf toy_crypto (demo_session True) 1 [42] PadOff (\<lambda>_. 0) = (Ok d, a', r')"
    by (rule demo_seal)
  have "session_wf (demo_session True)" by (simp add: demo_session)
  from obf_datagram_size [OF toy_crypto_ok this d] d show ?thesis
    by (auto simp: demo_session)
qed

end
