(* ===== verification/Session_Manager.thy ===== *)
theory Session_Manager
  imports Session
begin

text \<open>
  \<open>SessionManager\<close> of \<open>src/session.rs\<close>: the current session, the previous one during a rekey
  overlap, and the rekey claim with its storm protection. \<open>needs_rekey\<close> is split into the
  reads that decide (\<open>sm_rekey_due\<close>) and the compare-and-swap that claims (\<open>sm_rekey_claim\<close>),
  because several tasks run it at once; \<open>rekey_step\<close> interleaves them. A session shared
  through an \<open>Arc\<close> is a value here: a caller that pins one only reads its immutable keys.
\<close>

definition MIN_REKEY_INTERVAL :: duration where
  "MIN_REKEY_INTERVAL = secs 5"

record manager =
  m_current :: session
  m_previous :: "session option"
  m_threshold :: u64
  m_in_progress :: u64
  m_last_attempt :: instant

definition sm_new :: "session \<Rightarrow> instant \<Rightarrow> manager" where
  "sm_new initial now =
     \<lparr> m_current = initial, m_previous = None,
       m_threshold = s_rekey_at initial div 4 * 3, m_in_progress = 0,
       m_last_attempt = now - int (MIN_REKEY_INTERVAL * 2) \<rparr>"

definition sm_session_id :: "manager \<Rightarrow> u32" where
  "sm_session_id m = s_id (m_current m)"

definition sm_encrypt :: "crypto_lib \<Rightarrow> manager \<Rightarrow> bytes \<Rightarrow> (u32 \<times> u64 \<times> bytes) result \<times> manager" where
  "sm_encrypt C m plaintext =
     (let (r, sess) = encrypt C (m_current m) plaintext
      in (rbind r (\<lambda>(counter, ct). Ok (s_id sess, counter, ct)), m\<lparr> m_current := sess \<rparr>))"

definition sm_reserve :: "manager \<Rightarrow> u64 \<Rightarrow> (session \<times> u64) result \<times> manager" where
  "sm_reserve m n =
     (let (r, sess) = reserve_counters (m_current m) n
      in (rbind r (\<lambda>first. Ok (sess, first)), m\<lparr> m_current := sess \<rparr>))"

definition sm_decrypt :: "crypto_lib \<Rightarrow> manager \<Rightarrow> u32 \<Rightarrow> u64 \<Rightarrow> bytes \<Rightarrow> bytes result \<times> manager" where
  "sm_decrypt C m session_id counter ct =
     (if s_id (m_current m) = session_id
      then let (r, s) = decrypt C (m_current m) counter ct in (r, m\<lparr> m_current := s \<rparr>)
      else case m_previous m of
          Some p \<Rightarrow>
            if s_id p = session_id
            then let (r, s) = decrypt C p counter ct in (r, m\<lparr> m_previous := Some s \<rparr>)
            else (Err DecryptionFailed, m)
        | None \<Rightarrow> (Err DecryptionFailed, m))"

definition sm_seal_obf ::
  "crypto_lib \<Rightarrow> manager \<Rightarrow> byte \<Rightarrow> bytes \<Rightarrow> pad_policy \<Rightarrow> rng \<Rightarrow> bytes result \<times> manager \<times> rng" where
  "sm_seal_obf C m inner_type plaintext policy r =
     (let (d, sess, r') = seal_obf C (m_current m) inner_type plaintext policy r
      in (d, m\<lparr> m_current := sess \<rparr>, r'))"

definition sm_seal_cover ::
  "crypto_lib \<Rightarrow> manager \<Rightarrow> pad_policy \<Rightarrow> rng \<Rightarrow> bytes result \<times> manager \<times> rng" where
  "sm_seal_cover C m policy r =
     (let (d, sess, r') = seal_obf C (m_current m) (ft_as_u8 FT_Padding) [] policy r
      in (d, m\<lparr> m_current := sess \<rparr>, r'))"

definition sm_decrypt_obf ::
  "crypto_lib \<Rightarrow> manager \<Rightarrow> bytes \<Rightarrow> (frame_type \<times> bytes) result \<times> manager" where
  "sm_decrypt_obf C m datagram =
     (let (r, cur) = try_open_obf C (m_current m) datagram;
          m1 = m\<lparr> m_current := cur \<rparr>
      in case r of
        Err e \<Rightarrow> (Err e, m1)
      | Ok (Some res) \<Rightarrow> (Ok res, m1)
      | Ok None \<Rightarrow>
          (case m_previous m1 of
             None \<Rightarrow> (Err DecryptionFailed, m1)
           | Some p \<Rightarrow>
               let (r', p') = try_open_obf C p datagram;
                   m2 = m1\<lparr> m_previous := Some p' \<rparr>
               in case r' of
                 Err e \<Rightarrow> (Err e, m2)
               | Ok (Some res) \<Rightarrow> (Ok res, m2)
               | Ok None \<Rightarrow> (Err DecryptionFailed, m2)))"

section \<open>Rekey claim\<close>

definition sm_rekey_due :: "manager \<Rightarrow> instant \<Rightarrow> bool" where
  "sm_rekey_due m now \<longleftrightarrow>
     \<not> (s_tx_counter (m_current m) < m_threshold m) \<and>
     \<not> (duration_since now (m_last_attempt m) < MIN_REKEY_INTERVAL)"

definition sm_rekey_claim :: "manager \<Rightarrow> instant \<Rightarrow> bool \<times> manager" where
  "sm_rekey_claim m now =
     (if m_in_progress m = 0 then (True, m\<lparr> m_in_progress := 1, m_last_attempt := now \<rparr>)
      else (False, m))"

definition sm_needs_rekey :: "manager \<Rightarrow> instant \<Rightarrow> bool \<times> manager" where
  "sm_needs_rekey m now = (if sm_rekey_due m now then sm_rekey_claim m now else (False, m))"

definition sm_abort_rekey :: "manager \<Rightarrow> manager" where
  "sm_abort_rekey m = m\<lparr> m_in_progress := 0 \<rparr>"

definition sm_install :: "manager \<Rightarrow> session \<Rightarrow> manager" where
  "sm_install m new_session =
     m\<lparr> m_current := new_session, m_previous := Some (m_current m), m_in_progress := 0 \<rparr>"

definition sm_retire_previous :: "manager \<Rightarrow> manager" where
  "sm_retire_previous m = m\<lparr> m_previous := None \<rparr>"

section \<open>Interleaved claims\<close>

text \<open>
  \<open>rr_due\<close> counts the tasks that found a rekey due and have not tried to claim yet,
  \<open>rr_holders\<close> the tasks that won the claim and have not released it by \<open>abort_rekey\<close> or
  \<open>install_new_session\<close>. Data traffic runs in between.
\<close>

record rekey_run =
  rr_mgr :: manager
  rr_due :: nat
  rr_holders :: nat

inductive rekey_step :: "crypto_lib \<Rightarrow> rekey_run \<Rightarrow> rekey_run \<Rightarrow> bool" for C where
  due: "sm_rekey_due (rr_mgr st) now \<Longrightarrow> rekey_step C st (st\<lparr> rr_due := Suc (rr_due st) \<rparr>)"
| won: "rr_due st = Suc n \<Longrightarrow> sm_rekey_claim (rr_mgr st) now = (True, m') \<Longrightarrow>
    rekey_step C st (st\<lparr> rr_mgr := m', rr_due := n, rr_holders := Suc (rr_holders st) \<rparr>)"
| lost: "rr_due st = Suc n \<Longrightarrow> sm_rekey_claim (rr_mgr st) now = (False, m') \<Longrightarrow>
    rekey_step C st (st\<lparr> rr_mgr := m', rr_due := n \<rparr>)"
| abort: "rr_holders st = Suc n \<Longrightarrow>
    rekey_step C st (st\<lparr> rr_mgr := sm_abort_rekey (rr_mgr st), rr_holders := n \<rparr>)"
| install: "rr_holders st = Suc n \<Longrightarrow>
    rekey_step C st (st\<lparr> rr_mgr := sm_install (rr_mgr st) s, rr_holders := n \<rparr>)"
| retire: "rekey_step C st (st\<lparr> rr_mgr := sm_retire_previous (rr_mgr st) \<rparr>)"
| send: "sm_seal_obf C (rr_mgr st) t p pol r = (d, m', r') \<Longrightarrow>
    rekey_step C st (st\<lparr> rr_mgr := m' \<rparr>)"
| batch: "sm_reserve (rr_mgr st) n = (x, m') \<Longrightarrow> rekey_step C st (st\<lparr> rr_mgr := m' \<rparr>)"
| receive: "sm_decrypt_obf C (rr_mgr st) d = (x, m') \<Longrightarrow> rekey_step C st (st\<lparr> rr_mgr := m' \<rparr>)"

inductive_cases rekey_stepE: "rekey_step C st st'"

definition rekey_inv :: "rekey_run \<Rightarrow> bool" where
  "rekey_inv st \<longleftrightarrow>
     rr_holders st \<le> 1 \<and> m_in_progress (rr_mgr st) = (if rr_holders st = 1 then 1 else 0)"

lemma sm_traffic_claim:
  "sm_seal_obf C m t p pol r = (d, m', r') \<Longrightarrow> m_in_progress m' = m_in_progress m"
  "sm_reserve m n = (x, m') \<Longrightarrow> m_in_progress m' = m_in_progress m"
  "sm_decrypt_obf C m dg = (y, m') \<Longrightarrow> m_in_progress m' = m_in_progress m"
  by (auto simp: sm_seal_obf_def sm_reserve_def sm_decrypt_obf_def Let_def
      split: prod.splits sum.splits option.splits)

lemma rekey_step_inv: "rekey_step C st st' \<Longrightarrow> rekey_inv st \<Longrightarrow> rekey_inv st'"
  by (induction rule: rekey_step.induct)
    (auto simp: rekey_inv_def sm_rekey_claim_def sm_abort_rekey_def sm_install_def
      sm_retire_previous_def sm_traffic_claim split: if_splits)

lemma rekey_steps_inv: "(rekey_step C)\<^sup>*\<^sup>* st st' \<Longrightarrow> rekey_inv st \<Longrightarrow> rekey_inv st'"
  by (induction rule: rtranclp_induct) (auto intro: rekey_step_inv)

section \<open>Lemmas\<close>

lemma sm_decrypt_obf_current:
  "try_open_obf C (m_current m) d = (Ok (Some x), s) \<Longrightarrow>
    sm_decrypt_obf C m d = (Ok x, m\<lparr> m_current := s \<rparr>)"
  by (simp add: sm_decrypt_obf_def)

lemma sm_decrypt_obf_previous:
  "try_open_obf C (m_current m) d = (Ok None, s) \<Longrightarrow> m_previous m = Some p \<Longrightarrow>
    try_open_obf C p d = (Ok (Some x), p') \<Longrightarrow>
    sm_decrypt_obf C m d = (Ok x, m\<lparr> m_current := s, m_previous := Some p' \<rparr>)"
  by (simp add: sm_decrypt_obf_def)

lemma sm_decrypt_obf_none:
  "try_open_obf C (m_current m) d = (Ok None, s) \<Longrightarrow> m_previous m = None \<Longrightarrow>
    sm_decrypt_obf C m d = (Err DecryptionFailed, m\<lparr> m_current := s \<rparr>)"
  by (simp add: sm_decrypt_obf_def)

section \<open>Properties\<close>

text \<open>The rekey claim is exclusive. However many tasks find a rekey due and race for it, and
  whatever traffic, installs, aborts and retirements happen in between, at most one task holds
  the claim.\<close>

theorem rekey_claim_exclusive:
  assumes "(rekey_step C)\<^sup>*\<^sup>* \<lparr> rr_mgr = sm_new s now, rr_due = 0, rr_holders = 0 \<rparr> st"
  shows "rr_holders st \<le> 1 \<and> m_in_progress (rr_mgr st) = of_nat (rr_holders st)"
proof -
  have "rekey_inv \<lparr> rr_mgr = sm_new s now, rr_due = 0, rr_holders = 0 \<rparr>"
    by (simp add: rekey_inv_def sm_new_def)
  from rekey_steps_inv [OF assms this] show ?thesis
    by (auto simp: rekey_inv_def le_Suc_eq split: if_splits)
qed

theorem rekey_claim_exclusive_witness:
  "rr_holders (\<lparr> rr_mgr = sm_retire_previous (sm_new (demo_session True) 0), rr_due = 0, rr_holders = 0 \<rparr>) \<le> 1"
proof -
  have "rekey_step toy_crypto \<lparr> rr_mgr = sm_new (demo_session True) 0, rr_due = 0, rr_holders = 0 \<rparr>
    \<lparr> rr_mgr = sm_retire_previous (sm_new (demo_session True) 0), rr_due = 0, rr_holders = 0 \<rparr>"
    using rekey_step.retire [of toy_crypto
      "\<lparr> rr_mgr = sm_new (demo_session True) 0, rr_due = 0, rr_holders = 0 \<rparr>"] by simp
  then show ?thesis
    using rekey_claim_exclusive [OF r_into_rtranclp] by blast
qed

text \<open>Storm protection and release. A claim is only won when the counter has reached three
  quarters of the limit; after it, whether the attempt is aborted or still runs, no claim is won
  for five seconds, and while it runs none is won at all.\<close>

theorem rekey_storm_protection:
  assumes "sm_needs_rekey m now = (True, m')" "later < now + 5000000000"
  shows "m_threshold m \<le> s_tx_counter (m_current m) \<and>
    fst (sm_needs_rekey m' t) = False \<and>
    fst (sm_needs_rekey (sm_abort_rekey m') later) = False \<and>
    fst (sm_needs_rekey (sm_install m' s) later) = False"
  using assms
  by (auto simp: sm_needs_rekey_def sm_rekey_due_def sm_rekey_claim_def sm_abort_rekey_def
      sm_install_def duration_since_def MIN_REKEY_INTERVAL_def secs_def word_le_nat_alt
      word_less_nat_alt split: if_splits)

theorem rekey_storm_protection_witness:
  "let m = (sm_new (demo_session True) 0)\<lparr> m_threshold := 0 \<rparr>
   in fst (sm_needs_rekey m 0) \<and>
      fst (sm_needs_rekey (sm_abort_rekey (snd (sm_needs_rekey m 0))) 4000000000) = False"
proof -
  let ?m = "(sm_new (demo_session True) 0)\<lparr> m_threshold := 0 \<rparr>"
  have claim: "sm_needs_rekey ?m 0 = (True, ?m\<lparr> m_in_progress := 1, m_last_attempt := 0 \<rparr>)"
    by (simp add: sm_needs_rekey_def sm_rekey_due_def sm_rekey_claim_def sm_new_def
        duration_since_def MIN_REKEY_INTERVAL_def secs_def)
  show ?thesis
    using rekey_storm_protection [OF claim, of 4000000000] claim by (simp add: Let_def)
qed

text \<open>No packet is lost by a rekey. A datagram sealed on the old session opens before the new
  session is installed and also after it, through the previous session; once the previous
  session is retired it is rejected.\<close>

theorem delivery_across_rekey:
  assumes "crypto_ok C" "paired a (m_current m)" "session_wf a"
    "window_rel (s_replay (m_current m)) S" "fresh S (unat (s_tx_counter a))"
    "length pt < 2 ^ 16" "ft_from_u8 t = Ok ft" "seal_obf C a t pt pol r = (Ok d, a', r')"
    "fst (try_open_obf C new d) = Ok None"
  shows "fst (sm_decrypt_obf C m d) = Ok (ft, pt) \<and>
    fst (sm_decrypt_obf C (sm_install m new) d) = Ok (ft, pt) \<and>
    fst (sm_decrypt_obf C (sm_retire_previous (sm_install m new)) d) = Err DecryptionFailed"
proof -
  from assms(8) obtain n where
    core: "seal_obf_core C (a\<lparr> s_tx_counter := n \<rparr>) (s_tx_counter a) t pt pol r = (Ok d, r')"
    by (auto simp: seal_obf_def reserve_counters_def Let_def split: if_splits prod.splits)
  have "paired (a\<lparr> s_tx_counter := n \<rparr>) (m_current m)" "session_wf (a\<lparr> s_tx_counter := n \<rparr>)"
    using assms(2,3) by (simp_all add: paired_def session_wf_def)
  from try_open_sealed [OF assms(1) this assms(4,5,6) core assms(7)]
  have old: "try_open_obf C (m_current m) d = (Ok (Some (ft, pt)),
      (m_current m)\<lparr> s_replay := rw_commit (s_replay (m_current m)) (s_tx_counter a) \<rparr>)" .
  obtain new' where new: "try_open_obf C new d = (Ok None, new')"
    using assms(9) by (cases "try_open_obf C new d") auto
  show ?thesis
    using new old by (simp add: sm_decrypt_obf_def sm_install_def sm_retire_previous_def)
qed

theorem delivery_across_rekey_witness:
  "\<exists>d a' r'. seal_obf toy_crypto (demo_session True) 1 [42] PadOff (\<lambda>_. 0) = (Ok d, a', r') \<and>
     fst (sm_decrypt_obf toy_crypto
       (sm_install (sm_new (demo_session False) 0) ((demo_session False)\<lparr> s_id := 8 \<rparr>)) d) =
       Ok (FT_Data, [42])"
proof -
  obtain d a' r' where
    d: "seal_obf toy_crypto (demo_session True) 1 [42] PadOff (\<lambda>_. 0) = (Ok d, a', r')"
    by (rule demo_seal)
  have "try_open_obf toy_crypto (demo_session False) d =
      (Ok (Some (FT_Data, [42])),
       (demo_session False)\<lparr> s_replay := rw_commit (s_replay (demo_session False)) 0 \<rparr>)"
  proof -
    obtain n where core: "seal_obf_core toy_crypto ((demo_session True)\<lparr> s_tx_counter := n \<rparr>) 0 1 [42]
        PadOff (\<lambda>_. 0) = (Ok d, r')"
      using d by (auto simp: seal_obf_def demo_reserve split: prod.splits)
    show ?thesis
      by (rule try_open_sealed [OF toy_crypto_ok _ _ demo_fresh(1) _ _ core])
        (use demo_paired demo_session in \<open>simp_all add: paired_def session_wf_def fresh_def ft_from_u8_def\<close>)
  qed
  moreover have "s_id (demo_session False) = 7"
    using from_handshake_total [OF toy_crypto_ok, of 7 "replicate 32 1" False ChaCha20Poly1305]
    by (metis demo_session_def sum.sel(2))
  ultimately have "fst (try_open_obf toy_crypto ((demo_session False)\<lparr> s_id := 8 \<rparr>) d) = Ok None"
    by (auto simp: try_open_obf_def split: option.splits if_splits prod.splits sum.splits)
  then have "fst (sm_decrypt_obf toy_crypto (sm_new (demo_session False) 0) d) = Ok (FT_Data, [42]) \<and>
    fst (sm_decrypt_obf toy_crypto
       (sm_install (sm_new (demo_session False) 0) ((demo_session False)\<lparr> s_id := 8 \<rparr>)) d) =
       Ok (FT_Data, [42]) \<and>
    fst (sm_decrypt_obf toy_crypto (sm_retire_previous
       (sm_install (sm_new (demo_session False) 0) ((demo_session False)\<lparr> s_id := 8 \<rparr>))) d) =
       Err DecryptionFailed"
    by (intro delivery_across_rekey [OF toy_crypto_ok _ _ _ demo_fresh(2) _ _ d])
      (simp_all add: sm_new_def demo_paired demo_session window_rel_new ft_from_u8_def)
  with d show ?thesis by blast
qed

text \<open>The manager asks for a rekey well before the limit: a fresh session's threshold is
  \<open>3 * 2 ^ 46\<close> of \<open>2 ^ 48\<close> counters, so \<open>2 ^ 46\<close> counters are left for the handshake.\<close>

theorem rekey_threshold_margin:
  assumes "crypto_ok C" "from_handshake_with_algo C i sh ini algo = Ok s"
  shows "unat (m_threshold (sm_new s now)) + 2 ^ 46 = unat (s_rekey_at s)"
  using from_handshake_total [OF assms(1), of i sh ini algo] assms(2)
  by (force simp: sm_new_def)

theorem rekey_threshold_margin_witness:
  "unat (m_threshold (sm_new (demo_session True) 0)) + 2 ^ 46 = unat (s_rekey_at (demo_session True))"
proof -
  obtain s where "from_handshake_with_algo toy_crypto 7 (replicate 32 1) True ChaCha20Poly1305 = Ok s"
    by (rule from_handshake_total [OF toy_crypto_ok])
  then show ?thesis
    using rekey_threshold_margin [OF toy_crypto_ok] by (simp add: demo_session_def)
qed

end
