(* ===== verification/Engine.thy ===== *)
theory Engine
  imports Session_Manager Frame
begin

text \<open>
  The crypto engine of \<open>src/engine.rs\<close>, the one place where outbound traffic is sealed. The shared
  \<open>SessionManager\<close> is a field of the engine and is returned updated. A batch that rayon runs in
  parallel is a function of the order in which its packets happen to run (\<open>ord\<close>, a list of
  indices); what it returns is in input order, as \<open>collect\<close> guarantees. Packets sealed against
  reserved counters are independent, so each has a random stream of its own (\<open>rs i\<close>). Of several
  failing packets the model returns the error of the first one.
\<close>

record engine =
  e_sessions :: manager
  e_obf :: bool
  e_pad :: pad_policy

definition engine_new :: "manager \<Rightarrow> bool \<Rightarrow> pad_policy \<Rightarrow> engine" where
  "engine_new m obf pol = \<lparr> e_sessions = m, e_obf = obf, e_pad = pol \<rparr>"

definition cover_datagram :: "crypto_lib \<Rightarrow> engine \<Rightarrow> rng \<Rightarrow> bytes result \<times> engine \<times> rng" where
  "cover_datagram C e r =
     (let (d, m, r') = sm_seal_cover C (e_sessions e) PadFull r in (d, e\<lparr> e_sessions := m \<rparr>, r'))"

definition seal_data_full :: "crypto_lib \<Rightarrow> engine \<Rightarrow> bytes \<Rightarrow> rng \<Rightarrow> bytes result \<times> engine \<times> rng" where
  "seal_data_full C e plaintext r =
     (let (d, m, r') = sm_seal_obf C (e_sessions e) (ft_as_u8 FT_Data) plaintext PadFull r
      in (d, e\<lparr> e_sessions := m \<rparr>, r'))"

definition seal_one :: "crypto_lib \<Rightarrow> engine \<Rightarrow> bytes \<Rightarrow> rng \<Rightarrow> bytes result \<times> engine \<times> rng" where
  "seal_one C e plaintext r =
     (if e_obf e
      then let (d, m, r') = sm_seal_obf C (e_sessions e) (ft_as_u8 FT_Data) plaintext (e_pad e) r
           in (d, e\<lparr> e_sessions := m \<rparr>, r')
      else let (x, m) = sm_encrypt C (e_sessions e) plaintext
           in (rbind x (\<lambda>(sid, counter, ct). fr_encode (new_data sid counter ct)),
               e\<lparr> e_sessions := m \<rparr>, r))"

fun encrypt_batch :: "crypto_lib \<Rightarrow> engine \<Rightarrow> bytes list \<Rightarrow> rng \<Rightarrow> bytes list result \<times> engine \<times> rng" where
  "encrypt_batch C e [] r = (Ok [], e, r)"
| "encrypt_batch C e (pkt # batch) r =
     (case seal_one C e pkt r of
        (Err x, e', r') \<Rightarrow> (Err x, e', r')
      | (Ok d, e', r') \<Rightarrow>
          let (ds, e'', r'') = encrypt_batch C e' batch r' in (rbind ds (\<lambda>ds. Ok (d # ds)), e'', r''))"

text \<open>A shared state that the items of a batch update in the order they run; the results land at
  the items' own indices.\<close>

fun run_order :: "('i \<Rightarrow> 's \<Rightarrow> 'o \<times> 's) \<Rightarrow> 'i list \<Rightarrow> nat list \<Rightarrow> 'o list \<Rightarrow> 's \<Rightarrow> 'o list \<times> 's" where
  "run_order f items [] outs s = (outs, s)"
| "run_order f items (i # ord) outs s =
     (let (x, s') = f (items ! i) s in run_order f items ord (outs[i := x]) s')"

definition encrypt_batch_par ::
  "crypto_lib \<Rightarrow> engine \<Rightarrow> bytes list \<Rightarrow> nat list \<Rightarrow> rng \<Rightarrow> bytes list result \<times> engine \<times> rng" where
  "encrypt_batch_par C e batch ord r =
     (let (outs, e', r') =
        run_order (\<lambda>pkt (e, r). seal_one C e pkt r) batch ord (replicate (length batch) (Err ChannelClosed)) (e, r)
      in (collect_results outs, e', r'))"

definition engine_reserve :: "engine \<Rightarrow> u64 \<Rightarrow> (session \<times> u64) result \<times> engine" where
  "engine_reserve e n = (let (x, m) = sm_reserve (e_sessions e) n in (x, e\<lparr> e_sessions := m \<rparr>))"

definition seal_packet_with_counter ::
  "crypto_lib \<Rightarrow> engine \<Rightarrow> session \<Rightarrow> u64 \<Rightarrow> bytes \<Rightarrow> rng \<Rightarrow> bytes result" where
  "seal_packet_with_counter C e sess counter plaintext r =
     (if e_obf e
      then fst (seal_obf_with_counter C sess counter (ft_as_u8 FT_Data) plaintext (e_pad e) r)
      else rbind (seal_with_counter C sess counter plaintext) (\<lambda>ct.
           fr_encode (new_data (s_id sess) counter ct)))"

definition seal_batch_with_counters ::
  "crypto_lib \<Rightarrow> engine \<Rightarrow> session \<Rightarrow> u64 \<Rightarrow> bytes list \<Rightarrow> (nat \<Rightarrow> rng) \<Rightarrow> bytes list result" where
  "seal_batch_with_counters C e sess base_counter batch rs =
     collect_results (map (\<lambda>(i, pkt). seal_packet_with_counter C e sess (base_counter + of_nat i) pkt (rs i))
       (enumerate 0 batch))"

definition decrypt_batch_par ::
  "crypto_lib \<Rightarrow> engine \<Rightarrow> ('a \<times> bytes) list \<Rightarrow> nat list \<Rightarrow>
    ('a \<times> bytes \<times> (frame_type \<times> bytes) result) list \<times> engine" where
  "decrypt_batch_par C e datagrams ord =
     (let (outs, m) =
        run_order (\<lambda>(src, dg) m. sm_decrypt_obf C m dg) datagrams ord
          (replicate (length datagrams) (Err ChannelClosed)) (e_sessions e)
      in (map (\<lambda>((src, dg), x). (src, dg, x)) (zip datagrams outs), e\<lparr> e_sessions := m \<rparr>))"


section \<open>Lemmas\<close>

text \<open>When every item of a parallel batch has an output that does not depend on when it runs, the
  batch returns these outputs in input order, whatever the order of execution.\<close>

lemma run_order_outs:
  assumes step: "\<And>s D i. I s D \<Longrightarrow> i < n \<Longrightarrow> i \<notin> D \<Longrightarrow>
      \<exists>s'. f (items ! i) s = (out i, s') \<and> I s' (insert i D)"
    and "I s D" "distinct ord" "set ord \<inter> D = {}" "set ord \<subseteq> {0..<n}" "length outs = n"
  shows "\<exists>outs' s'. run_order f items ord outs s = (outs', s') \<and> I s' (D \<union> set ord) \<and>
    length outs' = n \<and> (\<forall>i<n. outs' ! i = (if i \<in> set ord then out i else outs ! i))"
  using assms(2-)
proof (induction ord arbitrary: s D outs)
  case Nil
  then show ?case by simp
next
  case (Cons i ord)
  then have i: "i < n" "i \<notin> D" by auto
  from step [OF Cons.prems(1) this] obtain s' where
    s': "f (items ! i) s = (out i, s')" "I s' (insert i D)" by blast
  have "\<exists>outs' s''. run_order f items ord (outs[i := out i]) s' = (outs', s'') \<and>
      I s'' (insert i D \<union> set ord) \<and> length outs' = n \<and>
      (\<forall>k<n. outs' ! k = (if k \<in> set ord then out k else outs[i := out i] ! k))"
    by (rule Cons.IH) (use Cons.prems s' in auto)
  then obtain outs' s'' where r: "run_order f items ord (outs[i := out i]) s' = (outs', s'')"
    "I s'' (insert i D \<union> set ord)" "length outs' = n"
    "\<forall>k<n. outs' ! k = (if k \<in> set ord then out k else outs[i := out i] ! k)" by blast
  have "\<forall>k<n. outs' ! k = (if k \<in> set (i # ord) then out k else outs ! k)"
    using r(4) Cons.prems(5) i by (auto simp: nth_list_update)
  with r s' show ?case by simp
qed

lemma run_order_all:
  assumes "\<And>s D i. I s D \<Longrightarrow> i < n \<Longrightarrow> i \<notin> D \<Longrightarrow>
      \<exists>s'. f (items ! i) s = (out i, s') \<and> I s' (insert i D)"
    and "I s {}" "distinct ord" "set ord = {0..<n}" "length outs = n"
  shows "\<exists>s'. run_order f items ord outs s = (map out [0..<n], s') \<and> I s' {0..<n}"
proof -
  obtain outs' s' where "run_order f items ord outs s = (outs', s')" "I s' {0..<n}"
    "length outs' = n" "\<forall>i<n. outs' ! i = out i"
    using run_order_outs [where I = I and n = n and f = f and items = items and D = "{}"
        and ord = ord and outs = outs, OF assms(1,2,3)] assms(4,5) by auto
  then show ?thesis by (auto intro!: nth_equalityI)
qed

lemma reserve_OkD:
  assumes "sm_reserve m n = (Ok (sess, base), m')"
  shows "base = s_tx_counter (m_current m) \<and>
    sess = (m_current m)\<lparr> s_tx_counter := base + n \<rparr> \<and> m' = m\<lparr> m_current := sess \<rparr> \<and>
    unat base + (unat n - 1) < unat (s_rekey_at (m_current m))"
proof -
  have lim: "\<not> s_rekey_at (m_current m) \<le> sat_add (s_tx_counter (m_current m)) (sat_sub n 1)"
    using assms by (auto simp: sm_reserve_def reserve_counters_def Let_def split: if_splits)
  have "min (unat (s_tx_counter (m_current m)) + (unat n - 1)) (2 ^ 64 - 1) < unat (s_rekey_at (m_current m))"
    using lim by (simp add: word_le_nat_alt unat_sat_add unat_sat_sub not_le min_less_iff_disj)
  moreover have "unat (s_rekey_at (m_current m)) < 2 ^ 64"
    using unat_word_less [of "s_rekey_at (m_current m)"] by simp
  ultimately show ?thesis
    using assms by (auto simp: sm_reserve_def reserve_counters_def Let_def split: if_splits)
qed

lemma seal_batch_nth:
  assumes "seal_batch_with_counters C e sess base batch rs = Ok ds"
  shows "length ds = length batch \<and>
    (\<forall>i<length batch. seal_packet_with_counter C e sess (base + of_nat i) (batch ! i) (rs i) = Ok (ds ! i))"
  using collect_results_OkD [OF assms [unfolded seal_batch_with_counters_def]]
  by (auto simp: nth_enumerate_eq)

text \<open>The reserved counters of a batch, as the receiver's window sees them.\<close>

lemma batch_counter_fresh:
  assumes "\<forall>x\<in>S. x < b" "J \<subseteq> {0..<2048}" "j \<notin> J"
  shows "fresh (S \<union> (\<lambda>i. b + i) ` J) (b + j)"
  using assms by (fastforce simp: fresh_def)

text \<open>What one sequential seal does: it is the seal against the next counter.\<close>

definition set_tx :: "engine \<Rightarrow> u64 \<Rightarrow> engine" where
  "set_tx e c = e\<lparr> e_sessions := (e_sessions e)\<lparr> m_current := (m_current (e_sessions e))\<lparr> s_tx_counter := c \<rparr> \<rparr> \<rparr>"

lemma set_tx_simps [simp]:
  "m_current (e_sessions (set_tx e c)) = (m_current (e_sessions e))\<lparr> s_tx_counter := c \<rparr>"
  "e_obf (set_tx e c) = e_obf e" "e_pad (set_tx e c) = e_pad e" "set_tx (set_tx e c) c' = set_tx e c'"
  by (simp_all add: set_tx_def)

lemma seal_tx_counter [simp]:
  "seal_with_counter C (s\<lparr> s_tx_counter := c \<rparr>) = seal_with_counter C s"
  "seal_obf_core C (s\<lparr> s_tx_counter := c \<rparr>) = seal_obf_core C s"
  by (auto simp: seal_obf_core_def seal_with_counter_def make_nonce_def data_aad_def Let_def fun_eq_iff)

lemma seal_packet_set_tx [simp]:
  "seal_packet_with_counter C (set_tx e c) s = seal_packet_with_counter C e s"
  "seal_packet_with_counter C e (s\<lparr> s_tx_counter := c \<rparr>) = seal_packet_with_counter C e s"
  by (auto simp: seal_packet_with_counter_def seal_obf_with_counter_def fun_eq_iff)

lemma reserve_below_limit:
  assumes "unat (s_tx_counter (m_current (e_sessions e))) + (n - 1) < unat (s_rekey_at (m_current (e_sessions e)))"
    "n < 2 ^ 64" "e' = set_tx e (s_tx_counter (m_current (e_sessions e)) + of_nat n)"
  shows "engine_reserve e (of_nat n) =
    (Ok ((m_current (e_sessions e))\<lparr> s_tx_counter := s_tx_counter (m_current (e_sessions e)) + of_nat n \<rparr>,
         s_tx_counter (m_current (e_sessions e))), e')"
proof -
  let ?a = "m_current (e_sessions e)"
  have "unat (of_nat n :: u64) = n" using assms(2) by (simp add: unat_of_nat)
  then have "\<not> s_rekey_at ?a \<le> sat_add (s_tx_counter ?a) (sat_sub (of_nat n) 1)"
    using assms(1) by (simp add: word_le_nat_alt unat_sat_add unat_sat_sub not_le min_less_iff_disj)
  with assms(3) show ?thesis
    by (simp add: engine_reserve_def sm_reserve_def reserve_counters_def set_tx_def Let_def)
qed

lemma seal_one_OkD:
  assumes "seal_one C e pt r = (Ok d, e', r')"
  shows "seal_packet_with_counter C e (m_current (e_sessions e)) (s_tx_counter (m_current (e_sessions e))) pt r = Ok d \<and>
    e' = set_tx e (s_tx_counter (m_current (e_sessions e)) + 1) \<and>
    unat (s_tx_counter (m_current (e_sessions e))) < unat (s_rekey_at (m_current (e_sessions e)))"
proof -
  let ?a = "m_current (e_sessions e)" and ?c = "s_tx_counter (m_current (e_sessions e))"
  have "sat_add ?c (sat_sub 1 1) = ?c"
    using unat_word_less [of ?c] by (simp add: word_unat_eq_iff unat_sat_add unat_sat_sub)
  then have res: "reserve_counters ?a 1 =
      (if s_rekey_at ?a \<le> ?c then Err RekeyRequired else Ok ?c, ?a\<lparr> s_tx_counter := ?c + 1 \<rparr>)"
    by (simp add: reserve_counters_def Let_def)
  show ?thesis
    using assms
    by (auto simp: seal_one_def sm_seal_obf_def sm_encrypt_def seal_obf_def encrypt_def res Let_def
        seal_packet_with_counter_def seal_obf_with_counter_def set_tx_def rbind_eq_Ok not_le word_less_nat_alt
        split: if_splits prod.splits)
qed

lemma encrypt_batch_OkD:
  assumes "encrypt_batch C e batch r = (Ok ds, e', r')"
  shows "e' = set_tx e (s_tx_counter (m_current (e_sessions e)) + of_nat (length batch)) \<and>
    length ds = length batch \<and>
    (batch \<noteq> [] \<longrightarrow> unat (s_tx_counter (m_current (e_sessions e))) + (length batch - 1) <
       unat (s_rekey_at (m_current (e_sessions e)))) \<and>
    (\<exists>rs. \<forall>i<length batch. seal_packet_with_counter C e (m_current (e_sessions e))
       (s_tx_counter (m_current (e_sessions e)) + of_nat i) (batch ! i) (rs i) = Ok (ds ! i))"
  using assms
proof (induction batch arbitrary: e r ds)
  case Nil
  then show ?case by (simp add: set_tx_def)
next
  case (Cons pkt batch)
  let ?a = "m_current (e_sessions e)" and ?c = "s_tx_counter (m_current (e_sessions e))"
  from Cons.prems obtain d e1 r1 ds' where one: "seal_one C e pkt r = (Ok d, e1, r1)"
    and rest: "encrypt_batch C e1 batch r1 = (Ok ds', e', r')" and ds: "ds = d # ds'"
    by (auto simp: rbind_eq_Ok split: sum.splits prod.splits)
  from seal_one_OkD [OF one] have d: "seal_packet_with_counter C e ?a ?c pkt r = Ok d"
    and e1: "e1 = set_tx e (?c + 1)" and lim: "unat ?c < unat (s_rekey_at ?a)" by simp_all
  have c1: "unat (?c + 1) = unat ?c + 1"
    using lim unat_word_less [of "s_rekey_at ?a"] by (simp add: unat_word_ariths)
  from Cons.IH [OF rest] obtain rs where IH: "e' = set_tx e (?c + 1 + of_nat (length batch))"
    "length ds' = length batch"
    "batch \<noteq> [] \<longrightarrow> unat (?c + 1) + (length batch - 1) < unat (s_rekey_at ?a)"
    "\<forall>i<length batch. seal_packet_with_counter C e ?a (?c + 1 + of_nat i) (batch ! i) (rs i) = Ok (ds' ! i)"
    unfolding e1 by auto
  have "\<forall>i<length (pkt # batch). seal_packet_with_counter C e ?a (?c + of_nat i) ((pkt # batch) ! i)
      (case_nat r rs i) = Ok (ds ! i)"
    using d IH(4) by (auto simp: ds less_Suc_eq_0_disj add.assoc)
  moreover have "unat ?c + length batch < unat (s_rekey_at ?a)"
    using IH(3) lim c1 by (cases "batch = []") auto
  ultimately show ?case
    using IH(1,2) by (auto simp: ds add.assoc)
qed

text \<open>Frames sealed in a row: one after the other, each against the next counter.\<close>

definition sealed_run :: "crypto_lib \<Rightarrow> session \<Rightarrow> u64 \<Rightarrow> pad_policy \<Rightarrow> (frame_type \<times> bytes) list \<Rightarrow> bytes list \<Rightarrow> bool" where
  "sealed_run C a c pol frames ds \<longleftrightarrow> length ds = length frames \<and>
     (\<forall>i<length frames. \<exists>r r'. seal_obf_core C a (c + of_nat i) (ft_as_u8 (fst (frames ! i))) (snd (frames ! i)) pol r = (Ok (ds ! i), r'))"

lemma sealed_run_Nil [simp]: "sealed_run C a c pol [] ds \<longleftrightarrow> ds = []"
  by (simp add: sealed_run_def)

lemma sealed_run_Cons:
  assumes "seal_obf_core C a c (ft_as_u8 ft) pt pol r = (Ok d, r')" "sealed_run C a (c + 1) pol frames ds"
  shows "sealed_run C a c pol ((ft, pt) # frames) (d # ds)"
  using assms by (auto simp: sealed_run_def less_Suc_eq_0_disj add.assoc)

lemma sealed_run_tx [simp]: "sealed_run C (a\<lparr> s_tx_counter := n \<rparr>) c pol frames ds = sealed_run C a c pol frames ds"
  by (simp add: sealed_run_def)

text \<open>Some of the datagrams of a run, opened by the pool in any order, when others of it were opened before.\<close>

definition run_window :: "nat set \<Rightarrow> u64 \<Rightarrow> nat set \<Rightarrow> nat set" where
  "run_window S c J = S \<union> (\<lambda>i. unat c + i) ` J"

lemma sealed_run_opens:
  assumes "crypto_ok C" "paired a (m_current (e_sessions f))" "session_wf a" "sealed_run C a c pol frames ds"
    "window_rel (s_replay (m_current (e_sessions f))) (run_window S c J)" "\<forall>x\<in>S. x < unat c"
    "length frames \<le> 2048" "unat c + length frames \<le> 2 ^ 64" "\<forall>fr\<in>set frames. length (snd fr) < 2 ^ 16"
    "distinct js" "set js \<subseteq> {0..<length frames} - J" "J \<subseteq> {0..<length frames}"
    "distinct ord" "set ord = {0..<length js}"
  shows "\<exists>f'. decrypt_batch_par C f (map (\<lambda>j. (src, ds ! j)) js) ord = (map (\<lambda>j. (src, ds ! j, Ok (frames ! j))) js, f') \<and>
    window_rel (s_replay (m_current (e_sessions f'))) (run_window S c (J \<union> set js)) \<and> paired a (m_current (e_sessions f'))"
proof -
  let ?n = "length js" and ?m = "e_sessions f"
  let ?items = "map (\<lambda>j. (src, ds ! j)) js" and ?at = "\<lambda>D. (\<lambda>i. js ! i) ` D"
  define I where "I m D \<longleftrightarrow> window_rel (s_replay (m_current m)) (run_window S c (J \<union> ?at D)) \<and> D \<subseteq> {0..<?n} \<and>
      paired a (m_current m)" for m :: manager and D
  have step: "\<exists>m'. (\<lambda>(src, dg) m. sm_decrypt_obf C m dg) (?items ! i) m = (Ok (frames ! (js ! i)), m') \<and>
      I m' (insert i D)" if "I m D" "i < ?n" "i \<notin> D" for m D i
  proof -
    let ?j = "js ! i"
    have j: "?j < length frames" "?j \<notin> J" using that(2) assms(11) nth_mem by fastforce+
    have D: "D \<subseteq> {0..<?n}" using that(1) by (simp add: I_def)
    then have "?at D \<subseteq> set js" by auto
    then have used: "J \<union> ?at D \<subseteq> {0..<2048}" using assms(7,11,12) by fastforce
    have new: "?j \<notin> J \<union> ?at D"
    proof
      assume "?j \<in> J \<union> ?at D"
      with j(2) obtain k where "k \<in> D" "js ! k = ?j" by auto
      with D that(2,3) assms(10) show False by (auto simp: nth_eq_iff_index_eq)
    qed
    have cnt: "unat (c + of_nat ?j) = unat c + ?j"
      using assms(7,8) j by (simp add: unat_word_ariths unat_of_nat)
    have fr: "fresh (run_window S c (J \<union> ?at D)) (unat (c + of_nat ?j))"
      unfolding cnt run_window_def by (rule batch_counter_fresh [OF assms(6) used new])
    have w: "window_rel (s_replay (m_current m)) (run_window S c (J \<union> ?at D))" "paired a (m_current m)"
      using that(1) by (simp_all add: I_def)
    obtain r r' where sealed: "seal_obf_core C a (c + of_nat ?j) (ft_as_u8 (fst (frames ! ?j))) (snd (frames ! ?j)) pol r = (Ok (ds ! ?j), r')"
      using assms(4) j by (auto simp: sealed_run_def)
    have len: "length (snd (frames ! ?j)) < 2 ^ 16" using assms(9) j by simp
    have "try_open_obf C (m_current m) (ds ! ?j) = (Ok (Some (fst (frames ! ?j), snd (frames ! ?j))),
        (m_current m)\<lparr> s_replay := rw_commit (s_replay (m_current m)) (c + of_nat ?j) \<rparr>)"
      by (rule try_open_sealed [OF assms(1) w(2) assms(3) w(1) fr len sealed ft_from_as_u8])
    from sm_decrypt_obf_current [OF this]
    have "sm_decrypt_obf C m (ds ! ?j) = (Ok (frames ! ?j),
        m\<lparr> m_current := (m_current m)\<lparr> s_replay := rw_commit (s_replay (m_current m)) (c + of_nat ?j) \<rparr> \<rparr>)"
      by simp
    moreover have "insert (unat (c + of_nat ?j)) (run_window S c (J \<union> ?at D)) = run_window S c (J \<union> ?at (insert i D))"
      by (auto simp: run_window_def cnt)
    ultimately show ?thesis
      using rw.commit_ok [OF w(1) fr] w(2) that by (auto simp: I_def paired_def)
  qed
  have start: "I ?m {}" using assms(2,5) by (simp add: I_def)
  from run_order_all [where f = "\<lambda>(src, dg) m. sm_decrypt_obf C m dg" and items = ?items and n = ?n
      and out = "\<lambda>i. Ok (frames ! (js ! i))" and outs = "replicate ?n (Err ChannelClosed)",
      OF step start assms(13,14)]
  obtain m' where run: "run_order (\<lambda>(src, dg) m. sm_decrypt_obf C m dg) ?items ord
      (replicate ?n (Err ChannelClosed)) ?m = (map (\<lambda>i. Ok (frames ! (js ! i))) [0..<?n], m')" "I m' {0..<?n}"
    by auto
  have "?at {0..<?n} = set js" by (auto simp: set_conv_nth image_iff)
  with run show ?thesis
    by (simp add: decrypt_batch_par_def I_def) (auto intro!: nth_equalityI)
qed

lemma sealed_run_opens_all:
  assumes "crypto_ok C" "paired a (m_current (e_sessions f))" "session_wf a" "sealed_run C a c pol frames ds"
    "window_rel (s_replay (m_current (e_sessions f))) S" "\<forall>x\<in>S. x < unat c"
    "length frames \<le> 2048" "unat c + length frames \<le> 2 ^ 64" "\<forall>fr\<in>set frames. length (snd fr) < 2 ^ 16"
    "distinct ord" "set ord = {0..<length frames}"
  shows "fst (decrypt_batch_par C f (map (Pair src) ds) ord) = map (\<lambda>(d, fr). (src, d, Ok fr)) (zip ds frames)"
proof -
  have n: "length ds = length frames" using assms(4) by (simp add: sealed_run_def)
  have w: "window_rel (s_replay (m_current (e_sessions f))) (run_window S c {})" using assms(5) by (simp add: run_window_def)
  have "map (Pair src) ds = map (\<lambda>j. (src, ds ! j)) [0..<length frames]" by (rule nth_equalityI) (simp_all add: n)
  moreover have "map (\<lambda>(d, fr). (src, d, Ok fr)) (zip ds frames) = map (\<lambda>j. (src, ds ! j, Ok (frames ! j))) [0..<length frames]"
    by (rule nth_equalityI) (simp_all add: n)
  ultimately show ?thesis
    using sealed_run_opens [OF assms(1-4) w assms(6-9), where js = "[0..<length frames]" and ord = ord and src = src] assms(10,11)
    by auto
qed

text \<open>A batch sealed against reserved counters is such a run.\<close>

lemma reserved_batch_run:
  assumes "engine_reserve e (of_nat (length batch)) = (Ok (sess, base), e')" "e_obf e" "batch \<noteq> []" "length batch < 2 ^ 64"
    "seal_batch_with_counters C e' sess base batch rs = Ok ds"
  shows "base = s_tx_counter (m_current (e_sessions e)) \<and> unat base + length batch \<le> 2 ^ 64 \<and>
    sealed_run C (m_current (e_sessions e)) base (e_pad e) (map (Pair FT_Data) batch) ds"
proof -
  let ?a = "m_current (e_sessions e)"
  have res: "base = s_tx_counter ?a" "sess = ?a\<lparr> s_tx_counter := base + of_nat (length batch) \<rparr>"
    "e' = e\<lparr> e_sessions := (e_sessions e)\<lparr> m_current := sess \<rparr> \<rparr>"
    "unat base + (length batch - 1) < unat (s_rekey_at ?a)"
    using assms(1,4) reserve_OkD [of "e_sessions e" "of_nat (length batch)" sess base]
    by (auto simp: engine_reserve_def unat_of_nat split: prod.splits)
  have "unat base + length batch \<le> 2 ^ 64"
    using res(4) assms(3) unat_word_less [of "s_rekey_at ?a"] by (cases batch) simp_all
  moreover have "sealed_run C ?a base (e_pad e) (map (Pair FT_Data) batch) ds"
    unfolding sealed_run_def
  proof (intro conjI allI impI)
    show "length ds = length (map (Pair FT_Data) batch)" using seal_batch_nth [OF assms(5)] by simp
    fix i assume "i < length (map (Pair FT_Data) batch)"
    with seal_batch_nth [OF assms(5)] have "seal_packet_with_counter C e' sess (base + of_nat i) (batch ! i) (rs i) = Ok (ds ! i)"
      "i < length batch" by auto
    then show "\<exists>r r'. seal_obf_core C ?a (base + of_nat i) (ft_as_u8 (fst (map (Pair FT_Data) batch ! i)))
        (snd (map (Pair FT_Data) batch ! i)) (e_pad e) r = (Ok (ds ! i), r')"
      using assms(2)
      by (cases "seal_obf_core C ?a (base + of_nat i) (ft_as_u8 FT_Data) (batch ! i) (e_pad e) (rs i)")
        (auto simp: res(2,3) seal_packet_with_counter_def seal_obf_with_counter_def intro: exI [of _ "rs i"])
  qed
  ultimately show ?thesis using res(1) by simp
qed

lemma sealed_run_size:
  assumes "crypto_ok C" "session_wf s" "sealed_run C s c pol frames ds" "\<forall>fr\<in>set frames. length (snd fr) \<le> 1232"
  shows "\<forall>d\<in>set ds. 0 < length d \<and> length d \<le> 1280"
proof
  fix d assume "d \<in> set ds"
  then obtain i where i: "i < length frames" "d = ds ! i" using assms(3) by (auto simp: sealed_run_def in_set_conv_nth)
  let ?p = "snd (frames ! i)" and ?m = "max_framed (tag_len (s_algo s))"
  obtain r r' where "seal_obf_core C s (c + of_nat i) (ft_as_u8 (fst (frames ! i))) ?p pol r = (Ok d, r')"
    using assms(3) i by (auto simp: sealed_run_def)
  have "length ?p \<le> 1232" using assms(4) i(1) by simp
  with seal_obf_core_length [OF assms(1,2) \<open>seal_obf_core C s _ _ _ _ _ = _\<close>] pad_target_ge [of "3 + length ?p" pol ?m] pad_target_le [of "3 + length ?p" pol ?m]
  show "0 < length d \<and> length d \<le> 1280"
    by (cases "s_algo s") (auto simp: max_framed_def obf_consts)
qed

section \<open>Properties\<close>

text \<open>C17: reserving a range and sealing in parallel is the sequential path: whatever
  \<open>encrypt_batch\<close> produces, one reservation of as many counters succeeds, leaves the same
  engine, and sealing against it produces the same datagrams for the same padding.\<close>

theorem sequential_equals_reserved:
  assumes "encrypt_batch C e batch r = (Ok ds, e', r')" "batch \<noteq> []" "length batch < 2 ^ 64"
  shows "\<exists>sess base rs. engine_reserve e (of_nat (length batch)) = (Ok (sess, base), e') \<and>
    seal_batch_with_counters C e' sess base batch rs = Ok ds"
proof -
  let ?a = "m_current (e_sessions e)" and ?n = "length batch"
  let ?s = "?a\<lparr> s_tx_counter := s_tx_counter ?a + of_nat ?n \<rparr>"
  from encrypt_batch_OkD [OF assms(1)] obtain rs where
    e': "e' = set_tx e (s_tx_counter ?a + of_nat ?n)" and len: "length ds = ?n"
    and lim: "unat (s_tx_counter ?a) + (?n - 1) < unat (s_rekey_at ?a)"
    and each: "\<And>i. i < ?n \<Longrightarrow>
      seal_packet_with_counter C e ?a (s_tx_counter ?a + of_nat i) (batch ! i) (rs i) = Ok (ds ! i)"
    using assms(2) by auto
  have "engine_reserve e (of_nat ?n) = (Ok (?s, s_tx_counter ?a), e')"
    by (rule reserve_below_limit) (use lim assms(3) e' in simp_all)
  moreover have "seal_batch_with_counters C e' ?s (s_tx_counter ?a) batch rs = Ok ds"
    unfolding seal_batch_with_counters_def
    by (rule collect_results_nth) (use each len in \<open>simp_all add: e' nth_enumerate_eq\<close>)
  ultimately show ?thesis by blast
qed

theorem sequential_equals_reserved_witness:
  "\<exists>d e' r' sess base rs. let e = engine_new (sm_new (demo_session True) 0) True PadOff in
     encrypt_batch toy_crypto e [[42]] (\<lambda>_. 0) = (Ok [d], e', r') \<and>
     engine_reserve e 1 = (Ok (sess, base), e') \<and>
     seal_batch_with_counters toy_crypto e' sess base [[42]] rs = Ok [d]"
proof -
  let ?e = "engine_new (sm_new (demo_session True) 0) True PadOff"
  obtain d a' r' where
    "seal_obf toy_crypto (demo_session True) 1 [42] PadOff (\<lambda>_. 0) = (Ok d, a', r')"
    by (rule demo_seal)
  then have b: "encrypt_batch toy_crypto ?e [[42]] (\<lambda>_. 0) =
      (Ok [d], ?e\<lparr> e_sessions := (e_sessions ?e)\<lparr> m_current := a' \<rparr> \<rparr>, r')"
    by (simp add: seal_one_def engine_new_def sm_seal_obf_def sm_new_def)
  from sequential_equals_reserved [OF b] b show ?thesis
    by (fastforce simp: Let_def)
qed

end
