(* ===== verification/Udp.thy ===== *)
theory Udp
  imports Errors
begin

text \<open>
  Batched UDP of \<open>src/udp.rs\<close>. \<open>batch_send\<close> hands the kernel one buffer per system call with the
  segment size, \<open>batch_recv\<close> (a call into \<open>quinn-udp\<close>) fills buffers that \<open>iter_datagrams\<close> cuts.
  A transmit is the buffer with its segment size; \<open>gso_split\<close> is what UDP-GSO documents the
  kernel to put on the wire for it. Socket options and their sizes are not modelled.
\<close>

definition RECV_BATCH :: nat where
  "RECV_BATCH = 32"

definition RECV_BUF :: nat where
  "RECV_BUF = 64 * 1024"

text \<open>The two nested scans: \<open>run_len\<close> counts the datagrams after the first that have its size.\<close>

fun run_len :: "nat \<Rightarrow> bytes list \<Rightarrow> nat" where
  "run_len sz [] = 0"
| "run_len sz (d # ds) = (if length d = sz then Suc (run_len sz ds) else 0)"

function group_equal_sized :: "bytes list \<Rightarrow> (bytes list \<times> nat) list" where
  "group_equal_sized [] = []"
| "group_equal_sized (d # ds) =
     (let n = run_len (length d) ds
      in (d # take n ds, length d) # group_equal_sized (drop n ds))"
  by pat_completeness auto
termination
  by (relation "measure length") auto

record transmit =
  tm_contents :: bytes
  tm_segment :: "nat option"

function send_segments :: "nat \<Rightarrow> nat \<Rightarrow> bytes list \<Rightarrow> transmit list" where
  "send_segments max_seg seg_size datagrams =
     (if datagrams = [] \<or> max_seg = 0 then []
      else let part = take max_seg datagrams
           in \<lparr> tm_contents = concat part, tm_segment = (if length part > 1 then Some seg_size else None) \<rparr> #
              send_segments max_seg seg_size (drop max_seg datagrams))"
  by pat_completeness auto
termination
  by (relation "measure (\<lambda>(m, s, ds). length ds)") auto

declare send_segments.simps [simp del]

definition batch_send :: "nat \<Rightarrow> bytes list \<Rightarrow> nat \<Rightarrow> bool \<Rightarrow> transmit list" where
  "batch_send max_gso_segments datagrams seg_size gso =
     (if datagrams = [] then []
      else let max_seg = (if gso then max max_gso_segments 1 else 1)
           in send_segments max_seg seg_size datagrams)"

record 'a recv_meta =
  rm_addr :: 'a
  rm_len :: nat
  rm_stride :: nat

definition iter_datagrams :: "bytes list \<Rightarrow> 'a recv_meta list \<Rightarrow> nat \<Rightarrow> ('a \<times> bytes) list" where
  "iter_datagrams storage metas count =
     concat (map (\<lambda>(m, buf).
       let len = min (rm_len m) (length buf);
           stride = max (if rm_stride m = 0 then len else rm_stride m) 1
       in map (\<lambda>dg. (rm_addr m, dg)) (chunks_of stride (take len buf)))
     (zip (take (min count (length metas)) metas) storage))"

section \<open>Lemmas\<close>

definition gso_split :: "transmit \<Rightarrow> bytes list" where
  "gso_split t = (case tm_segment t of None \<Rightarrow> [tm_contents t] | Some s \<Rightarrow> chunks_of s (tm_contents t))"

text \<open>How the loops send a list of datagrams: run by run, each run in segments.\<close>

definition send_grouped :: "nat \<Rightarrow> bool \<Rightarrow> bytes list \<Rightarrow> transmit list" where
  "send_grouped max_gso gso ds = concat (map (\<lambda>(run, seg). batch_send max_gso run seg gso) (group_equal_sized ds))"

lemma run_len_le: "run_len k ds \<le> length ds"
  by (induction ds) auto

lemma run_len_equal: "d \<in> set (take (run_len k ds) ds) \<Longrightarrow> length d = k"
  by (induction ds) (auto split: if_splits)

lemma run_len_maximal: "drop (run_len k ds) ds = e # es \<Longrightarrow> length e \<noteq> k"
  by (induction ds) (auto split: if_splits)

lemma concat_groups: "concat (map fst (group_equal_sized ds)) = ds"
  by (induction ds rule: group_equal_sized.induct) (simp_all add: Let_def)

lemma groups_uniform: "(run, seg) \<in> set (group_equal_sized ds) \<Longrightarrow> run \<noteq> [] \<and> (\<forall>d\<in>set run. length d = seg)"
proof (induction ds rule: group_equal_sized.induct)
  case (2 d ds)
  let ?n = "run_len (length d) ds"
  have "(run, seg) = (d # take ?n ds, length d) \<or> (run, seg) \<in> set (group_equal_sized (drop ?n ds))"
    using "2.prems" by (simp add: Let_def)
  then show ?case
  proof
    assume "(run, seg) = (d # take ?n ds, length d)"
    then show ?thesis by (simp add: run_len_equal)
  next
    assume "(run, seg) \<in> set (group_equal_sized (drop ?n ds))"
    from "2.IH" [OF refl this] show ?thesis .
  qed
qed simp

lemma chunks_concat_uniform:
  "\<forall>d\<in>set ds. length d = s \<Longrightarrow> 0 < s \<Longrightarrow> chunks_of s (concat ds) = ds"
proof (induction ds)
  case (Cons d ds)
  then have "d \<noteq> []" "length d = s" "chunks_of s (concat ds) = ds" by auto
  then have "take s (d @ concat ds) = d" "drop s (d @ concat ds) = concat ds" by simp_all
  then show ?case
    using \<open>d \<noteq> []\<close> \<open>chunks_of s (concat ds) = ds\<close> Cons.prems(2)
    by (simp only: chunks_of.simps [of s "d @ concat ds"] concat.simps) simp
qed simp

lemma send_segments_wire:
  assumes "\<forall>d\<in>set ds. length d = seg" "0 < seg" "0 < m"
  shows "concat (map gso_split (send_segments m seg ds)) = ds"
  using assms
proof (induction m seg ds rule: send_segments.induct)
  case (1 m seg ds)
  show ?case
  proof (cases "ds = []")
    case True
    then show ?thesis by (simp add: send_segments.simps)
  next
    case False
    let ?part = "take m ds"
    have IH: "concat (map gso_split (send_segments m seg (drop m ds))) = drop m ds"
      by (rule "1.IH") (use "1.prems" False in \<open>auto dest: in_set_dropD\<close>)
    have "gso_split \<lparr> tm_contents = concat ?part, tm_segment = (if length ?part > 1 then Some seg else None) \<rparr> = ?part"
    proof (cases "length ?part > 1")
      case True
      have "chunks_of seg (concat ?part) = ?part"
        by (rule chunks_concat_uniform) (use "1.prems" in \<open>auto dest: in_set_takeD\<close>)
      with True show ?thesis by (simp add: gso_split_def)
    next
      case one: False
      then obtain d where "?part = [d]"
        using False "1.prems"(3) by (cases ?part) (auto simp: take_eq_Nil Suc_le_eq)
      with one show ?thesis by (simp add: gso_split_def)
    qed
    with IH False "1.prems"(3) show ?thesis
      by (subst send_segments.simps) (simp add: Let_def)
  qed
qed


lemma send_grouped_wire:
  assumes "\<forall>d\<in>set ds. d \<noteq> []"
  shows "concat (map gso_split (send_grouped m gso ds)) = ds"
proof -
  have run: "concat (map gso_split (batch_send m run seg gso)) = run"
    if "(run, seg) \<in> set (group_equal_sized ds)" for run seg
  proof -
    have u: "run \<noteq> []" "\<forall>d\<in>set run. length d = seg" using groups_uniform [OF that] by auto
    have "set run \<subseteq> set ds"
      using that concat_groups [of ds] by (metis (no_types, lifting) UN_I fst_conv image_eqI set_concat set_map subsetI)
    then have "0 < seg" using u assms by (cases run) auto
    then show ?thesis
      using u by (cases gso) (simp_all add: batch_send_def send_segments_wire)
  qed
  have "concat (map gso_split (concat (map (\<lambda>(run, seg). batch_send m run seg gso) gs))) =
      concat (map fst gs)" if "set gs \<subseteq> set (group_equal_sized ds)" for gs
    using that by (induction gs) (auto simp: run)
  from this [of "group_equal_sized ds"] show ?thesis
    by (simp add: send_grouped_def concat_groups)
qed

text \<open>What a transmit looks like, and what a receive buffer that holds it looks like.\<close>

definition transmit_ok :: "transmit \<Rightarrow> bool" where
  "transmit_ok t \<longleftrightarrow> tm_contents t \<noteq> [] \<and> tm_segment t \<noteq> Some 0"

lemma send_segments_ok:
  assumes "\<forall>d\<in>set ds. length d = seg" "0 < seg" "0 < m" "t \<in> set (send_segments m seg ds)"
  shows "transmit_ok t \<and> (m = 1 \<longrightarrow> tm_segment t = None)"
  using assms
proof (induction m seg ds rule: send_segments.induct)
  case (1 m seg ds)
  then have ne: "ds \<noteq> []" by (auto simp: send_segments.simps)
  let ?t = "\<lparr> tm_contents = concat (take m ds), tm_segment = (if length (take m ds) > 1 then Some seg else None) \<rparr>"
  have "t = ?t \<or> t \<in> set (send_segments m seg (drop m ds))"
    using "1.prems" ne by (simp add: send_segments.simps [of m seg ds] Let_def)
  then show ?case
  proof
    assume "t = ?t"
    moreover have "concat (take m ds) \<noteq> []"
      using "1.prems" ne by (cases ds; cases m) auto
    ultimately show ?thesis using "1.prems"(2) by (auto simp: transmit_ok_def)
  next
    assume "t \<in> set (send_segments m seg (drop m ds))"
    then show ?thesis
      by (intro "1.IH") (use "1.prems" ne in \<open>auto dest: in_set_dropD\<close>)
  qed
qed

lemma send_grouped_ok:
  assumes "\<forall>d\<in>set ds. d \<noteq> []" "t \<in> set (send_grouped m gso ds)"
  shows "transmit_ok t \<and> (\<not> gso \<longrightarrow> tm_segment t = None)"
proof -
  obtain run seg where g: "(run, seg) \<in> set (group_equal_sized ds)" "t \<in> set (batch_send m run seg gso)"
    using assms(2) by (auto simp: send_grouped_def)
  have u: "run \<noteq> []" "\<forall>d\<in>set run. length d = seg" using groups_uniform [OF g(1)] by auto
  have "set run \<subseteq> set ds"
    using g(1) concat_groups [of ds] by (metis (no_types, lifting) UN_I fst_conv image_eqI set_concat set_map subsetI)
  then have "0 < seg" using u assms(1) by (cases run) auto
  then show ?thesis
    using g(2) u send_segments_ok [of run seg "max m 1" t] send_segments_ok [of run seg 1 t]
    by (cases gso) (auto simp: batch_send_def)
qed

text \<open>One receive call: the buffers of \<open>recv_buffers\<close>, as many of them filled as there were messages, each with the
  datagrams of one message from \<open>a\<close>.\<close>

definition holds_message :: "'a \<Rightarrow> transmit \<Rightarrow> 'a recv_meta \<Rightarrow> bytes \<Rightarrow> bool" where
  "holds_message a t m buf \<longleftrightarrow>
     length buf = RECV_BUF \<and> rm_addr m = a \<and> rm_len m = length (tm_contents t) \<and> take (rm_len m) buf = tm_contents t \<and>
     (case tm_segment t of None \<Rightarrow> rm_stride m \<in> {0, rm_len m} | Some s \<Rightarrow> rm_stride m = s)"

definition received :: "'a \<Rightarrow> transmit list \<Rightarrow> bytes list \<times> 'a recv_meta list \<times> nat \<Rightarrow> bool" where
  "received a ts call \<longleftrightarrow>
     (case call of (storage, metas, cnt) \<Rightarrow>
        length storage = RECV_BATCH \<and> length metas = RECV_BATCH \<and> cnt = length ts \<and> length ts \<le> RECV_BATCH \<and>
        (\<forall>k<length ts. holds_message a (ts ! k) (metas ! k) (storage ! k)))"

lemma cut_message:
  assumes "holds_message a t m buf" "transmit_ok t"
  shows "(let len = min (rm_len m) (length buf); stride = max (if rm_stride m = 0 then len else rm_stride m) 1
       in map (\<lambda>dg. (rm_addr m, dg)) (chunks_of stride (take len buf))) = map (Pair a) (gso_split t)"
proof -
  have h: "rm_addr m = a" "rm_len m = length (tm_contents t)" "take (length (tm_contents t)) buf = tm_contents t"
    "case tm_segment t of None \<Rightarrow> rm_stride m \<in> {0, length (tm_contents t)} | Some s \<Rightarrow> rm_stride m = s"
    using assms(1) by (auto simp: holds_message_def split: option.splits)
  have len: "min (length (tm_contents t)) (length buf) = length (tm_contents t)" using h(3) by (metis length_take min.commute)
  have ok: "tm_contents t \<noteq> []" "tm_segment t \<noteq> Some 0" using assms(2) by (auto simp: transmit_ok_def)
  have "chunks_of (length (tm_contents t)) (tm_contents t) = [tm_contents t]"
    using ok(1) by (simp add: chunks_of.simps [of _ "tm_contents t"])
  moreover have "max (length (tm_contents t)) 1 = length (tm_contents t)" using ok(1) by (cases "tm_contents t") auto
  moreover have "max s 1 = s" "s \<noteq> 0" if "tm_segment t = Some s" for s using ok(2) that by (cases s; simp)+
  ultimately show ?thesis
    using h len by (cases "tm_segment t") (auto simp: gso_split_def Let_def)
qed

lemma iter_received:
  assumes "received a ts (storage, metas, cnt)" "\<forall>t\<in>set ts. transmit_ok t"
  shows "iter_datagrams storage metas cnt = map (Pair a) (concat (map gso_split ts))"
proof -
  let ?n = "length ts"
  have n: "cnt = ?n" "?n \<le> length metas" "?n \<le> length storage"
    using assms(1) by (simp_all add: received_def)
  define cut where "cut = (\<lambda>(m, buf). let len = min (rm_len m) (length buf); stride = max (if rm_stride m = 0 then len else rm_stride m) 1
       in map (\<lambda>dg. (rm_addr (m :: 'a recv_meta), dg)) (chunks_of stride (take len (buf :: bytes))))"
  have "holds_message a (ts ! k) (metas ! k) (storage ! k)" if "k < ?n" for k
    using assms(1) that by (simp add: received_def)
  then have cut: "cut (metas ! k, storage ! k) = map (Pair a) (gso_split (ts ! k))" if "k < ?n" for k
    using cut_message [of a "ts ! k" "metas ! k" "storage ! k"] assms(2) that unfolding cut_def by simp
  have "take (min cnt (length metas)) metas = take ?n metas" using n by simp
  moreover have "map cut (zip (take ?n metas) storage) = map (\<lambda>t. map (Pair a) (gso_split t)) ts"
    by (rule nth_equalityI) (use n cut in simp_all)
  moreover have "iter_datagrams storage metas cnt = concat (map cut (zip (take (min cnt (length metas)) metas) storage))"
    by (simp only: iter_datagrams_def cut_def)
  ultimately show ?thesis by (simp add: map_concat comp_def)
qed

text \<open>One receive call that holds the transmits of a whole batch.\<close>

definition one_call :: "'a \<Rightarrow> transmit list \<Rightarrow> bytes list \<times> 'a recv_meta list \<times> nat" where
  "one_call a ts =
     (map (\<lambda>t. tm_contents t @ replicate (RECV_BUF - length (tm_contents t)) 0) ts @
        replicate (RECV_BATCH - length ts) (replicate RECV_BUF 0),
      map (\<lambda>t. \<lparr> rm_addr = a, rm_len = length (tm_contents t),
          rm_stride = (case tm_segment t of None \<Rightarrow> 0 | Some s \<Rightarrow> s) \<rparr>) ts @
        replicate (RECV_BATCH - length ts) \<lparr> rm_addr = a, rm_len = 0, rm_stride = 0 \<rparr>, length ts)"

lemma one_call_received:
  assumes "length ts \<le> RECV_BATCH" "\<forall>t\<in>set ts. length (tm_contents t) \<le> RECV_BUF"
  shows "received a ts (one_call a ts)"
  using assms by (auto simp: received_def one_call_def holds_message_def nth_append split: option.splits)

text \<open>The payload a UDP datagram can carry (65535 less the IPv4 and UDP headers).\<close>

definition UDP_PAYLOAD :: nat where
  "UDP_PAYLOAD = 65507"

lemma unsegmented_buffers:
  assumes "\<forall>d\<in>set ds. d \<noteq> []" "\<not> gso" "\<forall>d\<in>set ds. length d \<le> n"
  shows "\<forall>t\<in>set (send_grouped m gso ds). tm_segment t = None \<and> length (tm_contents t) \<le> n"
proof
  fix t assume t: "t \<in> set (send_grouped m gso ds)"
  then have "tm_segment t = None" using send_grouped_ok [OF assms(1) t] assms(2) by blast
  then have "tm_contents t \<in> set (gso_split t)" by (simp add: gso_split_def)
  with t have "tm_contents t \<in> set (concat (map gso_split (send_grouped m gso ds)))" by auto
  then have "tm_contents t \<in> set ds" unfolding send_grouped_wire [OF assms(1)] .
  then show "tm_segment t = None \<and> length (tm_contents t) \<le> n" using assms(3) \<open>tm_segment t = None\<close> by blast
qed

lemma gso_buffer_too_large:
  assumes "length d = 1280"
  shows "\<exists>t\<in>set (send_grouped 64 True (replicate 64 d)). UDP_PAYLOAD < length (tm_contents t)"
proof -
  have "run_len 1280 (replicate n d) = n" for n using assms by (induction n) simp_all
  from this [of 63] have "group_equal_sized (d # replicate 63 d) = [(d # replicate 63 d, 1280)]"
    using assms by (simp add: Let_def)
  then have "send_grouped 64 True (d # replicate 63 d) = send_segments 64 1280 (d # replicate 63 d)"
    by (simp add: send_grouped_def batch_send_def)
  moreover have "send_segments 64 1280 (d # replicate 63 d) =
      [\<lparr> tm_contents = concat (d # replicate 63 d), tm_segment = Some 1280 \<rparr>]"
    by (subst send_segments.simps) (simp add: Let_def send_segments.simps)
  moreover have "length (concat (replicate n d)) = n * 1280" for n using assms by (induction n) simp_all
  moreover have "replicate 64 d = d # replicate 63 d" by (simp add: numeral_eq_Suc)
  ultimately show ?thesis using assms by (simp add: UDP_PAYLOAD_def)
qed

section \<open>Properties\<close>

text \<open>Batching does not change the wire: whatever datagrams a loop sends, grouped into equal-sized
  runs and handed to the kernel in segmented buffers, the kernel puts exactly these datagrams on
  the wire, in this order, with GSO on or off and for any segment limit, when it takes every buffer;
  with GSO off no buffer is segmented. A receiver whose kernel hands it the buffers of a call, at most
  \<open>RECV_BATCH\<close> of them, cuts out the same datagrams.\<close>

theorem batching_preserves_datagrams:
  assumes "\<forall>d\<in>set ds. d \<noteq> []" "received a (send_grouped m gso ds) (storage, metas, cnt)"
  shows "concat (map gso_split (send_grouped m gso ds)) = ds \<and>
    (gso \<or> (\<forall>t\<in>set (send_grouped m gso ds). tm_segment t = None)) \<and>
    iter_datagrams storage metas cnt = map (Pair a) ds"
  using send_grouped_wire [OF assms(1)] send_grouped_ok [OF assms(1)] iter_received [OF assms(2)]
  by auto

theorem batching_preserves_datagrams_witness:
  "concat (map gso_split (send_grouped 64 True [[1, 2], [3, 4], [5]])) = [[1, 2], [3, 4], [5]]"
proof -
  let ?ds = "[[1, 2], [3, 4], [5]] :: bytes list" and ?ts = "send_grouped 64 True [[1, 2], [3, 4], [5 :: byte]]"
  have "?ts = [\<lparr> tm_contents = [1, 2, 3, 4], tm_segment = Some 2 \<rparr>, \<lparr> tm_contents = [5], tm_segment = None \<rparr>]"
    by (simp add: send_grouped_def batch_send_def send_segments.simps Let_def)
  then have "received () ?ts (one_call () ?ts)"
    by (intro one_call_received) (simp_all add: RECV_BATCH_def RECV_BUF_def)
  then show ?thesis
    using batching_preserves_datagrams [where ds = ?ds and m = 64 and gso = True and a = "()"]
    by (cases "one_call () ?ts") simp
qed

end
