(* ===== verification/Float32.thy ===== *)
theory Float32
  imports Complex_Main Prelude
begin

text \<open>
  The single-precision arithmetic (\<open>f32\<close>) the cover budget of the pacer uses: exact rational
  values rounded to nearest, ties to even, with 24 significant bits, gradual underflow at
  \<open>2 ^ -149\<close> and overflow to infinity at \<open>2 ^ 128\<close>. The sign of zero is not kept: none of the
  operations used here (addition, subtraction, comparison, conversion from an integer) can
  tell the zeros apart.
\<close>

datatype f32 = Fin rat | PInf | NInf | NaN

definition f32_exponents :: "int list" where
  "f32_exponents = rev [-149..127]"

definition f32_quantum :: "rat \<Rightarrow> int" where
  "f32_quantum x =
     (case find (\<lambda>e. 2 powi e \<le> \<bar>x\<bar>) f32_exponents of
        Some e \<Rightarrow> max (e - 23) (-149) | None \<Rightarrow> -149)"

definition round_even :: "rat \<Rightarrow> int" where
  "round_even z =
     (let f = \<lfloor>z\<rfloor>; d = z - of_int f
      in if d < 1 / 2 then f else if d > 1 / 2 then f + 1 else if even f then f else f + 1)"

definition f32_round :: "rat \<Rightarrow> f32" where
  "f32_round x =
     (let q = f32_quantum x; y = of_int (round_even (x / 2 powi q)) * 2 powi q
      in if y \<ge> 2 powi 128 then PInf else if y \<le> - (2 powi 128) then NInf else Fin y)"

fun f32_add :: "f32 \<Rightarrow> f32 \<Rightarrow> f32" where
  "f32_add (Fin x) (Fin y) = f32_round (x + y)"
| "f32_add NaN y = NaN"
| "f32_add x NaN = NaN"
| "f32_add PInf NInf = NaN"
| "f32_add NInf PInf = NaN"
| "f32_add PInf y = PInf"
| "f32_add NInf y = NInf"
| "f32_add x PInf = PInf"
| "f32_add x NInf = NInf"

fun f32_neg :: "f32 \<Rightarrow> f32" where
  "f32_neg (Fin x) = Fin (- x)"
| "f32_neg PInf = NInf"
| "f32_neg NInf = PInf"
| "f32_neg NaN = NaN"

definition f32_sub :: "f32 \<Rightarrow> f32 \<Rightarrow> f32" where
  "f32_sub x y = f32_add x (f32_neg y)"

fun f32_le :: "f32 \<Rightarrow> f32 \<Rightarrow> bool" where
  "f32_le NaN y = False"
| "f32_le x NaN = False"
| "f32_le NInf y = True"
| "f32_le x PInf = True"
| "f32_le (Fin x) (Fin y) = (x \<le> y)"
| "f32_le x y = False"

definition f32_of_u32 :: "u32 \<Rightarrow> f32" where
  "f32_of_u32 w = f32_round (of_nat (unat w))"

text \<open>The values that have a single-precision representation.\<close>

definition f32_rep :: "rat \<Rightarrow> bool" where
  "f32_rep x \<longleftrightarrow>
     (\<exists>m e. x = of_int m * 2 powi e \<and> \<bar>m\<bar> < 2 ^ 24 \<and> -149 \<le> e \<and> e \<le> 104)"

lemma set_f32_exponents: "set f32_exponents = {-149..127}"
  unfolding f32_exponents_def set_rev set_upto ..

lemma sorted_f32_exponents: "sorted_wrt (>) f32_exponents"
  unfolding f32_exponents_def sorted_wrt_rev strict_sorted_iff
  by (simp only: sorted_upto distinct_upto simp_thms)

lemma find_split:
  "find P xs = Some x \<Longrightarrow> P x \<and> (\<exists>ys zs. xs = ys @ x # zs \<and> (\<forall>y\<in>set ys. \<not> P y))"
  by (induction xs) (auto split: if_splits intro: exI [of _ "[]"], (metis append_Cons set_ConsD)+)

lemma powi_le_iff: "(2 :: rat) powi a \<le> 2 powi b \<longleftrightarrow> a \<le> b"
proof
  show "(2 :: rat) powi a \<le> 2 powi b" if "a \<le> b"
    using that by (intro power_int_increasing) auto
  show "a \<le> b" if "(2 :: rat) powi a \<le> 2 powi b"
    using that power_int_strict_increasing [of b a "2 :: rat"] by linarith
qed

lemma f32_exponent_cases:
  fixes x :: rat
  obtains (normal) e where "find (\<lambda>e. 2 powi e \<le> \<bar>x\<bar>) f32_exponents = Some e"
      "2 powi e \<le> \<bar>x\<bar>" "-149 \<le> e" "e \<le> 127" "e < 127 \<Longrightarrow> \<bar>x\<bar> < 2 powi (e + 1)"
    | (tiny) "find (\<lambda>e. 2 powi e \<le> \<bar>x\<bar>) f32_exponents = None" "\<bar>x\<bar> < 2 powi -149"
proof (cases "find (\<lambda>e. 2 powi e \<le> \<bar>x\<bar>) f32_exponents")
  case None
  then have "\<forall>e\<in>set f32_exponents. \<not> 2 powi e \<le> \<bar>x\<bar>"
    by (auto simp: find_None_iff)
  moreover have "-149 \<in> set f32_exponents" by (simp add: set_f32_exponents)
  ultimately have "\<not> 2 powi -149 \<le> \<bar>x\<bar>" by blast
  then have "\<bar>x\<bar> < 2 powi -149" by linarith
  with None show ?thesis by (rule tiny)
next
  case (Some e)
  then obtain ys zs where e: "2 powi e \<le> \<bar>x\<bar>" and s: "f32_exponents = ys @ e # zs"
    and n: "\<forall>y\<in>set ys. \<not> 2 powi y \<le> \<bar>x\<bar>"
    using find_split [OF Some] by auto
  have mem: "-149 \<le> e \<and> e \<le> 127"
  proof -
    have "e \<in> set f32_exponents" by (simp add: s)
    then show ?thesis by (simp add: set_f32_exponents)
  qed
  have "\<bar>x\<bar> < 2 powi (e + 1)" if "e < 127"
  proof -
    have "e + 1 \<in> set f32_exponents" using that mem by (simp add: set_f32_exponents)
    moreover have "e + 1 \<notin> set (e # zs)"
    proof -
      have "\<forall>z\<in>set zs. e > z"
        using sorted_f32_exponents by (simp add: s sorted_wrt_append)
      then show ?thesis by auto
    qed
    ultimately have "e + 1 \<in> set ys" by (auto simp: s)
    with n show ?thesis by auto
  qed
  with Some e mem show ?thesis by (intro normal) auto
qed

lemma round_even_int [simp]: "round_even (of_int n) = n"
  by (simp add: round_even_def)

lemma round_even_bounds: "\<lfloor>z\<rfloor> \<le> round_even z" "round_even z \<le> \<lfloor>z\<rfloor> + 1"
  by (simp_all add: round_even_def Let_def)

lemma round_even_le: "z \<le> of_int n \<Longrightarrow> round_even z \<le> n"
proof -
  assume z: "z \<le> of_int n"
  show "round_even z \<le> n"
  proof (cases "z = of_int n")
    case True
    then show ?thesis by simp
  next
    case False
    with z have "z < of_int n" by simp
    then have "\<lfloor>z\<rfloor> < n" by (simp add: floor_less_iff)
    with round_even_bounds(2) [of z] show ?thesis by simp
  qed
qed

lemma round_even_ge: "of_int n \<le> z \<Longrightarrow> n \<le> round_even z"
proof -
  assume "of_int n \<le> z"
  then have "n \<le> \<lfloor>z\<rfloor>" by (simp add: le_floor_iff)
  with round_even_bounds(1) [of z] show "n \<le> round_even z" by linarith
qed

text \<open>A representable value is not rounded.\<close>

lemma f32_round_rep:
  assumes "f32_rep x"
  shows "f32_round x = Fin x"
proof -
  from assms obtain m e where x: "x = of_int m * 2 powi e" and m: "\<bar>m\<bar> < 2 ^ 24"
    and e: "-149 \<le> e" "e \<le> 104"
    by (auto simp: f32_rep_def)
  have bound: "\<bar>x\<bar> < 2 powi (e + 24)"
  proof -
    have "rat_of_int \<bar>m\<bar> < of_int (2 ^ 24)" using m by (simp only: of_int_less_iff)
    then have "\<bar>x\<bar> < 2 ^ 24 * 2 powi e" by (simp add: x abs_mult)
    also have "\<dots> = 2 powi (e + 24)" by (simp add: power_int_add)
    finally show ?thesis .
  qed
  have q: "f32_quantum x \<le> e"
  proof (cases rule: f32_exponent_cases [of x])
    case (normal E)
    then have "(2 :: rat) powi E < 2 powi (e + 24)" using bound by linarith
    then have "E < e + 24" using powi_le_iff [of "e + 24" E] by linarith
    with normal e show ?thesis by (simp add: f32_quantum_def)
  next
    case tiny
    with e show ?thesis by (simp add: f32_quantum_def)
  qed
  define k where "k = f32_quantum x"
  have "(2 :: rat) powi e = 2 powi k * 2 powi (e - k)"
    by (simp flip: power_int_add)
  moreover have "(2 :: rat) powi (e - k) = 2 ^ nat (e - k)"
    using q by (simp add: power_int_def k_def)
  ultimately have "x / 2 powi k = of_int (m * 2 ^ nat (e - k))"
    by (simp add: x)
  then have y: "of_int (round_even (x / 2 powi k)) * 2 powi k = x"
    by (metis round_even_int nonzero_eq_divide_eq power_int_eq_0_iff zero_neq_numeral)
  have "(2 :: rat) powi (e + 24) \<le> 2 powi 128" using e by (intro power_int_increasing) auto
  with bound have "\<bar>x\<bar> < 2 powi 128" by linarith
  then show ?thesis by (auto simp: f32_round_def Let_def y simp flip: k_def)
qed

lemma f32_rep_int: "\<bar>n\<bar> < 2 ^ 24 \<Longrightarrow> f32_rep (of_int n)"
  unfolding f32_rep_def by (intro exI [of _ n] exI [of _ 0]) simp

lemma abs_int_le: "\<bar>z :: rat\<bar> \<le> of_int n \<Longrightarrow> \<bar>round_even z\<bar> \<le> n"
  using round_even_le [of z n] round_even_ge [of "- n" z] by (simp add: abs_le_iff)

lemma quantum_scaled:
  fixes x :: rat
  assumes "\<bar>x\<bar> \<le> 2 powi (q + k)" "0 \<le> k"
  shows "\<bar>x / 2 powi q\<bar> \<le> of_int (2 ^ nat k)"
proof -
  have "(2 :: rat) powi (q + k) = 2 powi q * 2 ^ nat k"
    using assms(2) by (simp add: power_int_add) (simp add: power_int_def)
  with assms(1) show ?thesis
    by (simp add: abs_divide divide_le_eq mult.commute)
qed

text \<open>Every finite result of a rounding is representable.\<close>

lemma f32_rep_round:
  assumes "f32_round x = Fin y"
  shows "f32_rep y"
proof -
  define q where "q = f32_quantum x"
  define n where "n = round_even (x / 2 powi q)"
  from assms have y: "y = of_int n * 2 powi q" and b: "\<bar>y\<bar> < 2 powi 128"
    by (auto simp: f32_round_def Let_def n_def q_def split: if_splits)
  show ?thesis
  proof (cases rule: f32_exponent_cases [of x])
    case tiny
    then have q: "q = -149" by (simp add: q_def f32_quantum_def)
    have "\<bar>n\<bar> \<le> 2 ^ nat 0"
      unfolding n_def by (intro abs_int_le quantum_scaled) (use tiny q in auto)
    then show ?thesis
      unfolding f32_rep_def by (intro exI [of _ n] exI [of _ q]) (simp add: y q)
  next
    case (normal E)
    then have q: "q = max (E - 23) (-149)" by (simp add: q_def f32_quantum_def)
    show ?thesis
    proof (cases "E < 127")
      case False
      then have q104: "q = 104" using normal q by simp
      have "rat_of_int \<bar>n\<bar> * 2 powi 104 < of_int (2 ^ 24) * 2 powi 104"
        using b by (simp add: y q104 abs_mult power_int_def)
      then have "\<bar>n\<bar> < 2 ^ 24"
        by (simp only: mult_less_cancel_right_pos zero_less_power_int zero_less_numeral of_int_less_iff)
      then show ?thesis
        unfolding f32_rep_def by (intro exI [of _ n] exI [of _ 104]) (simp add: y q104)
    next
      case True
      have "(2 :: rat) powi (E + 1) \<le> 2 powi (q + 24)"
        using q by (simp add: powi_le_iff)
      then have "\<bar>n\<bar> \<le> 2 ^ nat 24"
        unfolding n_def using normal(5) [OF True]
        by (intro abs_int_le quantum_scaled) auto
      then consider "\<bar>n\<bar> < 2 ^ 24" | "\<bar>n\<bar> = 2 ^ 24" by fastforce
      then show ?thesis
      proof cases
        case 1
        then show ?thesis
          unfolding f32_rep_def using q True normal
          by (intro exI [of _ n] exI [of _ q]) (simp add: y)
      next
        case 2
        then have n: "n = sgn n * 2 ^ 24" by (metis mult.commute abs_mult_sgn)
        have "y = of_int (sgn n * 2 ^ 23) * 2 powi (q + 1)"
          by (subst y, subst n) (simp add: power_int_add)
        moreover have "\<bar>sgn n * 2 ^ 23\<bar> < (2 :: int) ^ 24"
          by (simp add: abs_mult abs_sgn_eq)
        ultimately show ?thesis
          unfolding f32_rep_def using q True normal
          by (intro exI [of _ "sgn n * 2 ^ 23"] exI [of _ "q + 1"]) simp
      qed
    qed
  qed
qed

text \<open>Below \<open>2 ^ 24\<close> rounding respects integer bounds, and subtracting one is exact.\<close>

lemma f32_round_bound:
  assumes "0 \<le> x" "x \<le> of_nat N" "N < 2 ^ 24"
  obtains y where "f32_round x = Fin y" "0 \<le> y" "y \<le> of_nat N" "f32_rep y"
proof -
  define q where "q = f32_quantum x"
  define n where "n = round_even (x / 2 powi q)"
  have xN: "x < 2 powi 24"
  proof -
    have "rat_of_nat N < 2 ^ 24"
      using assms(3) by (metis of_nat_less_iff of_nat_numeral of_nat_power)
    with assms(2) show ?thesis by (simp add: power_int_def)
  qed
  have q0: "q \<le> 0"
  proof (cases rule: f32_exponent_cases [of x])
    case (normal E)
    then have "(2 :: rat) powi E < 2 powi 24" using xN assms(1) by linarith
    then have "E < 24" using powi_le_iff [of 24 E] by linarith
    with normal show ?thesis by (simp add: q_def f32_quantum_def)
  next
    case tiny
    then show ?thesis by (simp add: q_def f32_quantum_def)
  qed
  have inv: "(2 :: rat) powi q = 1 / 2 ^ nat (- q)"
    using q0 by (simp add: power_int_def inverse_eq_divide power_divide)
  have "x / 2 powi q \<le> of_int (int N * 2 ^ nat (- q))"
    using assms(2) by (simp add: inv mult_right_mono)
  then have nN: "n \<le> int N * 2 ^ nat (- q)"
    unfolding n_def by (rule round_even_le)
  have "0 \<le> n"
    unfolding n_def using assms(1) by (intro round_even_ge) simp
  let ?y = "of_int n * 2 powi q :: rat"
  have "?y \<le> of_int (int N * 2 ^ nat (- q)) * 2 powi q"
    using nN by (intro mult_right_mono) (simp_all only: of_int_le_iff, simp)
  then have yN: "?y \<le> of_nat N" by (simp add: inv)
  have "?y < 2 powi 128"
    using yN assms(3) order_le_less_trans [of ?y "of_nat N" "2 powi 128"]
    by (simp add: power_int_def)
  moreover have "0 \<le> ?y" using \<open>0 \<le> n\<close> by simp
  moreover have "\<not> ?y \<le> - (2 powi 128)"
    using \<open>0 \<le> ?y\<close> by (simp add: not_le)
  ultimately have r: "f32_round x = Fin ?y"
    by (simp add: f32_round_def Let_def n_def q_def not_le)
  show thesis
    by (rule that [OF r \<open>0 \<le> ?y\<close> yN f32_rep_round [OF r]])
qed

lemma f32_rep_minus_one:
  assumes "f32_rep y" "1 \<le> y" "y < 2 ^ 24"
  shows "f32_rep (y - 1)"
proof -
  from assms(1) obtain m e where y: "y = of_int m * 2 powi e" and m: "\<bar>m\<bar> < 2 ^ 24"
    and e: "-149 \<le> e" "e \<le> 104"
    by (auto simp: f32_rep_def)
  show ?thesis
  proof (cases "0 \<le> e")
    case True
    then have y': "y = of_int (m * 2 ^ nat e)" by (simp add: y power_int_def)
    have "1 \<le> m * 2 ^ nat e" using assms(2) unfolding y' by (simp only: of_int_1_le_iff)
    moreover have "rat_of_int (m * 2 ^ nat e) < of_int (2 ^ 24)"
      using assms(3) unfolding y' by simp
    then have "m * 2 ^ nat e < 2 ^ 24" by (simp only: of_int_less_iff)
    ultimately show ?thesis
      using f32_rep_int [of "m * 2 ^ nat e - 1"] by (simp add: y')
  next
    case False
    then have p: "(2 :: rat) powi e = 1 / 2 ^ nat (- e)"
      by (simp add: power_int_def inverse_eq_divide power_divide)
    have "of_int (2 ^ nat (- e)) \<le> rat_of_int m"
      using assms(2) by (simp add: y p)
    then have le: "2 ^ nat (- e) \<le> m" by (simp only: of_int_le_iff)
    have "y - 1 = of_int (m - 2 ^ nat (- e)) * 2 powi e"
      by (simp add: y p field_simps)
    moreover have "\<bar>m - 2 ^ nat (- e)\<bar> < 2 ^ 24"
    proof -
      have "0 < (2 :: int) ^ nat (- e)" by simp
      with le m show ?thesis by linarith
    qed
    ultimately show ?thesis
      unfolding f32_rep_def using e by blast
  qed
qed

lemma f32_sub_one:
  assumes "f32_rep y" "1 \<le> y" "y < 2 ^ 24"
  shows "f32_sub (Fin y) (Fin 1) = Fin (y - 1)"
  using f32_round_rep [OF f32_rep_minus_one [OF assms]] by (simp add: f32_sub_def)

end
