(* ===== verification/Text.thy ===== *)
theory Text
  imports Errors
begin

text \<open>
  The text functions of the standard library the program uses: \<open>str::trim\<close>, \<open>split\<close>, \<open>split_once\<close>,
  \<open>split_whitespace\<close>, \<open>lines\<close>, \<open>contains\<close>, \<open>replace\<close>, \<open>join\<close>, the decimal parsers of the unsigned integers,
  and the textual form of IP addresses (\<open>std::net\<close>, its recursive-descent parser and its printer).
  Strings are ASCII.
\<close>

section \<open>Strings\<close>

definition is_space :: "char \<Rightarrow> bool" where
  "is_space c = (let n = of_char c :: nat in (9 \<le> n \<and> n \<le> 13) \<or> n = 32)"

definition trim :: "string \<Rightarrow> string" where
  "trim s = rev (dropWhile is_space (rev (dropWhile is_space s)))"

fun split_on :: "char \<Rightarrow> string \<Rightarrow> string list" where
  "split_on c [] = [[]]"
| "split_on c (x # s) =
     (if x = c then [] # split_on c s
      else case split_on c s of p # ps \<Rightarrow> (x # p) # ps | [] \<Rightarrow> [[x]])"

definition split_once :: "char \<Rightarrow> string \<Rightarrow> (string \<times> string) option" where
  "split_once c s = (if c \<in> set s then Some (takeWhile (\<lambda>x. x \<noteq> c) s, tl (dropWhile (\<lambda>x. x \<noteq> c) s)) else None)"

fun words :: "string \<Rightarrow> string \<Rightarrow> string list" where
  "words acc [] = (if acc = [] then [] else [rev acc])"
| "words acc (c # s) =
     (if is_space c then (if acc = [] then words [] s else rev acc # words [] s) else words (c # acc) s)"

definition split_whitespace :: "string \<Rightarrow> string list" where
  "split_whitespace s = words [] s"

text \<open>Lines end with a newline, which is optional after the last one; a carriage return before it goes too.\<close>

definition strip_cr :: "string \<Rightarrow> string" where
  "strip_cr l = (if l \<noteq> [] \<and> last l = CHR 0x0D then butlast l else l)"

definition lines :: "string \<Rightarrow> string list" where
  "lines s = (let ps = split_on (CHR 0x0A) s
              in map strip_cr (butlast ps) @ (if last ps = [] then [] else [last ps]))"

fun starts_with :: "string \<Rightarrow> string \<Rightarrow> bool" where
  "starts_with s [] = True"
| "starts_with [] (p # ps) = False"
| "starts_with (c # s) (p # ps) = (c = p \<and> starts_with s ps)"

fun contains :: "string \<Rightarrow> string \<Rightarrow> bool" where
  "contains [] p = (p = [])"
| "contains (c # s) p = (starts_with (c # s) p \<or> contains s p)"

fun join :: "string \<Rightarrow> string list \<Rightarrow> string" where
  "join sep [] = []"
| "join sep [x] = x"
| "join sep (x # y # xs) = x @ sep @ join sep (y # xs)"

text \<open>\<open>str::replace\<close> and \<open>replacen(from, to, 1)\<close> for a non-empty pattern.\<close>

fun replace_first :: "string \<Rightarrow> string \<Rightarrow> string \<Rightarrow> string" where
  "replace_first from to [] = []"
| "replace_first from to (c # s) =
     (if starts_with (c # s) from then to @ drop (length from) (c # s) else c # replace_first from to s)"

function replace_all :: "string \<Rightarrow> string \<Rightarrow> string \<Rightarrow> string" where
  "replace_all from to [] = []"
| "replace_all from to (c # s) =
     (if from \<noteq> [] \<and> starts_with (c # s) from then to @ replace_all from to (drop (length from) (c # s))
      else c # replace_all from to s)"
  by pat_completeness auto

termination
  by (relation "measure (\<lambda>(from, to, s). length s)") (auto simp: Suc_diff_le le_diff_conv length_greater_0_conv [symmetric] simp del: length_greater_0_conv)

definition to_lower :: "string \<Rightarrow> string" where
  "to_lower = map (\<lambda>c. if 65 \<le> (of_char c :: nat) \<and> (of_char c :: nat) \<le> 90 then char_of (of_char c + 32 :: nat) else c)"

section \<open>Numbers\<close>

definition digit_val :: "nat \<Rightarrow> char \<Rightarrow> nat option" where
  "digit_val radix c =
     (let n = of_char c :: nat;
          d = (if 48 \<le> n \<and> n \<le> 57 then Some (n - 48) else if 97 \<le> n \<and> n \<le> 122 then Some (n - 87)
               else if 65 \<le> n \<and> n \<le> 90 then Some (n - 55) else None)
      in case d of Some k \<Rightarrow> if k < radix then Some k else None | None \<Rightarrow> None)"

fun digits_val :: "nat \<Rightarrow> nat \<Rightarrow> string \<Rightarrow> nat option" where
  "digits_val radix acc [] = Some acc"
| "digits_val radix acc (c # s) =
     (case digit_val radix c of None \<Rightarrow> None | Some d \<Rightarrow> digits_val radix (acc * radix + d) s)"

text \<open>\<open>parse::<uN>()\<close>: an optional plus sign, at least one digit, below the bound of the type.\<close>

definition parse_uint :: "nat \<Rightarrow> string \<Rightarrow> nat option" where
  "parse_uint bound s =
     (let ds = (case s of [] \<Rightarrow> [] | c # rest \<Rightarrow> if c = CHR ''+'' then rest else s)
      in if ds = [] then None
         else case digits_val 10 0 ds of
             Some n \<Rightarrow> if n < bound then Some n else None
           | None \<Rightarrow> None)"

section \<open>Lemmas\<close>

lemma split_on_none: "c \<notin> set s \<Longrightarrow> split_on c s = [s]"
  by (induction s) auto

lemma split_on_append: "c \<notin> set s \<Longrightarrow> split_on c (s @ c # rest) = s # split_on c rest"
  by (induction s) auto

lemma split_on_join:
  "ls \<noteq> [] \<Longrightarrow> \<forall>l\<in>set ls. c \<notin> set l \<Longrightarrow> split_on c (join [c] ls) = ls"
  by (induction "[c]" ls rule: join.induct) (auto simp: split_on_none split_on_append)

lemma starts_with_subset: "starts_with s p \<Longrightarrow> set p \<subseteq> set s"
  by (induction s p rule: starts_with.induct) auto

lemma starts_with_append [simp]: "starts_with (p @ s) p"
  by (induction p) auto

lemma starts_with_iff: "starts_with s p \<longleftrightarrow> (\<exists>rest. s = p @ rest)"
  by (induction s p rule: starts_with.induct) auto

lemma takeWhile_stop [simp]: "(\<forall>x\<in>set s. P x) \<Longrightarrow> \<not> P c \<Longrightarrow> takeWhile P (s @ c # rest) = s"
  by (simp add: takeWhile_append2)

lemma split_once_append: "c \<notin> set s \<Longrightarrow> split_once c (s @ c # rest) = Some (s, rest)"
  by (induction s) (auto simp: split_once_def)

lemma dropWhile_none: "\<forall>c\<in>set s. \<not> P c \<Longrightarrow> dropWhile P s = s"
  by (cases s) auto

lemma dropWhile_all: "\<forall>c\<in>set s. P c \<Longrightarrow> dropWhile P s = []"
  by (induction s) auto

lemma trim_id: "\<forall>c\<in>set s. \<not> is_space c \<Longrightarrow> trim s = s"
  by (simp add: trim_def dropWhile_none)

lemma trim_append_space:
  assumes "\<forall>c\<in>set s. \<not> is_space c" "\<forall>c\<in>set t. is_space c"
  shows "trim (s @ t) = s"
proof (cases "s = []")
  case True
  then show ?thesis using assms by (simp add: trim_def dropWhile_all)
next
  case False
  have "dropWhile is_space (s @ t) = s @ t" using False assms(1) by (cases s) auto
  moreover have "dropWhile is_space (rev t @ rev s) = rev s"
    using assms dropWhile_append2[of "rev t" is_space "rev s"] dropWhile_none[of "rev s" is_space] by simp
  ultimately show ?thesis by (simp add: trim_def)
qed

text \<open>Text of lines that end in a carriage return and a newline.\<close>

definition CRLF :: string where
  "CRLF = [CHR 0x0D, CHR 0x0A]"

lemma split_on_lines:
  "\<forall>l\<in>set ls. CHR 0x0A \<notin> set l \<Longrightarrow> split_on (CHR 0x0A) (concat (map (\<lambda>l. l @ CRLF) ls)) = map (\<lambda>l. l @ [CHR 0x0D]) ls @ [[]]"
proof (induction ls)
  case (Cons l ls)
  then show ?case
    using split_on_append[of "CHR 0x0A" "l @ [CHR 0x0D]" "concat (map (\<lambda>l. l @ CRLF) ls)"]
    by (simp add: CRLF_def)
qed simp

lemma lines_crlf: "\<forall>l\<in>set ls. CHR 0x0A \<notin> set l \<Longrightarrow> lines (concat (map (\<lambda>l. l @ CRLF) ls)) = ls"
  by (simp add: lines_def split_on_lines strip_cr_def o_def)

end
