(* ===== verification/Crypto_Core.thy ===== *)
theory Crypto_Core
  imports Crypto_Lib "HOL-Library.List_Lexorder"
begin

text \<open>
  The cryptographic core of \<open>src/crypto.rs\<close>: the peer authenticators (Ed25519, ML-DSA-65 and the
  hybrid that needs all of its legs), the handshake transcript, the key derivations, and the
  return-routability cookie. The transcript is the byte string fed to SHA-256 so far. Byte
  strings are compared lexicographically, as Rust compares slices.
\<close>

section \<open>Socket addresses\<close>

datatype ip_addr = V4 bytes | V6 bytes

record sock_addr =
  sa_ip :: ip_addr
  sa_port :: u16

fun ip_wf :: "ip_addr \<Rightarrow> bool" where
  "ip_wf (V4 bs) = (length bs = 4)"
| "ip_wf (V6 bs) = (length bs = 16)"

section \<open>Authenticators\<close>

definition ED25519_SIG_LEN :: nat where
  "ED25519_SIG_LEN = 64"

definition ED25519_PUB_LEN :: nat where
  "ED25519_PUB_LEN = 32"

datatype authenticator =
    Ed25519Auth (ed_seed: bytes) (ed_peer: bytes)
  | MlDsaAuth (ml_secret: bytes) (ml_peer: bytes)
  | HybridAuth (hy_legs: "authenticator list")

definition ed25519_new :: "crypto_lib \<Rightarrow> bytes \<Rightarrow> bytes \<Rightarrow> authenticator result" where
  "ed25519_new C seed peer_pub =
     (if c_ed_seed_ok C seed then Ok (Ed25519Auth seed peer_pub)
      else Err (Kdf ''invalid Ed25519 seed''))"

definition mldsa_from_keys :: "crypto_lib \<Rightarrow> bytes \<Rightarrow> bytes \<Rightarrow> authenticator result" where
  "mldsa_from_keys C secret peer_pub =
     (if \<not> c_mldsa_sk_ok C secret then Err (Kdf ''invalid ML-DSA secret key'')
      else if \<not> c_mldsa_pk_ok C peer_pub then Err (Kdf ''invalid ML-DSA peer public key'')
      else Ok (MlDsaAuth secret peer_pub))"

fun auth_sig_len :: "crypto_lib \<Rightarrow> authenticator \<Rightarrow> nat" where
  "auth_sig_len C (Ed25519Auth seed peer) = ED25519_SIG_LEN"
| "auth_sig_len C (MlDsaAuth secret peer) = c_mldsa_sig_len C"
| "auth_sig_len C (HybridAuth legs) = sum_list (map (auth_sig_len C) legs)"

definition ed25519_verify :: "crypto_lib \<Rightarrow> bytes \<Rightarrow> bytes \<Rightarrow> bytes \<Rightarrow> unit result" where
  "ed25519_verify C peer th signature =
     (if length signature \<noteq> ED25519_SIG_LEN
      then Err (HandshakeErr ''verify''
             (''Ed25519 sig len '' @ show_nat (length signature) @ '' != '' @ show_nat ED25519_SIG_LEN))
      else if c_ed_verify C peer th signature then Ok ()
      else Err (HandshakeErr ''verify'' ''Ed25519 verification failed (MITM or wrong peer)''))"

definition mldsa_verify :: "crypto_lib \<Rightarrow> bytes \<Rightarrow> bytes \<Rightarrow> bytes \<Rightarrow> unit result" where
  "mldsa_verify C peer th signature =
     (if \<not> c_mldsa_sig_ok C signature
      then Err (HandshakeErr ''verify'' ''ML-DSA signature malformed'')
      else if c_mldsa_verify C signature th peer then Ok ()
      else Err (HandshakeErr ''verify'' ''ML-DSA verification failed (MITM or wrong peer)''))"

definition ed25519_sign :: "crypto_lib \<Rightarrow> bytes \<Rightarrow> bytes \<Rightarrow> bytes result" where
  [simp]: "ed25519_sign C seed th = Ok (c_ed_sign C seed th)"

definition mldsa_sign :: "crypto_lib \<Rightarrow> bytes \<Rightarrow> bytes \<Rightarrow> rng \<Rightarrow> (bytes \<times> rng) result" where
  [simp]: "mldsa_sign C secret th r = Ok (c_mldsa_sign C secret th r)"

fun auth_sign :: "crypto_lib \<Rightarrow> authenticator \<Rightarrow> bytes \<Rightarrow> rng \<Rightarrow> (bytes \<times> rng) result"
  and hybrid_sign :: "crypto_lib \<Rightarrow> authenticator list \<Rightarrow> bytes \<Rightarrow> rng \<Rightarrow> (bytes \<times> rng) result" where
  "auth_sign C (Ed25519Auth seed peer) th r = rbind (ed25519_sign C seed th) (\<lambda>s. Ok (s, r))"
| "auth_sign C (MlDsaAuth secret peer) th r = mldsa_sign C secret th r"
| "auth_sign C (HybridAuth legs) th r = hybrid_sign C legs th r"
| "hybrid_sign C [] th r = Ok ([], r)"
| "hybrid_sign C (leg # legs) th r =
     rbind (auth_sign C leg th r) (\<lambda>(s, r1).
     rbind (hybrid_sign C legs th r1) (\<lambda>(out, r2). Ok (s @ out, r2)))"

fun auth_verify :: "crypto_lib \<Rightarrow> authenticator \<Rightarrow> bytes \<Rightarrow> bytes \<Rightarrow> unit result"
  and hybrid_verify :: "crypto_lib \<Rightarrow> authenticator list \<Rightarrow> nat \<Rightarrow> bytes \<Rightarrow> bytes \<Rightarrow> unit result" where
  "auth_verify C (Ed25519Auth seed peer) th signature = ed25519_verify C peer th signature"
| "auth_verify C (MlDsaAuth secret peer) th signature = mldsa_verify C peer th signature"
| "auth_verify C (HybridAuth legs) th signature = hybrid_verify C legs 0 th signature"
| "hybrid_verify C [] offset th signature = Ok ()"
| "hybrid_verify C (leg # legs) offset th signature =
     (let len = auth_sig_len C leg in
      if offset + len > length signature
      then Err (HandshakeErr ''verify'' ''hybrid signature truncated'')
      else rbind (auth_verify C leg th (take len (drop offset signature)))
             (\<lambda>_. hybrid_verify C legs (offset + len) th signature))"

definition ed25519_binding :: "bytes \<Rightarrow> bytes \<Rightarrow> bytes" where
  "ed25519_binding own peer =
     (let (lo, hi) = (if own \<le> peer then (own, peer) else (peer, own)) in lo @ hi)"

fun identity_binding :: "crypto_lib \<Rightarrow> authenticator \<Rightarrow> bytes" where
  "identity_binding C (Ed25519Auth seed peer) = ed25519_binding (c_ed_public C seed) peer"
| "identity_binding C (MlDsaAuth secret peer) = []"
| "identity_binding C (HybridAuth legs) = concat (map (identity_binding C) legs)"

section \<open>Transcript and derivations\<close>

type_synonym transcript = bytes

definition transcript_new :: transcript where
  "transcript_new = ascii ''Chameleon-PQ-v1 transcript''"

definition absorb :: "transcript \<Rightarrow> bytes \<Rightarrow> transcript" where
  "absorb t bs = t @ u32_to_le (of_nat (length bs)) @ bs"

definition transcript_hash :: "crypto_lib \<Rightarrow> transcript \<Rightarrow> bytes" where
  "transcript_hash C t = c_sha256 C t"

definition derive_shared :: "crypto_lib \<Rightarrow> bytes \<Rightarrow> bytes \<Rightarrow> bytes" where
  "derive_shared C x_ss mlkem_ss =
     c_hkdf C (Some (ascii ''Chameleon-PQ-v1-salt'')) (x_ss @ mlkem_ss)
       (ascii ''chameleon-pq hybrid session key'') 32"

definition role_bound_hash :: "crypto_lib \<Rightarrow> bytes \<Rightarrow> bytes \<Rightarrow> bytes" where
  "role_bound_hash C label th = c_sha256 C (label @ th)"

definition derive_session_id :: "crypto_lib \<Rightarrow> bytes \<Rightarrow> u32" where
  "derive_session_id C shared =
     (let d = c_sha256 C (ascii ''Chameleon-PQ-v1 session-id'' @ shared)
      in u32_from_le (take 4 d))"

fun ip_octets :: "ip_addr \<Rightarrow> bytes" where
  "ip_octets (V4 bs) = bs"
| "ip_octets (V6 bs) = bs"

definition cookie_input :: "sock_addr \<Rightarrow> u64 \<Rightarrow> bytes" where
  "cookie_input src time_bucket =
     ip_octets (sa_ip src) @ u16_to_le (sa_port src) @ u64_to_le time_bucket"

definition compute_cookie :: "crypto_lib \<Rightarrow> bytes \<Rightarrow> sock_addr \<Rightarrow> u64 \<Rightarrow> bytes" where
  "compute_cookie C secret src time_bucket = take 16 (c_hmac C secret (cookie_input src time_bucket))"

definition mac_key_from :: "crypto_lib \<Rightarrow> bytes \<Rightarrow> bytes" where
  "mac_key_from C shared =
     c_hkdf C (Some (ascii ''Chameleon-PQ-v1-mac'')) shared (ascii ''handshake mac key'') 32"

section \<open>Lemmas\<close>

lemma length_derived [simp]:
  "crypto_ok C \<Longrightarrow> length (transcript_hash C t) = 32"
  "crypto_ok C \<Longrightarrow> length (derive_shared C x m) = 32"
  "crypto_ok C \<Longrightarrow> length (role_bound_hash C l h) = 32"
  "crypto_ok C \<Longrightarrow> length (compute_cookie C s a b) = 16"
  "crypto_ok C \<Longrightarrow> length (mac_key_from C s) = 32"
  by (simp_all add: transcript_hash_def derive_shared_def role_bound_hash_def compute_cookie_def
      mac_key_from_def crypto_hash)

lemma ed25519_binding_commute: "ed25519_binding a b = ed25519_binding b a"
  by (auto simp: ed25519_binding_def)

lemma absorb_append: "absorb (s @ t) bs = s @ absorb t bs"
  by (simp add: absorb_def)

lemma foldl_absorb: "foldl absorb (s @ t) xs = s @ foldl absorb t xs"
  by (induction xs arbitrary: t) (simp_all add: absorb_append)

text \<open>What the absorbed parts add to the hashed input.\<close>

lemma foldl_absorb_concat: "foldl absorb t xs = t @ foldl absorb [] xs"
  using foldl_absorb [of t "[]"] by simp

lemma absorb_Cons: "foldl absorb [] (x # xs) = u32_to_le (of_nat (length x)) @ x @ foldl absorb [] xs"
  using foldl_absorb_concat [of "absorb [] x" xs] by (simp add: absorb_def)

lemma u32_len_inject: "m < 2 ^ 32 \<Longrightarrow> n < 2 ^ 32 \<Longrightarrow> (of_nat m :: u32) = of_nat n \<longleftrightarrow> m = n"
  by (simp add: word_unat_eq_iff unat_of_nat)

lemma foldl_absorb_inject:
  assumes "\<forall>x\<in>set xs. length x < 2 ^ 32" "\<forall>y\<in>set ys. length y < 2 ^ 32"
    "foldl absorb [] xs = foldl absorb [] ys"
  shows "xs = ys"
  using assms
proof (induction xs arbitrary: ys)
  case Nil
  then show ?case
    by (cases ys) (auto simp: absorb_Cons simp del: foldl_Cons dest!: arg_cong [of _ _ length])
next
  case (Cons x xs)
  show ?case
  proof (cases ys)
    case Nil
    with Cons.prems(3) show ?thesis
      by (auto simp: absorb_Cons simp del: foldl_Cons dest!: arg_cong [of _ _ length])
  next
    case (Cons y ys')
    with Cons.prems(3) have e: "u32_to_le (of_nat (length x)) @ x @ foldl absorb [] xs =
        u32_to_le (of_nat (length y)) @ y @ foldl absorb [] ys'"
      by (simp only: absorb_Cons)
    then have "(of_nat (length x) :: u32) = of_nat (length y)" by simp
    with Cons.prems Cons have l: "length x = length y" by (subst (asm) u32_len_inject) auto
    with e have "x = y" "foldl absorb [] xs = foldl absorb [] ys'" by simp_all
    with Cons.IH [of ys'] Cons.prems Cons show ?thesis by simp
  qed
qed

text \<open>\<open>trusts C b a\<close>: the verifier \<open>b\<close> holds the public keys of the signer \<open>a\<close>, leg by leg.\<close>

fun trusts :: "crypto_lib \<Rightarrow> authenticator \<Rightarrow> authenticator \<Rightarrow> bool" where
  "trusts C (Ed25519Auth s peer) (Ed25519Auth seed p) = (peer = c_ed_public C seed)"
| "trusts C (MlDsaAuth s peer) (MlDsaAuth secret p) =
     (\<exists>r r'. c_mldsa_keypair C r = ((peer, secret), r'))"
| "trusts C (HybridAuth bs) (HybridAuth as) = list_all2 (trusts C) bs as"
| "trusts C b a = False"

lemma trusts_sig_len: "trusts C b a \<Longrightarrow> auth_sig_len C b = auth_sig_len C a"
proof (induction C b a rule: trusts.induct)
  case (3 C bs as)
  then have "list_all2 (\<lambda>b a. auth_sig_len C b = auth_sig_len C a) bs as"
    by (auto simp: list_all2_conv_all_nth)
  then have "map (auth_sig_len C) bs = map (auth_sig_len C) as"
    by (simp add: list_all2_conv_all_nth list_eq_iff_nth_eq)
  then show ?case by simp
qed auto

lemma sign_length:
  "auth_sign C a th r = Ok (s, r') \<Longrightarrow> crypto_ok C \<Longrightarrow> length s = auth_sig_len C a"
  "hybrid_sign C legs th r = Ok (s, r') \<Longrightarrow> crypto_ok C \<Longrightarrow>
    length s = sum_list (map (auth_sig_len C) legs)"
proof (induction C a th r and C legs th r arbitrary: s r' and s r' rule: auth_sign_hybrid_sign.induct)
  case (2 C secret peer th r)
  then show ?case using mldsa_sign_ok [of C secret th r s r'] by simp
next
  case (5 C leg legs th r)
  then show ?case by (fastforce simp: rbind_eq_Ok)
qed (auto simp: ed_laws ED25519_SIG_LEN_def)

lemma sign_total:
  "\<exists>s r'. auth_sign C a th r = Ok (s, r')"
  "\<exists>s r'. hybrid_sign C legs th r = Ok (s, r')"
proof (induction C a th r and C legs th r rule: auth_sign_hybrid_sign.induct)
  case (2 C secret peer th r)
  then show ?case by (cases "c_mldsa_sign C secret th r") simp
next
  case (5 C leg legs th r)
  then obtain s r1 where 1: "auth_sign C leg th r = Ok (s, r1)" by blast
  moreover obtain s' r2 where "hybrid_sign C legs th r1 = Ok (s', r2)"
    using 5(2) by blast
  ultimately show ?case by simp
qed auto

text \<open>An honest signature verifies at whoever trusts the signer.\<close>

lemma trusts_cases:
  assumes "trusts C b a"
  obtains (ed) s peer seed p where "b = Ed25519Auth s peer" "a = Ed25519Auth seed p"
      "peer = c_ed_public C seed"
    | (ml) s peer secret p r r' where "b = MlDsaAuth s peer" "a = MlDsaAuth secret p"
      "c_mldsa_keypair C r = ((peer, secret), r')"
    | (hy) bs as where "b = HybridAuth bs" "a = HybridAuth as" "list_all2 (trusts C) bs as"
  using assms by (cases b; cases a) auto

lemma verify_sign:
  "auth_sign C a th r = Ok (s, r') \<Longrightarrow> crypto_ok C \<Longrightarrow> trusts C b a \<Longrightarrow> auth_verify C b th s = Ok ()"
  "hybrid_sign C as th r = Ok (s, r') \<Longrightarrow> crypto_ok C \<Longrightarrow> list_all2 (trusts C) bs as \<Longrightarrow>
    hybrid_verify C bs (length pre) th (pre @ s @ post) = Ok ()"
proof (induction C a th r and C as th r arbitrary: s r' b and s r' bs pre post rule: auth_sign_hybrid_sign.induct)
  case (1 C seed peer th r)
  from 1(3) show ?case
    by (cases rule: trusts_cases) (use 1 in \<open>auto simp: ed25519_verify_def ed_laws ED25519_SIG_LEN_def\<close>)
next
  case (2 C secret peer th r)
  from 2(3) show ?case
    by (cases rule: trusts_cases)
      (use 2 in \<open>auto simp: mldsa_verify_def dest: mldsa_sign_ok mldsa_verify_sign\<close>)
next
  case (3 C legs th r)
  from 3(4) show ?case
  proof (cases rule: trusts_cases)
    case (hy bs as)
    then show ?thesis using 3(1) [of s r' bs "[]" "[]"] 3(2,3) by simp
  qed auto
next
  case (4 C th r)
  then show ?case by simp
next
  case (5 C leg legs th r)
  from 5(5) obtain b bs' where bs: "bs = b # bs'" "trusts C b leg" "list_all2 (trusts C) bs' legs"
    by (auto simp: list_all2_Cons2)
  from 5(3) obtain s1 r1 s2 where s: "auth_sign C leg th r = Ok (s1, r1)"
    "hybrid_sign C legs th r1 = Ok (s2, r')" "s = s1 @ s2"
    by (auto simp: rbind_eq_Ok)
  have len: "auth_sig_len C b = length s1"
    using sign_length(1) [OF s(1) 5(4)] trusts_sig_len [OF bs(2)] by simp
  have "auth_verify C b th s1 = Ok ()"
    by (rule 5(1) [OF s(1) 5(4) bs(2)])
  moreover have "hybrid_verify C bs' (length (pre @ s1)) th ((pre @ s1) @ s2 @ post) = Ok ()"
    by (rule 5(2) [OF s(2) 5(4) bs(3)])
  ultimately show ?case
    by (simp add: bs s(3) len)
qed

text \<open>The slice of a hybrid signature that belongs to a leg.\<close>

definition leg_slice :: "crypto_lib \<Rightarrow> authenticator list \<Rightarrow> nat \<Rightarrow> bytes \<Rightarrow> bytes" where
  "leg_slice C legs i signature =
     take (auth_sig_len C (legs ! i))
       (drop (sum_list (map (auth_sig_len C) (take i legs))) signature)"

lemma hybrid_verify_legs:
  "hybrid_verify C legs off th signature = Ok () \<Longrightarrow> i < length legs \<Longrightarrow>
    auth_verify C (legs ! i) th (take (auth_sig_len C (legs ! i))
       (drop (off + sum_list (map (auth_sig_len C) (take i legs))) signature)) = Ok ()"
proof (induction legs arbitrary: off i)
  case Nil
  then show ?case by simp
next
  case (Cons leg legs)
  from Cons.prems(1) have v: "auth_verify C leg th (take (auth_sig_len C leg) (drop off signature)) = Ok ()"
    and rest: "hybrid_verify C legs (off + auth_sig_len C leg) th signature = Ok ()"
    by (auto simp: Let_def rbind_eq_Ok split: if_splits)
  show ?case
  proof (cases i)
    case 0
    with v show ?thesis by simp
  next
    case (Suc k)
    with Cons.IH [OF rest, of k] Cons.prems(2) show ?thesis
      by (simp add: add.assoc)
  qed
qed

text \<open>Both ends of a pinned pair compute the same identity binding.\<close>

lemma identity_binding_commute:
  assumes "trusts C b a" "trusts C a b"
  shows "identity_binding C a = identity_binding C b"
  using assms
proof (induction C b a rule: trusts.induct)
  case (1 C s peer seed p)
  then show ?case by (simp add: ed25519_binding_commute)
next
  case (3 C bs as)
  then have "list_all2 (\<lambda>b a. identity_binding C a = identity_binding C b) bs as"
    by (auto simp: list_all2_conv_all_nth)
  then have "map (identity_binding C) as = map (identity_binding C) bs"
    by (simp add: list_all2_conv_all_nth list_eq_iff_nth_eq)
  then show ?case by simp
qed auto

section \<open>Properties\<close>

text \<open>The hybrid authenticator accepts a signature only if every leg accepts its own slice of it;
  one valid scheme is not enough.\<close>

theorem hybrid_needs_every_leg:
  assumes "auth_verify C (HybridAuth legs) th signature = Ok ()" "i < length legs"
  shows "auth_verify C (legs ! i) th (leg_slice C legs i signature) = Ok ()"
  using hybrid_verify_legs [of C legs 0 th signature i] assms by (simp add: leg_slice_def)

text \<open>A hybrid signer and verifier over the toy primitives.\<close>

definition demo_auth :: "byte \<Rightarrow> byte \<Rightarrow> authenticator" where
  "demo_auth own peer =
     HybridAuth [Ed25519Auth (replicate 32 own) (replicate 32 peer),
                 MlDsaAuth (replicate 32 own) (replicate 32 peer)]"

lemma demo_trusts: "trusts toy_crypto (demo_auth b a) (demo_auth a b)"
proof -
  have "c_mldsa_keypair toy_crypto (\<lambda>_. a) = ((replicate 32 a, replicate 32 a), (\<lambda>_. a))"
    by (simp add: toy_crypto_def fill_bytes_def map_replicate_const)
  moreover have "replicate 32 a = c_ed_public toy_crypto (replicate 32 a)"
    by (simp add: toy_crypto_def pad_to_def)
  ultimately show ?thesis by (auto simp: demo_auth_def)
qed

theorem hybrid_needs_every_leg_witness:
  "\<exists>s. auth_verify toy_crypto (demo_auth 1 2) [7] s = Ok () \<and>
     auth_verify toy_crypto (MlDsaAuth (replicate 32 1) (replicate 32 2)) [7]
       (leg_slice toy_crypto (hy_legs (demo_auth 1 2)) 1 s) = Ok ()"
proof -
  obtain s r' where s: "auth_sign toy_crypto (demo_auth 2 1) [7] (\<lambda>_. 0) = Ok (s, r')"
    using sign_total by blast
  have v: "auth_verify toy_crypto (demo_auth 1 2) [7] s = Ok ()"
    by (rule verify_sign(1) [OF s toy_crypto_ok demo_trusts])
  have "auth_verify toy_crypto (hy_legs (demo_auth 1 2) ! 1) [7]
      (leg_slice toy_crypto (hy_legs (demo_auth 1 2)) 1 s) = Ok ()"
    by (rule hybrid_needs_every_leg [where i = 1, of toy_crypto "hy_legs (demo_auth 1 2)"])
      (use v in \<open>simp_all add: demo_auth_def\<close>)
  moreover have "hy_legs (demo_auth 1 2) ! 1 = MlDsaAuth (replicate 32 1) (replicate 32 2)"
    by (simp add: demo_auth_def)
  ultimately show ?thesis using v by auto
qed

text \<open>An honest signature of any authenticator, hybrid ones of any shape included, has the
  announced length and verifies at a peer that holds the matching public keys.\<close>

theorem honest_signature_verifies:
  assumes "crypto_ok C" "trusts C verifier signer"
  shows "\<exists>s r'. auth_sign C signer th r = Ok (s, r') \<and> length s = auth_sig_len C signer \<and>
    auth_verify C verifier th s = Ok ()"
  using sign_total(1) [of C signer th r] sign_length(1) verify_sign(1) assms by blast

theorem honest_signature_verifies_witness:
  "\<exists>s r'. auth_sign toy_crypto (demo_auth 2 1) [7] (\<lambda>_. 0) = Ok (s, r') \<and>
     length s = auth_sig_len toy_crypto (demo_auth 2 1) \<and>
     auth_verify toy_crypto (demo_auth 1 2) [7] s = Ok ()"
  by (rule honest_signature_verifies [OF toy_crypto_ok demo_trusts])

text \<open>The transcript framing is injective: two handshakes hash the same input only if they
  absorbed the same parts in the same order, so no byte can move between neighbouring parts.\<close>

theorem transcript_framing_injective:
  assumes "\<forall>x\<in>set xs. length x < 2 ^ 32" "\<forall>y\<in>set ys. length y < 2 ^ 32"
    "foldl absorb transcript_new xs = foldl absorb transcript_new ys"
  shows "xs = ys"
  using foldl_absorb_inject [OF assms(1,2)] assms(3)
  by (simp add: foldl_absorb_concat [of transcript_new])

theorem transcript_framing_injective_witness:
  "foldl absorb transcript_new [[1], [2, 3]] \<noteq> foldl absorb transcript_new [[1, 2], [3]]"
  using transcript_framing_injective [of "[[1], [2, 3]]" "[[1, 2], [3]]"] by auto

text \<open>The identity binding is symmetric: both parties absorb the same bytes, whoever starts.\<close>

theorem identity_binding_symmetric:
  assumes "trusts C b a" "trusts C a b"
  shows "identity_binding C a = identity_binding C b"
  by (rule identity_binding_commute [OF assms])

theorem identity_binding_symmetric_witness:
  "identity_binding toy_crypto (demo_auth 1 2) = identity_binding toy_crypto (demo_auth 2 1)"
  by (rule identity_binding_symmetric [OF demo_trusts demo_trusts])

text \<open>The cookie covers exactly the source address and the time window: the MAC input of two
  sources or windows is never the same, across both address families.\<close>

theorem cookie_input_injective:
  assumes "ip_wf (sa_ip a)" "ip_wf (sa_ip b)"
  shows "cookie_input a t = cookie_input b u \<longleftrightarrow> a = b \<and> t = u"
proof (cases "sa_ip a"; cases "sa_ip b")
  fix x y assume *: "sa_ip a = V4 x" "sa_ip b = V4 y"
  with assms have "length x = length y" by simp
  with * show ?thesis
    by (cases a; cases b) (auto simp: cookie_input_def)
next
  fix x y assume *: "sa_ip a = V6 x" "sa_ip b = V6 y"
  with assms have "length x = length y" by simp
  with * show ?thesis
    by (cases a; cases b) (auto simp: cookie_input_def)
next
  fix x y assume *: "sa_ip a = V4 x" "sa_ip b = V6 y"
  with assms have "length (cookie_input a t) \<noteq> length (cookie_input b u)"
    by (simp add: cookie_input_def)
  with * show ?thesis by auto
next
  fix x y assume *: "sa_ip a = V6 x" "sa_ip b = V4 y"
  with assms have "length (cookie_input a t) \<noteq> length (cookie_input b u)"
    by (simp add: cookie_input_def)
  with * show ?thesis by auto
qed

theorem cookie_input_injective_witness:
  "cookie_input \<lparr> sa_ip = V4 [10, 0, 0, 1], sa_port = 5 \<rparr> 3 \<noteq>
   cookie_input \<lparr> sa_ip = V4 [10, 0, 0, 2], sa_port = 5 \<rparr> 3"
  by (subst cookie_input_injective) simp_all

end
