(* ===== verification/Net_Addr.thy ===== *)
theory Net_Addr
  imports Text Crypto_Core
begin

text \<open>
  IP addresses as text (\<open>std::net\<close>): the parser of \<open>Ipv4Addr\<close>, \<open>Ipv6Addr\<close> and \<open>IpAddr\<close> and their
  printer, the conversions between an IPv4 address and its 32-bit number, and the classification the
  set-up uses. A parser returns what it read and the rest of the input.
\<close>

section \<open>Parser\<close>

text \<open>\<open>read_number(radix, Some(max_digits), allow_zero_prefix)\<close>; all digits are taken, too many fail.\<close>

fun take_digits :: "nat \<Rightarrow> string \<Rightarrow> string" where
  "take_digits radix [] = []"
| "take_digits radix (c # s) = (if digit_val radix c = None then [] else c # take_digits radix s)"

definition read_number :: "nat \<Rightarrow> nat \<Rightarrow> nat \<Rightarrow> bool \<Rightarrow> string \<Rightarrow> (nat \<times> string) option" where
  "read_number bound radix max_digits allow_zero_prefix s =
     (let ds = take_digits radix s
      in if ds = [] \<or> length ds > max_digits then None
         else if \<not> allow_zero_prefix \<and> hd ds = CHR ''0'' \<and> length ds > 1 then None
         else case digits_val radix 0 ds of
             Some n \<Rightarrow> if n < bound then Some (n, drop (length ds) s) else None
           | None \<Rightarrow> None)"

definition read_char :: "char \<Rightarrow> string \<Rightarrow> string option" where
  "read_char c s = (case s of [] \<Rightarrow> None | x # rest \<Rightarrow> if x = c then Some rest else None)"

text \<open>\<open>read_separator\<close>: from the second element on, the separator comes first.\<close>

definition after_sep :: "char \<Rightarrow> nat \<Rightarrow> string \<Rightarrow> string option" where
  "after_sep c i s = (if i = 0 then Some s else read_char c s)"

fun read_octets :: "nat \<Rightarrow> nat \<Rightarrow> string \<Rightarrow> (bytes \<times> string) option" where
  "read_octets 0 i s = Some ([], s)"
| "read_octets (Suc k) i s =
     (case after_sep (CHR ''.'') i s of
        None \<Rightarrow> None
      | Some s1 \<Rightarrow>
          (case read_number 256 10 3 False s1 of
             None \<Rightarrow> None
           | Some (n, s2) \<Rightarrow>
               (case read_octets k (Suc i) s2 of
                  None \<Rightarrow> None
                | Some (bs, s3) \<Rightarrow> Some (of_nat n # bs, s3))))"

definition read_v4 :: "string \<Rightarrow> (bytes \<times> string) option" where
  "read_v4 s = read_octets 4 0 s"

text \<open>\<open>read_groups\<close>: the groups from \<open>i\<close> on, at most \<open>k\<close> more; the last two may be an embedded IPv4
  address. The flag tells whether they were.\<close>

fun read_groups :: "nat \<Rightarrow> nat \<Rightarrow> string \<Rightarrow> nat list \<times> bool \<times> string" where
  "read_groups 0 i s = ([], False, s)"
| "read_groups (Suc k) i s =
     (case (if k > 0 then (case after_sep (CHR '':'') i s of Some s1 \<Rightarrow> read_v4 s1 | None \<Rightarrow> None) else None) of
        Some (bs, s2) \<Rightarrow>
          ([256 * unat (bs ! 0) + unat (bs ! 1), 256 * unat (bs ! 2) + unat (bs ! 3)], True, s2)
      | None \<Rightarrow>
          (case (case after_sep (CHR '':'') i s of Some s1 \<Rightarrow> read_number 65536 16 4 True s1 | None \<Rightarrow> None) of
             None \<Rightarrow> ([], False, s)
           | Some (g, s2) \<Rightarrow> (let (gs, v4, s3) = read_groups k (Suc i) s2 in (g # gs, v4, s3))))"

definition read_v6 :: "string \<Rightarrow> (nat list \<times> string) option" where
  "read_v6 s =
     (let (head, head_v4, s1) = read_groups 8 0 s
      in if length head = 8 then Some (head, s1)
         else if head_v4 then None
         else case read_char (CHR '':'') s1 of
             None \<Rightarrow> None
           | Some s2 \<Rightarrow>
               (case read_char (CHR '':'') s2 of
                  None \<Rightarrow> None
                | Some s3 \<Rightarrow>
                    let (tail, _, s4) = read_groups (8 - (length head + 1)) 0 s3
                    in Some (head @ replicate (8 - length head - length tail) 0 @ tail, s4)))"

definition segment_bytes :: "nat list \<Rightarrow> bytes" where
  "segment_bytes gs = concat (map (\<lambda>g. [of_nat (g div 256), of_nat g]) gs)"

definition parse_v4 :: "string \<Rightarrow> bytes option" where
  "parse_v4 s = (case read_v4 s of Some (bs, []) \<Rightarrow> Some bs | _ \<Rightarrow> None)"

definition parse_ip :: "string \<Rightarrow> ip_addr option" where
  "parse_ip s =
     (case (case read_v4 s of
              Some (bs, rest) \<Rightarrow> Some (V4 bs, rest)
            | None \<Rightarrow> map_option (\<lambda>(gs, rest). (V6 (segment_bytes gs), rest)) (read_v6 s)) of
        Some (ip, []) \<Rightarrow> Some ip
      | _ \<Rightarrow> None)"

text \<open>\<open>read_port\<close>: any number of digits. The scope of an IPv6 address is read and dropped: the model's
  addresses have none.\<close>

definition read_port :: "string \<Rightarrow> (nat \<times> string) option" where
  "read_port s = (case read_char (CHR '':'') s of None \<Rightarrow> None | Some s1 \<Rightarrow> read_number 65536 10 (length s1) True s1)"

definition read_scope :: "string \<Rightarrow> string" where
  "read_scope s =
     (case read_char (CHR ''%'') s of
        None \<Rightarrow> s
      | Some s1 \<Rightarrow> (case read_number (2 ^ 32) 10 (length s1) True s1 of None \<Rightarrow> s | Some (n, s2) \<Rightarrow> s2))"

definition read_sock_v4 :: "string \<Rightarrow> (sock_addr \<times> string) option" where
  "read_sock_v4 s =
     (case read_v4 s of
        None \<Rightarrow> None
      | Some (ip, s1) \<Rightarrow>
          (case read_port s1 of
             None \<Rightarrow> None
           | Some (p, s2) \<Rightarrow> Some (\<lparr> sa_ip = V4 ip, sa_port = of_nat p \<rparr>, s2)))"

definition read_sock_v6 :: "string \<Rightarrow> (sock_addr \<times> string) option" where
  "read_sock_v6 s =
     (case read_char (CHR ''['') s of
        None \<Rightarrow> None
      | Some s1 \<Rightarrow>
          (case read_v6 s1 of
             None \<Rightarrow> None
           | Some (gs, s2) \<Rightarrow>
               (case read_char (CHR '']'') (read_scope s2) of
                  None \<Rightarrow> None
                | Some s3 \<Rightarrow>
                    (case read_port s3 of
                       None \<Rightarrow> None
                     | Some (p, s4) \<Rightarrow> Some (\<lparr> sa_ip = V6 (segment_bytes gs), sa_port = of_nat p \<rparr>, s4)))))"

definition parse_sock_addr :: "string \<Rightarrow> sock_addr option" where
  "parse_sock_addr s =
     (case (case read_sock_v4 s of Some r \<Rightarrow> Some r | None \<Rightarrow> read_sock_v6 s) of
        Some (a, []) \<Rightarrow> Some a
      | _ \<Rightarrow> None)"

section \<open>Printer\<close>

definition show_v4 :: "bytes \<Rightarrow> string" where
  "show_v4 bs = join ''.'' (map (\<lambda>b. show_nat (unat b)) bs)"

definition hex_char :: "nat \<Rightarrow> char" where
  "hex_char n = char_of (if n < 10 then 48 + n else 87 + n)"

fun show_hex :: "nat \<Rightarrow> string" where
  "show_hex n = (if n < 16 then [hex_char n] else show_hex (n div 16) @ [hex_char (n mod 16)])"

declare show_hex.simps [simp del]

fun segments :: "bytes \<Rightarrow> nat list" where
  "segments (a # b # bs) = (256 * unat a + unat b) # segments bs"
| "segments bs = []"

text \<open>The longest run of zero segments, the first of them: start and length. \<open>c\<close> is the length of the
  run that ends just before \<open>i\<close>.\<close>

fun zero_run :: "nat list \<Rightarrow> nat \<Rightarrow> nat \<Rightarrow> nat \<times> nat \<Rightarrow> nat \<times> nat" where
  "zero_run [] i c longest = longest"
| "zero_run (g # gs) i c longest =
     (if g = 0
      then zero_run gs (Suc i) (Suc c) (if Suc c > snd longest then (i - c, Suc c) else longest)
      else zero_run gs (Suc i) 0 longest)"

definition show_v6 :: "bytes \<Rightarrow> string" where
  "show_v6 bs =
     (let gs = segments bs
      in if take 6 gs = [0, 0, 0, 0, 0, 65535] then ''::ffff:'' @ show_v4 (drop 12 bs)
         else let (start, len) = zero_run gs 0 0 (0, 0)
              in if len > 1
                 then join '':'' (map show_hex (take start gs)) @ ''::'' @ join '':'' (map show_hex (drop (start + len) gs))
                 else join '':'' (map show_hex gs))"

fun show_ip :: "ip_addr \<Rightarrow> string" where
  "show_ip (V4 bs) = show_v4 bs"
| "show_ip (V6 bs) = show_v6 bs"

definition show_sock_addr :: "sock_addr \<Rightarrow> string" where
  "show_sock_addr a =
     (case sa_ip a of
        V4 bs \<Rightarrow> show_v4 bs @ '':'' @ show_nat (unat (sa_port a))
      | V6 bs \<Rightarrow> ''['' @ show_v6 bs @ '']:'' @ show_nat (unat (sa_port a)))"

section \<open>Numbers\<close>

text \<open>\<open>u32::from(Ipv4Addr)\<close> and back.\<close>

definition v4_u32 :: "bytes \<Rightarrow> u32" where
  "v4_u32 bs = of_nat (le_nat (rev bs))"

definition u32_v4 :: "u32 \<Rightarrow> bytes" where
  "u32_v4 w = rev (le_bytes 4 (unat w))"

section \<open>Lemmas\<close>

text \<open>Characters of printed numbers and addresses.\<close>

definition dec_char :: "char \<Rightarrow> bool" where
  "dec_char c = (48 \<le> (of_char c :: nat) \<and> (of_char c :: nat) \<le> 57)"

definition addr_char :: "char \<Rightarrow> bool" where
  "addr_char c = (dec_char c \<or> (97 \<le> (of_char c :: nat) \<and> (of_char c :: nat) \<le> 102) \<or> c = CHR ''.'' \<or> c = CHR '':'')"

lemma dec_digit: "(n :: nat) < 10 \<Longrightarrow> dec_char (char_of (48 + n))"
  by (simp add: dec_char_def)

lemma dec_digit_val: "n < 10 \<Longrightarrow> digit_val 10 (char_of (48 + n)) = Some n"
  by (simp add: digit_val_def Let_def)

lemma show_nat_dec: "c \<in> set (show_nat n) \<Longrightarrow> dec_char c"
proof (induction n rule: show_nat.induct)
  case (1 n)
  then show ?case
    by (subst (asm) (2) show_nat.simps) (auto split: if_splits intro: dec_digit)
qed

lemma show_nat_nonempty [simp]: "show_nat n \<noteq> []"
  by (subst show_nat.simps) simp

lemma digits_val_append:
  "digits_val r acc (xs @ ys) = (case digits_val r acc xs of None \<Rightarrow> None | Some a \<Rightarrow> digits_val r a ys)"
  by (induction xs arbitrary: acc) (auto split: option.splits)

lemma digits_val_show_nat: "digits_val 10 0 (show_nat n) = Some n"
proof (induction n rule: show_nat.induct)
  case (1 n)
  then show ?case
    by (subst show_nat.simps) (auto simp: dec_digit_val digits_val_append)
qed

lemma show_nat_length: "n < 10 ^ k \<Longrightarrow> 0 < k \<Longrightarrow> length (show_nat n) \<le> k"
proof (induction n arbitrary: k rule: show_nat.induct)
  case (1 n)
  show ?case
  proof (cases "n < 10")
    case True
    with 1 show ?thesis by (subst show_nat.simps) simp
  next
    case False
    then obtain j where k: "k = Suc j" "0 < j" using 1 by (cases k; cases "k - 1") auto
    then have "n div 10 < 10 ^ j" using 1(2) by (simp add: less_mult_imp_div_less mult.commute)
    with 1(1) [OF False this] k show ?thesis using False by (subst show_nat.simps) simp
  qed
qed

lemma show_nat_hd: "hd (show_nat n) = CHR ''0'' \<Longrightarrow> n = 0"
proof (induction n rule: show_nat.induct)
  case (1 n)
  show ?case
  proof (cases "n < 10")
    case True
    with 1(2) have "char_of (48 + n) = CHR ''0''" by (simp add: show_nat.simps [of n])
    then have "of_char (char_of (48 + n) :: char) = (48 :: nat)" by simp
    with True show ?thesis by simp
  next
    case False
    with 1 have "n div 10 = 0" by (simp add: show_nat.simps [of n])
    with False show ?thesis by simp
  qed
qed

lemma take_digits_append:
  assumes "\<forall>c\<in>set ds. digit_val r c \<noteq> None" "rest = [] \<or> digit_val r (hd rest) = None"
  shows "take_digits r (ds @ rest) = ds"
proof -
  have "take_digits r rest = []" using assms(2) by (cases rest) auto
  then show ?thesis using assms(1) by (induction ds) auto
qed

lemma dec_digit_val_Some: "dec_char c \<Longrightarrow> digit_val 10 c \<noteq> None"
  by (auto simp: dec_char_def digit_val_def Let_def split: option.splits)

lemma read_number_show:
  assumes "n < bound" "rest = [] \<or> digit_val 10 (hd rest) = None" "length (show_nat n) \<le> m"
  shows "read_number bound 10 m zero (show_nat n @ rest) = Some (n, rest)"
proof -
  have t: "take_digits 10 (show_nat n @ rest) = show_nat n"
    using assms(2) by (intro take_digits_append) (auto simp: dec_digit_val_Some show_nat_dec)
  have "hd (show_nat n) = CHR ''0'' \<Longrightarrow> length (show_nat n) \<le> 1"
    using show_nat_hd [of n] by (simp add: show_nat.simps [of 0])
  with t assms show ?thesis
    by (auto simp: read_number_def Let_def digits_val_show_nat)
qed

lemma not_digit [simp]: "digit_val 10 (CHR ''.'') = None" "digit_val 10 (CHR '':'') = None"
  by (simp_all add: digit_val_def)

lemma read_octet_show:
  assumes "rest = [] \<or> digit_val 10 (hd rest) = None"
  shows "read_number 256 10 3 False (show_nat (unat (x :: byte)) @ rest) = Some (unat x, rest)"
  by (rule read_number_show [OF unat_byte_less assms])
    (use show_nat_length [of "unat x" 3] unat_byte_less [of x] in simp)

lemma read_v4_unfold: "read_v4 s = read_octets (Suc (Suc (Suc (Suc 0)))) 0 s"
  by (simp add: read_v4_def eval_nat_numeral)

lemma read_v4_show:
  assumes "length bs = 4" "rest = [] \<or> digit_val 10 (hd rest) = None"
  shows "read_v4 (show_v4 bs @ rest) = Some (bs, rest)"
proof -
  obtain a b c d where bs: "bs = [a, b, c, d]"
    using assms(1) by (auto simp: numeral_eq_Suc length_Suc_conv)
  show ?thesis
    using read_octet_show [of rest d] assms(2)
    by (simp add: read_v4_unfold bs show_v4_def after_sep_def read_char_def read_octet_show)
qed

lemma parse_v4_show: "length bs = 4 \<Longrightarrow> parse_v4 (show_v4 bs) = Some bs"
  using read_v4_show [of bs "[]"] by (simp add: parse_v4_def)

lemma set_join: "c \<in> set (join sep xs) \<Longrightarrow> c \<in> set sep \<or> (\<exists>x\<in>set xs. c \<in> set x)"
  by (induction sep xs rule: join.induct) auto

lemma addr_char_sep [simp]: "addr_char (CHR ''.'')" "addr_char (CHR '':'')" "addr_char (CHR ''f'')"
  by (simp_all add: addr_char_def)

lemma addr_char_dec: "dec_char c \<Longrightarrow> addr_char c"
  by (simp add: addr_char_def)

lemma addr_char_hex: "n < 16 \<Longrightarrow> addr_char (hex_char n)"
  by (cases "n < 10") (simp_all add: hex_char_def addr_char_def dec_char_def)

lemma show_hex_addr: "c \<in> set (show_hex n) \<Longrightarrow> addr_char c"
proof (induction n rule: show_hex.induct)
  case (1 n)
  then show ?case
    by (subst (asm) (2) show_hex.simps) (auto split: if_splits intro: addr_char_hex)
qed

lemma show_v4_addr: "c \<in> set (show_v4 bs) \<Longrightarrow> addr_char c"
  unfolding show_v4_def by (auto dest!: set_join show_nat_dec intro: addr_char_dec)

lemma show_v6_addr: "c \<in> set (show_v6 bs) \<Longrightarrow> addr_char c"
  unfolding show_v6_def Let_def
  by (auto dest!: set_join show_hex_addr show_v4_addr split: if_splits prod.splits)

lemma show_ip_addr: "c \<in> set (show_ip ip) \<Longrightarrow> addr_char c"
  by (cases ip) (auto intro: show_v4_addr show_v6_addr)

lemma addr_char_safe:
  "addr_char c \<Longrightarrow> c \<noteq> CHR 0x22 \<and> c \<noteq> CHR 0x27 \<and> c \<noteq> CHR 0x0A \<and> c \<noteq> CHR 0x0D \<and> c \<noteq> CHR 0x5C \<and>
    c \<noteq> CHR '','' \<and> c \<noteq> CHR ''|'' \<and> c \<noteq> CHR ''/'' \<and> \<not> is_space c"
  by (auto simp: addr_char_def dec_char_def is_space_def Let_def)

lemma not_addr [simp]: "\<not> addr_char (CHR 0x0A)" "\<not> addr_char (CHR '' '')" "\<not> addr_char (CHR ''/'')"
  "\<not> addr_char (CHR '','')" "\<not> addr_char (CHR ''|'')" "\<not> addr_char (CHR 0x0D)" "\<not> addr_char (CHR ''+'')"
  by (simp_all add: addr_char_def dec_char_def)

lemma no_addr: "\<not> addr_char c \<Longrightarrow> c \<notin> set (show_v4 bs) \<and> c \<notin> set (show_v6 bs) \<and> c \<notin> set (show_nat n) \<and> c \<notin> set (show_ip ip)"
  using show_v4_addr show_v6_addr show_nat_dec addr_char_dec show_ip_addr by blast

lemma no_space: "\<forall>c\<in>set (show_ip ip). \<not> is_space c" "\<forall>c\<in>set (show_nat n). \<not> is_space c"
  using show_ip_addr show_nat_dec addr_char_dec addr_char_safe by blast+

lemma parse_uint_show: "n < bound \<Longrightarrow> parse_uint bound (show_nat n) = Some n"
proof -
  assume "n < bound"
  moreover obtain c s where cs: "show_nat n = c # s" using show_nat_nonempty[of n] by (cases "show_nat n") auto
  moreover have "c \<noteq> CHR ''+''" using no_addr[of "CHR ''+''" _ n] cs by auto
  ultimately show ?thesis using digits_val_show_nat[of n] by (simp add: parse_uint_def)
qed

fun is_v4 :: "ip_addr \<Rightarrow> bool" where
  "is_v4 (V4 bs) = (length bs = 4)"
| "is_v4 (V6 bs) = False"

lemma parse_ip_show: "is_v4 a \<Longrightarrow> parse_ip (show_ip a) = Some a"
  using read_v4_show [of _ "[]"] by (cases a) (auto simp: parse_ip_def)

lemma parse_sock_addr_show:
  assumes "is_v4 (sa_ip a)"
  shows "parse_sock_addr (show_sock_addr a) = Some a"
proof -
  obtain bs where bs: "sa_ip a = V4 bs" "length bs = 4" using assms by (cases "sa_ip a") auto
  have port: "unat (sa_port a) < 65536" using unsigned_less [of "sa_port a"] by simp
  have "read_number 65536 10 (length (show_nat (unat (sa_port a)))) True (show_nat (unat (sa_port a)) @ []) =
      Some (unat (sa_port a), [])"
    by (rule read_number_show) (use port in simp_all)
  moreover have "read_v4 (show_v4 bs @ CHR '':'' # show_nat (unat (sa_port a))) =
      Some (bs, CHR '':'' # show_nat (unat (sa_port a)))"
    by (rule read_v4_show) (simp_all add: bs)
  ultimately show ?thesis
    using bs(1) by (simp add: parse_sock_addr_def read_sock_v4_def show_sock_addr_def read_port_def read_char_def)
qed

end
