(* ===== verification/Config.thy ===== *)
theory Config
  imports Float32 Obf Net_Addr
begin

text \<open>
  The configuration of \<open>src/config.rs\<close>: the sections as records, the traffic profiles with their
  wire ids and their resolution into concrete parameters, the hex decoders and \<open>validate\<close>. The
  TOML parser and the command line are third-party code and are left out; a configuration here is
  what the parser produced. Strings are ASCII.
\<close>

section \<open>Traffic profiles\<close>

datatype traffic_mode = ModeCbr | ModeAdaptive

datatype traffic_profile = ProfStealth | ProfBalanced | ProfThroughput | ProfOff | ProfCustom

fun wire_id :: "traffic_profile \<Rightarrow> byte option" where
  "wire_id ProfOff = Some 0"
| "wire_id ProfBalanced = Some 1"
| "wire_id ProfThroughput = Some 2"
| "wire_id ProfStealth = Some 3"
| "wire_id ProfCustom = None"

definition from_wire_id :: "byte \<Rightarrow> traffic_profile option" where
  "from_wire_id i =
     (if i = 0 then Some ProfOff else if i = 1 then Some ProfBalanced
      else if i = 2 then Some ProfThroughput else if i = 3 then Some ProfStealth else None)"

definition ALL_PROFILES :: "traffic_profile list" where
  "ALL_PROFILES = [ProfStealth, ProfBalanced, ProfThroughput, ProfOff, ProfCustom]"

record effective_traffic =
  et_profile :: traffic_profile
  et_enabled :: bool
  et_mode :: traffic_mode
  et_rate_pps :: u32
  et_burst :: u16
  et_cooldown_ms :: u64
  et_cover_budget :: u32
  et_cover_ratio :: f32

record traffic_config =
  tc_profile :: traffic_profile
  tc_enabled :: bool
  tc_mode :: traffic_mode
  tc_rate_pps :: u32
  tc_burst :: u16
  tc_cooldown_ms :: u64
  tc_cover_budget :: u32
  tc_cover_ratio :: f32
  tc_follow_client :: bool

definition traffic_default :: traffic_config where
  "traffic_default =
     \<lparr> tc_profile = ProfOff, tc_enabled = True, tc_mode = ModeAdaptive, tc_rate_pps = 256, tc_burst = 2,
       tc_cooldown_ms = 500, tc_cover_budget = 64, tc_cover_ratio = Fin (1 / 4), tc_follow_client = True \<rparr>"

definition effective :: "traffic_config \<Rightarrow> effective_traffic" where
  "effective t =
     (let cd = tc_cooldown_ms t;
          mk = (\<lambda>enabled mode rate burst.
            \<lparr> et_profile = tc_profile t, et_enabled = enabled, et_mode = mode, et_rate_pps = rate,
              et_burst = burst, et_cooldown_ms = cd, et_cover_budget = tc_cover_budget t,
              et_cover_ratio = tc_cover_ratio t \<rparr>)
      in case tc_profile t of
        ProfStealth \<Rightarrow> mk True ModeCbr 256 2
      | ProfBalanced \<Rightarrow> mk True ModeAdaptive 3000 4
      | ProfThroughput \<Rightarrow> mk True ModeAdaptive 6000 8
      | ProfOff \<Rightarrow> mk False (tc_mode t) (tc_rate_pps t) (tc_burst t)
      | ProfCustom \<Rightarrow> mk (tc_enabled t) (tc_mode t) (tc_rate_pps t) (tc_burst t))"

section \<open>Hex fields\<close>

definition config_err :: "string \<Rightarrow> chameleon_error" where
  "config_err msg = HandshakeErr ''config'' msg"

definition hex_nibble :: "byte \<Rightarrow> string \<Rightarrow> byte result" where
  "hex_nibble b field =
     (if 48 \<le> b \<and> b \<le> 57 then Ok (b - 48)
      else if 97 \<le> b \<and> b \<le> 102 then Ok (b - 97 + 10)
      else if 65 \<le> b \<and> b \<le> 70 then Ok (b - 65 + 10)
      else Err (config_err (field @ '': invalid hex character '' @ [CHR 0x27, char_of (unat b), CHR 0x27])))"

text \<open>The loop of both decoders over \<open>chunks(2)\<close>; both call it on an even length, so \<open>chunk[1]\<close> is
  never out of bounds.\<close>

fun hex_pairs :: "string \<Rightarrow> bytes \<Rightarrow> bytes result" where
  "hex_pairs field [] = Ok []"
| "hex_pairs field [a] = Err (InternalErr ''index out of bounds'')"
| "hex_pairs field (a # b # rest) =
     rbind (hex_nibble a field) (\<lambda>hi.
     rbind (hex_nibble b field) (\<lambda>lo.
     rbind (hex_pairs field rest) (\<lambda>out. Ok ((push_bit 4 hi OR lo) # out))))"

definition hex_to_32 :: "string \<Rightarrow> string \<Rightarrow> bytes result" where
  "hex_to_32 s field =
     (let s = trim s
      in if length s \<noteq> 64
         then Err (config_err (field @ '': expected 64 hex chars, got '' @ show_nat (length s)))
         else hex_pairs field (ascii s))"

definition hex_to_vec :: "string \<Rightarrow> string \<Rightarrow> bytes result" where
  "hex_to_vec s field =
     (let s = trim s
      in if length s mod 2 \<noteq> 0
         then Err (config_err (field @ '': hex length '' @ show_nat (length s) @ '' is not even''))
         else hex_pairs field (ascii s))"

section \<open>The sections\<close>

record identity_config =
  ic_seed_hex :: string
  ic_peer_pub_hex :: string
  ic_mldsa_secret_hex :: "string option"
  ic_peer_mldsa_pub_hex :: "string option"

definition seed_bytes :: "identity_config \<Rightarrow> bytes result" where
  "seed_bytes i = hex_to_32 (ic_seed_hex i) ''identity.ed25519_seed_hex''"

definition peer_pub_bytes :: "identity_config \<Rightarrow> bytes result" where
  "peer_pub_bytes i = hex_to_32 (ic_peer_pub_hex i) ''identity.peer_ed25519_pub_hex''"

text \<open>\<open>.as_deref().map(f).transpose()\<close>.\<close>

definition transpose_opt :: "string option \<Rightarrow> (string \<Rightarrow> bytes result) \<Rightarrow> bytes option result" where
  "transpose_opt x f = (case x of None \<Rightarrow> Ok None | Some s \<Rightarrow> rbind (f s) (\<lambda>v. Ok (Some v)))"

definition mldsa_secret_bytes :: "identity_config \<Rightarrow> bytes option result" where
  "mldsa_secret_bytes i = transpose_opt (ic_mldsa_secret_hex i) (\<lambda>s. hex_to_vec s ''identity.mldsa_secret_hex'')"

definition peer_mldsa_pub_bytes :: "identity_config \<Rightarrow> bytes option result" where
  "peer_mldsa_pub_bytes i =
     transpose_opt (ic_peer_mldsa_pub_hex i) (\<lambda>s. hex_to_vec s ''identity.peer_mldsa_pub_hex'')"

definition has_mldsa :: "identity_config \<Rightarrow> bool" where
  "has_mldsa i \<longleftrightarrow> ic_mldsa_secret_hex i \<noteq> None \<and> ic_peer_mldsa_pub_hex i \<noteq> None"

record tun_config =
  tn_name :: string
  tn_address :: string
  tn_netmask :: string
  tn_mtu :: u16
  tn_route_all :: bool
  tn_peer_address :: "string option"
  tn_kill_switch :: bool
  tn_dns :: "string list"

record engine_config =
  ec_batch_linger_us :: u64
  ec_workers :: nat
  ec_gso :: bool

definition engine_default :: engine_config where
  "engine_default = \<lparr> ec_batch_linger_us = 200, ec_workers = 0, ec_gso = False \<rparr>"

datatype padding_policy = PaddingOff | PaddingBucketed | PaddingFull

fun pad_policy_from :: "padding_policy \<Rightarrow> pad_policy" where
  "pad_policy_from PaddingOff = PadOff"
| "pad_policy_from PaddingBucketed = PadBucketed"
| "pad_policy_from PaddingFull = PadFull"

record obfuscation_config =
  oc_enabled :: bool
  oc_padding :: padding_policy
  oc_handshake :: bool
  oc_psk_hex :: "string option"

definition psk_bytes :: "obfuscation_config \<Rightarrow> bytes option result" where
  "psk_bytes oc = transpose_opt (oc_psk_hex oc) (\<lambda>s. hex_to_vec s ''obfuscation.psk_hex'')"

definition obfuscation_default :: obfuscation_config where
  "obfuscation_default =
     \<lparr> oc_enabled = True, oc_padding = PaddingBucketed, oc_handshake = True, oc_psk_hex = None \<rparr>"

record network_config =
  nc_bind_addr :: sock_addr
  nc_server_addr :: "sock_addr option"

record app_config =
  ac_identity :: identity_config
  ac_network :: network_config
  ac_tun :: tun_config
  ac_engine :: engine_config
  ac_obfuscation :: obfuscation_config
  ac_traffic :: traffic_config

section \<open>Validation\<close>

definition SAFE_TUN_MTU :: u16 where
  "SAFE_TUN_MTU = 1232"

definition mldsa_pair_check :: "identity_config \<Rightarrow> unit result" where
  "mldsa_pair_check i =
     (if (ic_mldsa_secret_hex i = None) = (ic_peer_mldsa_pub_hex i = None)
      then rbind (mldsa_secret_bytes i) (\<lambda>_. rbind (peer_mldsa_pub_bytes i) (\<lambda>_. Ok ()))
      else Err (config_err (''identity: set BOTH mldsa_secret_hex and peer_mldsa_pub_hex, '' @
             ''or neither (hybrid ML-DSA auth is all-or-nothing)'')))"

definition tun_check :: "tun_config \<Rightarrow> bool \<Rightarrow> unit result" where
  "tun_check t obf =
     (if tn_mtu t < 576
      then Err (config_err (''tun.mtu '' @ show_nat (unat (tn_mtu t)) @ '' is below minimum 576''))
      else if obf \<and> tn_mtu t > SAFE_TUN_MTU
      then Err (config_err (''tun.mtu '' @ show_nat (unat (tn_mtu t)) @
             '' exceeds the obfuscation-safe maximum '' @ show_nat (unat SAFE_TUN_MTU) @
             '': a larger MTU would fragment the obfuscated data path (breaking the '' @
             ''constant-size property and adding a fingerprint). Lower tun.mtu.''))
      else if tn_kill_switch t \<and> \<not> tn_route_all t
      then Err (config_err (''tun.kill_switch requires tun.route_all = true (kill switch '' @
             ''only guards full-tunnel routing)''))
      else if tn_dns t \<noteq> [] \<and> \<not> tn_route_all t
      then Err (config_err (''tun.dns requires tun.route_all = true (DNS-leak protection '' @
             ''only applies with full-tunnel routing)''))
      else Ok ())"

definition psk_check :: "obfuscation_config \<Rightarrow> unit result" where
  "psk_check oc =
     rbind (psk_bytes oc) (\<lambda>psk.
     case psk of
       Some p \<Rightarrow>
         if length p < 16
         then Err (config_err (''obfuscation.psk_hex is only '' @ show_nat (length p) @ '' bytes; use at least 16''))
         else Ok ()
     | None \<Rightarrow> Ok ())"

definition traffic_check :: "traffic_config \<Rightarrow> bool \<Rightarrow> unit result" where
  "traffic_check t obf =
     (let eff = effective t
      in if et_enabled eff
         then if \<not> obf
              then Err (config_err ''traffic (profile != off) requires obfuscation.enabled = true'')
              else if et_rate_pps eff < 1 \<or> et_burst eff < 1
              then Err (config_err ''traffic.rate_pps and traffic.burst must both be >= 1'')
              else Ok ()
         else Ok ())"

definition validate :: "app_config \<Rightarrow> unit result" where
  "validate cfg =
     rbind (seed_bytes (ac_identity cfg)) (\<lambda>_.
     rbind (peer_pub_bytes (ac_identity cfg)) (\<lambda>_.
     rbind (mldsa_pair_check (ac_identity cfg)) (\<lambda>_.
     rbind (tun_check (ac_tun cfg) (oc_enabled (ac_obfuscation cfg))) (\<lambda>_.
     rbind (psk_check (ac_obfuscation cfg)) (\<lambda>_.
     if oc_handshake (ac_obfuscation cfg) \<and> \<not> oc_enabled (ac_obfuscation cfg)
     then Err (config_err ''obfuscation.handshake requires obfuscation.enabled = true'')
     else traffic_check (ac_traffic cfg) (oc_enabled (ac_obfuscation cfg)))))))"

section \<open>Lemmas\<close>

text \<open>\<open>TrafficProfile::ALL\<close> lists every profile once, so the type is enumerable by it.\<close>

instantiation traffic_profile :: enum
begin

definition enum_traffic_profile :: "traffic_profile list" where
  "enum_traffic_profile = ALL_PROFILES"

definition enum_all_traffic_profile :: "(traffic_profile \<Rightarrow> bool) \<Rightarrow> bool" where
  "enum_all_traffic_profile P = list_all P ALL_PROFILES"

definition enum_ex_traffic_profile :: "(traffic_profile \<Rightarrow> bool) \<Rightarrow> bool" where
  "enum_ex_traffic_profile P = list_ex P ALL_PROFILES"

instance
proof
  have all: "p \<in> set ALL_PROFILES" for p
    by (cases p) (simp_all add: ALL_PROFILES_def)
  then show "UNIV = set (enum_class.enum :: traffic_profile list)"
    by (auto simp: enum_traffic_profile_def)
  show "distinct (enum_class.enum :: traffic_profile list)"
    by (simp add: enum_traffic_profile_def ALL_PROFILES_def)
  show "enum_class.enum_all P \<longleftrightarrow> Ball UNIV P" for P :: "traffic_profile \<Rightarrow> bool"
    using all by (auto simp: enum_all_traffic_profile_def list_all_iff)
  show "enum_class.enum_ex P \<longleftrightarrow> Bex UNIV P" for P :: "traffic_profile \<Rightarrow> bool"
    using all by (auto simp: enum_ex_traffic_profile_def list_ex_iff)
qed

end

interpretation profile_code: byte_code wire_id from_wire_id
proof unfold_locales
  fix p b
  show "wire_id p = Some b \<Longrightarrow> from_wire_id b = Some p"
    by (cases p) (auto simp: from_wire_id_def)
  show "from_wire_id b = Some p \<Longrightarrow> wire_id p = Some b"
    by (auto simp: from_wire_id_def split: if_splits)
qed

lemma effective_preset: "p \<noteq> ProfCustom \<Longrightarrow> p \<noteq> ProfOff \<Longrightarrow>
    1 \<le> et_rate_pps (effective (t\<lparr> tc_profile := p \<rparr>)) \<and> 1 \<le> et_burst (effective (t\<lparr> tc_profile := p \<rparr>)) \<and>
    et_enabled (effective (t\<lparr> tc_profile := p \<rparr>))"
  by (cases p) (simp_all add: effective_def)

lemma effective_profile [simp]: "et_profile (effective t) = tc_profile t"
  by (simp add: effective_def Let_def split: traffic_profile.splits)

text \<open>Lower-case hexadecimal, as \<open>format!\<close> with \<open>02x\<close> prints it.\<close>

definition hex_digit :: "byte \<Rightarrow> char" where
  "hex_digit n = char_of (unat (if n < 10 then n + 48 else n + 87))"

fun to_hex :: "bytes \<Rightarrow> string" where
  "to_hex [] = []"
| "to_hex (b # bs) = hex_digit (drop_bit 4 b) # hex_digit (b AND 15) # to_hex bs"


lemma of_char_byte [simp]: "of_char (char_of (unat w)) = (w :: byte)"
proof -
  have "(of_char (char_of (unat w)) :: nat) = unat w"
    using unat_byte_less [of w] by simp
  then have "of_nat (of_char (char_of (unat w))) = w" by simp
  then show ?thesis by (simp only: of_nat_of_char)
qed

lemma hex_digit_unat:
  assumes "(n :: byte) < 16"
  shows "unat n < 16" "unat (n + 48) = unat n + 48" "unat (n + 87) = unat n + 87"
  using assms by (simp_all add: word_less_nat_alt unat_word_ariths)

lemma hex_nibble_digit:
  assumes "n < 16"
  shows "hex_nibble (of_char (hex_digit n)) field = Ok n"
proof -
  have "n + 87 - 97 + 10 = n" by (simp add: algebra_simps)
  then show ?thesis
    using hex_digit_unat [OF assms]
    by (auto simp: hex_digit_def hex_nibble_def word_le_nat_alt word_less_nat_alt)
qed

lemma hex_digit_no_space:
  assumes "n < 16"
  shows "\<not> is_space (hex_digit n)"
  using hex_digit_unat [OF assms] by (simp add: hex_digit_def is_space_def Let_def)

lemma low_nibble: "(b :: byte) AND 15 = take_bit 4 b"
  by (simp add: take_bit_eq_mask mask_eq_exp_minus_1)

lemma nibbles_less: "drop_bit 4 (b :: byte) < 16" "(b :: byte) AND 15 < 16"
proof -
  have "unat b div 16 < 16" using unat_byte_less [of b] by linarith
  then show "drop_bit 4 b < 16"
    by (simp add: word_less_nat_alt drop_bit_eq_div unat_div)
  have "unat (take_bit 4 b) = take_bit 4 (unat b)" by (simp only: unsigned_take_bit_eq)
  then have "unat (take_bit 4 b) < 16" by (simp add: take_bit_eq_mod)
  then show "b AND 15 < 16"
    unfolding low_nibble by (simp only: word_less_nat_alt) simp
qed

lemma nibbles_join: "push_bit 4 (drop_bit 4 b) OR (b AND 15) = (b :: byte)"
  unfolding low_nibble by (rule bit_word_eqI) (auto simp: bit_simps)

lemma hex_pairs_to_hex: "hex_pairs field (ascii (to_hex bs)) = Ok bs"
  by (induction bs) (simp_all add: ascii_def hex_nibble_digit nibbles_less nibbles_join)

lemma length_to_hex [simp]: "length (to_hex bs) = 2 * length bs"
  by (induction bs) simp_all

lemma to_hex_no_space: "c \<in> set (to_hex bs) \<Longrightarrow> \<not> is_space c"
  by (induction bs) (auto simp: hex_digit_no_space nibbles_less)

lemma trim_padded:
  assumes "\<forall>c\<in>set pre. is_space c" "\<forall>c\<in>set post. is_space c" "\<forall>c\<in>set s. \<not> is_space c"
  shows "trim (pre @ s @ post) = s"
proof (cases "s = []")
  case True
  have "\<forall>x\<in>set (dropWhile is_space post). is_space x" using assms(2) set_dropWhileD by fast
  with True assms(1) show ?thesis by (simp add: trim_def)
next
  case False
  then have "\<not> is_space (hd s)" "\<not> is_space (last s)" using assms(3) by simp_all
  then have "dropWhile is_space (pre @ s @ post) = s @ post"
    using assms(1) False by (cases s) (simp_all add: dropWhile_append)
  moreover have "dropWhile is_space (rev (s @ post)) = rev s"
    using assms(2) False \<open>\<not> is_space (last s)\<close>
    by (cases s rule: rev_cases) (simp_all add: dropWhile_append)
  ultimately show ?thesis by (simp add: trim_def)
qed

lemma validate_iff:
  "validate cfg = Ok () \<longleftrightarrow>
    (let i = ac_identity cfg; t = ac_tun cfg; oc = ac_obfuscation cfg; eff = effective (ac_traffic cfg)
     in is_ok (seed_bytes i) \<and> is_ok (peer_pub_bytes i) \<and>
        ((ic_mldsa_secret_hex i = None) = (ic_peer_mldsa_pub_hex i = None)) \<and>
        is_ok (mldsa_secret_bytes i) \<and> is_ok (peer_mldsa_pub_bytes i) \<and>
        576 \<le> unat (tn_mtu t) \<and> (oc_enabled oc \<longrightarrow> unat (tn_mtu t) \<le> 1232) \<and>
        (tn_kill_switch t \<or> tn_dns t \<noteq> [] \<longrightarrow> tn_route_all t) \<and>
        (\<exists>psk. psk_bytes oc = Ok psk \<and> (\<forall>p. psk = Some p \<longrightarrow> 16 \<le> length p)) \<and>
        (oc_handshake oc \<longrightarrow> oc_enabled oc) \<and>
        (et_enabled eff \<longrightarrow> oc_enabled oc \<and> 1 \<le> unat (et_rate_pps eff) \<and> 1 \<le> unat (et_burst eff)))"
proof -
  let ?i = "ac_identity cfg" and ?t = "ac_tun cfg" and ?oc = "ac_obfuscation cfg"
  let ?eff = "effective (ac_traffic cfg)"
  have ok: "rbind x (\<lambda>_. y) = Ok () \<longleftrightarrow> is_ok x \<and> y = Ok ()" for x :: "'x result" and y
    by (cases x) auto
  have "mldsa_pair_check ?i = Ok () \<longleftrightarrow>
      ((ic_mldsa_secret_hex ?i = None) = (ic_peer_mldsa_pub_hex ?i = None)) \<and>
      is_ok (mldsa_secret_bytes ?i) \<and> is_ok (peer_mldsa_pub_bytes ?i)"
    by (simp add: mldsa_pair_check_def ok)
  moreover have "tun_check ?t b = Ok () \<longleftrightarrow> 576 \<le> unat (tn_mtu ?t) \<and>
      (b \<longrightarrow> unat (tn_mtu ?t) \<le> 1232) \<and> (tn_kill_switch ?t \<or> tn_dns ?t \<noteq> [] \<longrightarrow> tn_route_all ?t)" for b
    by (auto simp: tun_check_def SAFE_TUN_MTU_def word_less_nat_alt word_le_nat_alt)
  moreover have "psk_check ?oc = Ok () \<longleftrightarrow>
      (\<exists>psk. psk_bytes ?oc = Ok psk \<and> (\<forall>p. psk = Some p \<longrightarrow> 16 \<le> length p))"
    by (cases "psk_bytes ?oc") (auto simp: psk_check_def split: option.splits)
  moreover have "traffic_check (ac_traffic cfg) b = Ok () \<longleftrightarrow>
      (et_enabled ?eff \<longrightarrow> b \<and> 1 \<le> unat (et_rate_pps ?eff) \<and> 1 \<le> unat (et_burst ?eff))" for b
    by (auto simp: traffic_check_def Let_def word_less_nat_alt word_le_nat_alt)
  moreover have "is_ok x \<longleftrightarrow> x = Ok ()" for x :: "unit result"
    by (cases x) auto
  ultimately show ?thesis
    by (auto simp: validate_def ok Let_def split: if_splits)
qed

text \<open>A complete configuration, for the witnesses.\<close>

definition demo_config :: "traffic_config \<Rightarrow> u64 \<Rightarrow> app_config" where
  "demo_config tc linger =
     \<lparr> ac_identity = \<lparr> ic_seed_hex = to_hex (replicate 32 7), ic_peer_pub_hex = to_hex (replicate 32 9),
         ic_mldsa_secret_hex = None, ic_peer_mldsa_pub_hex = None \<rparr>,
       ac_network = \<lparr> nc_bind_addr = \<lparr> sa_ip = V4 [0, 0, 0, 0], sa_port = 51820 \<rparr>, nc_server_addr = None \<rparr>,
       ac_tun = \<lparr> tn_name = ''chameleon0'', tn_address = ''10.99.0.1'', tn_netmask = ''255.255.255.0'',
         tn_mtu = 1200, tn_route_all = False, tn_peer_address = None, tn_kill_switch = False, tn_dns = [] \<rparr>,
       ac_engine = engine_default\<lparr> ec_batch_linger_us := linger \<rparr>,
       ac_obfuscation = obfuscation_default, ac_traffic = tc \<rparr>"

lemma hex_to_32_hex [simp]: "length bs = 32 \<Longrightarrow> hex_to_32 (to_hex bs) field = Ok bs"
  using trim_padded [of "[]" "[]" "to_hex bs"] to_hex_no_space
  by (auto simp: hex_to_32_def Let_def hex_pairs_to_hex)

lemma demo_config_valid:
  "validate (demo_config tc linger) = Ok () \<longleftrightarrow>
    (et_enabled (effective tc) \<longrightarrow> 1 \<le> unat (et_rate_pps (effective tc)) \<and> 1 \<le> unat (et_burst (effective tc)))"
  by (simp add: validate_iff demo_config_def seed_bytes_def peer_pub_bytes_def mldsa_secret_bytes_def
      peer_mldsa_pub_bytes_def transpose_opt_def psk_bytes_def obfuscation_default_def Let_def)

section \<open>Properties\<close>

text \<open>The hex decoders invert the printer: any bytes, printed in hexadecimal and surrounded by
  white space, are read back; the fixed-width decoder accepts exactly the 32-byte ones.\<close>

theorem hex_roundtrip:
  assumes "\<forall>c\<in>set pre. is_space c" "\<forall>c\<in>set post. is_space c"
  shows "hex_to_vec (pre @ to_hex bs @ post) field = Ok bs \<and>
    (hex_to_32 (pre @ to_hex bs @ post) field = Ok bs \<longleftrightarrow> length bs = 32)"
  using trim_padded [OF assms, of "to_hex bs"] to_hex_no_space
  by (auto simp: hex_to_vec_def hex_to_32_def Let_def hex_pairs_to_hex)

theorem hex_roundtrip_witness:
  "hex_to_vec ('' '' @ to_hex [0xAB, 0x01] @ [CHR 0x0A]) ''f'' = Ok [0xAB, 0x01]"
  using hex_roundtrip [of "'' ''" "[CHR 0x0A]" "[0xAB, 0x01]" "''f''"] by (simp add: is_space_def)

text \<open>C32: what a configuration that passes \<open>validate\<close> guarantees, and nothing else does: well-formed
  keys, ML-DSA keys both or neither, an MTU in range, a kill switch and DNS only with full-tunnel
  routing, a long enough PSK, and handshake obfuscation or pacing only over an obfuscated data
  path, pacing with at least one packet per slot.\<close>

theorem validate_characterised:
  "validate cfg = Ok () \<longleftrightarrow>
    (let i = ac_identity cfg; t = ac_tun cfg; oc = ac_obfuscation cfg; eff = effective (ac_traffic cfg)
     in is_ok (seed_bytes i) \<and> is_ok (peer_pub_bytes i) \<and>
        ((ic_mldsa_secret_hex i = None) = (ic_peer_mldsa_pub_hex i = None)) \<and>
        is_ok (mldsa_secret_bytes i) \<and> is_ok (peer_mldsa_pub_bytes i) \<and>
        576 \<le> unat (tn_mtu t) \<and> (oc_enabled oc \<longrightarrow> unat (tn_mtu t) \<le> 1232) \<and>
        (tn_kill_switch t \<or> tn_dns t \<noteq> [] \<longrightarrow> tn_route_all t) \<and>
        (\<exists>psk. psk_bytes oc = Ok psk \<and> (\<forall>p. psk = Some p \<longrightarrow> 16 \<le> length p)) \<and>
        (oc_handshake oc \<longrightarrow> oc_enabled oc) \<and>
        (et_enabled eff \<longrightarrow> oc_enabled oc \<and> 1 \<le> unat (et_rate_pps eff) \<and> 1 \<le> unat (et_burst eff)))"
  by (rule validate_iff)

theorem validate_characterised_witness:
  "let cfg = demo_config traffic_default 500; wide = (ac_tun cfg)\<lparr> tn_mtu := 1400 \<rparr>
   in validate cfg = Ok () \<and> validate (cfg\<lparr> ac_tun := wide \<rparr>) \<noteq> Ok ()"
  using validate_characterised [of "demo_config traffic_default 500"]
    validate_characterised [of "(demo_config traffic_default 500)
      \<lparr> ac_tun := (ac_tun (demo_config traffic_default 500))\<lparr> tn_mtu := 1400 \<rparr> \<rparr>"]
  by (simp add: demo_config_def seed_bytes_def peer_pub_bytes_def mldsa_secret_bytes_def effective_def
      traffic_default_def peer_mldsa_pub_bytes_def transpose_opt_def psk_bytes_def
      obfuscation_default_def Let_def)

end
