(* ===== verification/Tunnel_Send.thy ===== *)
theory Tunnel_Send
  imports Engine Udp Config
begin

text \<open>
  The sealing pipeline of \<open>src/tunnel_loops.rs\<close>: \<open>dispatch_seal\<close> reserves the counters of a whole
  batch and hands the sealing to the pool, \<open>run_sequential_sender\<close> drains the batches strictly in
  the order of their reservation. A ticket stands for the receiver of a batch's result: it holds
  the counters that were reserved and the result the pool will deliver; when it is delivered is up
  to the environment (\<open>ready\<close>). The last section runs both with everything else that draws
  counters on the same session.
\<close>

definition MAX_BATCH :: nat where
  "MAX_BATCH = 256"

definition MAX_QUEUE :: nat where
  "MAX_QUEUE = 4096"

definition SEND_PIPELINE_BATCHES :: nat where
  "SEND_PIPELINE_BATCHES = 16"

section \<open>Dispatch\<close>

text \<open>A job on the pool: a panic inside it becomes an error, it never escapes.\<close>

definition rayon_spawn_guarded :: "bool \<Rightarrow> 'a result \<Rightarrow> 'a result" where
  "rayon_spawn_guarded panics r = (if panics then Err (InternalErr ''crypto worker panicked'') else r)"

record ticket =
  tk_session :: session
  tk_base :: u64
  tk_count :: nat
  tk_result :: "bytes list result"

definition dispatch_seal ::
  "crypto_lib \<Rightarrow> engine \<Rightarrow> bytes list \<Rightarrow> (nat \<Rightarrow> rng) \<Rightarrow> bool \<Rightarrow> ticket result \<times> engine" where
  "dispatch_seal C e batch rs panics =
     (case engine_reserve e (of_nat (length batch)) of
        (Err x, e') \<Rightarrow> (Err x, e')
      | (Ok (sess, base_counter), e') \<Rightarrow>
          (Ok \<lparr> tk_session = sess, tk_base = base_counter, tk_count = length batch,
                tk_result = rayon_spawn_guarded panics
                  (seal_batch_with_counters C e' sess base_counter batch rs) \<rparr>, e'))"

section \<open>The sequential sender\<close>

definition ok_wires :: "ticket \<Rightarrow> bytes list" where
  "ok_wires tk = (case tk_result tk of Ok w \<Rightarrow> w | Err e \<Rightarrow> [])"

text \<open>The opportunistic drain: \<open>ready\<close> answers each \<open>try_recv\<close> on a later batch; the first batch
  that is not ready is remembered.\<close>

fun seq_drain :: "ticket list \<Rightarrow> bool list \<Rightarrow> bytes list \<times> ticket option \<times> ticket list" where
  "seq_drain [] ready = ([], None, [])"
| "seq_drain (tk # queue) [] = ([], Some tk, queue)"
| "seq_drain (tk # queue) (False # ready) = ([], Some tk, queue)"
| "seq_drain (tk # queue) (True # ready) =
     (let (wires, pending, rest) = seq_drain queue ready in (ok_wires tk @ wires, pending, rest))"

text \<open>One turn of the loop, from the batch it awaits: what it flushes, what it remembers and what is
  left in the channel. With nothing remembered and an empty channel it waits.\<close>

definition sequential_round ::
  "ticket option \<Rightarrow> ticket list \<Rightarrow> bool list \<Rightarrow> (bytes list \<times> ticket option \<times> ticket list) option" where
  "sequential_round pending queue ready =
     (case (case pending of Some tk \<Rightarrow> Some (tk, queue)
            | None \<Rightarrow> (case queue of [] \<Rightarrow> None | tk # rest \<Rightarrow> Some (tk, rest))) of
        None \<Rightarrow> None
      | Some (next, queue') \<Rightarrow>
          let (wires, pending', rest) = seq_drain queue' ready
          in Some (ok_wires next @ wires, pending', rest))"

section \<open>Lemmas\<close>

definition opt_list :: "'a option \<Rightarrow> 'a list" where
  "opt_list x = (case x of None \<Rightarrow> [] | Some v \<Rightarrow> [v])"

lemma opt_list_simps [simp]: "opt_list None = []" "opt_list (Some v) = [v]"
  by (simp_all add: opt_list_def)

lemma seq_drain_all:
  "seq_drain queue ready = (wires, pending, rest) \<Longrightarrow>
    wires @ concat (map ok_wires (opt_list pending @ rest)) = concat (map ok_wires queue)"
  by (induction queue ready arbitrary: wires pending rest rule: seq_drain.induct) (auto split: prod.splits)

lemma sequential_round_all:
  "sequential_round pending queue ready = Some (wires, pending', queue') \<Longrightarrow>
    wires @ concat (map ok_wires (opt_list pending' @ queue')) = concat (map ok_wires (opt_list pending @ queue))"
  by (auto simp: sequential_round_def Let_def split: option.splits list.splits prod.splits
      dest!: seq_drain_all)

lemma sequential_round_progress:
  "opt_list pending @ queue \<noteq> [] \<Longrightarrow> \<exists>wires pending' queue'.
    sequential_round pending queue ready = Some (wires, pending', queue')"
  by (cases pending) (auto simp: sequential_round_def Let_def split: list.splits prod.splits)

section \<open>The pipeline with everything else that uses the session\<close>

text \<open>
  \<open>pl_issued\<close> records the tickets in the order of their reservation, with the number of the session
  they were reserved on; \<open>pl_sent\<close> is what the sender flushed. Other tasks seal single packets
  (keepalives, cover, announcements), receive, and install a new session at any moment.
\<close>

record pipeline =
  pl_engine :: engine
  pl_epoch :: nat
  pl_pending :: "ticket option"
  pl_queue :: "ticket list"
  pl_issued :: "(nat \<times> ticket) list"
  pl_sent :: "bytes list"

definition pipeline_start :: "engine \<Rightarrow> pipeline" where
  "pipeline_start e =
     \<lparr> pl_engine = e, pl_epoch = 0, pl_pending = None, pl_queue = [], pl_issued = [], pl_sent = [] \<rparr>"

inductive pipe_step :: "crypto_lib \<Rightarrow> pipeline \<Rightarrow> pipeline \<Rightarrow> bool" for C where
  dispatched: "dispatch_seal C (pl_engine p) batch rs panics = (Ok tk, e) \<Longrightarrow> length batch \<le> MAX_BATCH \<Longrightarrow>
    length (pl_queue p) < SEND_PIPELINE_BATCHES \<Longrightarrow>
    pipe_step C p (p\<lparr> pl_engine := e, pl_queue := pl_queue p @ [tk], pl_issued := pl_issued p @ [(pl_epoch p, tk)] \<rparr>)"
| refused: "dispatch_seal C (pl_engine p) batch rs panics = (Err x, e) \<Longrightarrow> length batch \<le> MAX_BATCH \<Longrightarrow>
    pipe_step C p (p\<lparr> pl_engine := e \<rparr>)"
| sealed: "sm_seal_obf C (e_sessions (pl_engine p)) t pt pol r = (d, m, r') \<Longrightarrow>
    pipe_step C p (p\<lparr> pl_engine := (pl_engine p)\<lparr> e_sessions := m \<rparr> \<rparr>)"
| received: "sm_decrypt_obf C (e_sessions (pl_engine p)) dg = (x, m) \<Longrightarrow>
    pipe_step C p (p\<lparr> pl_engine := (pl_engine p)\<lparr> e_sessions := m \<rparr> \<rparr>)"
| installed: "s_tx_counter s = 0 \<Longrightarrow>
    pipe_step C p (p\<lparr> pl_engine := (pl_engine p)\<lparr> e_sessions := sm_install (e_sessions (pl_engine p)) s \<rparr>,
                      pl_epoch := Suc (pl_epoch p) \<rparr>)"
| flushed: "sequential_round (pl_pending p) (pl_queue p) ready = Some (wires, pending, queue) \<Longrightarrow>
    pipe_step C p (p\<lparr> pl_pending := pending, pl_queue := queue, pl_sent := pl_sent p @ wires \<rparr>)"

definition before :: "nat \<times> ticket \<Rightarrow> nat \<times> ticket \<Rightarrow> bool" where
  "before x y \<longleftrightarrow> fst x < fst y \<or>
     (fst x = fst y \<and> unat (tk_base (snd x)) + tk_count (snd x) \<le> unat (tk_base (snd y)))"

definition pl_tx :: "pipeline \<Rightarrow> nat" where
  "pl_tx p = unat (s_tx_counter (m_current (e_sessions (pl_engine p))))"

definition pipe_inv :: "nat \<Rightarrow> pipeline \<Rightarrow> bool" where
  "pipe_inv B p \<longleftrightarrow> pl_tx p \<le> B \<and>
     pl_sent p @ concat (map ok_wires (opt_list (pl_pending p) @ pl_queue p)) =
       concat (map (ok_wires \<circ> snd) (pl_issued p)) \<and>
     sorted_wrt before (pl_issued p) \<and>
     (\<forall>x\<in>set (pl_issued p). fst x \<le> pl_epoch p \<and>
        (fst x = pl_epoch p \<longrightarrow> unat (tk_base (snd x)) + tk_count (snd x) \<le> pl_tx p))"

lemma reserve_tx:
  assumes "engine_reserve e (of_nat n) = (x, e')" "n \<le> 256"
    "unat (s_tx_counter (m_current (e_sessions e))) + 256 < 2 ^ 64"
  shows "unat (s_tx_counter (m_current (e_sessions e'))) = unat (s_tx_counter (m_current (e_sessions e))) + n"
    "x = Ok (sess, base) \<Longrightarrow> base = s_tx_counter (m_current (e_sessions e))"
  using assms
  by (auto simp: engine_reserve_def sm_reserve_def reserve_counters_def Let_def unat_word_ariths unat_of_nat
      split: if_splits)

lemma seal_tx:
  assumes "sm_seal_obf C m t pt pol r = (d, m', r')" "unat (s_tx_counter (m_current m)) + 256 < 2 ^ 64"
  shows "unat (s_tx_counter (m_current m')) = unat (s_tx_counter (m_current m)) + 1"
  using assms
  by (auto simp: sm_seal_obf_def seal_obf_def reserve_counters_def Let_def unat_word_ariths
      split: if_splits prod.splits)

lemma decrypt_tx:
  assumes "sm_decrypt_obf C m d = (x, m')"
  shows "s_tx_counter (m_current m') = s_tx_counter (m_current m)"
proof -
  obtain r cur where t: "try_open_obf C (m_current m) d = (r, cur)" by fastforce
  then have "s_tx_counter cur = s_tx_counter (m_current m)"
    using try_open_obf_fields [OF t] by (metis session.select_convs(5) session.surjective session.update_convs(9))
  with assms t show ?thesis
    by (auto simp: sm_decrypt_obf_def Let_def split: sum.splits option.splits prod.splits)
qed

lemma dispatch_cases:
  assumes "dispatch_seal C e batch rs panics = (x, e')" "length batch \<le> 256"
    "unat (s_tx_counter (m_current (e_sessions e))) + 256 < 2 ^ 64"
  shows "unat (s_tx_counter (m_current (e_sessions e'))) =
      unat (s_tx_counter (m_current (e_sessions e))) + length batch"
    "x = Ok tk \<Longrightarrow> tk_base tk = s_tx_counter (m_current (e_sessions e)) \<and> tk_count tk = length batch"
proof -
  obtain y e1 where r: "engine_reserve e (of_nat (length batch)) = (y, e1)" by fastforce
  with assms(1) have "e' = e1" by (auto simp: dispatch_seal_def split: sum.splits prod.splits)
  then show "unat (s_tx_counter (m_current (e_sessions e'))) =
      unat (s_tx_counter (m_current (e_sessions e))) + length batch"
    using reserve_tx(1) [OF r assms(2,3)] by simp
  show "x = Ok tk \<Longrightarrow> tk_base tk = s_tx_counter (m_current (e_sessions e)) \<and> tk_count tk = length batch"
    using assms(1) r reserve_tx(2) [OF r assms(2,3)]
    by (auto simp: dispatch_seal_def split: sum.splits prod.splits)
qed


lemma pipe_inv_tx:
  assumes "pipe_inv B p" "pl_tx p \<le> unat (s_tx_counter (m_current (e_sessions e)))"
    "unat (s_tx_counter (m_current (e_sessions e))) \<le> B + 256"
  shows "pipe_inv (B + 256) (p\<lparr> pl_engine := e \<rparr>)"
  using assms by (fastforce simp: pipe_inv_def pl_tx_def)

lemma pipe_step_inv:
  assumes "pipe_step C p q" "pipe_inv B p" "B + 256 < 2 ^ 64"
  shows "pipe_inv (B + 256) q"
  using assms
proof (induction rule: pipe_step.induct)
  case (dispatched p batch rs panics tk e)
  have tx: "unat (s_tx_counter (m_current (e_sessions (pl_engine p)))) + 256 < 2 ^ 64" "pl_tx p \<le> B"
    using dispatched(4,5) by (simp_all add: pipe_inv_def pl_tx_def)
  have len: "length batch \<le> 256" using dispatched(2) by (simp add: MAX_BATCH_def)
  from dispatch_cases [OF dispatched(1) len tx(1)]
  have e: "unat (s_tx_counter (m_current (e_sessions e))) = pl_tx p + length batch"
    and tk: "unat (tk_base tk) = pl_tx p" "tk_count tk = length batch" by (simp_all add: pl_tx_def)
  have ord: "before x (pl_epoch p, tk)" if "x \<in> set (pl_issued p)" for x
    using dispatched(4) that tk by (fastforce simp: pipe_inv_def before_def)
  show ?case
    using dispatched(4) e tk len ord
    by (fastforce simp: pipe_inv_def pl_tx_def sorted_wrt_append)
next
  case (refused p batch rs panics x e)
  have tx: "unat (s_tx_counter (m_current (e_sessions (pl_engine p)))) + 256 < 2 ^ 64" "pl_tx p \<le> B"
    using refused(3,4) by (simp_all add: pipe_inv_def pl_tx_def)
  have len: "length batch \<le> 256" using refused(2) by (simp add: MAX_BATCH_def)
  show ?case
    by (rule pipe_inv_tx [OF refused(3)])
      (use dispatch_cases(1) [OF refused(1) len tx(1)] tx(2) len in \<open>simp_all add: pl_tx_def\<close>)
next
  case (sealed p t pt pol r d m r')
  have tx: "unat (s_tx_counter (m_current (e_sessions (pl_engine p)))) + 256 < 2 ^ 64" "pl_tx p \<le> B"
    using sealed(2,3) by (simp_all add: pipe_inv_def pl_tx_def)
  show ?case
    by (rule pipe_inv_tx [OF sealed(2)])
      (use seal_tx [OF sealed(1) tx(1)] tx(2) in \<open>simp_all add: pl_tx_def\<close>)
next
  case (received p dg x m)
  show ?case
    by (rule pipe_inv_tx [OF received(2)])
      (use decrypt_tx [OF received(1)] received(2) in \<open>simp_all add: pl_tx_def pipe_inv_def\<close>)
next
  case (installed s p)
  then show ?case
    by (fastforce simp: pipe_inv_def pl_tx_def sm_install_def)
next
  case (flushed p ready wires pending queue)
  then show ?case
    using sequential_round_all [OF flushed(1)] by (simp add: pipe_inv_def pl_tx_def)
qed

lemma pipe_steps_inv:
  "(pipe_step C ^^ n) p q \<Longrightarrow> pipe_inv B p \<Longrightarrow> B + 256 * n < 2 ^ 64 \<Longrightarrow> pipe_inv (B + 256 * n) q"
proof (induction n arbitrary: q)
  case 0
  then show ?case by simp
next
  case (Suc n)
  then obtain m where m: "(pipe_step C ^^ n) p m" "pipe_step C m q" by auto
  then have "pipe_inv (B + 256 * n) m" using Suc.IH Suc.prems by simp
  from pipe_step_inv [OF m(2) this] Suc.prems(3) show ?case
    by (simp add: algebra_simps)
qed

lemma pipe_inv_start: "pl_tx (pipeline_start e) \<le> B \<Longrightarrow> pipe_inv B (pipeline_start e)"
  by (simp add: pipe_inv_def pipeline_start_def pl_tx_def)

section \<open>Properties\<close>

text \<open>C14: batches leave in the order their counters were reserved. However the pool finishes the
  sealing jobs, whatever other tasks seal or install in between, what the sequential sender has
  put on the wire, followed by what it still holds, is exactly the output of all reserved batches
  in order of reservation; on one session the counter ranges of these batches ascend without
  overlap, and a batch of a newer session never precedes one of an older.\<close>

theorem wire_order_is_reservation_order:
  assumes "(pipe_step C ^^ n) (pipeline_start e) p" "pl_tx (pipeline_start e) + 256 * n < 2 ^ 64"
  shows "pl_sent p @ concat (map ok_wires (opt_list (pl_pending p) @ pl_queue p)) =
      concat (map (ok_wires \<circ> snd) (pl_issued p)) \<and>
    sorted_wrt before (pl_issued p)"
  using pipe_steps_inv [OF assms(1) pipe_inv_start [OF order_refl] assms(2)]
  by (simp add: pipe_inv_def)

theorem wire_order_is_reservation_order_witness:
  "\<exists>p tk. (pipe_step toy_crypto ^^ 1) (pipeline_start (engine_new (sm_new (demo_session True) 0) True PadOff)) p \<and>
     pl_queue p = [tk] \<and> pl_sent p @ ok_wires tk = ok_wires tk \<and> sorted_wrt before (pl_issued p)"
proof -
  let ?e = "engine_new (sm_new (demo_session True) 0) True PadOff"
  obtain tk e' where d: "dispatch_seal toy_crypto ?e [[42]] (\<lambda>_ _. 0) False = (Ok tk, e')"
    by (simp add: dispatch_seal_def engine_reserve_def engine_new_def sm_reserve_def sm_new_def demo_reserve)
  let ?p = "(pipeline_start ?e)\<lparr> pl_engine := e', pl_queue := [tk], pl_issued := [(0, tk)] \<rparr>"
  have "pipe_step toy_crypto (pipeline_start ?e) ?p"
    using pipe_step.dispatched [of toy_crypto "pipeline_start ?e" "[[42]]" "\<lambda>_ _. 0" False tk e'] d
    by (simp add: pipeline_start_def MAX_BATCH_def SEND_PIPELINE_BATCHES_def)
  then have s: "(pipe_step toy_crypto ^^ 1) (pipeline_start ?e) ?p" by (simp add: eq_OO)
  have "pl_tx (pipeline_start ?e) + 256 * 1 < 2 ^ 64"
    by (simp add: pl_tx_def pipeline_start_def engine_new_def sm_new_def demo_session)
  from wire_order_is_reservation_order [OF s this] s show ?thesis
    by (intro exI [of _ ?p] exI [of _ tk]) (simp add: pipeline_start_def)
qed

end
