(* ===== verification/Handshake_Msg.thy ===== *)
theory Handshake_Msg
  imports Errors
begin

text \<open>
  The handshake message of \<open>src/tunnel.rs\<close> (\<open>HandshakeType\<close>, \<open>HandshakeMessage\<close>): constructors
  with their noise draws, the fixed 8192-byte encoding, the decoder with its error paths, and
  the bytes a message contributes to the transcript. Array fields are byte lists; \<open>hm_wf\<close> states
  the lengths their Rust types fix.
\<close>

definition HANDSHAKE_MSG_LEN :: nat where
  "HANDSHAKE_MSG_LEN = 8192"

definition PROTO_VERSION :: byte where
  "PROTO_VERSION = 7"

definition X25519_PUB_LEN :: nat where
  "X25519_PUB_LEN = 32"

definition MLKEM_PK_LEN :: nat where
  "MLKEM_PK_LEN = 1184"

definition MLKEM_CT_LEN :: nat where
  "MLKEM_CT_LEN = 1088"

definition KEM_SLOT_LEN :: nat where
  "KEM_SLOT_LEN = MLKEM_PK_LEN"

definition MAC_LEN :: nat where
  "MAC_LEN = 32"

definition COOKIE_LEN :: nat where
  "COOKIE_LEN = 16"

lemmas hs_consts = HANDSHAKE_MSG_LEN_def PROTO_VERSION_def X25519_PUB_LEN_def MLKEM_PK_LEN_def
  MLKEM_CT_LEN_def KEM_SLOT_LEN_def MAC_LEN_def COOKIE_LEN_def

datatype handshake_type = HT_Init | HT_Response | HT_Confirm | HT_CookieChallenge

fun ht_as_u8 :: "handshake_type \<Rightarrow> byte" where
  "ht_as_u8 HT_Init = 0x01"
| "ht_as_u8 HT_Response = 0x02"
| "ht_as_u8 HT_Confirm = 0x03"
| "ht_as_u8 HT_CookieChallenge = 0x04"

definition ht_from_u8 :: "byte \<Rightarrow> handshake_type result" where
  "ht_from_u8 v =
     (if v = 0x01 then Ok HT_Init
      else if v = 0x02 then Ok HT_Response
      else if v = 0x03 then Ok HT_Confirm
      else if v = 0x04 then Ok HT_CookieChallenge
      else Err (HandshakeErr ''decode'' (''unknown type '' @ show_nat (unat v))))"

record hs_msg =
  hm_version :: byte
  hm_type :: handshake_type
  hm_aead :: byte
  hm_x :: bytes
  hm_kem :: bytes
  hm_sig :: bytes
  hm_mac :: bytes
  hm_cookie :: bytes

definition new_init ::
  "bytes \<Rightarrow> bytes \<Rightarrow> nat \<Rightarrow> byte \<Rightarrow> rng \<Rightarrow> (hs_msg \<times> rng) result" where
  "new_init x25519_pub mlkem_pub sig_len aead_algo r =
     (if length mlkem_pub \<noteq> MLKEM_PK_LEN
      then Err (HandshakeErr ''encode'' ''bad ML-KEM pub len'')
      else let (sig, r1) = fill_bytes r sig_len; (mac, r2) = fill_bytes r1 MAC_LEN
           in Ok (\<lparr> hm_version = PROTO_VERSION, hm_type = HT_Init, hm_aead = aead_algo,
                    hm_x = x25519_pub, hm_kem = mlkem_pub, hm_sig = sig, hm_mac = mac,
                    hm_cookie = replicate COOKIE_LEN 0 \<rparr>, r2))"

definition new_response ::
  "bytes \<Rightarrow> bytes \<Rightarrow> nat \<Rightarrow> byte \<Rightarrow> rng \<Rightarrow> (hs_msg \<times> rng) result" where
  "new_response x25519_pub mlkem_ct sig_len aead_algo r =
     (if length mlkem_ct \<noteq> MLKEM_CT_LEN
      then Err (HandshakeErr ''encode'' ''bad ML-KEM ct len'')
      else let (tail, r1) = fill_bytes r (KEM_SLOT_LEN - MLKEM_CT_LEN)
           in Ok (\<lparr> hm_version = PROTO_VERSION, hm_type = HT_Response, hm_aead = aead_algo,
                    hm_x = x25519_pub, hm_kem = mlkem_ct @ tail, hm_sig = replicate sig_len 0,
                    hm_mac = replicate MAC_LEN 0, hm_cookie = replicate COOKIE_LEN 0 \<rparr>, r1))"

definition mlkem_pub :: "hs_msg \<Rightarrow> bytes" where
  "mlkem_pub m = take MLKEM_PK_LEN (hm_kem m)"

definition mlkem_ct :: "hs_msg \<Rightarrow> bytes" where
  "mlkem_ct m = take MLKEM_CT_LEN (hm_kem m)"

definition new_confirm :: "nat \<Rightarrow> rng \<Rightarrow> (hs_msg \<times> rng) result" where
  "new_confirm sig_len r =
     (let (x, r1) = fill_bytes r X25519_PUB_LEN; (kem, r2) = fill_bytes r1 KEM_SLOT_LEN
      in Ok (\<lparr> hm_version = PROTO_VERSION, hm_type = HT_Confirm, hm_aead = 0,
               hm_x = x, hm_kem = kem, hm_sig = replicate sig_len 0,
               hm_mac = replicate MAC_LEN 0, hm_cookie = replicate COOKIE_LEN 0 \<rparr>, r2))"

definition new_cookie_challenge :: "bytes \<Rightarrow> rng \<Rightarrow> (hs_msg \<times> rng) result" where
  "new_cookie_challenge cookie r =
     (let (x, r1) = fill_bytes r X25519_PUB_LEN; (kem, r2) = fill_bytes r1 KEM_SLOT_LEN;
          (mac, r3) = fill_bytes r2 MAC_LEN
      in Ok (\<lparr> hm_version = PROTO_VERSION, hm_type = HT_CookieChallenge, hm_aead = 0,
               hm_x = x, hm_kem = kem, hm_sig = [], hm_mac = mac, hm_cookie = cookie \<rparr>, r3))"

definition hs_encode :: "hs_msg \<Rightarrow> rng \<Rightarrow> (bytes \<times> rng) result" where
  "hs_encode m r =
     (let buf = [hm_version m, ht_as_u8 (hm_type m), hm_aead m] @ hm_x m @ hm_kem m @
                u16_to_le (of_nat (length (hm_sig m))) @ hm_sig m @ hm_mac m @ hm_cookie m;
          used = length buf
      in if used > HANDSHAKE_MSG_LEN
         then Err (HandshakeErr ''encode'' (''message '' @ show_nat used @ '' > '' @ show_nat HANDSHAKE_MSG_LEN))
         else let (pad, r') = fill_bytes r (HANDSHAKE_MSG_LEN - used) in Ok (buf @ pad, r'))"

text \<open>The offsets are the positions the reads of \<open>decode\<close> reach one after the other.\<close>

definition hs_decode :: "bytes \<Rightarrow> hs_msg result" where
  "hs_decode raw =
     (if length raw \<noteq> HANDSHAKE_MSG_LEN
      then Err (HandshakeErr ''decode''
             (''expected '' @ show_nat HANDSHAKE_MSG_LEN @ '', got '' @ show_nat (length raw)))
      else let version = raw ! 0 in
        if version \<noteq> PROTO_VERSION
        then Err (HandshakeErr ''decode'' (''bad version '' @ show_nat (unat version)))
        else rbind (ht_from_u8 (raw ! 1)) (\<lambda>msg_type.
          let aead_algo = raw ! 2;
              raw1 = drop 3 raw;
              x25519_pub = take X25519_PUB_LEN raw1;
              raw2 = drop X25519_PUB_LEN raw1;
              kem = take KEM_SLOT_LEN raw2;
              raw3 = drop KEM_SLOT_LEN raw2;
              sig_len = unat (u16_from_le (take 2 raw3));
              raw4 = drop 2 raw3
          in if length raw4 < sig_len + MAC_LEN + COOKIE_LEN
             then Err (HandshakeErr ''decode'' ''truncated sig/mac/cookie'')
             else let sig = take sig_len raw4;
                      raw5 = drop sig_len raw4;
                      mac = take MAC_LEN raw5;
                      raw6 = drop MAC_LEN raw5;
                      cookie = take COOKIE_LEN raw6
                  in Ok \<lparr> hm_version = version, hm_type = msg_type, hm_aead = aead_algo,
                          hm_x = x25519_pub, hm_kem = kem, hm_sig = sig, hm_mac = mac,
                          hm_cookie = cookie \<rparr>))"

definition transcript_bytes :: "hs_msg \<Rightarrow> bytes" where
  "transcript_bytes m =
     [hm_version m, ht_as_u8 (hm_type m)] @ hm_x m @
     (case hm_type m of
        HT_Init \<Rightarrow> [hm_aead m] @ mlkem_pub m
      | HT_Response \<Rightarrow> [hm_aead m] @ mlkem_ct m
      | HT_Confirm \<Rightarrow> []
      | HT_CookieChallenge \<Rightarrow> [])"

section \<open>Lemmas\<close>

definition hm_wf :: "hs_msg \<Rightarrow> bool" where
  "hm_wf m \<longleftrightarrow>
     hm_version m = PROTO_VERSION \<and> length (hm_x m) = 32 \<and> length (hm_kem m) = 1184 \<and>
     length (hm_mac m) = 32 \<and> length (hm_cookie m) = 16"

definition ht_of_u8 :: "byte \<Rightarrow> handshake_type option" where
  "ht_of_u8 v = (case ht_from_u8 v of Ok t \<Rightarrow> Some t | Err e \<Rightarrow> None)"

interpretation ht_code: byte_code "\<lambda>t. Some (ht_as_u8 t)" ht_of_u8
proof unfold_locales
  fix t b
  show "Some (ht_as_u8 t) = Some b \<Longrightarrow> ht_of_u8 b = Some t"
    by (cases t) (auto simp: ht_of_u8_def ht_from_u8_def)
  show "ht_of_u8 b = Some t \<Longrightarrow> Some (ht_as_u8 t) = Some b"
    by (auto simp: ht_of_u8_def ht_from_u8_def split: if_splits)
qed

lemma ht_from_as_u8 [simp]: "ht_from_u8 (ht_as_u8 t) = Ok t"
  by (cases t) (simp_all add: ht_from_u8_def)

lemma ht_as_u8_inject [simp]: "ht_as_u8 s = ht_as_u8 t \<longleftrightarrow> s = t"
  using ht_code.enc_inj [of s "ht_as_u8 t" t] by auto

lemma hs_encode_length: "hs_encode m r = Ok (w, r') \<Longrightarrow> length w = 8192"
  by (auto simp: hs_encode_def Let_def fill_bytes_def hs_consts split: if_splits)

lemma hs_encode_Ok_iff:
  "hm_wf m \<Longrightarrow> is_ok (hs_encode m r) \<longleftrightarrow> length (hm_sig m) \<le> 6923"
  by (auto simp: hs_encode_def hm_wf_def Let_def hs_consts split: prod.splits)

lemma hs_decode_encode:
  assumes "hm_wf m" "hs_encode m r = Ok (w, r')"
  shows "hs_decode w = Ok m"
proof -
  have len: "length (hm_sig m) \<le> 6923"
    using assms hs_encode_Ok_iff [OF assms(1), of r] by simp
  then have sl: "unat (of_nat (length (hm_sig m)) :: u16) = length (hm_sig m)"
    by (simp add: unat_of_nat)
  obtain pad where w: "w = [hm_version m, ht_as_u8 (hm_type m), hm_aead m] @ hm_x m @ hm_kem m @
      u16_to_le (of_nat (length (hm_sig m))) @ hm_sig m @ hm_mac m @ hm_cookie m @ pad"
    and lw: "length w = 8192"
    using assms(2) hs_encode_length [OF assms(2)]
    by (auto simp: hs_encode_def Let_def split: if_splits prod.splits)
  have parts: "length (hm_x m) = 32" "length (hm_kem m) = 1184" "length (hm_mac m) = 32"
    "length (hm_cookie m) = 16" "hm_version m = 7"
    using assms(1) by (simp_all add: hm_wf_def hs_consts)
  have nth: "w ! 0 = 7" "w ! 1 = ht_as_u8 (hm_type m)" "w ! 2 = hm_aead m"
    by (simp_all add: w parts)
  have d3: "drop 3 w = hm_x m @ hm_kem m @ u16_to_le (of_nat (length (hm_sig m))) @ hm_sig m @
      hm_mac m @ hm_cookie m @ pad"
    by (simp add: w)
  have lt: "\<not> length (hm_sig m @ hm_mac m @ hm_cookie m @ pad) < length (hm_sig m) + 32 + 16"
    by (simp add: parts)
  have eta: "\<lparr> hm_version = 7, hm_type = hm_type m, hm_aead = hm_aead m, hm_x = hm_x m,
      hm_kem = hm_kem m, hm_sig = hm_sig m, hm_mac = hm_mac m, hm_cookie = hm_cookie m \<rparr> = m"
    using parts(5) by simp
  show ?thesis
    unfolding hs_decode_def
    by (simp add: lw nth [simplified] d3 parts sl eta hs_consts Let_def)
qed

lemma hs_decode_wf: "hs_decode w = Ok m \<Longrightarrow> hm_wf m"
  by (auto simp: hs_decode_def hm_wf_def rbind_eq_Ok Let_def hs_consts split: if_splits)

lemma new_init_wf:
  "length x = 32 \<Longrightarrow> new_init x pk n a r = Ok (m, r') \<Longrightarrow>
    hm_wf m \<and> hm_type m = HT_Init \<and> hm_x m = x \<and> hm_kem m = pk \<and> hm_aead m = a \<and>
    length (hm_sig m) = n"
  by (auto simp: new_init_def hm_wf_def hs_consts fill_bytes_def split: if_splits)

lemma new_response_wf:
  "length x = 32 \<Longrightarrow> new_response x ct n a r = Ok (m, r') \<Longrightarrow>
    hm_wf m \<and> hm_type m = HT_Response \<and> hm_x m = x \<and> mlkem_ct m = ct \<and> hm_aead m = a \<and>
    length (hm_sig m) = n"
  by (auto simp: new_response_def hm_wf_def hs_consts mlkem_ct_def fill_bytes_def split: if_splits)

lemma new_confirm_wf:
  "new_confirm n r = Ok (m, r') \<Longrightarrow> hm_wf m \<and> hm_type m = HT_Confirm \<and> length (hm_sig m) = n"
  by (auto simp: new_confirm_def hm_wf_def hs_consts fill_bytes_def)

lemma new_cookie_challenge_wf:
  "length c = 16 \<Longrightarrow> new_cookie_challenge c r = Ok (m, r') \<Longrightarrow>
    hm_wf m \<and> hm_type m = HT_CookieChallenge \<and> hm_cookie m = c \<and> hm_sig m = []"
  by (auto simp: new_cookie_challenge_def hm_wf_def hs_consts fill_bytes_def)

text \<open>The transcript contribution ignores what is not bound: signature, MAC, cookie, KEM noise.\<close>

lemma transcript_bytes_update [simp]:
  "transcript_bytes (m\<lparr> hm_sig := s \<rparr>) = transcript_bytes m"
  "transcript_bytes (m\<lparr> hm_mac := t \<rparr>) = transcript_bytes m"
  "transcript_bytes (m\<lparr> hm_cookie := c \<rparr>) = transcript_bytes m"
  by (simp_all add: transcript_bytes_def mlkem_pub_def mlkem_ct_def split: handshake_type.split)

text \<open>What equal transcript bytes fix.\<close>

lemma transcript_fields:
  assumes "hm_wf m" "hm_wf n" "transcript_bytes m = transcript_bytes n"
    "hm_type m = HT_Init \<or> hm_type m = HT_Response"
  shows "hm_type n = hm_type m \<and> hm_x n = hm_x m \<and> hm_aead n = hm_aead m \<and>
    mlkem_ct n = mlkem_ct m \<and> (hm_type m = HT_Init \<longrightarrow> hm_kem n = hm_kem m)"
proof -
  have t: "hm_type n = hm_type m"
    using assms(3) by (simp add: transcript_bytes_def)
  have len: "length (hm_x m) = length (hm_x n)" "length (hm_kem m) = 1184" "length (hm_kem n) = 1184"
    using assms(1,2) by (simp_all add: hm_wf_def)
  show ?thesis
    using assms(3,4) len t
    by (elim disjE) (simp_all add: transcript_bytes_def mlkem_pub_def mlkem_ct_def hs_consts)
qed

section \<open>Properties\<close>

text \<open>A message survives encoding and decoding exactly, when its signature leaves room; otherwise
  the encoder reports the size. Every encoding has the fixed length.\<close>

theorem handshake_message_roundtrip:
  assumes "hm_wf m"
  shows "(case hs_encode m r of
      Ok (w, r') \<Rightarrow> length (hm_sig m) \<le> 6923 \<and> length w = 8192 \<and> hs_decode w = Ok m
    | Err e \<Rightarrow> length (hm_sig m) > 6923 \<and>
        e = HandshakeErr ''encode'' (''message '' @ show_nat (1269 + length (hm_sig m)) @ '' > '' @ show_nat 8192))"
proof (cases "hs_encode m r")
  case (Inl e)
  with assms show ?thesis
    by (auto simp: hs_encode_def hm_wf_def Let_def hs_consts add.commute add.left_commute
        split: if_splits prod.splits)
next
  case (Inr wr)
  then show ?thesis
    using hs_encode_Ok_iff [OF assms, of r] hs_encode_length hs_decode_encode [OF assms]
    by (cases wr) auto
qed

definition demo_msg :: hs_msg where
  "demo_msg = \<lparr> hm_version = 7, hm_type = HT_Init, hm_aead = 2, hm_x = replicate 32 1,
     hm_kem = replicate 1184 2, hm_sig = [3], hm_mac = replicate 32 4, hm_cookie = replicate 16 5 \<rparr>"

theorem handshake_message_roundtrip_witness:
  "(case hs_encode demo_msg (\<lambda>_. 0) of Ok (w, r') \<Rightarrow> hs_decode w = Ok demo_msg | Err e \<Rightarrow> False)"
proof -
  have "hm_wf demo_msg" by (simp add: hm_wf_def demo_msg_def hs_consts)
  from handshake_message_roundtrip [OF this, of "\<lambda>_. 0"] show ?thesis
    by (auto simp: demo_msg_def split: sum.splits)
qed

text \<open>The transcript bytes of an Init or Response fix everything the key agreement uses: version,
  role, X25519 public, cipher id and the ML-KEM key or ciphertext. Changing any of them, for
  example downgrading the proposed cipher, changes the transcript.\<close>

theorem transcript_binds_key_material:
  assumes "hm_wf m" "hm_wf n" "transcript_bytes m = transcript_bytes n"
    "hm_type m = HT_Init \<or> hm_type m = HT_Response"
  shows "hm_type n = hm_type m \<and> hm_x n = hm_x m \<and> hm_aead n = hm_aead m \<and>
    mlkem_ct n = mlkem_ct m \<and> (hm_type m = HT_Init \<longrightarrow> hm_kem n = hm_kem m)"
  by (rule transcript_fields [OF assms])

theorem transcript_binds_key_material_witness:
  "transcript_bytes demo_msg \<noteq> transcript_bytes (demo_msg\<lparr> hm_aead := 1 \<rparr>)"
proof
  have wf: "hm_wf demo_msg" "hm_wf (demo_msg\<lparr> hm_aead := 1 \<rparr>)"
    by (simp_all add: hm_wf_def demo_msg_def hs_consts)
  assume "transcript_bytes demo_msg = transcript_bytes (demo_msg\<lparr> hm_aead := 1 \<rparr>)"
  from transcript_binds_key_material [OF wf this] show False
    by (simp add: demo_msg_def)
qed

end
