(* ===== verification/Handshake.thy ===== *)
theory Handshake
  imports Handshake_Msg Crypto_Core Session
begin

text \<open>
  The three-message handshake of \<open>src/tunnel.rs\<close> (\<open>Handshake::start\<close>, \<open>respond\<close>, \<open>finalize\<close>,
  \<open>confirm\<close>). Each step consumes its state and returns the next one with the datagram to send.
  \<open>AeadAlgo::preferred()\<close>, measured once per machine, is an argument. The responder only
  reaches \<open>Established\<close> through \<open>confirm\<close>, after the initiator's signature over the transcript
  verified; an honest run gives both sides paired sessions.
\<close>

definition SIG_LABEL_RESPONDER :: bytes where
  "SIG_LABEL_RESPONDER = ascii ''Chameleon-PQ-v1 responder proof''"

definition SIG_LABEL_INITIATOR :: bytes where
  "SIG_LABEL_INITIATOR = ascii ''Chameleon-PQ-v1 initiator proof''"

datatype handshake =
    HS_Idle
  | HS_SentInit (hs_eph_x: bytes) (hs_eph_sk: bytes) (hs_transcript: transcript)
  | HS_SentResponse (hs_session: session) (hs_th: bytes)
  | HS_Established (hs_session: session)
  | HS_Failed

definition low_order_msg :: string where
  "low_order_msg = ''X25519 shared secret is all-zero (low-order/non-contributory point)''"

definition hs_start ::
  "crypto_lib \<Rightarrow> authenticator \<Rightarrow> aead_algo \<Rightarrow> rng \<Rightarrow> (handshake \<times> bytes \<times> rng) result" where
  "hs_start C auth pref r =
     (let (eph_x, r1) = fill_bytes r 32;
          x_pub = c_x_public C eph_x;
          ((pk, sk), r2) = c_kem_keypair C r1
      in rbind (new_init x_pub pk (auth_sig_len C auth) (aead_as_u8 pref) r2) (\<lambda>(msg, r3).
         let t = absorb (absorb transcript_new (identity_binding C auth)) (transcript_bytes msg)
         in rbind (hs_encode msg r3) (\<lambda>(wire, r4).
            Ok (HS_SentInit eph_x sk t, wire, r4))))"

definition hs_respond ::
  "crypto_lib \<Rightarrow> authenticator \<Rightarrow> aead_algo \<Rightarrow> bytes \<Rightarrow> rng \<Rightarrow> (handshake \<times> bytes \<times> rng) result" where
  "hs_respond C auth pref raw r =
     rbind (hs_decode raw) (\<lambda>init.
     if hm_type init \<noteq> HT_Init then Err (HandshakeErr ''respond'' ''expected Init'')
     else if \<not> c_kem_pk_ok C (mlkem_pub init)
     then Err (HandshakeErr ''respond'' ''kem slot is not a valid ML-KEM public key'')
     else
       let t = absorb (absorb transcript_new (identity_binding C auth)) (transcript_bytes init);
           peer_pref = (case aead_from_u8 (hm_aead init) of Ok a \<Rightarrow> a | Err _ \<Rightarrow> ChaCha20Poly1305);
           chosen = negotiate pref peer_pref;
           ((mlkem_ss, ct), r1) = c_kem_encaps C (mlkem_pub init) r;
           (eph_x, r2) = fill_bytes r1 32;
           x_pub = c_x_public C eph_x;
           x_ss = c_x_dh C eph_x (hm_x init)
       in if list_all (\<lambda>b. b = 0) x_ss then Err (HandshakeErr ''respond'' low_order_msg)
          else
            let shared = derive_shared C x_ss mlkem_ss
            in rbind (new_response x_pub ct (auth_sig_len C auth) (aead_as_u8 chosen) r2) (\<lambda>(resp, r3).
               let t' = absorb t (transcript_bytes resp);
                   th = transcript_hash C t'
               in rbind (auth_sign C auth (role_bound_hash C SIG_LABEL_RESPONDER th) r3) (\<lambda>(sig, r4).
                  let tag = c_hmac C (mac_key_from C shared) th;
                      resp' = resp\<lparr> hm_sig := sig, hm_mac := tag \<rparr>
                  in rbind (hs_encode resp' r4) (\<lambda>(wire, r5).
                     let session_id = derive_session_id C shared
                     in rbind (from_handshake_with_algo C session_id shared False chosen) (\<lambda>session.
                        Ok (HS_SentResponse session th, wire, r5))))))"

fun hs_finalize ::
  "crypto_lib \<Rightarrow> handshake \<Rightarrow> bytes \<Rightarrow> authenticator \<Rightarrow> rng \<Rightarrow> (handshake \<times> bytes \<times> rng) result" where
  "hs_finalize C (HS_SentInit eph_x sk t) raw auth r =
     rbind (hs_decode raw) (\<lambda>resp.
     if hm_type resp \<noteq> HT_Response then Err (HandshakeErr ''finalize'' ''expected Response'')
     else if \<not> c_kem_ct_ok C (mlkem_ct resp)
     then Err (HandshakeErr ''finalize'' ''kem slot is not a valid ML-KEM ciphertext'')
     else
       let mlkem_ss = c_kem_decaps C (mlkem_ct resp) sk;
           x_ss = c_x_dh C eph_x (hm_x resp)
       in if list_all (\<lambda>b. b = 0) x_ss then Err (HandshakeErr ''finalize'' low_order_msg)
          else
            let shared = derive_shared C x_ss mlkem_ss;
                t' = absorb t (transcript_bytes resp);
                th = transcript_hash C t'
            in rbind (auth_verify C auth (role_bound_hash C SIG_LABEL_RESPONDER th) (hm_sig resp)) (\<lambda>_.
               if c_hmac C (mac_key_from C shared) th \<noteq> hm_mac resp
               then Err (HandshakeErr ''finalize'' ''MAC verification failed'')
               else
                 rbind (new_confirm (auth_sig_len C auth) r) (\<lambda>(conf, r1).
                 rbind (auth_sign C auth (role_bound_hash C SIG_LABEL_INITIATOR th) r1) (\<lambda>(sig, r2).
                 let tag = c_hmac C (mac_key_from C shared) th;
                     conf' = conf\<lparr> hm_sig := sig, hm_mac := tag \<rparr>
                 in rbind (hs_encode conf' r2) (\<lambda>(wire, r3).
                    rbind (aead_from_u8 (hm_aead resp)) (\<lambda>chosen.
                    let session_id = derive_session_id C shared
                    in rbind (from_handshake_with_algo C session_id shared True chosen) (\<lambda>session.
                       Ok (HS_Established session, wire, r3))))))))"
| "hs_finalize C _ raw auth r = Err (HandshakeErr ''finalize'' ''not in SentInit state'')"

fun hs_confirm :: "crypto_lib \<Rightarrow> handshake \<Rightarrow> bytes \<Rightarrow> authenticator \<Rightarrow> handshake result" where
  "hs_confirm C (HS_SentResponse session th) raw auth =
     rbind (hs_decode raw) (\<lambda>conf.
     if hm_type conf \<noteq> HT_Confirm then Err (HandshakeErr ''confirm'' ''expected Confirm'')
     else
       case auth_verify C auth (role_bound_hash C SIG_LABEL_INITIATOR th) (hm_sig conf) of
         Err _ \<Rightarrow> Err (HandshakeErr ''confirm''
                   ''initiator signature verification failed (not the expected peer)'')
       | Ok _ \<Rightarrow> Ok (HS_Established session))"
| "hs_confirm C _ raw auth = Err (HandshakeErr ''confirm'' ''not in SentResponse state'')"

section \<open>Lemmas\<close>

text \<open>The Diffie-Hellman result of two honest publics is never the all-zero point.\<close>

definition x_contributory :: "crypto_lib \<Rightarrow> bool" where
  "x_contributory C \<longleftrightarrow> (\<forall>a b. \<not> list_all (\<lambda>x. x = 0) (c_x_dh C a (c_x_public C b)))"

lemma toy_contributory: "x_contributory toy_crypto"
  by (simp add: x_contributory_def toy_crypto_def toy_dh_def)

lemma hm_wf_update:
  "length t = 32 \<Longrightarrow> hm_wf (m\<lparr> hm_sig := s, hm_mac := t \<rparr>) \<longleftrightarrow> hm_wf (m\<lparr> hm_mac := t \<rparr>)"
  by (simp add: hm_wf_def)

text \<open>What a successful \<open>start\<close> sent and remembers.\<close>

lemma hs_start_Ok:
  assumes "crypto_ok C" "auth_sig_len C auth \<le> 6923"
  obtains h wire r' m pk sk x q q' where
    "hs_start C auth pref r = Ok (h, wire, r')"
    "h = HS_SentInit x sk (absorb (absorb transcript_new (identity_binding C auth)) (transcript_bytes m))"
    "hs_decode wire = Ok m" "hm_type m = HT_Init" "hm_x m = c_x_public C x" "mlkem_pub m = pk"
    "hm_aead m = aead_as_u8 pref" "c_kem_keypair C q = ((pk, sk), q')"
    "hm_wf m" "length (hm_sig m) \<le> 6923" "hm_cookie m = replicate 16 0" "length wire = 8192"
proof -
  obtain x r1 where x: "fill_bytes r 32 = (x, r1)" by fastforce
  obtain pk sk r2 where k: "c_kem_keypair C r1 = ((pk, sk), r2)" by (metis surj_pair)
  have pk: "length pk = 1184" using kem_keypair_ok [OF assms(1) k] by simp
  obtain m r3 where m: "new_init (c_x_public C x) pk (auth_sig_len C auth) (aead_as_u8 pref) r2 = Ok (m, r3)"
    using pk by (auto simp: new_init_def hs_consts fill_bytes_def)
  have wf: "hm_wf m" "hm_type m = HT_Init" "hm_x m = c_x_public C x" "hm_kem m = pk"
    "hm_aead m = aead_as_u8 pref" "length (hm_sig m) = auth_sig_len C auth"
    using new_init_wf [OF _ m] assms(1) by (simp_all add: crypto)
  have cookie: "hm_cookie m = replicate 16 0"
    using m pk by (auto simp: new_init_def hs_consts split: prod.splits if_splits)
  obtain wire r4 where w: "hs_encode m r3 = Ok (wire, r4)"
    using hs_encode_Ok_iff [OF wf(1), of r3] wf(6) assms(2) by (cases "hs_encode m r3") auto
  show thesis
    by (rule that [OF _ refl hs_decode_encode [OF wf(1) w] wf(2,3) _ wf(5) k wf(1) _ cookie hs_encode_length [OF w]])
      (simp_all add: hs_start_def x k m w mlkem_pub_def wf(4,6) pk assms(2) hs_consts Let_def)
qed

text \<open>What a responder does with an honest Init.\<close>

lemma hs_respond_Ok:
  assumes "crypto_ok C" "auth_sig_len C auth \<le> 6923" "x_contributory C"
    "hs_decode raw = Ok init" "hm_type init = HT_Init" "c_kem_pk_ok C (mlkem_pub init)"
    "hm_x init = c_x_public C xi" "hm_aead init = aead_as_u8 peer"
  obtains session th wire r' m ss ct y q q' sig shared u u' where
    "hs_respond C auth pref raw r = Ok (HS_SentResponse session th, wire, r')"
    "c_kem_encaps C (mlkem_pub init) q = ((ss, ct), q')"
    "shared = derive_shared C (c_x_dh C y (hm_x init)) ss"
    "from_handshake_with_algo C (derive_session_id C shared) shared False (negotiate pref peer) = Ok session"
    "hs_decode wire = Ok m" "hm_type m = HT_Response" "hm_x m = c_x_public C y" "mlkem_ct m = ct"
    "hm_aead m = aead_as_u8 (negotiate pref peer)"
    "th = transcript_hash C (absorb (absorb (absorb transcript_new (identity_binding C auth))
       (transcript_bytes init)) (transcript_bytes m))"
    "hm_mac m = c_hmac C (mac_key_from C shared) th" "hm_sig m = sig"
    "auth_sign C auth (role_bound_hash C SIG_LABEL_RESPONDER th) u = Ok (sig, u')"
proof -
  obtain ss ct r1 where e: "c_kem_encaps C (mlkem_pub init) r = ((ss, ct), r1)" by (metis surj_pair)
  have ct: "length ct = 1088" using kem_encaps_ok [OF assms(1) e] by simp
  obtain y r2 where y: "fill_bytes r1 32 = (y, r2)" by fastforce
  let ?chosen = "negotiate pref peer"
  let ?shared = "derive_shared C (c_x_dh C y (hm_x init)) ss"
  obtain m r3 where m: "new_response (c_x_public C y) ct (auth_sig_len C auth) (aead_as_u8 ?chosen) r2 = Ok (m, r3)"
    using ct by (auto simp: new_response_def hs_consts fill_bytes_def)
  have wf: "hm_wf m" "hm_type m = HT_Response" "hm_x m = c_x_public C y" "mlkem_ct m = ct"
    "hm_aead m = aead_as_u8 ?chosen"
    using new_response_wf [OF _ m] assms(1) by (simp_all add: crypto)
  define th where "th = transcript_hash C (absorb (absorb (absorb transcript_new
    (identity_binding C auth)) (transcript_bytes init)) (transcript_bytes m))"
  obtain sig r4 where s: "auth_sign C auth (role_bound_hash C SIG_LABEL_RESPONDER th) r3 = Ok (sig, r4)"
    using sign_total(1) by blast
  let ?m = "m\<lparr> hm_sig := sig, hm_mac := c_hmac C (mac_key_from C ?shared) th \<rparr>"
  have wf': "hm_wf ?m" using wf(1) assms(1) by (simp add: hm_wf_def crypto)
  obtain wire r5 where w: "hs_encode ?m r4 = Ok (wire, r5)"
    using hs_encode_Ok_iff [OF wf', of r4] sign_length(1) [OF s assms(1)] assms(2)
    by (cases "hs_encode ?m r4") auto
  obtain session where f: "from_handshake_with_algo C (derive_session_id C ?shared) ?shared False ?chosen = Ok session"
    by (rule from_handshake_total [OF assms(1)])
  have nz: "\<not> list_all (\<lambda>b. b = 0) (c_x_dh C y (hm_x init))"
    using assms(3,7) by (simp add: x_contributory_def)
  have "hs_respond C auth pref raw r = Ok (HS_SentResponse session th, wire, r5)"
    using assms(4,5,6,8) e y m s w f nz
    by (simp add: hs_respond_def Let_def flip: th_def)
  then show thesis
    by (rule that [OF _ e refl f hs_decode_encode [OF wf' w] _ _ _ _ _ _ _ s])
      (simp_all add: wf(2,3,5) th_def mlkem_ct_def wf(4) [unfolded mlkem_ct_def])
qed

text \<open>An initiator that gets the honest Response.\<close>

lemma hs_finalize_Ok:
  assumes C: "crypto_ok C" and n: "auth_sig_len C auth \<le> 6923"
    and d: "hs_decode raw = Ok resp" "hm_type resp = HT_Response" "c_kem_ct_ok C (mlkem_ct resp)"
    and algo: "hm_aead resp = aead_as_u8 chosen"
    and nz: "\<not> list_all (\<lambda>b. b = 0) (c_x_dh C x (hm_x resp))"
    and shared: "shared = derive_shared C (c_x_dh C x (hm_x resp)) (c_kem_decaps C (mlkem_ct resp) sk)"
    and th: "th = transcript_hash C (absorb t (transcript_bytes resp))"
    and v: "auth_verify C auth (role_bound_hash C SIG_LABEL_RESPONDER th) (hm_sig resp) = Ok ()"
    and mac: "hm_mac resp = c_hmac C (mac_key_from C shared) th"
  obtains session wire r' m sig u u' where
    "hs_finalize C (HS_SentInit x sk t) raw auth r = Ok (HS_Established session, wire, r')"
    "from_handshake_with_algo C (derive_session_id C shared) shared True chosen = Ok session"
    "hs_decode wire = Ok m" "hm_type m = HT_Confirm" "hm_sig m = sig"
    "auth_sign C auth (role_bound_hash C SIG_LABEL_INITIATOR th) u = Ok (sig, u')"
proof -
  obtain c r1 where c: "new_confirm (auth_sig_len C auth) r = Ok (c, r1)"
    by (auto simp: new_confirm_def fill_bytes_def)
  have wf: "hm_wf c" "hm_type c = HT_Confirm" using new_confirm_wf [OF c] by simp_all
  obtain sig r2 where s: "auth_sign C auth (role_bound_hash C SIG_LABEL_INITIATOR th) r1 = Ok (sig, r2)"
    using sign_total(1) by blast
  let ?m = "c\<lparr> hm_sig := sig, hm_mac := c_hmac C (mac_key_from C shared) th \<rparr>"
  have wf': "hm_wf ?m" using wf(1) C by (simp add: hm_wf_def crypto)
  obtain wire r3 where w: "hs_encode ?m r2 = Ok (wire, r3)"
    using hs_encode_Ok_iff [OF wf', of r2] sign_length(1) [OF s C] n
    by (cases "hs_encode ?m r2") auto
  obtain session where f: "from_handshake_with_algo C (derive_session_id C shared) shared True chosen = Ok session"
    by (rule from_handshake_total [OF C])
  have "hs_finalize C (HS_SentInit x sk t) raw auth r = Ok (HS_Established session, wire, r3)"
    using d nz v mac c s w f by (simp add: Let_def algo flip: shared th)
  then show thesis
    by (rule that [OF _ f hs_decode_encode [OF wf' w] _ _ s]) (simp_all add: wf(2))
qed

lemma hs_confirm_Ok:
  assumes "hs_decode raw = Ok m" "hm_type m = HT_Confirm"
    "auth_verify C auth (role_bound_hash C SIG_LABEL_INITIATOR th) (hm_sig m) = Ok ()"
  shows "hs_confirm C (HS_SentResponse s th) raw auth = Ok (HS_Established s)"
  using assms by simp

text \<open>The honest run, message by message.\<close>

lemma honest_answer:
  assumes "crypto_ok C" "x_contributory C" "trusts C ri ii" "trusts C ii ri"
    "auth_sig_len C ii \<le> 6923"
    and h0: "h0 = HS_SentInit x sk (absorb (absorb transcript_new (identity_binding C ii)) (transcript_bytes m))"
    and m: "hs_decode w1 = Ok m" "hm_type m = HT_Init" "hm_x m = c_x_public C x" "mlkem_pub m = pk"
      "hm_aead m = aead_as_u8 pref_i" and key: "c_kem_keypair C k = ((pk, sk), k')"
  shows "\<exists>h1 w2 r2 si sr.
    hs_respond C ri pref_r w1 q = Ok (h1, w2, r2) \<and>
    (\<forall>p. \<exists>w3 r3. hs_finalize C h0 w2 ii p = Ok (HS_Established si, w3, r3) \<and>
       hs_confirm C h1 w3 ri = Ok (HS_Established sr)) \<and>
    paired si sr \<and> session_wf si \<and> session_wf sr \<and> s_algo si = negotiate pref_i pref_r"
proof -
  note C = assms(1)
  have len: "auth_sig_len C ri \<le> 6923" using trusts_sig_len [OF assms(3)] assms(5) by simp
  have bind: "identity_binding C ri = identity_binding C ii"
    using identity_binding_commute [OF assms(3,4)] by simp
  have pk: "c_kem_pk_ok C (mlkem_pub m)" using kem_keypair_ok [OF C key] m(4) by simp
  obtain sr th w2 r2 n ss ct y e e' sig shared u u' where
    respond: "hs_respond C ri pref_r w1 q = Ok (HS_SentResponse sr th, w2, r2)"
    and enc: "c_kem_encaps C (mlkem_pub m) e = ((ss, ct), e')"
    and sh: "shared = derive_shared C (c_x_dh C y (hm_x m)) ss"
    and sr: "from_handshake_with_algo C (derive_session_id C shared) shared False (negotiate pref_r pref_i) = Ok sr"
    and n: "hs_decode w2 = Ok n" "hm_type n = HT_Response" "hm_x n = c_x_public C y" "mlkem_ct n = ct"
      "hm_aead n = aead_as_u8 (negotiate pref_r pref_i)"
    and th: "th = transcript_hash C (absorb (absorb (absorb transcript_new (identity_binding C ri))
       (transcript_bytes m)) (transcript_bytes n))"
    and mac: "hm_mac n = c_hmac C (mac_key_from C shared) th" and sig: "hm_sig n = sig"
      "auth_sign C ri (role_bound_hash C SIG_LABEL_RESPONDER th) u = Ok (sig, u')"
    by (rule hs_respond_Ok [OF C len assms(2) m(1,2) pk m(3,5)])
  have ss: "c_kem_decaps C (mlkem_ct n) sk = ss"
    using kem_agree [OF C key] enc m(4) n(4) by simp
  have ct: "c_kem_ct_ok C (mlkem_ct n)" using kem_encaps_ok [OF C enc] n(4) by simp
  have dh: "c_x_dh C x (hm_x n) = c_x_dh C y (hm_x m)"
    using x_agree [OF C, of x y] by (simp add: m(3) n(3))
  have nz: "\<not> list_all (\<lambda>b. b = 0) (c_x_dh C x (hm_x n))"
    using assms(2) by (simp add: x_contributory_def n(3))
  have sh': "shared = derive_shared C (c_x_dh C x (hm_x n)) (c_kem_decaps C (mlkem_ct n) sk)"
    by (simp add: sh dh ss)
  have v: "auth_verify C ii (role_bound_hash C SIG_LABEL_RESPONDER th) (hm_sig n) = Ok ()"
    using verify_sign(1) [OF sig(2) C assms(4)] sig(1) by simp
  obtain si where si: "from_handshake_with_algo C (derive_session_id C shared) shared True (negotiate pref_r pref_i) = Ok si"
    by (rule from_handshake_total [OF C])
  have final: "\<exists>w3 r3. hs_finalize C h0 w2 ii p = Ok (HS_Established si, w3, r3) \<and>
      hs_confirm C (HS_SentResponse sr th) w3 ri = Ok (HS_Established sr)" for p
  proof -
    obtain si' w3 r3 c csig d d' where
      final: "hs_finalize C (HS_SentInit x sk (absorb (absorb transcript_new (identity_binding C ii))
        (transcript_bytes m))) w2 ii p = Ok (HS_Established si', w3, r3)"
      and si': "from_handshake_with_algo C (derive_session_id C shared) shared True (negotiate pref_r pref_i) = Ok si'"
      and c: "hs_decode w3 = Ok c" "hm_type c = HT_Confirm" "hm_sig c = csig"
        "auth_sign C ii (role_bound_hash C SIG_LABEL_INITIATOR th) d = Ok (csig, d')"
      by (rule hs_finalize_Ok [OF C assms(5) n(1,2) ct n(5) nz sh' th [unfolded bind] v mac])
    have "hs_confirm C (HS_SentResponse sr th) w3 ri = Ok (HS_Established sr)"
      using verify_sign(1) [OF c(4) C assms(3)] c(3) by (intro hs_confirm_Ok [OF c(1,2)]) simp
    with final si si' h0 show ?thesis by auto
  qed
  have "session_wf si \<and> s_algo si = negotiate pref_r pref_i" "session_wf sr"
    using from_handshake_total [OF C] si sr by (metis Inr_inject)+
  then show ?thesis
    using respond final from_handshake_paired [OF C si sr]
    by (auto simp: negotiate_commute)
qed

lemma honest_run_any:
  assumes "crypto_ok C" "x_contributory C" "trusts C ri ii" "trusts C ii ri"
    "auth_sig_len C ii \<le> 6923"
  shows "\<exists>h0 w1 r1 h1 w2 r2 si sr.
    hs_start C ii pref_i r = Ok (h0, w1, r1) \<and>
    hs_respond C ri pref_r w1 q = Ok (h1, w2, r2) \<and>
    (\<forall>p. \<exists>w3 r3. hs_finalize C h0 w2 ii p = Ok (HS_Established si, w3, r3) \<and>
       hs_confirm C h1 w3 ri = Ok (HS_Established sr)) \<and>
    paired si sr \<and> session_wf si \<and> session_wf sr \<and> s_algo si = negotiate pref_i pref_r"
proof -
  obtain h0 w1 r1 m pk sk x k k' where start: "hs_start C ii pref_i r = Ok (h0, w1, r1)"
    and h0: "h0 = HS_SentInit x sk (absorb (absorb transcript_new (identity_binding C ii)) (transcript_bytes m))"
    and m: "hs_decode w1 = Ok m" "hm_type m = HT_Init" "hm_x m = c_x_public C x" "mlkem_pub m = pk"
      "hm_aead m = aead_as_u8 pref_i" and key: "c_kem_keypair C k = ((pk, sk), k')"
    by (rule hs_start_Ok [OF assms(1,5)])
  from start honest_answer [OF assms h0 m key, of pref_r q] show ?thesis by blast
qed

lemma honest_run:
  assumes "crypto_ok C" "x_contributory C" "trusts C ri ii" "trusts C ii ri"
    "auth_sig_len C ii \<le> 6923"
  shows "\<exists>h0 w1 r1 h1 w2 r2 si w3 r3 sr.
    hs_start C ii pref_i r = Ok (h0, w1, r1) \<and>
    hs_respond C ri pref_r w1 q = Ok (h1, w2, r2) \<and>
    hs_finalize C h0 w2 ii r1 = Ok (HS_Established si, w3, r3) \<and>
    hs_confirm C h1 w3 ri = Ok (HS_Established sr) \<and>
    paired si sr \<and> session_wf si \<and> session_wf sr \<and> s_algo si = negotiate pref_i pref_r"
  using honest_run_any [OF assms, of pref_i r pref_r q] by blast

lemma finalize_wire_length:
  "hs_finalize C h raw auth r = Ok (h', wire, r') \<Longrightarrow> length wire = 8192"
  by (cases h) (auto simp: rbind_eq_Ok Let_def dest: hs_encode_length split: if_splits)

text \<open>What a successful step implies, on any input.\<close>

lemma hs_start_OkD:
  assumes "crypto_ok C" "hs_start C auth pref r = Ok (h, wire, r')"
  obtains x pk sk q q' m where
    "h = HS_SentInit x sk (absorb (absorb transcript_new (identity_binding C auth)) (transcript_bytes m))"
    "c_kem_keypair C q = ((pk, sk), q')" "hm_wf m" "hm_type m = HT_Init" "hm_x m = c_x_public C x"
    "mlkem_pub m = pk"
proof -
  obtain x r1 where x: "fill_bytes r 32 = (x, r1)" by fastforce
  obtain pk sk r2 where k: "c_kem_keypair C r1 = ((pk, sk), r2)" by (metis surj_pair)
  from assms(2) obtain m r3 where m: "new_init (c_x_public C x) pk (auth_sig_len C auth) (aead_as_u8 pref) r2 = Ok (m, r3)"
    and h: "h = HS_SentInit x sk (absorb (absorb transcript_new (identity_binding C auth)) (transcript_bytes m))"
    by (auto simp: hs_start_def x k Let_def rbind_eq_Ok)
  have "hm_wf m \<and> hm_type m = HT_Init \<and> hm_x m = c_x_public C x \<and> hm_kem m = pk"
    using new_init_wf [OF _ m] assms(1) by (simp add: crypto)
  then show thesis
    using kem_keypair_ok [OF assms(1) k]
    by (intro that [OF h k]) (auto simp: mlkem_pub_def hs_consts)
qed

lemma hs_respond_OkD:
  assumes "crypto_ok C" "hs_respond C auth pref raw r = Ok (h, wire, r')"
  obtains init session th m ss ct y q q' shared chosen sig u u' where
    "hs_decode raw = Ok init" "hm_type init = HT_Init"
    "h = HS_SentResponse session th"
    "c_kem_encaps C (mlkem_pub init) q = ((ss, ct), q')"
    "shared = derive_shared C (c_x_dh C y (hm_x init)) ss"
    "from_handshake_with_algo C (derive_session_id C shared) shared False chosen = Ok session"
    "hs_decode wire = Ok m" "hm_type m = HT_Response" "hm_x m = c_x_public C y" "mlkem_ct m = ct"
    "hm_aead m = aead_as_u8 chosen"
    "th = transcript_hash C (absorb (absorb (absorb transcript_new (identity_binding C auth))
       (transcript_bytes init)) (transcript_bytes m))"
    "auth_sign C auth (role_bound_hash C SIG_LABEL_RESPONDER th) u = Ok (sig, u')" "hm_sig m = sig"
proof -
  from assms(2) obtain init where d: "hs_decode raw = Ok init" and t: "hm_type init = HT_Init"
    and pk: "c_kem_pk_ok C (mlkem_pub init)"
    by (auto simp: hs_respond_def rbind_eq_Ok split: if_splits)
  obtain ss ct r1 where e: "c_kem_encaps C (mlkem_pub init) r = ((ss, ct), r1)" by (metis surj_pair)
  obtain y r2 where y: "fill_bytes r1 32 = (y, r2)" by fastforce
  define chosen where "chosen = negotiate pref
    (case aead_from_u8 (hm_aead init) of Ok a \<Rightarrow> a | Err _ \<Rightarrow> ChaCha20Poly1305)"
  define shared where "shared = derive_shared C (c_x_dh C y (hm_x init)) ss"
  define t0 where "t0 = absorb (absorb transcript_new (identity_binding C auth)) (transcript_bytes init)"
  from assms(2) obtain m r3 sig r4 r5 session where
    m: "new_response (c_x_public C y) ct (auth_sig_len C auth) (aead_as_u8 chosen) r2 = Ok (m, r3)"
    and s: "auth_sign C auth (role_bound_hash C SIG_LABEL_RESPONDER
      (transcript_hash C (absorb t0 (transcript_bytes m)))) r3 = Ok (sig, r4)"
    and w: "hs_encode (m\<lparr> hm_sig := sig, hm_mac := c_hmac C (mac_key_from C shared)
      (transcript_hash C (absorb t0 (transcript_bytes m))) \<rparr>) r4 = Ok (wire, r5)"
    and f: "from_handshake_with_algo C (derive_session_id C shared) shared False chosen = Ok session"
    and h: "h = HS_SentResponse session (transcript_hash C (absorb t0 (transcript_bytes m)))"
    using d t pk e y
    by (auto simp: hs_respond_def Let_def rbind_eq_Ok simp flip: chosen_def shared_def t0_def
        split: if_splits)
  have wf: "hm_wf m" "hm_type m = HT_Response" "hm_x m = c_x_public C y" "mlkem_ct m = ct"
    "hm_aead m = aead_as_u8 chosen"
    using new_response_wf [OF _ m] assms(1) by (simp_all add: crypto)
  let ?th = "transcript_hash C (absorb t0 (transcript_bytes m))"
  let ?m = "m\<lparr> hm_sig := sig, hm_mac := c_hmac C (mac_key_from C shared) ?th \<rparr>"
  have wf': "hm_wf ?m" using wf(1) assms(1) by (simp add: hm_wf_def crypto)
  show thesis
    by (rule that [OF d t h e shared_def f hs_decode_encode [OF wf' w] _ _ _ _ _ s])
      (simp_all add: wf(2,3,5) t0_def mlkem_ct_def wf(4) [unfolded mlkem_ct_def])
qed

lemma hs_finalize_OkD:
  assumes "hs_finalize C h raw auth r = Ok (h', wire, r')"
  obtains x sk t resp shared th session chosen where
    "h = HS_SentInit x sk t" "hs_decode raw = Ok resp" "hm_type resp = HT_Response"
    "shared = derive_shared C (c_x_dh C x (hm_x resp)) (c_kem_decaps C (mlkem_ct resp) sk)"
    "th = transcript_hash C (absorb t (transcript_bytes resp))"
    "auth_verify C auth (role_bound_hash C SIG_LABEL_RESPONDER th) (hm_sig resp) = Ok ()"
    "hm_mac resp = c_hmac C (mac_key_from C shared) th"
    "aead_from_u8 (hm_aead resp) = Ok chosen"
    "from_handshake_with_algo C (derive_session_id C shared) shared True chosen = Ok session"
    "h' = HS_Established session"
proof (cases h)
  case (HS_SentInit x sk t)
  from assms obtain resp where d: "hs_decode raw = Ok resp" and t: "hm_type resp = HT_Response"
    by (auto simp: HS_SentInit rbind_eq_Ok split: if_splits)
  define shared where
    "shared = derive_shared C (c_x_dh C x (hm_x resp)) (c_kem_decaps C (mlkem_ct resp) sk)"
  define th where "th = transcript_hash C (absorb t (transcript_bytes resp))"
  from assms d t have
    "auth_verify C auth (role_bound_hash C SIG_LABEL_RESPONDER th) (hm_sig resp) = Ok () \<and>
     hm_mac resp = c_hmac C (mac_key_from C shared) th \<and>
     (\<exists>chosen session. aead_from_u8 (hm_aead resp) = Ok chosen \<and>
       from_handshake_with_algo C (derive_session_id C shared) shared True chosen = Ok session \<and>
       h' = HS_Established session)"
    by (auto simp: HS_SentInit Let_def rbind_eq_Ok simp flip: shared_def th_def split: if_splits)
  then show thesis
    using that [OF HS_SentInit d t shared_def th_def] by blast
qed (use assms in simp_all)

section \<open>Properties\<close>

text \<open>C4: an honest handshake between two parties that pinned each other's keys completes, on every
  random draw: Init, Response and Confirm are accepted, both sides end established with
  paired sessions (same keys, opposite directions, same session id), and the cipher is the
  negotiated one: AEGIS only if both prefer it.\<close>

theorem honest_handshake_pairs_sessions:
  assumes "crypto_ok C" "x_contributory C" "trusts C ri ii" "trusts C ii ri"
    "auth_sig_len C ii \<le> 6923"
  shows "\<exists>h0 w1 r1 h1 w2 r2 si w3 r3 sr.
    hs_start C ii pref_i r = Ok (h0, w1, r1) \<and>
    hs_respond C ri pref_r w1 q = Ok (h1, w2, r2) \<and>
    hs_finalize C h0 w2 ii r1 = Ok (HS_Established si, w3, r3) \<and>
    hs_confirm C h1 w3 ri = Ok (HS_Established sr) \<and>
    paired si sr \<and> session_wf si \<and> session_wf sr \<and> s_algo si = negotiate pref_i pref_r"
  by (rule honest_run [OF assms])

text \<open>The premises hold for the toy primitives and the two hybrid parties of the core.\<close>

lemma demo_auth_len: "auth_sig_len toy_crypto (demo_auth a b) = 128"
  by (simp add: demo_auth_def ED25519_SIG_LEN_def toy_crypto_def)

lemma demo_run:
  obtains h0 w1 r1 h1 w2 r2 si w3 r3 sr where
    "hs_start toy_crypto (demo_auth 1 2) Aegis256X2 (\<lambda>_. 5) = Ok (h0, w1, r1)"
    "hs_respond toy_crypto (demo_auth 2 1) Aegis256X2 w1 (\<lambda>_. 6) = Ok (h1, w2, r2)"
    "hs_finalize toy_crypto h0 w2 (demo_auth 1 2) r1 = Ok (HS_Established si, w3, r3)"
    "hs_confirm toy_crypto h1 w3 (demo_auth 2 1) = Ok (HS_Established sr)"
proof -
  have "auth_sig_len toy_crypto (demo_auth 1 2) \<le> 6923" by (simp add: demo_auth_len)
  from honest_run [OF toy_crypto_ok toy_contributory demo_trusts demo_trusts this,
      of Aegis256X2 "\<lambda>_. 5" Aegis256X2 "\<lambda>_. 6"] that
  show thesis by blast
qed

theorem honest_handshake_pairs_sessions_witness:
  "\<exists>h0 w1 r1 h1 w2 r2 si w3 r3 sr.
    hs_start toy_crypto (demo_auth 1 2) Aegis256X2 (\<lambda>_. 5) = Ok (h0, w1, r1) \<and>
    hs_respond toy_crypto (demo_auth 2 1) Aegis256X2 w1 (\<lambda>_. 6) = Ok (h1, w2, r2) \<and>
    hs_finalize toy_crypto h0 w2 (demo_auth 1 2) r1 = Ok (HS_Established si, w3, r3) \<and>
    hs_confirm toy_crypto h1 w3 (demo_auth 2 1) = Ok (HS_Established sr) \<and>
    paired si sr \<and> session_wf si \<and> session_wf sr \<and> s_algo si = negotiate Aegis256X2 Aegis256X2"
  by (rule honest_handshake_pairs_sessions [OF toy_crypto_ok toy_contributory demo_trusts demo_trusts])
    (simp add: demo_auth_len)

text \<open>C30: the responder is mutually authenticated: it reaches an established state only from its own
  Response, by a Confirm whose signature, bound to the initiator role and to the transcript of
  this handshake, verifies under the pinned keys; the session is the one it prepared.\<close>

theorem responder_established_only_after_proof:
  assumes "hs_confirm C h raw auth = Ok h'"
  shows "\<exists>s th m. h = HS_SentResponse s th \<and> h' = HS_Established s \<and>
    hs_decode raw = Ok m \<and> hm_type m = HT_Confirm \<and>
    auth_verify C auth (role_bound_hash C SIG_LABEL_INITIATOR th) (hm_sig m) = Ok ()"
  using assms by (cases h) (auto simp: rbind_eq_Ok split: if_splits sum.splits)

theorem responder_established_only_after_proof_witness:
  "\<exists>s th raw m. hs_confirm toy_crypto (HS_SentResponse s th) raw (demo_auth 2 1) = Ok (HS_Established s) \<and>
     hs_decode raw = Ok m \<and>
     auth_verify toy_crypto (demo_auth 2 1) (role_bound_hash toy_crypto SIG_LABEL_INITIATOR th) (hm_sig m) = Ok ()"
proof -
  obtain h1 w3 sr where c: "hs_confirm toy_crypto h1 w3 (demo_auth 2 1) = Ok (HS_Established sr)"
    by (rule demo_run)
  from responder_established_only_after_proof [OF c] c show ?thesis by blast
qed

text \<open>C31: the initiator is established only by a Response to its own Init whose signature, bound to
  the responder role and to the transcript of both messages, verifies under the pinned keys, and
  whose MAC is made with the secret it derived itself.\<close>

theorem initiator_established_only_after_proof:
  assumes "hs_finalize C h raw auth r = Ok (h', wire, r')"
  shows "\<exists>x sk t m th s. h = HS_SentInit x sk t \<and> h' = HS_Established s \<and>
    hs_decode raw = Ok m \<and> hm_type m = HT_Response \<and>
    th = transcript_hash C (absorb t (transcript_bytes m)) \<and>
    auth_verify C auth (role_bound_hash C SIG_LABEL_RESPONDER th) (hm_sig m) = Ok () \<and>
    hm_mac m = c_hmac C (mac_key_from C (derive_shared C (c_x_dh C x (hm_x m))
      (c_kem_decaps C (mlkem_ct m) sk))) th"
  using assms by (rule hs_finalize_OkD) blast

theorem initiator_established_only_after_proof_witness:
  "\<exists>h raw r s w r' m th. hs_finalize toy_crypto h raw (demo_auth 1 2) r = Ok (HS_Established s, w, r') \<and>
     hs_decode raw = Ok m \<and>
     auth_verify toy_crypto (demo_auth 1 2) (role_bound_hash toy_crypto SIG_LABEL_RESPONDER th) (hm_sig m) = Ok ()"
proof -
  obtain h0 w2 r1 si w3 r3 where
    f: "hs_finalize toy_crypto h0 w2 (demo_auth 1 2) r1 = Ok (HS_Established si, w3, r3)"
    by (rule demo_run)
  from initiator_established_only_after_proof [OF f] f show ?thesis by blast
qed

text \<open>Agreement under an active attacker. Whatever happened to the datagrams in between, if the
  transcript the initiator finalised equals the one the responder signed, then the two sides
  hold paired sessions: the transcript fixes every input of the key derivation and the cipher.\<close>

theorem equal_transcripts_pair_sessions:
  assumes "crypto_ok C" "hs_start C ii pref_i r = Ok (h0, w1, r1)"
    "hs_respond C ri pref_r raw1 q = Ok (HS_SentResponse sr th, w2, r2)"
    "hs_finalize C h0 raw2 ii r3 = Ok (HS_Established si, w3, r4)"
    "hs_decode raw1 = Ok m1" "hs_decode w2 = Ok m2" "hs_decode raw2 = Ok m3"
    "absorb (hs_transcript h0) (transcript_bytes m3) =
     absorb (absorb (absorb transcript_new (identity_binding C ri)) (transcript_bytes m1)) (transcript_bytes m2)"
    "length (identity_binding C ii) < 2 ^ 32" "length (identity_binding C ri) < 2 ^ 32"
  shows "paired si sr"
proof -
  obtain x pk sk k k' m0 where
    h0: "h0 = HS_SentInit x sk (absorb (absorb transcript_new (identity_binding C ii)) (transcript_bytes m0))"
    and key: "c_kem_keypair C k = ((pk, sk), k')"
    and m0: "hm_wf m0" "hm_type m0 = HT_Init" "hm_x m0 = c_x_public C x" "mlkem_pub m0 = pk"
    by (rule hs_start_OkD [OF assms(1,2)])
  obtain ss ct y e e' shared chosen where m1: "hm_type m1 = HT_Init"
    and enc: "c_kem_encaps C (mlkem_pub m1) e = ((ss, ct), e')"
    and sh: "shared = derive_shared C (c_x_dh C y (hm_x m1)) ss"
    and sr: "from_handshake_with_algo C (derive_session_id C shared) shared False chosen = Ok sr"
    and m2: "hm_type m2 = HT_Response" "hm_x m2 = c_x_public C y" "mlkem_ct m2 = ct"
      "hm_aead m2 = aead_as_u8 chosen"
    by (rule hs_respond_OkD [OF assms(1,3)]) (use assms(5,6) in auto)
  obtain shared' chosen' where
    sh': "shared' = derive_shared C (c_x_dh C x (hm_x m3)) (c_kem_decaps C (mlkem_ct m3) sk)"
    and ch: "aead_from_u8 (hm_aead m3) = Ok chosen'"
    and si: "from_handshake_with_algo C (derive_session_id C shared') shared' True chosen' = Ok si"
    and m3: "hm_type m3 = HT_Response"
    by (rule hs_finalize_OkD [OF assms(4)]) (use assms(7) h0 in auto)
  have wf: "hm_wf m1" "hm_wf m2" "hm_wf m3"
    using assms(5-7) hs_decode_wf by blast+
  have small: "length (transcript_bytes m) < 2 ^ 32" if "hm_wf m" for m
    using that
    by (cases "hm_type m") (simp_all add: transcript_bytes_def hm_wf_def mlkem_pub_def mlkem_ct_def hs_consts)
  have "foldl absorb transcript_new [identity_binding C ii, transcript_bytes m0, transcript_bytes m3] =
    foldl absorb transcript_new [identity_binding C ri, transcript_bytes m1, transcript_bytes m2]"
    using assms(8) h0 by simp
  then have "[identity_binding C ii, transcript_bytes m0, transcript_bytes m3] =
    [identity_binding C ri, transcript_bytes m1, transcript_bytes m2]"
    using assms(9,10) small m0(1) wf
    by (intro foldl_absorb_inject) (auto simp: foldl_absorb_concat [of transcript_new] simp del: foldl_Cons)
  then have t: "transcript_bytes m0 = transcript_bytes m1" "transcript_bytes m3 = transcript_bytes m2"
    by simp_all
  have init: "hm_x m1 = hm_x m0 \<and> mlkem_pub m1 = mlkem_pub m0"
    using transcript_fields [OF m0(1) wf(1) t(1)] m0(2) by (simp add: mlkem_pub_def)
  have resp: "hm_x m2 = hm_x m3 \<and> mlkem_ct m2 = mlkem_ct m3 \<and> hm_aead m2 = hm_aead m3"
    using transcript_fields [OF wf(3,2) t(2)] m3 by simp
  have ss: "c_kem_decaps C (mlkem_ct m3) sk = ss"
    using kem_agree [OF assms(1) key] enc init m0(4) m2(3) resp by simp
  have "c_x_dh C x (hm_x m3) = c_x_dh C y (hm_x m1)"
    using x_agree [OF assms(1), of x y] init resp m0(3) m2(2) by simp
  then have "shared' = shared" by (simp add: sh sh' ss)
  moreover have "chosen' = chosen" using ch resp m2(4) by (metis aead_from_as_u8 Inr_inject)
  ultimately show ?thesis using from_handshake_paired [OF assms(1)] si sr by simp
qed

theorem equal_transcripts_pair_sessions_witness:
  "\<exists>h0 w1 r1 sr th w2 r2 si w3 r3.
    hs_start toy_crypto (demo_auth 1 2) Aegis256X2 (\<lambda>_. 5) = Ok (h0, w1, r1) \<and>
    hs_respond toy_crypto (demo_auth 2 1) Aegis256X2 w1 (\<lambda>_. 6) = Ok (HS_SentResponse sr th, w2, r2) \<and>
    hs_finalize toy_crypto h0 w2 (demo_auth 1 2) r1 = Ok (HS_Established si, w3, r3) \<and> paired si sr"
proof -
  obtain h0 w1 r1 h1 w2 r2 si w3 r3 where
    a: "hs_start toy_crypto (demo_auth 1 2) Aegis256X2 (\<lambda>_. 5) = Ok (h0, w1, r1)"
    and b: "hs_respond toy_crypto (demo_auth 2 1) Aegis256X2 w1 (\<lambda>_. 6) = Ok (h1, w2, r2)"
    and c: "hs_finalize toy_crypto h0 w2 (demo_auth 1 2) r1 = Ok (HS_Established si, w3, r3)"
    by (rule demo_run)
  obtain m x sk where m: "hs_decode w1 = Ok m"
    and h0: "h0 = HS_SentInit x sk (absorb (absorb transcript_new
      (identity_binding toy_crypto (demo_auth 1 2))) (transcript_bytes m))"
    by (rule hs_start_Ok [OF toy_crypto_ok, of "demo_auth 1 2" Aegis256X2 "\<lambda>_. 5"])
      (use a in \<open>auto simp: demo_auth_len\<close>)
  obtain sr th n where h1: "h1 = HS_SentResponse sr th" and n: "hs_decode w2 = Ok n"
    by (rule hs_respond_OkD [OF toy_crypto_ok b]) blast
  have bind: "identity_binding toy_crypto (demo_auth 1 2) = identity_binding toy_crypto (demo_auth 2 1)"
    by (rule identity_binding_commute [OF demo_trusts demo_trusts])
  have small: "length (identity_binding toy_crypto (demo_auth 2 1)) < 2 ^ 32"
    by (simp add: demo_auth_def ed25519_binding_def toy_crypto_def)
  have "paired si sr"
    by (rule equal_transcripts_pair_sessions [OF toy_crypto_ok a b [unfolded h1] c m n n])
      (simp_all only: h0 handshake.sel bind small)
  with a b c h1 show ?thesis by blast
qed

text \<open>Role separation: the initiator and the responder never sign the same input, so a signature
  cannot be reflected, whatever transcripts are involved.\<close>

theorem role_labels_separate:
  "SIG_LABEL_INITIATOR @ th \<noteq> SIG_LABEL_RESPONDER @ th'"
  by (simp add: SIG_LABEL_INITIATOR_def SIG_LABEL_RESPONDER_def ascii_def)

text \<open>A step applied in the wrong state is refused with its own error and yields no state: only an
  initiator that sent an Init can finalise, only a responder that sent a Response can confirm.\<close>

theorem wrong_state_rejected:
  "hs_finalize C (HS_SentResponse s th) raw auth r = Err (HandshakeErr ''finalize'' ''not in SentInit state'') \<and>
   hs_finalize C (HS_Established s) raw auth r = Err (HandshakeErr ''finalize'' ''not in SentInit state'') \<and>
   hs_confirm C (HS_SentInit x sk t) raw auth = Err (HandshakeErr ''confirm'' ''not in SentResponse state'') \<and>
   hs_confirm C (HS_Established s) raw auth = Err (HandshakeErr ''confirm'' ''not in SentResponse state'')"
  by simp

end
