(* ===== verification/Reassembly.thy ===== *)
theory Reassembly
  imports Errors
begin

text \<open>
  Fragmentation and reassembly of the handshake transport (\<open>src/tunnel.rs\<close>, \<open>fragment\<close> and
  \<open>Reassembler\<close>). The two hash maps are association lists with distinct keys. \<open>reasm_inv\<close> is
  the invariant behind the memory bound: at most 64 incomplete messages of at most 64
  fragments of at most 1024 bytes. Fragments that arrive in any order reassemble to the
  message, on the clear-text path and for the parts the obfuscated path hands over.
\<close>

definition MAX_PENDING_MSGS :: nat where
  "MAX_PENDING_MSGS = 64"

definition MAX_FRAGMENTS :: u16 where
  "MAX_FRAGMENTS = 64"

definition FRAG_PAYLOAD :: nat where
  "FRAG_PAYLOAD = 1024"

definition FRAG_HEADER_LEN :: nat where
  "FRAG_HEADER_LEN = 8"

lemmas frag_consts = MAX_PENDING_MSGS_def MAX_FRAGMENTS_def FRAG_PAYLOAD_def FRAG_HEADER_LEN_def

definition fragment :: "u32 \<Rightarrow> bytes \<Rightarrow> bytes list" where
  "fragment msg_id full =
     (let chunks = chunks_of FRAG_PAYLOAD full;
          tot = of_nat (length chunks) :: u16
      in map (\<lambda>(i, chunk). u32_to_le msg_id @ u16_to_le (of_nat i) @ u16_to_le tot @ chunk)
           (enumerate 0 chunks))"

record partial_msg =
  pm_total :: u16
  pm_chunks :: "(u16 \<times> bytes) list"
  pm_first_seen :: instant

type_synonym reassembler = "(u32 \<times> partial_msg) list"

text \<open>The loop \<open>for i in 0..entry.total\<close> that concatenates the chunks.\<close>

fun gather :: "(u16 \<times> bytes) list \<Rightarrow> nat list \<Rightarrow> bytes result" where
  "gather chunks [] = Ok []"
| "gather chunks (i # is) =
     rbind (ok_or (map_of chunks (of_nat i)) (HandshakeErr ''reassemble'' ''missing fragment''))
       (\<lambda>part. rbind (gather chunks is) (\<lambda>rest. Ok (part @ rest)))"

definition push_parts ::
  "reassembler \<Rightarrow> instant \<Rightarrow> u32 \<Rightarrow> u16 \<Rightarrow> u16 \<Rightarrow> bytes \<Rightarrow> bytes option result \<times> reassembler" where
  "push_parts R now msg_id index tot payload =
     (if tot = 0 \<or> tot > MAX_FRAGMENTS \<or> index \<ge> tot
      then (Err (HandshakeErr ''reassemble'' ''invalid fragment index/total''), R)
      else if length payload > FRAG_PAYLOAD
      then (Err (HandshakeErr ''reassemble'' ''fragment payload larger than any real handshake chunk''), R)
      else if map_of R msg_id = None \<and> length R \<ge> MAX_PENDING_MSGS then (Ok None, R)
      else
        let entry = (case map_of R msg_id of
              Some e \<Rightarrow> e
            | None \<Rightarrow> \<lparr> pm_total = tot, pm_chunks = [], pm_first_seen = now \<rparr>)
        in if pm_total entry \<noteq> tot
           then (Err (HandshakeErr ''reassemble'' ''inconsistent fragment count''),
                 AList.update msg_id entry R)
           else
             let chunks = AList.update index payload (pm_chunks entry);
                 entry' = entry\<lparr> pm_chunks := chunks \<rparr>
             in if (of_nat (length chunks) :: u16) = pm_total entry'
                then case gather chunks [0..<unat (pm_total entry')] of
                    Err e \<Rightarrow> (Err e, AList.update msg_id entry' R)
                  | Ok out \<Rightarrow> (Ok (Some out), AList.delete msg_id (AList.update msg_id entry' R))
                else (Ok None, AList.update msg_id entry' R))"

definition push :: "reassembler \<Rightarrow> instant \<Rightarrow> bytes \<Rightarrow> bytes option result \<times> reassembler" where
  "push R now raw =
     (if length raw < FRAG_HEADER_LEN then (Err (PacketTooShort (length raw) FRAG_HEADER_LEN), R)
      else push_parts R now (u32_from_le (take 4 raw)) (u16_from_le (take 2 (drop 4 raw)))
             (u16_from_le (take 2 (drop 6 raw))) (drop FRAG_HEADER_LEN raw))"

definition prune_old :: "reassembler \<Rightarrow> instant \<Rightarrow> duration \<Rightarrow> reassembler" where
  "prune_old R now max_age =
     filter (\<lambda>(id, msg). duration_since now (pm_first_seen msg) < max_age) R"

definition pending_count :: "reassembler \<Rightarrow> nat" where
  "pending_count R = length R"

section \<open>Invariant\<close>

definition partial_inv :: "partial_msg \<Rightarrow> bool" where
  "partial_inv m \<longleftrightarrow>
     distinct (map fst (pm_chunks m)) \<and> pm_total m \<noteq> 0 \<and> pm_total m \<le> 64 \<and>
     (\<forall>(i, p)\<in>set (pm_chunks m). i < pm_total m \<and> length p \<le> 1024) \<and>
     length (pm_chunks m) < unat (pm_total m)"

definition reasm_inv :: "reassembler \<Rightarrow> bool" where
  "reasm_inv R \<longleftrightarrow>
     distinct (map fst R) \<and> length R \<le> 64 \<and> (\<forall>(id, m)\<in>set R. partial_inv m)"

definition buffered :: "reassembler \<Rightarrow> nat" where
  "buffered R = sum_list (map (\<lambda>(id, m). sum_list (map (length \<circ> snd) (pm_chunks m))) R)"

lemma length_alist_update:
  "length (AList.update k v xs) = (if map_of xs k = None then Suc (length xs) else length xs)"
  by (induction xs) auto

lemma set_alist_update: "set (AList.update k v xs) \<subseteq> insert (k, v) (set xs)"
  by (induction xs) auto

lemma sum_list_bound: "\<forall>x\<in>set xs. f x \<le> (b :: nat) \<Longrightarrow> sum_list (map f xs) \<le> length xs * b"
  by (induction xs) auto

lemma partial_bytes:
  assumes "partial_inv m"
  shows "sum_list (map (length \<circ> snd) (pm_chunks m)) \<le> 63 * 1024"
proof -
  have "sum_list (map (length \<circ> snd) (pm_chunks m)) \<le> length (pm_chunks m) * 1024"
    using assms by (intro sum_list_bound) (auto simp: partial_inv_def)
  moreover have "length (pm_chunks m) \<le> 63"
    using assms by (auto simp: partial_inv_def word_le_nat_alt)
  ultimately show ?thesis
    by (meson le_trans mult_le_mono1)
qed

lemma reasm_bytes:
  assumes "reasm_inv R"
  shows "buffered R \<le> 64 * (63 * 1024)"
proof -
  have "buffered R \<le> length R * (63 * 1024)"
    unfolding buffered_def using assms
    by (intro sum_list_bound) (auto simp: reasm_inv_def dest!: partial_bytes)
  moreover have "length R \<le> 64" using assms by (simp add: reasm_inv_def)
  ultimately show ?thesis by (meson le_trans mult_le_mono1)
qed

text \<open>A full set of distinct indexes below the total has every index, so gathering succeeds.\<close>

lemma gather_total:
  "(\<And>i. i \<in> set is \<Longrightarrow> map_of chunks (of_nat i) \<noteq> None) \<Longrightarrow> \<exists>out. gather chunks is = Ok out"
proof (induction "is")
  case Nil
  show ?case by simp
next
  case (Cons i "is")
  then obtain out p where "gather chunks is = Ok out" "map_of chunks (of_nat i) = Some p"
    by (metis list.set_intros(1) list.set_intros(2) not_Some_eq)
  then show ?case by simp
qed

lemma full_chunks:
  assumes "distinct (map fst chunks)" "\<forall>(i, p)\<in>set chunks. i < (t :: u16)"
    "length chunks = unat t" "n < unat t"
  shows "map_of chunks (of_nat n) \<noteq> None"
proof -
  let ?S = "unat ` set (map fst chunks)"
  have "?S \<subseteq> {..<unat t}"
    using assms(2) by (auto simp: word_less_nat_alt)
  moreover have "card ?S = unat t"
  proof -
    have "inj_on unat (set (map fst chunks))"
      by (rule inj_onI) (rule word_unat_eq_iff [THEN iffD2])
    then have "card ?S = card (set (map fst chunks))" by (rule card_image)
    with assms(1,3) show ?thesis by (simp only: distinct_card length_map)
  qed
  ultimately have "?S = {..<unat t}"
    by (simp add: card_subset_eq)
  with assms(4) obtain i where "i \<in> set (map fst chunks)" "unat i = n"
    by (metis imageE lessThan_iff)
  then have "of_nat n \<in> fst ` set chunks" by force
  then show ?thesis by (simp add: map_of_eq_None_iff)
qed

lemma entry_step:
  assumes inv: "reasm_inv R" and bounds: "t \<noteq> 0" "t \<le> 64" "i < t" "length p \<le> 1024"
    and entry: "entry = (case map_of R k of Some e \<Rightarrow> e
        | None \<Rightarrow> \<lparr> pm_total = t, pm_chunks = [], pm_first_seen = now \<rparr>)"
    and t: "pm_total entry = t"
  shows "distinct (map fst (AList.update i p (pm_chunks entry)))"
    and "\<forall>(j, q)\<in>set (AList.update i p (pm_chunks entry)). j < t \<and> length q \<le> 1024"
    and "length (AList.update i p (pm_chunks entry)) \<le> unat t"
proof -
  have e: "distinct (map fst (pm_chunks entry)) \<and>
    (\<forall>(j, q)\<in>set (pm_chunks entry). j < t \<and> length q \<le> 1024) \<and>
    length (pm_chunks entry) < unat t"
  proof (cases "map_of R k")
    case None
    with entry bounds(1) show ?thesis by (simp add: unat_gt_0)
  next
    case (Some m)
    then have "(k, m) \<in> set R" by (rule map_of_SomeD)
    with inv have "partial_inv m" by (auto simp: reasm_inv_def)
    with Some entry t show ?thesis by (simp add: partial_inv_def)
  qed
  then show "distinct (map fst (AList.update i p (pm_chunks entry)))"
    by (simp add: distinct_update)
  show "\<forall>(j, q)\<in>set (AList.update i p (pm_chunks entry)). j < t \<and> length q \<le> 1024"
    using e bounds set_alist_update [of i p "pm_chunks entry"] by blast
  show "length (AList.update i p (pm_chunks entry)) \<le> unat t"
    using e by (simp add: length_alist_update)
qed

lemma reasm_inv_update:
  assumes "reasm_inv R" "partial_inv m" "map_of R k \<noteq> None \<or> length R < 64"
  shows "reasm_inv (AList.update k m R)"
  using assms set_alist_update [of k m R]
  by (auto simp: reasm_inv_def length_alist_update distinct_update)

lemma delete_update_same: "AList.delete k (AList.update k m R) = AList.delete k R"
  by (induction R) (auto simp: AList.delete_eq)

lemma reasm_inv_filter: "reasm_inv R \<Longrightarrow> reasm_inv (filter P R)"
  by (auto simp: reasm_inv_def distinct_map_filter intro: le_trans [OF length_filter_le])

lemma reasm_inv_delete: "reasm_inv R \<Longrightarrow> reasm_inv (AList.delete k R)"
  by (simp add: AList.delete_eq reasm_inv_filter)

lemma push_parts_inv:
  assumes inv: "reasm_inv R" and push: "push_parts R now k i t p = (r, R')"
  shows "reasm_inv R'"
proof (cases "t = 0 \<or> t > 64 \<or> i \<ge> t \<or> length p > 1024 \<or> (map_of R k = None \<and> 64 \<le> length R)")
  case True
  then have "R' = R"
    using push by (auto simp: push_parts_def frag_consts split: if_splits)
  with inv show ?thesis by simp
next
  case False
  define entry where "entry = (case map_of R k of Some e \<Rightarrow> e
      | None \<Rightarrow> \<lparr> pm_total = t, pm_chunks = [], pm_first_seen = now \<rparr>)"
  define chunks where "chunks = AList.update i p (pm_chunks entry)"
  have room: "map_of R k \<noteq> None \<or> length R < 64" using False by auto
  show ?thesis
  proof (cases "pm_total entry = t")
    case bad: False
    then obtain m where m: "map_of R k = Some m" "entry = m"
      by (auto simp: entry_def split: option.splits)
    then have "(k, m) \<in> set R" by (auto dest: map_of_SomeD)
    with inv have "partial_inv m" by (auto simp: reasm_inv_def)
    moreover have "R' = AList.update k m R"
      using push False bad m
      by (auto simp: push_parts_def frag_consts Let_def simp flip: entry_def)
    ultimately show ?thesis using inv room by (simp add: reasm_inv_update)
  next
    case t: True
    have bounds: "t \<noteq> 0" "t \<le> 64" "i < t" "length p \<le> 1024" using False by auto
    note ch = entry_step [OF inv bounds entry_def t, folded chunks_def]
    have R': "(r, R') = (if (of_nat (length chunks) :: u16) = t
        then case gather chunks [0..<unat t] of
            Err e \<Rightarrow> (Err e, AList.update k (entry\<lparr> pm_chunks := chunks \<rparr>) R)
          | Ok out \<Rightarrow> (Ok (Some out), AList.delete k R)
        else (Ok None, AList.update k (entry\<lparr> pm_chunks := chunks \<rparr>) R))"
      using push False t
      by (simp add: push_parts_def frag_consts Let_def delete_update_same chunks_def [symmetric]
          flip: entry_def split: if_splits sum.splits)
    have lt: "unat t \<le> 64" using bounds(2) by (simp add: word_le_nat_alt)
    then have len: "(of_nat (length chunks) :: u16) = t \<longleftrightarrow> length chunks = unat t"
      using ch(3) by (auto simp: word_unat_eq_iff unat_of_nat)
    show ?thesis
    proof (cases "length chunks = unat t")
      case True
      have "map_of chunks (of_nat n) \<noteq> None" if "n \<in> set [0..<unat t]" for n
        using full_chunks [OF ch(1) _ True, of n] ch(2) that by auto
      then obtain out where "gather chunks [0..<unat t] = Ok out"
        using gather_total by blast
      with R' True len have "R' = AList.delete k R" by simp
      with inv show ?thesis by (simp add: reasm_inv_delete)
    next
      case False
      with ch t bounds have "partial_inv (entry\<lparr> pm_chunks := chunks \<rparr>)"
        by (auto simp: partial_inv_def)
      moreover have "R' = AList.update k (entry\<lparr> pm_chunks := chunks \<rparr>) R"
        using R' False len by simp
      ultimately show ?thesis using inv room by (simp add: reasm_inv_update)
    qed
  qed
qed

lemma push_inv: "reasm_inv R \<Longrightarrow> push R now raw = (r, R') \<Longrightarrow> reasm_inv R'"
  by (auto simp: push_def dest: push_parts_inv split: if_splits)

lemma prune_inv: "reasm_inv R \<Longrightarrow> reasm_inv (prune_old R now a)"
  by (simp add: prune_old_def reasm_inv_filter)

section \<open>Fragments in any order\<close>

text \<open>Raw datagrams, or parsed parts, pushed one after the other.\<close>

fun push_parts_all ::
  "reassembler \<Rightarrow> (instant \<times> u32 \<times> u16 \<times> u16 \<times> bytes) list \<Rightarrow> bytes option result list \<times> reassembler" where
  "push_parts_all R [] = ([], R)"
| "push_parts_all R ((now, k, i, t, p) # fs) =
     (let (r, R') = push_parts R now k i t p; (rs, R'') = push_parts_all R' fs in (r # rs, R''))"

fun push_all :: "reassembler \<Rightarrow> (instant \<times> bytes) list \<Rightarrow> bytes option result list \<times> reassembler" where
  "push_all R [] = ([], R)"
| "push_all R ((now, raw) # fs) =
     (let (r, R') = push R now raw; (rs, R'') = push_all R' fs in (r # rs, R''))"

lemma alist_update_last: "k \<notin> fst ` set R \<Longrightarrow> AList.update k v (R @ [(k, w)]) = R @ [(k, v)]"
  by (induction R) auto

lemma alist_update_new: "k \<notin> fst ` set R \<Longrightarrow> AList.update k v R = R @ [(k, v)]"
  by (induction R) auto

lemma alist_delete_last: "k \<notin> fst ` set R \<Longrightarrow> AList.delete k (R @ [(k, v)]) = R"
  by (induction R) (auto simp: AList.delete_eq)

lemma map_of_last: "k \<notin> fst ` set R \<Longrightarrow> map_of (R @ [(k, v)]) k = Some v"
  by (induction R) auto

lemma gather_all:
  "(\<And>i. i \<in> set is \<Longrightarrow> map_of chunks (of_nat i) = Some (f i)) \<Longrightarrow>
    gather chunks is = Ok (concat (map f is))"
  by (induction "is") auto

definition held :: "bytes list \<Rightarrow> nat list \<Rightarrow> (u16 \<times> bytes) list" where
  "held cs is = map (\<lambda>i. (of_nat i, cs ! i)) is"

lemma of_nat_u16_inject: "i < 65536 \<Longrightarrow> j < 65536 \<Longrightarrow> (of_nat i :: u16) = of_nat j \<longleftrightarrow> i = j"
  by (simp add: word_unat_eq_iff unat_of_nat)

lemma held_lookup:
  assumes "\<forall>i\<in>set is. i < 65536" "j < 65536"
  shows "map_of (held cs is) (of_nat j) = (if j \<in> set is then Some (cs ! j) else None)"
  using assms by (induction "is") (auto simp: held_def of_nat_u16_inject)

lemma held_snoc:
  assumes "\<forall>i\<in>set is. i < 65536" "j < 65536" "j \<notin> set is"
  shows "AList.update (of_nat j) (cs ! j) (held cs is) = held cs (is @ [j])"
proof -
  have "map_of (held cs is) (of_nat j) = None"
    using held_lookup [OF assms(1,2)] assms(3) by simp
  then show ?thesis
    by (simp add: alist_update_new map_of_eq_None_iff) (simp add: held_def)
qed

lemma held_complete:
  assumes "distinct is" "set is = {0..<length cs}" "length cs \<le> 64"
  shows "gather (held cs is) [0..<length cs] = Ok (concat cs)"
proof -
  have "gather (held cs is) [0..<length cs] = Ok (concat (map ((!) cs) [0..<length cs]))"
    using assms by (intro gather_all) (auto simp: held_lookup)
  then show ?thesis by (simp add: map_nth)
qed

text \<open>One more fragment of a message of which \<open>is\<close> were held.\<close>

lemma push_parts_step:
  assumes k: "k \<notin> fst ` set R" and cs: "length cs \<le> 64" "\<forall>c\<in>set cs. length c \<le> 1024"
    and "is": "distinct (is @ [j])" "\<forall>i\<in>set (is @ [j]). i < length cs"
    and R1: "R1 = (if is = [] then R else
        R @ [(k, \<lparr> pm_total = of_nat (length cs), pm_chunks = held cs is, pm_first_seen = t0 \<rparr>)])"
    and room: "is = [] \<Longrightarrow> length R < 64" "is = [] \<Longrightarrow> t0 = now"
  shows "push_parts R1 now k (of_nat j) (of_nat (length cs)) (cs ! j) =
    (if Suc (length is) = length cs then (Ok (Some (concat cs)), R)
     else (Ok None, R @ [(k, \<lparr> pm_total = of_nat (length cs), pm_chunks = held cs (is @ [j]),
                                pm_first_seen = t0 \<rparr>)]))"
proof -
  let ?t = "of_nat (length cs) :: u16"
  let ?e = "\<lambda>l. \<lparr> pm_total = ?t, pm_chunks = held cs l, pm_first_seen = t0 \<rparr>"
  have j: "j < length cs" "j \<notin> set is" "\<forall>i\<in>set is. i < 65536" "j < 65536"
    using "is" cs(1) by auto
  have ut: "unat ?t = length cs" using cs(1) by (simp add: unat_of_nat)
  have guards: "\<not> (?t = 0 \<or> ?t > MAX_FRAGMENTS \<or> of_nat j \<ge> ?t)"
    using j cs(1) by (auto simp: word_unat_eq_iff word_le_nat_alt word_less_nat_alt frag_consts unat_of_nat)
  have len: "length (cs ! j) \<le> FRAG_PAYLOAD" using cs(2) j by (simp add: frag_consts)
  have kR: "map_of R k = None" using k by (simp add: map_of_eq_None_iff)
  have entry: "(case map_of R1 k of Some e \<Rightarrow> e
      | None \<Rightarrow> \<lparr> pm_total = ?t, pm_chunks = [], pm_first_seen = now \<rparr>) = ?e is"
    using room(2) by (auto simp: R1 kR map_of_last [OF k] held_def simp del: map_of_append)
  have cap: "\<not> (map_of R1 k = None \<and> length R1 \<ge> MAX_PENDING_MSGS)"
    using room(1) by (auto simp: R1 map_of_last [OF k] frag_consts simp del: map_of_append)
  have upd: "AList.update k (?e (is @ [j])) R1 = R @ [(k, ?e (is @ [j]))]"
    by (simp add: R1 alist_update_last [OF k] alist_update_new [OF k])
  have snoc: "AList.update (of_nat j) (cs ! j) (held cs is) = held cs (is @ [j])"
    by (rule held_snoc [OF j(3,4,2)])
  have lh: "length (held cs (is @ [j])) = Suc (length is)" by (simp add: held_def)
  have le: "Suc (length is) \<le> length cs"
  proof -
    have "card (set (is @ [j])) \<le> card {0..<length cs}"
      using "is" by (intro card_mono) auto
    with "is"(1) show ?thesis by (simp add: distinct_card)
  qed
  have full: "(of_nat (Suc (length is)) :: u16) = ?t \<longleftrightarrow> Suc (length is) = length cs"
    using le cs(1) by (intro of_nat_u16_inject) auto
  have g: "gather (held cs (is @ [j])) [0..<length cs] = Ok (concat cs)" if "Suc (length is) = length cs"
  proof (rule held_complete [OF "is"(1) _ cs(1)])
    have "card (set (is @ [j])) = card {0..<length cs}"
      using "is"(1) that by (simp only: distinct_card) simp
    with "is"(2) show "set (is @ [j]) = {0..<length cs}"
      by (intro card_subset_eq) auto
  qed
  show ?thesis
    using guards len full g
    by (simp add: push_parts_def if_not_P [OF cap] entry snoc upd lh ut Let_def alist_delete_last [OF k]
        del: of_nat_Suc)
qed

lemma push_parts_rest:
  assumes k: "k \<notin> fst ` set R" and cs: "length cs \<le> 64" "\<forall>c\<in>set cs. length c \<le> 1024"
    and "is": "distinct (is @ js)" "set (is @ js) = {0..<length cs}" "js \<noteq> []"
    and R1: "R1 = (if is = [] then R else
        R @ [(k, \<lparr> pm_total = of_nat (length cs), pm_chunks = held cs is, pm_first_seen = t0 \<rparr>)])"
    and room: "is = [] \<Longrightarrow> length R < 64"
    and ts: "length ts = length js" "is = [] \<Longrightarrow> t0 = hd ts"
  shows "push_parts_all R1
      (map (\<lambda>(now, j). (now, k, of_nat j, of_nat (length cs), cs ! j)) (zip ts js)) =
    (replicate (length js - 1) (Ok None) @ [Ok (Some (concat cs))], R)"
  using "is" R1 room ts
proof (induction js arbitrary: "is" R1 ts)
  case Nil
  then show ?case by simp
next
  case (Cons j js)
  obtain now ts' where ts: "ts = now # ts'" "length ts' = length js"
    using Cons.prems(6) by (cases ts) auto
  have dj: "distinct (is @ [j])" and bj: "\<forall>i\<in>set (is @ [j]). i < length cs"
    using Cons.prems(1,2) by auto
  have t0: "is = [] \<Longrightarrow> t0 = now" using Cons.prems(7) ts by simp
  note step = push_parts_step [OF k cs dj bj Cons.prems(4) Cons.prems(5) t0]
  have n: "length is + Suc (length js) = length cs"
    using distinct_card [OF Cons.prems(1)] Cons.prems(2) by simp
  show ?case
  proof (cases "js = []")
    case True
    with n step ts show ?thesis by simp
  next
    case False
    let ?R = "R @ [(k, \<lparr> pm_total = of_nat (length cs), pm_chunks = held cs (is @ [j]),
        pm_first_seen = t0 \<rparr>)]"
    have "push_parts R1 now k (of_nat j) (of_nat (length cs)) (cs ! j) = (Ok None, ?R)"
      using step n False by (cases js) simp_all
    moreover have "push_parts_all ?R
        (map (\<lambda>(now, j). (now, k, of_nat j, of_nat (length cs), cs ! j)) (zip ts' js)) =
      (replicate (length js - 1) (Ok None) @ [Ok (Some (concat cs))], R)"
      by (rule Cons.IH [of "is @ [j]"]) (use Cons.prems False ts in auto)
    ultimately show ?thesis
      using False ts by (cases js) (simp_all add: replicate_app_Cons_same)
  qed
qed

lemma push_fragment:
  assumes "j < length (chunks_of 1024 full)" "length (chunks_of 1024 full) \<le> 64"
  shows "push R now (fragment k full ! j) =
    push_parts R now k (of_nat j) (of_nat (length (chunks_of 1024 full))) (chunks_of 1024 full ! j)"
  using assms
  by (simp add: push_def fragment_def frag_consts nth_enumerate_eq Let_def)

lemma length_fragment [simp]: "length (fragment k full) = length (chunks_of 1024 full)"
  by (simp add: fragment_def frag_consts Let_def)

lemma fragment_size: "frag \<in> set (fragment k full) \<Longrightarrow> length frag \<le> 1032"
proof -
  assume "frag \<in> set (fragment k full)"
  then obtain i where i: "i < length (chunks_of 1024 full)" "frag = fragment k full ! i"
    by (metis in_set_conv_nth length_fragment)
  then have "length (chunks_of 1024 full ! i) \<le> 1024"
    using chunks_of_bound nth_mem by blast
  with i show ?thesis
    by (simp add: fragment_def frag_consts nth_enumerate_eq Let_def)
qed

lemma push_all_fragments:
  assumes "\<forall>j\<in>set js. j < length (chunks_of 1024 full)" "length (chunks_of 1024 full) \<le> 64"
    "length ts = length js"
  shows "push_all R (map (\<lambda>(now, j). (now, fragment k full ! j)) (zip ts js)) =
    push_parts_all R (map (\<lambda>(now, j). (now, k, of_nat j, of_nat (length (chunks_of 1024 full)),
      chunks_of 1024 full ! j)) (zip ts js))"
  using assms
proof (induction js arbitrary: R ts)
  case Nil
  then show ?case by simp
next
  case (Cons j js)
  then obtain now ts' where "ts = now # ts'" by (cases ts) auto
  with Cons show ?case by (simp add: push_fragment split: prod.splits)
qed

section \<open>Reachable buffers\<close>

text \<open>Whatever a peer sends and whenever the tick prunes: datagrams on the clear-text path, parts from
  the obfuscated path, and \<open>prune_old\<close>.\<close>

inductive reasm_step :: "reassembler \<Rightarrow> reassembler \<Rightarrow> bool" where
  raw: "push R now d = (r, R') \<Longrightarrow> reasm_step R R'"
| parts: "push_parts R now k i t p = (r, R') \<Longrightarrow> reasm_step R R'"
| prune: "reasm_step R (prune_old R now age)"

lemma reasm_steps_inv: "reasm_step\<^sup>*\<^sup>* R R' \<Longrightarrow> reasm_inv R \<Longrightarrow> reasm_inv R'"
proof (induction rule: rtranclp_induct)
  case base
  then show ?case .
next
  case (step S S')
  from step(2) step(3) [OF step(4)] show ?case
    by cases (auto dest: push_inv push_parts_inv intro: prune_inv)
qed

lemma map_of_delete: "map_of (AList.delete k xs) j = (if j = k then None else map_of xs j)"
  by (simp add: AList.delete_conv')

lemma map_of_update: "map_of (AList.update k v xs) j = (if j = k then Some v else map_of xs j)"
  by (simp add: update_conv')

lemma push_parts_first_seen:
  assumes "push_parts R now k i t p = (r, R')" "map_of R j = Some m" "map_of R' j = Some m'"
  shows "pm_first_seen m' = pm_first_seen m"
  using assms
  by (cases "map_of R k")
    (auto simp: push_parts_def Let_def map_of_delete map_of_update split: if_splits sum.splits option.splits)

section \<open>Properties\<close>

text \<open>A message cut by \<open>fragment\<close> is put together from its fragments in whatever order and at
  whatever times they arrive: every fragment but the last returns nothing, the last returns
  the message, and no trace of it stays in the buffer. Other incomplete messages are kept.\<close>

theorem reassembly_any_order:
  assumes "full \<noteq> []" "length full \<le> 65536" "k \<notin> fst ` set R" "length R < 64"
    "distinct js" "set js = {0..<length (fragment k full)}" "length ts = length js"
  shows "push_all R (map (\<lambda>(now, j). (now, fragment k full ! j)) (zip ts js)) =
    (replicate (length js - 1) (Ok None) @ [Ok (Some full)], R)"
proof -
  let ?cs = "chunks_of 1024 full"
  have len: "length ?cs \<le> 64" "?cs \<noteq> []"
    using assms(1,2) length_chunks_of [of 1024 full] by (auto simp: chunks_of.simps [of _ full])
  have size: "\<forall>c\<in>set ?cs. length c \<le> 1024"
    using chunks_of_bound by blast
  have js: "js \<noteq> []" using len(2) assms(6) by auto
  have "push_parts_all R (map (\<lambda>(now, j). (now, k, of_nat j, of_nat (length ?cs), ?cs ! j)) (zip ts js)) =
      (replicate (length js - 1) (Ok None) @ [Ok (Some (concat ?cs))], R)"
    by (rule push_parts_rest [OF assms(3) len(1) size, of "[]" js R "hd ts"]) (use assms js in auto)
  then show ?thesis
    using assms(6,7) len(1) by (simp add: push_all_fragments concat_chunks_of)
qed

theorem reassembly_any_order_witness:
  "push_all [] (map (\<lambda>(now, j). (now, fragment 5 (replicate 2000 7) ! j)) (zip [10, 20] [1, 0])) =
    ([Ok None, Ok (Some (replicate 2000 7))], [])"
proof -
  have "length (fragment 5 (replicate 2000 (7 :: byte))) = 2"
    by (simp add: length_chunks_of)
  then have js: "set [1, 0] = {0..<length (fragment 5 (replicate 2000 (7 :: byte)))}"
    by auto
  have "push_all [] (map (\<lambda>(now, j). (now, fragment 5 (replicate 2000 7) ! j)) (zip [10, 20] [1, 0])) =
    (replicate (length [1 :: nat, 0] - 1) (Ok None) @ [Ok (Some (replicate 2000 7))], [])"
    by (rule reassembly_any_order [OF _ _ _ _ _ js]) simp_all
  then show ?thesis by simp
qed

text \<open>C29: the reassembly buffer is bounded whatever arrives: after any sequence of datagrams, parts and
  prunings there are at most 64 incomplete messages, each waiting for at most 64 fragments and holding fewer
  than it waits for, no two of the same index and none longer than 1024 bytes, the empty ones counted; so fewer
  than 4096 fragments and less than 4 MiB of fragment payload in all.\<close>

theorem reassembler_memory_bounded:
  assumes "reasm_step\<^sup>*\<^sup>* [] R"
  shows "pending_count R \<le> 64 \<and> buffered R < 4 * 1024 * 1024 \<and>
    sum_list (map (\<lambda>(id, m). length (pm_chunks m)) R) < 4096 \<and>
    (\<forall>(id, m)\<in>set R. pm_total m \<le> 64 \<and> length (pm_chunks m) < unat (pm_total m) \<and>
       distinct (map fst (pm_chunks m)) \<and> (\<forall>(i, p)\<in>set (pm_chunks m). i < pm_total m \<and> length p \<le> 1024))"
proof -
  have "reasm_inv []" by (simp add: reasm_inv_def)
  with assms have inv: "reasm_inv R" by (rule reasm_steps_inv)
  then have each: "\<forall>(id, m)\<in>set R. partial_inv m" and n: "length R \<le> 64" by (simp_all add: reasm_inv_def)
  have "length (pm_chunks m) \<le> 63" if "(id, m) \<in> set R" for id m
    using each that by (auto simp: partial_inv_def word_le_nat_alt)
  then have "sum_list (map (\<lambda>(id, m). length (pm_chunks m)) R) \<le> length R * 63"
    by (intro sum_list_bound) auto
  with n have "sum_list (map (\<lambda>(id, m). length (pm_chunks m)) R) < 4096" by linarith
  with each n reasm_bytes [OF inv] show ?thesis
    by (auto simp: pending_count_def partial_inv_def)
qed

theorem reassembler_memory_bounded_witness:
  "let R = snd (push_parts [] 0 1 0 2 [7]) in map_of R 1 = Some \<lparr> pm_total = 2, pm_chunks = [(0, [7])], pm_first_seen = 0 \<rparr> \<and>
     pending_count R \<le> 64 \<and> buffered R < 4 * 1024 * 1024"
proof -
  have "reasm_step [] (snd (push_parts [] 0 1 0 2 [7]))"
    by (rule reasm_step.parts) (rule surjective_pairing)
  moreover have "map_of (snd (push_parts [] 0 1 0 2 [7])) 1 = Some \<lparr> pm_total = 2, pm_chunks = [(0, [7])], pm_first_seen = 0 \<rparr>"
    by (simp add: push_parts_def frag_consts)
  ultimately show ?thesis
    using reassembler_memory_bounded [OF r_into_rtranclp] unfolding Let_def by blast
qed

text \<open>An incomplete message cannot be kept alive: no further fragment refreshes the time it was
  first seen, so \<open>prune_old\<close> drops it once it is older than the limit.\<close>

theorem stale_partial_pruned:
  assumes "map_of R j = Some m" "push_parts R now k i t p = (r, R')" "map_of R' j = Some m'"
    "reasm_inv R" "age \<le> duration_since later (pm_first_seen m)"
  shows "pm_first_seen m' = pm_first_seen m \<and> map_of (prune_old R' later age) j = None"
proof -
  have fs: "pm_first_seen m' = pm_first_seen m"
    by (rule push_parts_first_seen [OF assms(2,1,3)])
  have "distinct (map fst R')"
    using push_parts_inv [OF assms(4,2)] by (simp add: reasm_inv_def)
  then have "x = m'" if "(j, x) \<in> set R'" for x
    using that assms(3) by (simp add: map_of_eq_Some_iff)
  with fs assms(5) have "j \<notin> fst ` set (prune_old R' later age)"
    by (auto simp: prune_old_def)
  with fs show ?thesis by (simp add: map_of_eq_None_iff)
qed

theorem stale_partial_pruned_witness:
  "map_of (prune_old [(1, \<lparr> pm_total = 3, pm_chunks = [(0, [7]), (1, [8])], pm_first_seen = 0 \<rparr>)] 100 50) 1 = None"
proof -
  let ?R = "[(1, \<lparr> pm_total = 3, pm_chunks = [(0, [7])], pm_first_seen = 0 \<rparr>)] :: reassembler"
  have "push_parts ?R 40 1 1 3 [8] =
      (Ok None, [(1, \<lparr> pm_total = 3, pm_chunks = [(0, [7]), (1, [8])], pm_first_seen = 0 \<rparr>)])"
    by (simp add: push_parts_def frag_consts word_le_nat_alt)
  from stale_partial_pruned [OF _ this, of 1] show ?thesis
    by (simp add: reasm_inv_def partial_inv_def duration_since_def)
qed

end
