(* ===== verification/Hsobf.thy ===== *)
theory Hsobf
  imports Crypto_Core Reassembly
begin

text \<open>
  The static-key obfuscation of the handshake (\<open>src/hsobf.rs\<close>): key derivation from the pinned
  identities or a pre-shared key, wrap-then-fragment into chunks of random size, and the
  receiver's unmasking and opening. \<open>gen_range\<close> turns a random draw into a value of the range;
  every value of the range occurs for some draw, and nothing else is used of it.
\<close>

definition HS_NONCE_LEN :: nat where
  "HS_NONCE_LEN = 12"

definition HS_TAG_LEN :: nat where
  "HS_TAG_LEN = 16"

definition HS_FRAG_HEADER_LEN :: nat where
  "HS_FRAG_HEADER_LEN = 8"

definition MIN_CHUNK :: nat where
  "MIN_CHUNK = 512"

definition MAX_CHUNK :: nat where
  "MAX_CHUNK = 1024"

definition HS_MAX_FRAGMENTS :: u16 where
  "HS_MAX_FRAGMENTS = 64"

lemmas hsobf_consts = HS_NONCE_LEN_def HS_TAG_LEN_def HS_FRAG_HEADER_LEN_def MIN_CHUNK_def
  MAX_CHUNK_def HS_MAX_FRAGMENTS_def

definition derive_hs_obf_key :: "crypto_lib \<Rightarrow> bytes \<Rightarrow> bytes \<Rightarrow> bytes option \<Rightarrow> bytes" where
  "derive_hs_obf_key C own_ed_pub peer_ed_pub psk =
     (let ikm = (case psk of
            Some p \<Rightarrow> p
          | None \<Rightarrow>
              let (lo, hi) = (if own_ed_pub \<le> peer_ed_pub then (own_ed_pub, peer_ed_pub)
                              else (peer_ed_pub, own_ed_pub))
              in lo @ hi)
      in c_hkdf C (Some (ascii ''Chameleon-PQ-v1-hs-obf'')) ikm (ascii ''handshake obfuscation key'') 32)"

definition frag_mask :: "crypto_lib \<Rightarrow> bytes \<Rightarrow> u32 \<Rightarrow> bytes" where
  "frag_mask C key msg_id = take 4 (c_hmac C key (u32_to_le msg_id))"

text \<open>\<open>cipher\<close> builds the key; only a key of the wrong length fails.\<close>

definition hs_cipher :: "bytes \<Rightarrow> bytes result" where
  "hs_cipher key = (if length key = 32 then Ok key else Err (Kdf ''hs-obf key''))"

definition gen_range :: "nat \<Rightarrow> nat \<Rightarrow> rng \<Rightarrow> nat \<times> rng" where
  "gen_range lo hi r =
     (let (bs, r') = fill_bytes r 4 in (lo + le_nat bs mod (hi - lo + 1), r'))"

lemma gen_range_bounds:
  assumes "lo \<le> hi"
  shows "lo \<le> fst (gen_range lo hi r) \<and> fst (gen_range lo hi r) \<le> hi"
proof -
  obtain bs r' where r: "fill_bytes r 4 = (bs, r')" by fastforce
  have "le_nat bs mod (hi - lo + 1) \<le> hi - lo"
    using mod_less_divisor [of "hi - lo + 1" "le_nat bs"] by linarith
  then have "lo + le_nat bs mod (hi - lo + 1) \<le> hi" using assms by linarith
  then show ?thesis by (simp add: gen_range_def r)
qed

function variable_chunks :: "bytes \<Rightarrow> rng \<Rightarrow> bytes list \<times> rng" where
  "variable_chunks blob r =
     (if length blob > MAX_CHUNK
      then let (n, r1) = gen_range MIN_CHUNK MAX_CHUNK r;
               (cs, r2) = variable_chunks (drop n blob) r1
           in (take n blob # cs, r2)
      else ([blob], r))"
  by pat_completeness auto
termination
proof (relation "measure (\<lambda>(blob, r). length blob)")
  fix blob :: bytes and r x n r1
  assume "MAX_CHUNK < length blob" "x = gen_range MIN_CHUNK MAX_CHUNK r" "(n, r1) = x"
  moreover from this have "fst (gen_range MIN_CHUNK MAX_CHUNK r) = n"
    by (metis fst_conv)
  then have "MIN_CHUNK \<le> n"
    using gen_range_bounds [of MIN_CHUNK MAX_CHUNK r] by (simp add: hsobf_consts)
  ultimately show "((drop n blob, r1), blob, r) \<in> measure (\<lambda>(blob, r). length blob)"
    by (auto simp: hsobf_consts)
qed auto

declare variable_chunks.simps [simp del]

definition hs_frag_header :: "crypto_lib \<Rightarrow> bytes \<Rightarrow> u32 \<Rightarrow> u16 \<Rightarrow> u16 \<Rightarrow> bytes" where
  "hs_frag_header C key msg_id index tot =
     u32_to_le msg_id @ xor_bytes (u16_to_le index @ u16_to_le tot) (frag_mask C key msg_id)"

definition seal_and_fragment :: "crypto_lib \<Rightarrow> bytes \<Rightarrow> bytes \<Rightarrow> rng \<Rightarrow> (bytes list \<times> rng) result" where
  "seal_and_fragment C hs_obf_key msg r =
     (let (nonce, r1) = fill_bytes r HS_NONCE_LEN
      in rbind (hs_cipher hs_obf_key) (\<lambda>lk.
         rbind (ok_or (c_chacha_seal C lk nonce [] msg) DecryptionFailed) (\<lambda>sealed.
         let blob = nonce @ sealed;
             (idb, r2) = fill_bytes r1 4;
             msg_id = u32_from_le idb;
             (chunks, r3) = variable_chunks blob r2;
             tot = of_nat (length chunks) :: u16
         in Ok (map (\<lambda>(i, chunk). hs_frag_header C hs_obf_key msg_id (of_nat i) tot @ chunk)
                  (enumerate 0 chunks), r3))))"

definition unmask_fragment :: "crypto_lib \<Rightarrow> bytes \<Rightarrow> bytes \<Rightarrow> (u32 \<times> u16 \<times> u16 \<times> bytes) option" where
  "unmask_fragment C hs_obf_key raw =
     (if length raw < HS_FRAG_HEADER_LEN then None
      else let msg_id = u32_from_le (take 4 raw);
               mask = frag_mask C hs_obf_key msg_id;
               it = xor_bytes (take 4 (drop 4 raw)) mask;
               index = u16_from_le (take 2 it);
               tot = u16_from_le (take 2 (drop 2 it))
           in if tot = 0 \<or> tot > HS_MAX_FRAGMENTS \<or> index \<ge> tot then None
              else Some (msg_id, index, tot, drop HS_FRAG_HEADER_LEN raw))"

definition hs_open :: "crypto_lib \<Rightarrow> bytes \<Rightarrow> bytes \<Rightarrow> bytes result" where
  "hs_open C hs_obf_key reassembled =
     (if length reassembled < HS_NONCE_LEN + HS_TAG_LEN then Err DecryptionFailed
      else let nonce = take HS_NONCE_LEN reassembled;
               ct = drop HS_NONCE_LEN reassembled
           in rbind (hs_cipher hs_obf_key) (\<lambda>lk.
              ok_or (c_chacha_open C lk nonce [] ct) DecryptionFailed))"

section \<open>Lemmas\<close>

lemma concat_variable_chunks: "concat (fst (variable_chunks blob r)) = blob"
proof (induction blob r rule: variable_chunks.induct)
  case (1 blob r)
  then show ?case
    by (subst variable_chunks.simps) (auto split: prod.splits)
qed

lemma variable_chunks_size: "c \<in> set (fst (variable_chunks blob r)) \<Longrightarrow> length c \<le> 1024"
proof (induction blob r rule: variable_chunks.induct)
  case (1 blob r)
  show ?case
  proof (cases "length blob > MAX_CHUNK")
    case False
    with "1.prems" show ?thesis
      by (subst (asm) variable_chunks.simps) (simp add: hsobf_consts)
  next
    case True
    obtain n r1 where n: "gen_range MIN_CHUNK MAX_CHUNK r = (n, r1)" by fastforce
    have "n \<le> 1024"
      using gen_range_bounds [of MIN_CHUNK MAX_CHUNK r] n by (simp add: hsobf_consts)
    moreover have "c \<in> set (take n blob # fst (variable_chunks (drop n blob) r1))"
      using "1.prems" True n
      by (subst (asm) variable_chunks.simps) (auto split: prod.splits)
    ultimately show ?thesis using "1.IH" [OF True n [symmetric] refl] by auto
  qed
qed

lemma variable_chunks_count: "512 * (length (fst (variable_chunks blob r)) - 1) \<le> length blob"
proof (induction blob r rule: variable_chunks.induct)
  case (1 blob r)
  show ?case
  proof (cases "length blob > MAX_CHUNK")
    case False
    then show ?thesis by (subst variable_chunks.simps) simp
  next
    case True
    obtain n r1 where n: "gen_range MIN_CHUNK MAX_CHUNK r = (n, r1)" by fastforce
    have bounds: "512 \<le> n" "n \<le> 1024"
      using gen_range_bounds [of MIN_CHUNK MAX_CHUNK r] n by (simp_all add: hsobf_consts)
    obtain cs r2 where cs: "variable_chunks (drop n blob) r1 = (cs, r2)" by fastforce
    have "512 * (length cs - 1) \<le> length blob - n"
      using "1.IH" [OF True n [symmetric] refl] cs by simp
    moreover have "cs \<noteq> []"
      using cs by (subst (asm) variable_chunks.simps) (auto split: if_splits prod.splits)
    ultimately have "512 * length cs \<le> length blob"
      using bounds True by (cases cs) (auto simp: hsobf_consts)
    with True n cs show ?thesis
      by (subst variable_chunks.simps) simp
  qed
qed

lemma variable_chunks_nonempty: "fst (variable_chunks blob r) \<noteq> []"
  by (subst variable_chunks.simps) (auto split: prod.splits)

lemma derive_hs_obf_key_length: "crypto_ok C \<Longrightarrow> length (derive_hs_obf_key C a b p) = 32"
  by (simp add: derive_hs_obf_key_def crypto_hash)

lemma unmask_hs_fragment:
  assumes "crypto_ok C" "tot \<noteq> 0" "tot \<le> 64" "index < tot"
  shows "unmask_fragment C key (hs_frag_header C key k index tot @ chunk) = Some (k, index, tot, chunk)"
proof -
  have m: "length (frag_mask C key k) = 4"
    using assms(1) by (simp add: frag_mask_def crypto_hash)
  have x: "xor_bytes (xor_bytes (u16_to_le index @ u16_to_le tot) (frag_mask C key k)) (frag_mask C key k)
      = u16_to_le index @ u16_to_le tot"
    using m by (simp add: xor_bytes_cancel)
  show ?thesis
    using assms m x
    by (simp add: unmask_fragment_def hs_frag_header_def hsobf_consts Let_def not_less not_le)
qed

text \<open>What the sender put on the wire.\<close>

lemma seal_and_fragment_OkD:
  assumes "seal_and_fragment C key msg r = Ok (ds, r')"
  obtains nonce sealed k cs q where "length nonce = 12" "length key = 32"
    "c_chacha_seal C key nonce [] msg = Some sealed" "cs = fst (variable_chunks (nonce @ sealed) q)"
    "ds = map (\<lambda>(i, chunk). hs_frag_header C key k (of_nat i) (of_nat (length cs)) @ chunk) (enumerate 0 cs)"
proof -
  obtain nonce r1 where n: "fill_bytes r HS_NONCE_LEN = (nonce, r1)" by fastforce
  obtain idb r2 where i: "fill_bytes r1 4 = (idb, r2)" by fastforce
  have len: "length nonce = 12" using n by (auto simp: fill_bytes_def hsobf_consts)
  have key: "length key = 32"
    using assms by (auto simp: seal_and_fragment_def hs_cipher_def rbind_eq_Ok split: if_splits prod.splits)
  have "c_chacha_seal C key nonce [] msg \<noteq> None"
    using assms n i key
    by (cases "c_chacha_seal C key nonce [] msg") (simp_all add: seal_and_fragment_def hs_cipher_def)
  then obtain sealed where sealed: "c_chacha_seal C key nonce [] msg = Some sealed" by blast
  obtain cs r3 where cs: "variable_chunks (nonce @ sealed) r2 = (cs, r3)" by fastforce
  show thesis
    by (rule that [OF len key sealed, of cs r2 "u32_from_le idb"])
      (use assms n i key sealed cs in \<open>auto simp: seal_and_fragment_def hs_cipher_def Let_def\<close>)
qed

lemma seal_and_fragment_total:
  assumes "crypto_ok C" "length key = 32" "length msg \<le> aead_max_input"
  obtains ds r' where "seal_and_fragment C key msg r = Ok (ds, r')"
proof -
  obtain nonce r1 where n: "fill_bytes r HS_NONCE_LEN = (nonce, r1)" by fastforce
  obtain idb r2 where i: "fill_bytes r1 4 = (idb, r2)" by fastforce
  obtain sealed where sealed: "c_chacha_seal C key nonce [] msg = Some sealed"
    using chacha_seal_neq_None [OF assms(1,3)] by blast
  obtain cs r3 where cs: "variable_chunks (nonce @ sealed) r2 = (cs, r3)" by fastforce
  show thesis
    by (rule that)
      (simp add: seal_and_fragment_def hs_cipher_def Let_def n i sealed cs assms(2))
qed

lemma hs_open_sealed:
  assumes "crypto_ok C" "length key = 32" "length nonce = 12" "c_chacha_seal C key nonce [] msg = Some sealed"
  shows "hs_open C key (nonce @ sealed) = Ok msg"
  using assms chacha_seal_length [OF assms(1,4)]
  by (simp add: hs_open_def hs_cipher_def hsobf_consts chacha_open_iff)

end
