(* ===== verification/Net.thy ===== *)
theory Net
  imports Handshake Hsobf Frame
begin

text \<open>
  The network side of the handshake (\<open>src/net.rs\<close>): stateless cookies, the datagrams of a
  handshake message, the receive path into the reassembler, and the two drivers of the initial
  handshake. A driver is a function of what its socket delivers: the initiator gets, per
  attempt, the datagrams received before the timeout; the responder is a step function on
  events (datagram, prune tick, confirm timeout, socket error), so its unbounded listening
  loop is a run over any event list. What a driver sends is part of its result.
\<close>

section \<open>Return-routability cookies\<close>

definition COOKIE_WINDOW_SECS :: nat where
  "COOKIE_WINDOW_SECS = 120"

text \<open>\<open>t\<close> is the wall clock in whole seconds since the epoch; a clock before the epoch counts as 0.\<close>

definition cookie_bucket :: "int \<Rightarrow> u64" where
  "cookie_bucket t = (if t < 0 then 0 else of_nat (nat t div COOKIE_WINDOW_SECS))"

definition cookie_issue :: "crypto_lib \<Rightarrow> bytes \<Rightarrow> sock_addr \<Rightarrow> int \<Rightarrow> bytes" where
  "cookie_issue C secret src t = compute_cookie C secret src (cookie_bucket t)"

definition ct_eq :: "bytes \<Rightarrow> bytes \<Rightarrow> bool" where
  "ct_eq cookie expected =
     (foldl (\<lambda>diff i. diff OR (cookie ! i XOR expected ! i)) (0 :: byte) [0..<16] = 0)"

definition cookie_valid :: "crypto_lib \<Rightarrow> bytes \<Rightarrow> sock_addr \<Rightarrow> int \<Rightarrow> bytes \<Rightarrow> bool" where
  "cookie_valid C secret src t cookie =
     (let b = cookie_bucket t
      in ct_eq cookie (compute_cookie C secret src b) \<or>
         ct_eq cookie (compute_cookie C secret src (b - 1)))"

text \<open>\<open>SESSION_COUNTER.fetch_add(1)\<close>.\<close>

definition next_session_id :: "u32 \<Rightarrow> u32 \<times> u32" where
  "next_session_id counter = (counter, counter + 1)"

section \<open>Handshake datagrams\<close>

definition build_handshake_datagrams ::
  "crypto_lib \<Rightarrow> u32 \<Rightarrow> bytes \<Rightarrow> bytes option \<Rightarrow> rng \<Rightarrow> (bytes list \<times> rng) result" where
  "build_handshake_datagrams C session_id wire hs_obf r =
     (case hs_obf of
        Some k \<Rightarrow> seal_and_fragment C k wire r
      | None \<Rightarrow>
          rbind (collect_results (map (\<lambda>frag. fr_encode (new_handshake frag)) (fragment session_id wire)))
            (\<lambda>ds. Ok (ds, r)))"

text \<open>
  Where a datagram goes, and a send that may fail: \<open>Some e\<close> is the operating system's error on
  the socket, or that the pacer dropped its end of the channel. \<open>faults\<close> has one entry per
  datagram, in order; past its end no send fails. The datagrams that left are returned.
\<close>

datatype handshake_sink = SinkDirect sock_addr | SinkPaced

definition sink_send :: "handshake_sink \<Rightarrow> string option \<Rightarrow> unit result" where
  "sink_send sink fault =
     (case fault of
        None \<Rightarrow> Ok ()
      | Some e \<Rightarrow> Err (case sink of SinkDirect peer \<Rightarrow> Io e | SinkPaced \<Rightarrow> ChannelClosed))"

fun send_datagrams :: "handshake_sink \<Rightarrow> bytes list \<Rightarrow> string option list \<Rightarrow> unit result \<times> bytes list" where
  "send_datagrams sink [] faults = (Ok (), [])"
| "send_datagrams sink (d # ds) faults =
     (case sink_send sink (case faults of [] \<Rightarrow> None | f # _ \<Rightarrow> f) of
        Err e \<Rightarrow> (Err e, [])
      | Ok _ \<Rightarrow>
          let (x, sent) = send_datagrams sink ds (case faults of [] \<Rightarrow> [] | _ # fs \<Rightarrow> fs)
          in (x, d # sent))"

definition send_handshake ::
  "crypto_lib \<Rightarrow> handshake_sink \<Rightarrow> u32 \<Rightarrow> bytes \<Rightarrow> bytes option \<Rightarrow> string option list \<Rightarrow> rng \<Rightarrow>
    unit result \<times> bytes list \<times> rng" where
  "send_handshake C sink session_id wire hs_obf faults r =
     (case build_handshake_datagrams C session_id wire hs_obf r of
        Err e \<Rightarrow> (Err e, [], r)
      | Ok (ds, r') \<Rightarrow> (let (x, sent) = send_datagrams sink ds faults in (x, sent, r')))"

definition push_handshake ::
  "crypto_lib \<Rightarrow> reassembler \<Rightarrow> instant \<Rightarrow> bytes \<Rightarrow> bytes option \<Rightarrow> bytes option result \<times> reassembler" where
  "push_handshake C R now raw hs_obf =
     (case hs_obf of
        Some k \<Rightarrow>
          (case unmask_fragment C k raw of
             None \<Rightarrow> (Ok None, R)
           | Some (mid, idx, tot, chunk) \<Rightarrow>
               (case push_parts R now mid idx tot chunk of
                  (Ok (Some blob), R') \<Rightarrow>
                    (Ok (case hs_open C k blob of Ok m \<Rightarrow> Some m | Err _ \<Rightarrow> None), R')
                | (_, R') \<Rightarrow> (Ok None, R')))
      | None \<Rightarrow>
          (case fr_decode raw of
             Err e \<Rightarrow> (Err e, R)
           | Ok frame \<Rightarrow>
               if fr_type frame \<noteq> FT_Handshake then (Ok None, R)
               else push R now (fr_payload frame)))"

section \<open>Initiator of the initial handshake\<close>

definition HS_MAX_ATTEMPTS :: nat where
  "HS_MAX_ATTEMPTS = 8"

datatype recv_event = Recv instant sock_addr bytes | RecvErr string

text \<open>One attempt: the faults of its sends and what arrives before the 800 ms timeout.\<close>

record attempt_env =
  ae_faults :: "string option list"
  ae_events :: "recv_event list"

datatype attempt_outcome = AO_Msg bytes | AO_Err chameleon_error | AO_Timeout

fun initiator_recv ::
  "crypto_lib \<Rightarrow> sock_addr \<Rightarrow> bytes option \<Rightarrow> reassembler \<Rightarrow> recv_event list \<Rightarrow> attempt_outcome" where
  "initiator_recv C peer hs_obf R [] = AO_Timeout"
| "initiator_recv C peer hs_obf R (RecvErr e # evs) = AO_Err (Io e)"
| "initiator_recv C peer hs_obf R (Recv now src d # evs) =
     (if src \<noteq> peer then initiator_recv C peer hs_obf R evs
      else case push_handshake C R now d hs_obf of
          (Err e, R') \<Rightarrow> AO_Err e
        | (Ok (Some w), R') \<Rightarrow> AO_Msg w
        | (Ok None, R') \<Rightarrow> initiator_recv C peer hs_obf R' evs)"

text \<open>
  The attempts that are left; \<open>datagrams\<close> is what the next one sends. The result is the response
  message if one came, with everything sent on the way.
\<close>

fun initiator_attempts ::
  "crypto_lib \<Rightarrow> sock_addr \<Rightarrow> bytes option \<Rightarrow> u32 \<Rightarrow> bytes \<Rightarrow> nat \<Rightarrow> bytes list \<Rightarrow> attempt_env list \<Rightarrow> rng \<Rightarrow>
    (bytes option \<times> rng) result \<times> bytes list" where
  "initiator_attempts C peer hs_obf sid init_wire 0 datagrams envs r = (Ok (None, r), [])"
| "initiator_attempts C peer hs_obf sid init_wire (Suc n) datagrams envs r =
     (let env = (case envs of [] \<Rightarrow> \<lparr> ae_faults = [], ae_events = [] \<rparr> | e # _ \<Rightarrow> e);
          rest = (case envs of [] \<Rightarrow> [] | _ # es \<Rightarrow> es)
      in case send_datagrams (SinkDirect peer) datagrams (ae_faults env) of
        (Err e, out) \<Rightarrow> (Err e, out)
      | (Ok _, out) \<Rightarrow>
          let again = (\<lambda>ds r'. let (res, sent) = initiator_attempts C peer hs_obf sid init_wire n ds rest r'
                               in (res, out @ sent))
          in case initiator_recv C peer hs_obf [] (ae_events env) of
            AO_Err e \<Rightarrow> (Err e, out)
          | AO_Timeout \<Rightarrow> again datagrams r
          | AO_Msg w \<Rightarrow>
              if length w = HANDSHAKE_MSG_LEN \<and> w ! 1 = ht_as_u8 HT_CookieChallenge
              then case hs_decode w of
                  Err _ \<Rightarrow> again datagrams r
                | Ok ch \<Rightarrow>
                    (case rbind (hs_decode init_wire) (\<lambda>m.
                       rbind (hs_encode (m\<lparr> hm_cookie := hm_cookie ch \<rparr>) r) (\<lambda>(wire, r1).
                       build_handshake_datagrams C sid wire hs_obf r1)) of
                       Err e \<Rightarrow> (Err e, out)
                     | Ok (ds, r2) \<Rightarrow> again ds r2)
              else (Ok (Some w, r), out))"

text \<open>\<open>faults\<close>: of the sends of the Confirm.\<close>

definition run_handshake_initiator ::
  "crypto_lib \<Rightarrow> authenticator \<Rightarrow> aead_algo \<Rightarrow> sock_addr \<Rightarrow> bytes option \<Rightarrow> u32 \<Rightarrow> attempt_env list \<Rightarrow>
    string option list \<Rightarrow> rng \<Rightarrow> session result \<times> bytes list" where
  "run_handshake_initiator C auth pref peer hs_obf session_id envs faults r =
     (case rbind (hs_start C auth pref r) (\<lambda>(hs, init_wire, r1).
             rbind (build_handshake_datagrams C session_id init_wire hs_obf r1) (\<lambda>(ds, r2).
             Ok (hs, init_wire, ds, r2))) of
        Err e \<Rightarrow> (Err e, [])
      | Ok (hs, init_wire, ds, r2) \<Rightarrow>
          (case initiator_attempts C peer hs_obf session_id init_wire HS_MAX_ATTEMPTS ds envs r2 of
             (Err e, sent) \<Rightarrow> (Err e, sent)
           | (Ok (None, r3), sent) \<Rightarrow>
               (Err (HandshakeErr ''initiator'' ''no handshake response after retries (peer unreachable?)''), sent)
           | (Ok (Some resp, r3), sent) \<Rightarrow>
               (case hs_finalize C hs resp auth r3 of
                  Err e \<Rightarrow> (Err e, sent)
                | Ok (HS_Established s, confirm_wire, r4) \<Rightarrow>
                    (case send_handshake C (SinkDirect peer) session_id confirm_wire hs_obf faults r4 of
                       (Err e, cds, r5) \<Rightarrow> (Err e, sent @ cds)
                     | (Ok _, cds, r5) \<Rightarrow> (Ok s, sent @ cds))
                | Ok (h, w, r4) \<Rightarrow> (Err (HandshakeErr ''initiator'' ''handshake failed (auth/MAC)''), sent))))"

section \<open>Responder of the initial handshake\<close>

text \<open>
  \<open>RP_Listen\<close> is phase 1, \<open>RP_Confirm\<close> phase 2 with the half-open handshake and its source;
  the last two are the ways the function returns.
\<close>

datatype responder_phase =
    RP_Listen reassembler
  | RP_Confirm handshake sock_addr reassembler
  | RP_Done session sock_addr
  | RP_Failed chameleon_error

datatype responder_event =
    RE_Recv instant int sock_addr bytes "string option list"
  | RE_Prune instant
  | RE_ConfirmTimeout
  | RE_SocketErr string

text \<open>Phase 1 with a complete message: \<open>t\<close> is the wall clock, \<open>faults\<close> of the sends it causes.\<close>

definition responder_init ::
  "crypto_lib \<Rightarrow> authenticator \<Rightarrow> aead_algo \<Rightarrow> bytes option \<Rightarrow> u32 \<Rightarrow> bytes \<Rightarrow> reassembler \<Rightarrow> int \<Rightarrow> sock_addr \<Rightarrow>
    bytes \<Rightarrow> string option list \<Rightarrow> rng \<Rightarrow> responder_phase \<times> bytes list \<times> rng" where
  "responder_init C auth pref hs_obf sid secret R t src init_wire faults r =
     (case hs_decode init_wire of
        Err _ \<Rightarrow> (RP_Listen [], [], r)
      | Ok m \<Rightarrow>
          if hm_type m \<noteq> HT_Init then (RP_Listen [], [], r)
          else if \<not> cookie_valid C secret src t (hm_cookie m)
          then case rbind (new_cookie_challenge (cookie_issue C secret src t) r) (\<lambda>(ch, r1).
                 rbind (hs_encode ch r1) (\<lambda>(wire, r2).
                 Ok (send_handshake C (SinkDirect src) sid wire hs_obf faults r2))) of
              Ok (_, ds, r3) \<Rightarrow> (RP_Listen [], ds, r3)
            | Err _ \<Rightarrow> (RP_Listen [], [], r)
          else case hs_respond C auth pref init_wire r of
              Err _ \<Rightarrow> (RP_Listen [], [], r)
            | Ok (hs, resp_wire, r1) \<Rightarrow>
                (case send_handshake C (SinkDirect src) sid resp_wire hs_obf faults r1 of
                   (Err e, ds, r2) \<Rightarrow> (RP_Failed e, ds, r2)
                 | (Ok _, ds, r2) \<Rightarrow> (RP_Confirm hs src [], ds, r2)))"

fun responder_step ::
  "crypto_lib \<Rightarrow> authenticator \<Rightarrow> aead_algo \<Rightarrow> bytes option \<Rightarrow> u32 \<Rightarrow> bytes \<Rightarrow>
    responder_phase \<times> bytes list \<times> rng \<Rightarrow> responder_event \<Rightarrow> responder_phase \<times> bytes list \<times> rng" where
  "responder_step C auth pref hs_obf sid secret (RP_Listen R, sent, r) (RE_Prune now) =
     (RP_Listen (prune_old R now (secs 10)), sent, r)"
| "responder_step C auth pref hs_obf sid secret (RP_Listen R, sent, r) (RE_SocketErr e) = (RP_Failed (Io e), sent, r)"
| "responder_step C auth pref hs_obf sid secret (RP_Listen R, sent, r) RE_ConfirmTimeout = (RP_Listen R, sent, r)"
| "responder_step C auth pref hs_obf sid secret (RP_Listen R, sent, r) (RE_Recv now t src d faults) =
     (case push_handshake C R now d hs_obf of
        (Ok (Some init_wire), R') \<Rightarrow>
          let (ph, ds, r') = responder_init C auth pref hs_obf sid secret R' t src init_wire faults r
          in (ph, sent @ ds, r')
      | (Ok None, R') \<Rightarrow> (RP_Listen R', sent, r)
      | (Err _, R') \<Rightarrow> (RP_Listen R', sent, r))"
| "responder_step C auth pref hs_obf sid secret (RP_Confirm hs peer R, sent, r) (RE_Prune now) =
     (RP_Confirm hs peer R, sent, r)"
| "responder_step C auth pref hs_obf sid secret (RP_Confirm hs peer R, sent, r) (RE_SocketErr e) = (RP_Failed (Io e), sent, r)"
| "responder_step C auth pref hs_obf sid secret (RP_Confirm hs peer R, sent, r) RE_ConfirmTimeout = (RP_Listen [], sent, r)"
| "responder_step C auth pref hs_obf sid secret (RP_Confirm hs peer R, sent, r) (RE_Recv now t src d faults) =
     (if src \<noteq> peer then (RP_Confirm hs peer R, sent, r)
      else case push_handshake C R now d hs_obf of
          (Err e, R') \<Rightarrow> (RP_Failed e, sent, r)
        | (Ok None, R') \<Rightarrow> (RP_Confirm hs peer R', sent, r)
        | (Ok (Some w), R') \<Rightarrow>
            (case hs_confirm C hs w auth of
               Ok (HS_Established s) \<Rightarrow> (RP_Done s peer, sent, r)
             | _ \<Rightarrow> (RP_Listen [], sent, r)))"
| "responder_step C auth pref hs_obf sid secret (RP_Done s peer, sent, r) ev = (RP_Done s peer, sent, r)"
| "responder_step C auth pref hs_obf sid secret (RP_Failed e, sent, r) ev = (RP_Failed e, sent, r)"

definition run_handshake_responder ::
  "crypto_lib \<Rightarrow> authenticator \<Rightarrow> aead_algo \<Rightarrow> bytes option \<Rightarrow> u32 \<Rightarrow> responder_event list \<Rightarrow> rng \<Rightarrow>
    responder_phase \<times> bytes list \<times> rng" where
  "run_handshake_responder C auth pref hs_obf sid evs r =
     (let (secret, r1) = fill_bytes r 32
      in foldl (responder_step C auth pref hs_obf sid secret) (RP_Listen [], [], r1) evs)"

section \<open>Lemmas\<close>

lemma or_fold_zero:
  "foldl (\<lambda>diff i. diff OR f i) (z :: byte) is = 0 \<longleftrightarrow> z = 0 \<and> (\<forall>i\<in>set is. f i = 0)"
proof (induction "is" arbitrary: z)
  case Nil
  show ?case by simp
next
  case (Cons i "is")
  have "z OR f i = 0 \<longleftrightarrow> z = 0 \<and> f i = 0"
    by (metis bit.disj_zero_right or.commute or_eq_0_iff)
  with Cons show ?case by auto
qed

lemma xor_zero_iff: "(a XOR b = (0 :: byte)) \<longleftrightarrow> a = b"
  by (metis bit.xor_self xor.left_neutral xor.assoc xor.commute)

lemma ct_eq_iff: "length a = 16 \<Longrightarrow> length b = 16 \<Longrightarrow> ct_eq a b \<longleftrightarrow> a = b"
  by (auto simp: ct_eq_def or_fold_zero xor_zero_iff list_eq_iff_nth_eq)

text \<open>Datagrams pushed one after the other.\<close>

fun push_handshake_all ::
  "crypto_lib \<Rightarrow> bytes option \<Rightarrow> reassembler \<Rightarrow> (instant \<times> bytes) list \<Rightarrow> bytes option result list \<times> reassembler" where
  "push_handshake_all C hs_obf R [] = ([], R)"
| "push_handshake_all C hs_obf R ((now, d) # ds) =
     (let (x, R') = push_handshake C R now d hs_obf; (xs, R'') = push_handshake_all C hs_obf R' ds
      in (x # xs, R''))"

definition open_part :: "crypto_lib \<Rightarrow> bytes \<Rightarrow> bytes option result \<Rightarrow> bytes option result" where
  "open_part C k x =
     (case x of
        Ok (Some blob) \<Rightarrow> Ok (case hs_open C k blob of Ok m \<Rightarrow> Some m | Err _ \<Rightarrow> None)
      | _ \<Rightarrow> Ok None)"

lemma push_handshake_obf:
  assumes "unmask_fragment C k d = Some (mid, idx, tot, chunk)"
  shows "push_handshake C R now d (Some k) =
    (let (x, R') = push_parts R now mid idx tot chunk in (open_part C k x, R'))"
  using assms by (simp add: push_handshake_def open_part_def split: prod.splits sum.splits option.splits)

lemma push_handshake_all_obf:
  assumes "\<And>j. j \<in> set js \<Longrightarrow> unmask_fragment C k (ds ! j) = Some (mid, of_nat j, tot, cs ! j)"
    "length ts = length js"
  shows "push_handshake_all C (Some k) R (zip ts (map ((!) ds) js)) =
    (let (xs, R') = push_parts_all R (map (\<lambda>(now, j). (now, mid, of_nat j, tot, cs ! j)) (zip ts js))
     in (map (open_part C k) xs, R'))"
  using assms
proof (induction js arbitrary: R ts)
  case Nil
  then show ?case by simp
next
  case (Cons j js)
  then obtain t ts' where ts: "ts = t # ts'" by (cases ts) auto
  have u: "unmask_fragment C k (ds ! j) = Some (mid, of_nat j, tot, cs ! j)"
    using Cons.prems(1) by simp
  obtain x R' where x: "push_parts R t mid (of_nat j) tot (cs ! j) = (x, R')" by fastforce
  have IH: "push_handshake_all C (Some k) R' (zip ts' (map ((!) ds) js)) =
    (let (xs, R'') = push_parts_all R' (map (\<lambda>(now, j). (now, mid, of_nat j, tot, cs ! j)) (zip ts' js))
     in (map (open_part C k) xs, R''))"
    by (rule Cons.IH) (use Cons.prems ts in auto)
  show ?case
    by (simp add: ts push_handshake_obf [OF u] x IH split: prod.splits)
qed

lemma push_handshake_clear:
  assumes "fr_encode (new_handshake frag) = Ok d"
  shows "push_handshake C R now d None = push R now frag"
  using fr_decode_encode [OF assms] by (simp add: push_handshake_def new_handshake_def)

lemma push_handshake_all_clear:
  assumes "\<And>j. j \<in> set js \<Longrightarrow> fr_encode (new_handshake (fs ! j)) = Ok (ds ! j)" "length ts = length js"
  shows "push_handshake_all C None R (zip ts (map ((!) ds) js)) =
    push_all R (map (\<lambda>(now, j). (now, fs ! j)) (zip ts js))"
  using assms
proof (induction js arbitrary: R ts)
  case Nil
  then show ?case by simp
next
  case (Cons j js)
  then obtain t ts' where ts: "ts = t # ts'" by (cases ts) auto
  have "push_handshake C R t (ds ! j) None = push R t (fs ! j)" for R
    by (rule push_handshake_clear) (use Cons.prems in simp)
  moreover have "push_handshake_all C None R' (zip ts' (map ((!) ds) js)) =
      push_all R' (map (\<lambda>(now, j). (now, fs ! j)) (zip ts' js))" for R'
    by (rule Cons.IH) (use Cons.prems ts in auto)
  ultimately show ?case by (simp add: ts split: prod.splits)
qed

lemma obf_datagrams_any_order:
  assumes C: "crypto_ok C" and n: "length msg \<le> 8192"
    and ds: "seal_and_fragment C key msg r = Ok (ds, r')"
    and js: "distinct js" "set js = {0..<length ds}" "length ts = length js"
  shows "push_handshake_all C (Some key) [] (zip ts (map ((!) ds) js)) =
    (replicate (length js - 1) (Ok None) @ [Ok (Some msg)], [])"
proof -
  obtain nonce sealed k cs q where len: "length nonce = 12" "length key = 32"
    and sealed: "c_chacha_seal C key nonce [] msg = Some sealed"
    and cs: "cs = fst (variable_chunks (nonce @ sealed) q)"
    and d: "ds = map (\<lambda>(i, chunk). hs_frag_header C key k (of_nat i) (of_nat (length cs)) @ chunk) (enumerate 0 cs)"
    by (rule seal_and_fragment_OkD [OF ds])
  have blob: "length (nonce @ sealed) \<le> 8220"
    using chacha_seal_length [OF C sealed] len n by simp
  have cnt: "length cs \<le> 64" "cs \<noteq> []"
    using variable_chunks_count [of "nonce @ sealed" q] blob variable_chunks_nonempty [of "nonce @ sealed" q]
    by (simp_all add: cs)
  have size: "\<forall>c\<in>set cs. length c \<le> 1024"
    using variable_chunks_size by (auto simp: cs)
  have lds: "length ds = length cs" by (simp add: d)
  have tot: "(of_nat (length cs) :: u16) \<noteq> 0" "(of_nat (length cs) :: u16) \<le> 64"
    using cnt by (auto simp: word_unat_eq_iff word_le_nat_alt unat_of_nat)
  have "unmask_fragment C key (ds ! j) = Some (k, of_nat j, of_nat (length cs), cs ! j)" if "j \<in> set js" for j
  proof -
    have j: "j < length cs" using that js(2) lds by auto
    then have "(of_nat j :: u16) < of_nat (length cs)"
      using cnt(1) by (simp add: word_less_nat_alt unat_of_nat)
    with unmask_hs_fragment [OF C tot] j show ?thesis
      by (simp add: d nth_enumerate_eq)
  qed
  then have "push_handshake_all C (Some key) [] (zip ts (map ((!) ds) js)) =
    (let (xs, R') = push_parts_all [] (map (\<lambda>(now, j). (now, k, of_nat j, of_nat (length cs), cs ! j)) (zip ts js))
     in (map (open_part C key) xs, R'))"
    using js(3) by (rule push_handshake_all_obf)
  moreover have "push_parts_all [] (map (\<lambda>(now, j). (now, k, of_nat j, of_nat (length cs), cs ! j)) (zip ts js)) =
      (replicate (length js - 1) (Ok None) @ [Ok (Some (concat cs))], [])"
    by (rule push_parts_rest [of k "[]" cs "[]" js "[]" "hd ts"]) (use cnt size js lds in auto)
  moreover have "concat cs = nonce @ sealed" by (simp add: cs concat_variable_chunks)
  ultimately show ?thesis
    using hs_open_sealed [OF C len(2,1) sealed] by (simp add: open_part_def)
qed

lemma clear_datagrams_any_order:
  assumes wire: "wire \<noteq> []" "length wire \<le> 8192"
    and ds: "collect_results (map (\<lambda>frag. fr_encode (new_handshake frag)) (fragment sid wire)) = Ok ds"
    and js: "distinct js" "set js = {0..<length ds}" "length ts = length js"
  shows "push_handshake_all C None [] (zip ts (map ((!) ds) js)) =
    (replicate (length js - 1) (Ok None) @ [Ok (Some wire)], [])"
proof -
  let ?cs = "chunks_of 1024 wire"
  have lds: "length ds = length ?cs"
    and each: "\<forall>i<length ?cs. fr_encode (new_handshake (fragment sid wire ! i)) = Ok (ds ! i)"
    using collect_results_OkD [OF ds] by simp_all
  have len: "length ?cs \<le> 64" "?cs \<noteq> []"
    using wire length_chunks_of [of 1024 wire] by (auto simp: chunks_of.simps [of _ wire])
  have size: "\<forall>c\<in>set ?cs. length c \<le> 1024" using chunks_of_bound by blast
  have "push_handshake_all C None [] (zip ts (map ((!) ds) js)) =
      push_all [] (map (\<lambda>(now, j). (now, fragment sid wire ! j)) (zip ts js))"
    by (rule push_handshake_all_clear) (use each js lds in auto)
  also have "\<dots> = push_parts_all [] (map (\<lambda>(now, j). (now, sid, of_nat j, of_nat (length ?cs), ?cs ! j)) (zip ts js))"
    by (rule push_all_fragments) (use js lds len in auto)
  also have "\<dots> = (replicate (length js - 1) (Ok None) @ [Ok (Some (concat ?cs))], [])"
    by (rule push_parts_rest [of sid "[]" ?cs "[]" js "[]" "hd ts"]) (use len size js lds in auto)
  finally show ?thesis by (simp add: concat_chunks_of)
qed

lemma datagrams_any_order:
  assumes "crypto_ok C" "wire \<noteq> []" "length wire \<le> 8192"
    "build_handshake_datagrams C sid wire hs_obf r = Ok (ds, r')"
    "distinct js" "set js = {0..<length ds}" "length ts = length js"
  shows "push_handshake_all C hs_obf [] (zip ts (map ((!) ds) js)) =
    (replicate (length js - 1) (Ok None) @ [Ok (Some wire)], [])"
proof (cases hs_obf)
  case None
  with assms(4) have "collect_results (map (\<lambda>frag. fr_encode (new_handshake frag)) (fragment sid wire)) = Ok ds"
    by (auto simp: build_handshake_datagrams_def rbind_eq_Ok)
  from clear_datagrams_any_order [OF assms(2,3) this assms(5-7)] None show ?thesis by simp
next
  case (Some k)
  with assms(4) have "seal_and_fragment C k wire r = Ok (ds, r')"
    by (simp add: build_handshake_datagrams_def)
  from obf_datagrams_any_order [OF assms(1,3) this assms(5-7)] Some show ?thesis by simp
qed

text \<open>On the obfuscated path nothing the wire carries is an error.\<close>

lemma push_handshake_obf_tolerant: "\<exists>x R'. push_handshake C R now d (Some k) = (Ok x, R')"
  by (auto simp: push_handshake_def split: option.splits prod.splits sum.splits)

text \<open>The sends of a message that meet no fault all leave; otherwise a proper prefix does.\<close>

lemma send_datagrams_ok [simp]: "send_datagrams sink ds [] = (Ok (), ds)"
  by (induction ds) (simp_all add: sink_send_def)

lemma send_datagrams_prefix:
  "send_datagrams sink ds faults = (x, sent) \<Longrightarrow>
    \<exists>rest. ds = sent @ rest \<and> (is_ok x \<longleftrightarrow> rest = [])"
proof (induction ds arbitrary: faults x sent)
  case (Cons d ds)
  show ?case
  proof (cases "sink_send sink (case faults of [] \<Rightarrow> None | f # _ \<Rightarrow> f)")
    case (Inl e)
    with Cons.prems have "x = Err e" "sent = []" by simp_all
    then show ?thesis by simp
  next
    case (Inr u)
    obtain y out where r: "send_datagrams sink ds (case faults of [] \<Rightarrow> [] | _ # fs \<Rightarrow> fs) = (y, out)"
      by fastforce
    with Inr Cons.prems have "x = y" "sent = d # out" by simp_all
    with Cons.IH [OF r] show ?thesis by auto
  qed
qed simp

lemma build_handshake_datagrams_total:
  assumes "crypto_ok C" "hs_obf = None \<or> (\<exists>k. hs_obf = Some k \<and> length k = 32)" "length wire \<le> 8192"
  obtains ds r' where "build_handshake_datagrams C sid wire hs_obf r = Ok (ds, r')"
proof (cases hs_obf)
  case None
  have "length frag \<le> 1267" if "frag \<in> set (fragment sid wire)" for frag
    using fragment_size [OF that] by simp
  then have "map (\<lambda>frag. fr_encode (new_handshake frag)) (fragment sid wire) =
      map (\<lambda>frag. Ok (projr (fr_encode (new_handshake frag)))) (fragment sid wire)"
    by (intro map_cong refl) (fastforce simp: fr_encode_def new_handshake_def Let_def HEADER_LEN_def MAX_PAYLOAD_def not_less)
  then have "collect_results (map (\<lambda>frag. fr_encode (new_handshake frag)) (fragment sid wire)) =
      Ok (map (\<lambda>frag. projr (fr_encode (new_handshake frag))) (fragment sid wire))"
    by (simp only: collect_results_Ok)
  then show thesis
    by (intro that) (simp add: build_handshake_datagrams_def None)
next
  case (Some k)
  with assms have "length k = 32" "length wire \<le> aead_max_input"
    by (auto simp: aead_max_input_def)
  then obtain ds r' where "seal_and_fragment C k wire r = Ok (ds, r')"
    by (rule seal_and_fragment_total [OF assms(1)])
  then show thesis
    by (intro that) (simp add: build_handshake_datagrams_def Some)
qed

section \<open>Invariant of the responder\<close>

text \<open>How the phases are reached: a half-open handshake was started for a source whose cookie was
  valid, and a returned session was confirmed by a signature under the pinned keys.\<close>

lemma responder_init_cases:
  assumes "responder_init C auth pref hs_obf sid secret R t src w faults r = (ph, ds, r')"
  obtains "ph = RP_Listen []"
    | e where "ph = RP_Failed e"
    | hs m q wire q' where "ph = RP_Confirm hs src []" "hs_decode w = Ok m" "hm_type m = HT_Init"
      "cookie_valid C secret src t (hm_cookie m)" "hs_respond C auth pref w q = Ok (hs, wire, q')"
  using assms
  by (auto simp: responder_init_def Let_def split: sum.splits prod.splits if_splits option.splits)

definition half_open ::
  "crypto_lib \<Rightarrow> authenticator \<Rightarrow> aead_algo \<Rightarrow> bytes \<Rightarrow> handshake \<Rightarrow> sock_addr \<Rightarrow> bool" where
  "half_open C auth pref secret hs peer \<longleftrightarrow>
     (\<exists>w m t q wire q'. hs_decode w = Ok m \<and> hm_type m = HT_Init \<and>
        cookie_valid C secret peer t (hm_cookie m) \<and> hs_respond C auth pref w q = Ok (hs, wire, q'))"

definition responder_inv ::
  "crypto_lib \<Rightarrow> authenticator \<Rightarrow> aead_algo \<Rightarrow> bytes \<Rightarrow> responder_phase \<Rightarrow> bool" where
  "responder_inv C auth pref secret ph \<longleftrightarrow>
     (case ph of
        RP_Confirm hs peer R \<Rightarrow> half_open C auth pref secret hs peer
      | RP_Done s peer \<Rightarrow>
          \<exists>hs w. half_open C auth pref secret hs peer \<and> hs_confirm C hs w auth = Ok (HS_Established s)
      | _ \<Rightarrow> True)"

lemma responder_init_inv:
  assumes "responder_init C auth pref hs_obf sid secret R t src w faults r = (ph, ds, r')"
  shows "responder_inv C auth pref secret ph"
  using assms
proof (cases rule: responder_init_cases)
  case (3 hs m q wire q')
  then have "half_open C auth pref secret hs src"
    unfolding half_open_def by blast
  with 3 show ?thesis by (simp add: responder_inv_def)
qed (simp_all add: responder_inv_def)

lemma responder_step_inv:
  assumes "responder_inv C auth pref secret ph"
    "responder_step C auth pref hs_obf sid secret (ph, sent, r) ev = (ph', sent', r')"
  shows "responder_inv C auth pref secret ph'"
proof (cases ph)
  case (RP_Listen R)
  show ?thesis
  proof (cases ev)
    case (RE_Recv now t src d faults)
    obtain x R' where p: "push_handshake C R now d hs_obf = (x, R')" by fastforce
    show ?thesis
    proof (cases "\<exists>w. x = Ok (Some w)")
      case True
      then obtain w where "x = Ok (Some w)" by blast
      with assms(2) p show ?thesis
        by (auto simp: RP_Listen RE_Recv Let_def split: prod.splits dest: responder_init_inv)
    next
      case False
      with assms(2) p show ?thesis
        by (auto simp: RP_Listen RE_Recv responder_inv_def split: sum.splits option.splits)
    qed
  qed (use assms(2) in \<open>auto simp: RP_Listen responder_inv_def\<close>)
next
  case (RP_Confirm hs peer R)
  show ?thesis
  proof (cases ev)
    case (RE_Recv now t src d faults)
    show ?thesis
    proof (cases "src = peer")
      case False
      with assms show ?thesis by (auto simp: RP_Confirm RE_Recv)
    next
      case True
      obtain x R' where p: "push_handshake C R now d hs_obf = (x, R')" by fastforce
      with assms True show ?thesis
        by (auto simp: RP_Confirm RE_Recv responder_inv_def
            split: sum.splits option.splits handshake.splits) blast
    qed
  qed (use assms in \<open>auto simp: RP_Confirm responder_inv_def\<close>)
qed (use assms in auto)

lemma responder_run_inv:
  "responder_inv C auth pref secret (fst st) \<Longrightarrow>
    responder_inv C auth pref secret (fst (foldl (responder_step C auth pref hs_obf sid secret) st evs))"
proof (induction evs arbitrary: st)
  case Nil
  then show ?case by simp
next
  case (Cons ev evs)
  obtain ph sent r where st: "st = (ph, sent, r)" by (cases st)
  obtain ph' sent' r' where s: "responder_step C auth pref hs_obf sid secret (ph, sent, r) ev = (ph', sent', r')"
    by (metis surj_pair)
  have "responder_inv C auth pref secret ph'"
    using responder_step_inv [OF _ s] Cons.prems st by simp
  with Cons.IH [of "(ph', sent', r')"] show ?case by (simp add: st s)
qed

lemma cookie_valid_iff:
  assumes "crypto_ok C" "length cookie = 16"
  shows "cookie_valid C secret src t cookie \<longleftrightarrow>
    cookie = compute_cookie C secret src (cookie_bucket t) \<or>
    cookie = compute_cookie C secret src (cookie_bucket t - 1)"
  using assms by (simp add: cookie_valid_def Let_def ct_eq_iff)

lemma cookie_bucket_later:
  assumes "0 \<le> t" "t \<le> t'" "t' \<le> t + 120"
  shows "cookie_bucket t' = cookie_bucket t \<or> cookie_bucket t' = cookie_bucket t + 1"
proof -
  have "nat t div 120 \<le> nat t' div 120"
    using assms by (intro div_le_mono) simp
  moreover have "nat t' div 120 \<le> (nat t + 120) div 120"
    using assms by (intro div_le_mono) simp
  then have "nat t' div 120 \<le> Suc (nat t div 120)" by simp
  ultimately have "nat t' div 120 = nat t div 120 \<or> nat t' div 120 = Suc (nat t div 120)"
    by linarith
  then show ?thesis
    using assms by (auto simp: cookie_bucket_def COOKIE_WINDOW_SECS_def)
qed

section \<open>Properties\<close>

text \<open>The datagrams of a handshake message, obfuscated or clear, deliver exactly that message in
  whatever order they arrive: every datagram but the last yields nothing, the last yields the
  message, and the buffer is empty again.\<close>

theorem handshake_datagrams_delivered:
  assumes "crypto_ok C" "wire \<noteq> []" "length wire \<le> 8192"
    "build_handshake_datagrams C sid wire hs_obf r = Ok (ds, r')"
    "distinct js" "set js = {0..<length ds}" "length ts = length js"
  shows "push_handshake_all C hs_obf [] (zip ts (map ((!) ds) js)) =
    (replicate (length js - 1) (Ok None) @ [Ok (Some wire)], [])"
  by (rule datagrams_any_order [OF assms])

theorem handshake_datagrams_delivered_witness:
  "\<exists>ds r'. build_handshake_datagrams toy_crypto 1 [1, 2, 3] (Some (replicate 32 9)) (\<lambda>_. 0) = Ok (ds, r') \<and>
     push_handshake_all toy_crypto (Some (replicate 32 9)) []
       (zip (replicate (length ds) 0) (map ((!) ds) (rev [0..<length ds]))) =
     (replicate (length ds - 1) (Ok None) @ [Ok (Some [1, 2, 3])], [])"
proof -
  obtain ds r' where "seal_and_fragment toy_crypto (replicate 32 9) [1, 2, 3] (\<lambda>_. 0) = Ok (ds, r')"
    by (rule seal_and_fragment_total [OF toy_crypto_ok, of "replicate 32 9" "[1, 2, 3]"])
      (simp_all add: aead_max_input_def)
  then have b: "build_handshake_datagrams toy_crypto 1 [1, 2, 3] (Some (replicate 32 9)) (\<lambda>_. 0) = Ok (ds, r')"
    by (simp add: build_handshake_datagrams_def)
  have "push_handshake_all toy_crypto (Some (replicate 32 9)) []
       (zip (replicate (length ds) 0) (map ((!) ds) (rev [0..<length ds]))) =
     (replicate (length (rev [0..<length ds]) - 1) (Ok None) @ [Ok (Some [1, 2, 3])], [])"
    by (rule handshake_datagrams_delivered [OF toy_crypto_ok _ _ b]) auto
  with b show ?thesis by auto
qed

text \<open>The loop-free comparison of \<open>CookieState::valid\<close> is equality, a cookie is accepted for its
  own source for at least 120 seconds after it was issued, and only the cookies of the current
  and the previous window are accepted.\<close>

theorem cookie_window:
  assumes "crypto_ok C" "length cookie = 16"
  shows "(cookie_valid C secret src t cookie \<longleftrightarrow>
      cookie = compute_cookie C secret src (cookie_bucket t) \<or>
      cookie = compute_cookie C secret src (cookie_bucket t - 1)) \<and>
    (0 \<le> t \<longrightarrow> t \<le> t' \<longrightarrow> t' \<le> t + 120 \<longrightarrow> cookie_valid C secret src t' (cookie_issue C secret src t))"
proof (intro conjI impI)
  show "cookie_valid C secret src t cookie \<longleftrightarrow>
      cookie = compute_cookie C secret src (cookie_bucket t) \<or>
      cookie = compute_cookie C secret src (cookie_bucket t - 1)"
    by (rule cookie_valid_iff [OF assms])
  assume "0 \<le> t" "t \<le> t'" "t' \<le> t + 120"
  from cookie_bucket_later [OF this] show "cookie_valid C secret src t' (cookie_issue C secret src t)"
    using assms(1) by (subst cookie_valid_iff) (auto simp: cookie_issue_def)
qed

theorem cookie_window_witness:
  "cookie_valid toy_crypto [1] \<lparr> sa_ip = V4 [10, 0, 0, 1], sa_port = 5 \<rparr> 1100
    (cookie_issue toy_crypto [1] \<lparr> sa_ip = V4 [10, 0, 0, 1], sa_port = 5 \<rparr> 1000)"
  using cookie_window [OF toy_crypto_ok, of "replicate 16 0" "[1]"
      "\<lparr> sa_ip = V4 [10, 0, 0, 1], sa_port = 5 \<rparr>" 1000 1100] by simp

text \<open>With obfuscation off, one malformed datagram that carries the peer's address ends the
  handshake on either side: while it waits for the Confirm the responder returns the parse
  error and stops listening, and the initiator gives up instead of retrying, although the
  listening phase drops the same datagram.\<close>

theorem malformed_datagram_aborts_handshake:
  assumes "length d < 13"
  shows "fst (responder_step C auth pref None sid secret (RP_Confirm hs peer R, sent, r) (RE_Recv now t peer d faults)) =
      RP_Failed (PacketTooShort (length d) 13) \<and>
    initiator_recv C peer None R (Recv now peer d # evs) = AO_Err (PacketTooShort (length d) 13) \<and>
    fst (responder_step C auth pref None sid secret (RP_Listen R, sent, r) (RE_Recv now t peer d faults)) = RP_Listen R"
  using assms by (simp add: push_handshake_def fr_decode_def HEADER_LEN_def)

theorem malformed_datagram_aborts_handshake_witness:
  "initiator_recv toy_crypto \<lparr> sa_ip = V4 [10, 0, 0, 1], sa_port = 5 \<rparr> None []
     [Recv 0 \<lparr> sa_ip = V4 [10, 0, 0, 1], sa_port = 5 \<rparr> [7]] = AO_Err (PacketTooShort 1 13)"
  using malformed_datagram_aborts_handshake [of "[7]"] by simp

end
