(* ===== verification/Rekey.thy ===== *)
theory Rekey
  imports Net Session_Manager
begin

text \<open>
  The mid-session rekey drivers of \<open>src/rekey.rs\<close>. The initiator sends through a sink and receives
  only what the inbound loop forwards on the handshake channel: an attempt is given by the faults
  of its sends, the frames that reach it before the 800 ms timeout, and whether the channel is
  closed after them. The manager argument is the manager when the driver installs; the traffic
  that runs meanwhile changes nothing the driver reads. What left is part of the result.
\<close>

section \<open>Initiator\<close>

definition PER_ATTEMPT_TIMEOUT :: duration where
  "PER_ATTEMPT_TIMEOUT = 800000000"

definition MAX_REKEY_RETRIES :: nat where
  "MAX_REKEY_RETRIES = 4"

definition HANDSHAKE_CHANNEL :: nat where
  "HANDSHAKE_CHANNEL = 16"

record rekey_env =
  re_faults :: "string option list"
  re_frames :: "(instant \<times> bytes) list"
  re_closed :: bool

datatype rekey_outcome = RO_Msg bytes | RO_Closed | RO_Timeout

fun rekey_recv ::
  "crypto_lib \<Rightarrow> bytes option \<Rightarrow> reassembler \<Rightarrow> (instant \<times> bytes) list \<Rightarrow> bool \<Rightarrow> rekey_outcome" where
  "rekey_recv C hs_obf R [] closed = (if closed then RO_Closed else RO_Timeout)"
| "rekey_recv C hs_obf R ((now, raw) # frames) closed =
     (case push_handshake C R now raw hs_obf of
        (Ok (Some resp_wire), R') \<Rightarrow> RO_Msg resp_wire
      | (Ok None, R') \<Rightarrow> rekey_recv C hs_obf R' frames closed
      | (Err e, R') \<Rightarrow> rekey_recv C hs_obf R' frames closed)"

text \<open>The attempts that are left; \<open>last_err\<close> is what the driver returns when none is.\<close>

fun rekey_attempts ::
  "crypto_lib \<Rightarrow> handshake_sink \<Rightarrow> bytes option \<Rightarrow> bytes list \<Rightarrow> chameleon_error \<Rightarrow> nat \<Rightarrow> rekey_env list \<Rightarrow>
    bytes result \<times> bytes list" where
  "rekey_attempts C sink hs_obf datagrams last_err 0 envs = (Err last_err, [])"
| "rekey_attempts C sink hs_obf datagrams last_err (Suc n) envs =
     (let attempt = MAX_REKEY_RETRIES - n;
          env = (case envs of [] \<Rightarrow> \<lparr> re_faults = [], re_frames = [], re_closed = False \<rparr> | e # _ \<Rightarrow> e);
          rest = (case envs of [] \<Rightarrow> [] | _ # es \<Rightarrow> es)
      in case send_datagrams sink datagrams (re_faults env) of
        (Err e, out) \<Rightarrow> (Err e, out)
      | (Ok _, out) \<Rightarrow>
          (case rekey_recv C hs_obf [] (re_frames env) (re_closed env) of
             RO_Msg resp_wire \<Rightarrow> (Ok resp_wire, out)
           | RO_Closed \<Rightarrow> (Err ChannelClosed, out)
           | RO_Timeout \<Rightarrow>
               let (x, sent) = rekey_attempts C sink hs_obf datagrams
                     (HandshakeErr ''rekey'' (''timed out after '' @ show_nat attempt @ '' attempts'')) n rest
               in (x, out @ sent)))"

definition rekey_as_initiator ::
  "crypto_lib \<Rightarrow> handshake_sink \<Rightarrow> authenticator \<Rightarrow> aead_algo \<Rightarrow> manager \<Rightarrow> u32 \<Rightarrow> bytes option \<Rightarrow>
    rekey_env list \<Rightarrow> string option list \<Rightarrow> rng \<Rightarrow> unit result \<times> manager \<times> bytes list" where
  "rekey_as_initiator C sink auth pref sessions new_session_id hs_obf envs faults r =
     (case rbind (hs_start C auth pref r) (\<lambda>(hs, init_wire, r1).
             rbind (build_handshake_datagrams C new_session_id init_wire hs_obf r1) (\<lambda>(ds, r2).
             Ok (hs, ds, r2))) of
        Err e \<Rightarrow> (Err e, sessions, [])
      | Ok (hs, ds, r2) \<Rightarrow>
          (case rekey_attempts C sink hs_obf ds (HandshakeErr ''rekey'' ''no attempts made'')
                  MAX_REKEY_RETRIES envs of
             (Err e, sent) \<Rightarrow> (Err e, sessions, sent)
           | (Ok resp_wire, sent) \<Rightarrow>
               (case hs_finalize C hs resp_wire auth r2 of
                  Err e \<Rightarrow> (Err e, sessions, sent)
                | Ok (HS_Established session, confirm_wire, r3) \<Rightarrow>
                    (case send_handshake C sink new_session_id confirm_wire hs_obf faults r3 of
                       (Err e, cds, r4) \<Rightarrow> (Err e, sessions, sent @ cds)
                     | (Ok _, cds, r4) \<Rightarrow> (Ok (), sm_install sessions session, sent @ cds))
                | Ok (h, w, r3) \<Rightarrow>
                    (Err (HandshakeErr ''rekey'' ''rekey handshake failed (auth/MAC)''), sessions, sent))))"

text \<open>The previous session is retired three seconds after it was scheduled.\<close>

definition schedule_retire :: "instant \<Rightarrow> instant" where
  "schedule_retire now = now + int (secs 3)"

section \<open>Responder\<close>

definition rekey_as_responder ::
  "crypto_lib \<Rightarrow> handshake_sink \<Rightarrow> authenticator \<Rightarrow> aead_algo \<Rightarrow> u32 \<Rightarrow> bytes \<Rightarrow> bytes option \<Rightarrow>
    string option list \<Rightarrow> rng \<Rightarrow> handshake result \<times> bytes list \<times> rng" where
  "rekey_as_responder C sink auth pref new_session_id init_wire hs_obf faults r =
     (case hs_respond C auth pref init_wire r of
        Err e \<Rightarrow> (Err e, [], r)
      | Ok (HS_SentResponse session th, resp_wire, r1) \<Rightarrow>
          (case send_handshake C sink new_session_id resp_wire hs_obf faults r1 of
             (Err e, ds, r2) \<Rightarrow> (Err e, ds, r2)
           | (Ok _, ds, r2) \<Rightarrow> (Ok (HS_SentResponse session th), ds, r2))
      | Ok (h, w, r1) \<Rightarrow>
          (Err (HandshakeErr ''rekey-responder'' ''respond did not yield SentResponse''), [], r1))"

definition rekey_responder_confirm ::
  "crypto_lib \<Rightarrow> handshake \<Rightarrow> authenticator \<Rightarrow> manager \<Rightarrow> bytes \<Rightarrow> unit result \<times> manager" where
  "rekey_responder_confirm C hs auth sessions confirm_wire =
     (case hs_confirm C hs confirm_wire auth of
        Err e \<Rightarrow> (Err e, sessions)
      | Ok (HS_Established session) \<Rightarrow> (Ok (), sm_install sessions session)
      | Ok h \<Rightarrow> (Err (HandshakeErr ''rekey-responder'' ''confirm did not establish session''), sessions))"

section \<open>Lemmas\<close>

text \<open>A frame that reaches the driver but carries no handshake fragment.\<close>

definition rekey_noise :: "crypto_lib \<Rightarrow> bytes option \<Rightarrow> bytes \<Rightarrow> bool" where
  "rekey_noise C hs_obf raw \<longleftrightarrow>
     (case hs_obf of
        Some k \<Rightarrow> unmask_fragment C k raw = None
      | None \<Rightarrow> (case fr_decode raw of Err _ \<Rightarrow> True | Ok f \<Rightarrow> fr_type f \<noteq> FT_Handshake))"

lemma push_handshake_noise:
  "rekey_noise C hs_obf raw \<Longrightarrow>
    push_handshake C R now raw hs_obf = (Ok None, R) \<or> (\<exists>e. push_handshake C R now raw hs_obf = (Err e, R))"
  by (auto simp: rekey_noise_def push_handshake_def split: option.splits sum.splits)

lemma rekey_recv_noise:
  "rekey_noise C hs_obf raw \<Longrightarrow> rekey_recv C hs_obf R ((now, raw) # frames) closed = rekey_recv C hs_obf R frames closed"
  using push_handshake_noise [of C hs_obf raw R now] by auto

lemma rekey_recv_filter:
  "rekey_recv C hs_obf R (filter (\<lambda>(now, raw). \<not> rekey_noise C hs_obf raw) frames) closed =
    rekey_recv C hs_obf R frames closed"
proof (induction frames arbitrary: R)
  case (Cons f frames)
  obtain now raw where f: "f = (now, raw)" by (cases f)
  show ?case
  proof (cases "rekey_noise C hs_obf raw")
    case True
    with Cons show ?thesis by (simp only: f rekey_recv_noise filter.simps) simp
  next
    case False
    with Cons show ?thesis by (simp add: f split: prod.splits sum.splits option.splits)
  qed
qed simp

lemma rekey_recv_complete:
  assumes "push_handshake_all C hs_obf R frames = (replicate n (Ok None) @ [Ok (Some w)], R')"
  shows "rekey_recv C hs_obf R frames closed = RO_Msg w"
  using assms
proof (induction n arbitrary: R frames)
  case 0
  then obtain now raw fs where "frames = (now, raw) # fs" by (cases frames) auto
  with 0 show ?case by (auto split: prod.splits)
next
  case (Suc n)
  then obtain now raw fs where "frames = (now, raw) # fs" by (cases frames) auto
  with Suc show ?case by (auto split: prod.splits)
qed


text \<open>An attempt on which nothing comes back.\<close>

definition lost_attempt :: "crypto_lib \<Rightarrow> bytes option \<Rightarrow> rekey_env \<Rightarrow> bool" where
  "lost_attempt C hs_obf env \<longleftrightarrow> re_faults env = [] \<and> \<not> re_closed env \<and>
     (\<forall>f\<in>set (re_frames env). rekey_noise C hs_obf (snd f))"

definition timed_out :: "nat \<Rightarrow> chameleon_error" where
  "timed_out k = HandshakeErr ''rekey'' (''timed out after '' @ show_nat k @ '' attempts'')"

lemma show_four: "show_nat 4 = ''4''"
  by code_simp

lemma rekey_recv_lost: "lost_attempt C hs_obf env \<Longrightarrow> rekey_recv C hs_obf R (re_frames env) (re_closed env) = RO_Timeout"
proof -
  assume l: "lost_attempt C hs_obf env"
  then have "filter (\<lambda>(now, raw). \<not> rekey_noise C hs_obf raw) (re_frames env) = []"
    by (auto simp: lost_attempt_def filter_empty_conv)
  with l rekey_recv_filter [of C hs_obf R "re_frames env" "re_closed env"] show ?thesis
    by (simp add: lost_attempt_def)
qed

lemma rekey_attempts_lost:
  assumes "\<forall>env\<in>set lost. lost_attempt C hs_obf env" "length lost \<le> n" "n \<le> 4"
  shows "rekey_attempts C sink hs_obf ds le n (lost @ envs) =
    (let (x, sent) = rekey_attempts C sink hs_obf ds
           (if lost = [] then le else timed_out (4 - (n - length lost))) (n - length lost) envs
     in (x, concat (replicate (length lost) ds) @ sent))"
  using assms
proof (induction lost arbitrary: n le)
  case (Cons env lost)
  then obtain k where n: "n = Suc k" by (cases n) auto
  have "re_faults env = []" "rekey_recv C hs_obf [] (re_frames env) (re_closed env) = RO_Timeout"
    using Cons.prems(1) rekey_recv_lost by (auto simp: lost_attempt_def)
  moreover have "rekey_attempts C sink hs_obf ds (timed_out (4 - k)) k (lost @ envs) =
    (let (x, sent) = rekey_attempts C sink hs_obf ds
           (if lost = [] then timed_out (4 - k) else timed_out (4 - (k - length lost))) (k - length lost) envs
     in (x, concat (replicate (length lost) ds) @ sent))"
    by (rule Cons.IH) (use Cons.prems n in auto)
  ultimately show ?case
    by (simp add: n MAX_REKEY_RETRIES_def timed_out_def split: prod.splits)
qed simp

lemma decode_length: "hs_decode w = Ok m \<Longrightarrow> length w = 8192"
  by (auto simp: hs_decode_def HANDSHAKE_MSG_LEN_def split: if_splits)

lemma sent_wire_length:
  "hs_respond C ri pref w1 q = Ok (h1, w2, r2) \<Longrightarrow> length w1 = 8192"
  "hs_finalize C h w2 ii r1 = Ok (h', w3, r3) \<Longrightarrow> length w2 = 8192"
  "hs_confirm C h1 w3 ri = Ok h'' \<Longrightarrow> length w3 = 8192"
  by (auto simp: hs_respond_def rbind_eq_Ok decode_length)
    (cases h; cases h1; auto simp: rbind_eq_Ok decode_length)+

text \<open>The ways the drivers end, and what they did to the manager.\<close>

lemma rekey_as_initiator_cases:
  assumes "rekey_as_initiator C sink auth pref m sid hs_obf envs faults r = (x, m', sent)"
  obtains e where "x = Err e" "m' = m"
    | hs raw q s w3 q' where "x = Ok ()" "hs_finalize C hs raw auth q = Ok (HS_Established s, w3, q')"
      "m' = sm_install m s"
  using assms
  by (auto simp: rekey_as_initiator_def split: sum.splits prod.splits handshake.splits)

lemma rekey_responder_confirm_cases:
  assumes "rekey_responder_confirm C h auth m w = (x, m')"
  obtains e where "x = Err e" "m' = m"
    | s where "x = Ok ()" "hs_confirm C h w auth = Ok (HS_Established s)" "m' = sm_install m s"
  using assms
  by (auto simp: rekey_responder_confirm_def split: sum.splits handshake.splits)

text \<open>One honest rekey: \<open>lost\<close> attempts without an answer, then the responder's datagrams in any
  order.\<close>

lemma honest_rekey:
  assumes "crypto_ok C" "x_contributory C" "trusts C ri ii" "trusts C ii ri"
    "auth_sig_len C ii \<le> 6923" "hs_obf = None \<or> (\<exists>k. hs_obf = Some k \<and> length k = 32)"
    "\<forall>env\<in>set lost. lost_attempt C hs_obf env" "length lost < 4"
  shows "\<exists>h0 w1 r1 h1 ds q1 pre w3 r3 cds r4 si sr. hs_start C ii pref_i r = Ok (h0, w1, r1) \<and>
    rekey_as_responder C sink_r ri pref_r sid_r w1 hs_obf [] q = (Ok h1, ds, q1) \<and>
    (\<forall>js ts cl. distinct js \<longrightarrow> set js = {0..<length ds} \<longrightarrow> length ts = length js \<longrightarrow>
      rekey_as_initiator C sink ii pref_i m sid hs_obf
        (lost @ [\<lparr> re_faults = [], re_frames = zip ts (map ((!) ds) js), re_closed = cl \<rparr>]) [] r =
        (Ok (), sm_install m si, pre @ cds)) \<and>
    build_handshake_datagrams C sid w3 hs_obf r3 = Ok (cds, r4) \<and>
    rekey_responder_confirm C h1 ri n w3 = (Ok (), sm_install n sr) \<and> paired si sr"
proof -
  obtain h0 w1 r1 h1 w2 q' si sr where start: "hs_start C ii pref_i r = Ok (h0, w1, r1)"
    and resp: "hs_respond C ri pref_r w1 q = Ok (h1, w2, q')" and pair: "paired si sr"
    and fin: "\<And>p. \<exists>w3 r3. hs_finalize C h0 w2 ii p = Ok (HS_Established si, w3, r3) \<and>
      hs_confirm C h1 w3 ri = Ok (HS_Established sr)"
    using honest_run_any [OF assms(1-5), of pref_i r pref_r q] by blast
  obtain ids r2 where ids: "build_handshake_datagrams C sid w1 hs_obf r1 = Ok (ids, r2)"
    by (rule build_handshake_datagrams_total [where wire = w1, OF assms(1,6)])
      (use sent_wire_length(1) [OF resp] in simp)
  obtain w3 r3 where fin': "hs_finalize C h0 w2 ii r2 = Ok (HS_Established si, w3, r3)"
    and conf: "hs_confirm C h1 w3 ri = Ok (HS_Established sr)"
    using fin by blast
  have len: "length w2 = 8192" by (rule sent_wire_length(2) [OF fin'])
  obtain s th where h1: "h1 = HS_SentResponse s th"
    using conf by (cases h1) auto
  obtain ds q1 where ds: "build_handshake_datagrams C sid_r w2 hs_obf q' = Ok (ds, q1)"
    by (rule build_handshake_datagrams_total [where wire = w2, OF assms(1,6)]) (use len in simp)
  obtain cds r4 where cds: "build_handshake_datagrams C sid w3 hs_obf r3 = Ok (cds, r4)"
    by (rule build_handshake_datagrams_total [where wire = w3, OF assms(1,6)])
      (use finalize_wire_length [OF fin'] in simp)
  have "rekey_as_responder C sink_r ri pref_r sid_r w1 hs_obf [] q = (Ok h1, ds, q1)"
    by (simp add: rekey_as_responder_def resp h1 send_handshake_def ds)
  moreover have "rekey_as_initiator C sink ii pref_i m sid hs_obf
         (lost @ [\<lparr> re_faults = [], re_frames = zip ts (map ((!) ds) js), re_closed = cl \<rparr>]) [] r =
         (Ok (), sm_install m si, (concat (replicate (length lost) ids) @ ids) @ cds)"
    if "distinct js" "set js = {0..<length ds}" "length ts = length js" for js ts cl
  proof -
    let ?env = "\<lparr> re_faults = [], re_frames = zip ts (map ((!) ds) js), re_closed = cl \<rparr>"
    have "push_handshake_all C hs_obf [] (zip ts (map ((!) ds) js)) =
        (replicate (length js - 1) (Ok None) @ [Ok (Some w2)], [])"
      by (rule datagrams_any_order [OF assms(1) _ _ ds that]) (use len in auto)
    then have got: "rekey_recv C hs_obf [] (zip ts (map ((!) ds) js)) cl = RO_Msg w2"
      by (rule rekey_recv_complete)
    obtain k where k: "4 - length lost = Suc k" using assms(8) by (cases "4 - length lost") auto
    have "rekey_attempts C sink hs_obf ids le 4 (lost @ [?env]) =
        (Ok w2, concat (replicate (length lost) ids) @ ids)" for le
      using rekey_attempts_lost [OF assms(7), of 4 sink ids le "[?env]"] assms(8)
      by (simp add: k got)
    then show ?thesis
      by (simp add: rekey_as_initiator_def start ids MAX_REKEY_RETRIES_def fin' send_handshake_def cds)
  qed
  moreover have "rekey_responder_confirm C h1 ri n w3 = (Ok (), sm_install n sr)"
    by (simp add: rekey_responder_confirm_def conf)
  ultimately show ?thesis using start pair cds by blast
qed

section \<open>Properties\<close>

text \<open>Noise does not disturb a rekey: datagrams that are not handshake fragments, malformed ones
  included, can be inserted anywhere among the frames of an attempt without changing its outcome.\<close>

theorem rekey_ignores_noise:
  "rekey_recv C hs_obf R (filter (\<lambda>(now, raw). \<not> rekey_noise C hs_obf raw) frames) closed =
    rekey_recv C hs_obf R frames closed"
  by (rule rekey_recv_filter)

text \<open>C28: a rekey that gets no answer ends after four attempts with its own error: the same Init
  datagrams were sent four times, nothing else left, and the session in use is unchanged.\<close>

theorem rekey_gives_up:
  assumes "hs_start C auth pref r = Ok (hs, w, r1)"
    "build_handshake_datagrams C sid w hs_obf r1 = Ok (ds, r2)"
    "length envs = 4" "\<forall>env\<in>set envs. lost_attempt C hs_obf env"
  shows "rekey_as_initiator C sink auth pref m sid hs_obf envs faults r =
    (Err (HandshakeErr ''rekey'' ''timed out after 4 attempts''), m, ds @ ds @ ds @ ds)"
proof -
  have "rekey_attempts C sink hs_obf ds le 4 envs = (Err (timed_out 4), ds @ ds @ ds @ ds)" for le
    using rekey_attempts_lost [OF assms(4), of 4 sink ds le "[]"] assms(3)
    by (cases envs) (simp_all add: numeral_eq_Suc)
  then show ?thesis
    using show_four by (simp add: rekey_as_initiator_def assms(1,2) MAX_REKEY_RETRIES_def timed_out_def)
qed

text \<open>One forged Response ends a rekey. Malformed datagrams are noise, but the first complete message
  that arrives is taken for the answer: if it does not verify, the driver returns the error at once,
  although attempts are left and the genuine Response may follow.\<close>

theorem forged_response_ends_rekey:
  assumes "hs_start C auth pref r = Ok (hs, w, r1)"
    "build_handshake_datagrams C sid w hs_obf r1 = Ok (ds, r2)" "re_faults env = []"
    "rekey_recv C hs_obf [] (re_frames env) (re_closed env) = RO_Msg forged"
    "hs_finalize C hs forged auth r2 = Err e"
  shows "rekey_as_initiator C sink auth pref m sid hs_obf (env # envs) faults r = (Err e, m, ds)"
  using assms by (simp add: rekey_as_initiator_def MAX_REKEY_RETRIES_def numeral_eq_Suc)

text \<open>The session manager only changes by the installation of a session whose handshake verified:
  the initiator installs after \<open>finalize\<close> accepted the responder's proof, the responder after
  \<open>confirm\<close> accepted the initiator's, and every error leaves the manager as it was.\<close>

theorem rekey_installs_only_verified:
  assumes "rekey_as_initiator C sink auth pref m sid hs_obf envs faults r = (x, m', sent)"
    "rekey_responder_confirm C h auth' n w = (y, n')"
  shows "(m' = m \<and> \<not> is_ok x \<or>
      (\<exists>hs raw q s w3 q'. hs_finalize C hs raw auth q = Ok (HS_Established s, w3, q') \<and>
        m' = sm_install m s \<and> x = Ok ())) \<and>
    (n' = n \<and> \<not> is_ok y \<or>
      (\<exists>s. hs_confirm C h w auth' = Ok (HS_Established s) \<and> n' = sm_install n s \<and> y = Ok ()))"
proof -
  have "m' = m \<and> \<not> is_ok x \<or>
      (\<exists>hs raw q s w3 q'. hs_finalize C hs raw auth q = Ok (HS_Established s, w3, q') \<and>
        m' = sm_install m s \<and> x = Ok ())"
    by (rule rekey_as_initiator_cases [OF assms(1)]) (simp, blast)
  moreover have "n' = n \<and> \<not> is_ok y \<or>
      (\<exists>s. hs_confirm C h w auth' = Ok (HS_Established s) \<and> n' = sm_install n s \<and> y = Ok ())"
    by (rule rekey_responder_confirm_cases [OF assms(2)]) (simp, blast)
  ultimately show ?thesis by blast
qed




theorem rekey_gives_up_witness:
  "\<exists>ds. rekey_as_initiator toy_crypto SinkPaced (demo_auth 1 2) Aegis256X2 (sm_new (demo_session True) 0) 3
       (Some (replicate 32 9)) (replicate 4 \<lparr> re_faults = [], re_frames = [(0, [1])], re_closed = False \<rparr>) [] (\<lambda>_. 5) =
     (Err (HandshakeErr ''rekey'' ''timed out after 4 attempts''), sm_new (demo_session True) 0, ds @ ds @ ds @ ds)"
proof -
  obtain h0 w1 r1 where s: "hs_start toy_crypto (demo_auth 1 2) Aegis256X2 (\<lambda>_. 5) = Ok (h0, w1, r1)"
    and len: "length w1 = 8192"
    by (rule demo_run) (blast dest: sent_wire_length(1))
  obtain ds r2 where b: "build_handshake_datagrams toy_crypto 3 w1 (Some (replicate 32 9)) r1 = Ok (ds, r2)"
    by (rule build_handshake_datagrams_total [OF toy_crypto_ok, of "Some (replicate 32 9)" w1])
      (simp_all add: len)
  have "rekey_as_initiator toy_crypto SinkPaced (demo_auth 1 2) Aegis256X2 (sm_new (demo_session True) 0) 3
       (Some (replicate 32 9)) (replicate 4 \<lparr> re_faults = [], re_frames = [(0, [1])], re_closed = False \<rparr>) [] (\<lambda>_. 5) =
     (Err (HandshakeErr ''rekey'' ''timed out after 4 attempts''), sm_new (demo_session True) 0, ds @ ds @ ds @ ds)"
    by (rule rekey_gives_up [OF s b])
      (auto simp: lost_attempt_def rekey_noise_def unmask_fragment_def hsobf_consts)
  then show ?thesis by blast
qed

theorem rekey_installs_only_verified_witness:
  "\<exists>h w sr. rekey_responder_confirm toy_crypto h (demo_auth 2 1) (sm_new (demo_session False) 0) w =
     (Ok (), sm_install (sm_new (demo_session False) 0) sr)"
proof -
  obtain h1 w3 sr where c: "hs_confirm toy_crypto h1 w3 (demo_auth 2 1) = Ok (HS_Established sr)"
    by (rule demo_run)
  have b: "rekey_responder_confirm toy_crypto h1 (demo_auth 2 1) (sm_new (demo_session False) 0) w3 =
      (Ok (), sm_install (sm_new (demo_session False) 0) sr)"
    by (simp add: rekey_responder_confirm_def c)
  obtain x m' sent where a: "rekey_as_initiator toy_crypto SinkPaced (demo_auth 1 2) Aegis256X2
      (sm_new (demo_session True) 0) 3 None [] [] (\<lambda>_. 5) = (x, m', sent)" by (metis surj_pair)
  from rekey_installs_only_verified [OF a b] b show ?thesis by auto
qed

theorem forged_response_ends_rekey_witness:
  "\<exists>forged ts e ds. rekey_as_initiator toy_crypto SinkPaced (demo_auth 1 2) Aegis256X2 (sm_new (demo_session True) 0) 3 None
      (\<lparr> re_faults = [], re_frames = zip ts forged, re_closed = False \<rparr> # []) [] (\<lambda>_. 5) =
     (Err e, sm_new (demo_session True) 0, ds)"
proof -
  obtain h0 w1 r1 where s: "hs_start toy_crypto (demo_auth 1 2) Aegis256X2 (\<lambda>_. 5) = Ok (h0, w1, r1)"
    and len: "length w1 = 8192"
    by (rule demo_run) (blast dest: sent_wire_length(1))
  obtain ds r2 where b: "build_handshake_datagrams toy_crypto 3 w1 None r1 = Ok (ds, r2)"
    by (rule build_handshake_datagrams_total [OF toy_crypto_ok, of None w1]) (simp_all add: len)
  have "push_handshake_all toy_crypto None [] (zip (replicate (length ds) 0) (map ((!) ds) [0..<length ds])) =
      (replicate (length [0..<length ds] - 1) (Ok None) @ [Ok (Some w1)], [])"
    by (rule datagrams_any_order [OF toy_crypto_ok _ _ b]) (use len in auto)
  then have got: "rekey_recv toy_crypto None [] (zip (replicate (length ds) 0) (map ((!) ds) [0..<length ds])) False = RO_Msg w1"
    by (rule rekey_recv_complete)
  obtain x sk t where h0: "h0 = HS_SentInit x sk t" and "\<exists>m. hs_decode w1 = Ok m \<and> hm_type m = HT_Init"
    by (rule hs_start_Ok [OF toy_crypto_ok, of "demo_auth 1 2" Aegis256X2 "\<lambda>_. 5"])
      (use s demo_auth_len in auto)
  then have e: "hs_finalize toy_crypto h0 w1 (demo_auth 1 2) r2 = Err (HandshakeErr ''finalize'' ''expected Response'')"
    by auto
  show ?thesis
    using forged_response_ends_rekey [OF s b _ _ e, where env = "\<lparr> re_faults = [],
        re_frames = zip (replicate (length ds) 0) (map ((!) ds) [0..<length ds]), re_closed = False \<rparr>"
        and sink = SinkPaced and m = "sm_new (demo_session True) 0" and envs = "[]" and faults = "[]"] got
    by auto
qed

end
