(* ===== verification/Pacer.thy ===== *)
theory Pacer
  imports Float32
begin

text \<open>
  The constant-rate pacer of \<open>src/pacer.rs\<close>: the pure decision what one emission slot sends, with
  the adaptive cooldown and the cover budget in \<open>f32\<close>. \<open>pace_slots\<close> runs a sequence of slots.
\<close>

datatype shape_mode = ShapeCbr | ShapeAdaptive

datatype emit = EmitReal | EmitCover | EmitIdle

record cover_budget =
  cb_per_trigger :: u32
  cb_ratio :: f32

definition UNLIMITED :: cover_budget where
  "UNLIMITED = \<lparr> cb_per_trigger = - 1, cb_ratio = Fin 0 \<rparr>"

record pacer =
  pc_mode :: shape_mode
  pc_cooldown :: duration
  pc_budget :: cover_budget
  pc_last_real :: "instant option"
  pc_allowance :: f32

definition pacer_new :: "shape_mode \<Rightarrow> duration \<Rightarrow> cover_budget \<Rightarrow> pacer" where
  "pacer_new mode cooldown budget =
     \<lparr> pc_mode = mode, pc_cooldown = cooldown, pc_budget = budget, pc_last_real = None,
       pc_allowance = Fin 0 \<rparr>"

definition new_trigger :: "pacer \<Rightarrow> instant \<Rightarrow> bool" where
  "new_trigger p now =
     (case pc_last_real p of
        Some t \<Rightarrow> duration_since now t \<ge> pc_cooldown p
      | None \<Rightarrow> True)"

definition next_emit :: "pacer \<Rightarrow> bool \<Rightarrow> instant \<Rightarrow> emit \<times> pacer" where
  "next_emit p has_real now =
     (if has_real
      then let start = (if new_trigger p now then f32_of_u32 (cb_per_trigger (pc_budget p))
                        else pc_allowance p)
           in (EmitReal, p\<lparr> pc_allowance := f32_add start (cb_ratio (pc_budget p)),
                            pc_last_real := Some now \<rparr>)
      else case pc_mode p of
          ShapeCbr \<Rightarrow> (EmitCover, p)
        | ShapeAdaptive \<Rightarrow>
            (case pc_last_real p of
               Some t \<Rightarrow>
                 if duration_since now t < pc_cooldown p \<and> f32_le (Fin 1) (pc_allowance p)
                 then (EmitCover, p\<lparr> pc_allowance := f32_sub (pc_allowance p) (Fin 1) \<rparr>)
                 else (EmitIdle, p)
             | None \<Rightarrow> (EmitIdle, p)))"

fun pace_slots :: "pacer \<Rightarrow> (bool \<times> instant) list \<Rightarrow> emit list \<times> pacer" where
  "pace_slots p [] = ([], p)"
| "pace_slots p ((has_real, now) # ss) =
     (let (e, p') = next_emit p has_real now; (es, p'') = pace_slots p' ss in (e # es, p''))"

definition covers :: "emit list \<Rightarrow> nat" where
  "covers es = length (filter ((=) EmitCover) es)"

section \<open>Lemmas\<close>

lemma covers_simps [simp]:
  "covers [] = 0" "covers (EmitReal # es) = covers es"
  "covers (EmitCover # es) = Suc (covers es)" "covers (EmitIdle # es) = covers es"
  by (simp_all add: covers_def)

lemma quiet_slot_cases:
  assumes "pc_mode p = ShapeAdaptive" "pc_allowance p = Fin y" "f32_rep y" "0 \<le> y" "y < 2 ^ 24"
  obtains "next_emit p False now = (EmitIdle, p)"
    | "1 \<le> y" "next_emit p False now = (EmitCover, p\<lparr> pc_allowance := Fin (y - 1) \<rparr>)"
proof (cases "\<exists>t. pc_last_real p = Some t \<and> duration_since now t < pc_cooldown p \<and> 1 \<le> y")
  case True
  with assms show thesis
    by (intro that(2)) (auto simp: next_emit_def f32_sub_one)
next
  case False
  with assms show thesis
    by (intro that(1)) (auto simp: next_emit_def split: option.splits)
qed

lemma quiet_covers:
  assumes "pc_mode p = ShapeAdaptive" "pc_allowance p = Fin y" "f32_rep y" "0 \<le> y"
    "y \<le> of_nat N" "N < 2 ^ 24" "\<forall>s\<in>set ss. \<not> fst s"
  shows "covers (fst (pace_slots p ss)) \<le> N"
  using assms
proof (induction ss arbitrary: p y N)
  case Nil
  show ?case by simp
next
  case (Cons s ss)
  obtain now where s: "s = (False, now)" using Cons.prems(7) by (cases s) auto
  have "rat_of_nat N < 2 ^ 24"
    using Cons.prems(6) by (metis of_nat_less_iff of_nat_numeral of_nat_power)
  then have lt: "y < 2 ^ 24" using Cons.prems(5) by linarith
  from Cons.prems(1-4) lt show ?case
  proof (cases rule: quiet_slot_cases [of p y now])
    case 1
    then show ?thesis
      using Cons.IH [OF Cons.prems(1-6)] Cons.prems(7)
      by (cases "pace_slots p ss") (simp add: s)
  next
    case 2
    then obtain M where N: "N = Suc M" using Cons.prems(5) by (cases N) auto
    let ?p = "p\<lparr> pc_allowance := Fin (y - 1) \<rparr>"
    have "covers (fst (pace_slots ?p ss)) \<le> M"
      by (rule Cons.IH [of _ "y - 1"])
        (use Cons.prems 2 N lt f32_rep_minus_one in auto)
    with 2 show ?thesis by (cases "pace_slots ?p ss") (simp add: s N)
  qed
qed

text \<open>\<open>u32::MAX\<close> in single precision.\<close>

lemma f32_round_max: "f32_round (2 ^ 32 - 1) = Fin (2 ^ 32)"
proof -
  have "f32_quantum (2 ^ 32 - 1) = 8"
  proof (cases rule: f32_exponent_cases [of "2 ^ 32 - 1"])
    case (normal E)
    have "(2 :: rat) powi E < 2 powi 32"
      using normal(2) by (simp add: power_int_def)
    then have "E < 32" using powi_le_iff [of 32 E] by linarith
    moreover have "(2 :: rat) powi 31 < 2 powi (E + 1)"
      using normal(5) \<open>E < 32\<close> by (simp add: power_int_def)
    then have "31 < E + 1" using powi_le_iff [of "E + 1" 31] by linarith
    ultimately have "E = 31" by simp
    with normal(1) show ?thesis by (simp add: f32_quantum_def)
  next
    case tiny
    have "(2 :: rat) powi -149 \<le> 2 powi 0" by (simp only: powi_le_iff)
    with tiny show ?thesis by simp
  qed
  moreover have "round_even ((2 ^ 32 - 1) / 256) = 2 ^ 24"
  proof -
    have "\<lfloor>(4294967295 / 256 :: rat)\<rfloor> = 16777215" by (rule floor_unique) simp_all
    then show ?thesis by (simp add: round_even_def Let_def)
  qed
  ultimately show ?thesis
    by (simp add: f32_round_def Let_def power_int_def)
qed

lemma f32_round_2_32: "f32_round (2 ^ 32) = Fin (2 ^ 32)"
proof (rule f32_round_rep)
  show "f32_rep (2 ^ 32)"
    unfolding f32_rep_def by (intro exI [of _ 1] exI [of _ 32]) (simp add: power_int_def)
qed

lemma f32_of_u32_max: "f32_of_u32 (- 1) = Fin (2 ^ 32)"
  using f32_round_max by (simp add: f32_of_u32_def unsigned_minus_1_eq_mask mask_eq_exp_minus_1)

lemma unlimited_slot:
  assumes "pc_budget p = UNLIMITED" "pc_allowance p = Fin (2 ^ 32)" "pc_last_real p = Some t"
    "duration_since now t < pc_cooldown p"
  obtains (cover) "next_emit p False now = (EmitCover, p)"
    and "next_emit p True now = (EmitReal, p\<lparr> pc_last_real := Some now \<rparr>)"
proof -
  have sub: "f32_sub (Fin (2 ^ 32)) (Fin 1) = Fin (2 ^ 32)"
    using f32_round_max by (simp add: f32_sub_def)
  have add: "f32_add (Fin (2 ^ 32)) (Fin 0) = Fin (2 ^ 32)"
    using f32_round_2_32 by simp
  have "p\<lparr> pc_allowance := Fin (2 ^ 32) \<rparr> = p"
    using assms(2) by (cases p) simp
  then show thesis
    using assms sub add f32_of_u32_max
    by (intro that) (auto simp: next_emit_def UNLIMITED_def Let_def split: shape_mode.splits)
qed

lemma unlimited_slots:
  assumes "pc_budget p = UNLIMITED" "pc_allowance p = Fin (2 ^ 32)" "pc_last_real p = Some t"
    "start \<le> t" "\<forall>s\<in>set ss. start \<le> snd s \<and> duration_since (snd s) start < pc_cooldown p"
  shows "EmitIdle \<notin> set (fst (pace_slots p ss))"
  using assms
proof (induction ss arbitrary: p t)
  case Nil
  show ?case by simp
next
  case (Cons s ss)
  obtain real now where s: "s = (real, now)" by (cases s)
  have "duration_since now t < pc_cooldown p"
    using Cons.prems(4,5) order_le_less_trans [OF nat_mono [of "now - t" "now - start"]]
    by (auto simp: s duration_since_def)
  from Cons.prems(1-3) this have
    slot: "next_emit p False now = (EmitCover, p)"
      "next_emit p True now = (EmitReal, p\<lparr> pc_last_real := Some now \<rparr>)"
    by (auto elim: unlimited_slot)
  show ?case
  proof (cases real)
    case True
    let ?p = "p\<lparr> pc_last_real := Some now \<rparr>"
    have "EmitIdle \<notin> set (fst (pace_slots ?p ss))"
      by (rule Cons.IH [of _ now]) (use Cons.prems in \<open>auto simp: s\<close>)
    with True slot show ?thesis by (cases "pace_slots ?p ss") (simp add: s)
  next
    case False
    have "EmitIdle \<notin> set (fst (pace_slots p ss))"
      using Cons.prems by (intro Cons.IH) auto
    with False slot show ?thesis by (cases "pace_slots p ss") (simp add: s)
  qed
qed

lemma cbr_slots: "pc_mode p = ShapeCbr \<Longrightarrow> EmitIdle \<notin> set (fst (pace_slots p ss))"
proof (induction ss arbitrary: p)
  case Nil
  show ?case by simp
next
  case (Cons s ss)
  obtain e p' where e: "next_emit p (fst s) (snd s) = (e, p')" by fastforce
  with Cons.prems have "e \<noteq> EmitIdle" "pc_mode p' = ShapeCbr"
    by (auto simp: next_emit_def Let_def split: if_splits)
  with e Cons.IH [of p'] show ?case
    by (cases s; cases "pace_slots p' ss") auto
qed

section \<open>Properties\<close>

text \<open>The cover budget caps an idle burst. After a real packet that starts a new burst, the
  adaptive pacer emits at most the burst budget plus the (rounded-up) ratio earned by that
  packet in cover packets, however many empty slots follow.\<close>

theorem adaptive_cover_capped:
  assumes "pc_mode p = ShapeAdaptive" "new_trigger p now"
    "cb_ratio (pc_budget p) = Fin ratio" "0 \<le> ratio" "ratio \<le> of_nat k"
    "unat (cb_per_trigger (pc_budget p)) + k < 2 ^ 24" "\<forall>s\<in>set ss. \<not> fst s"
  shows "covers (fst (pace_slots p ((True, now) # ss))) \<le> unat (cb_per_trigger (pc_budget p)) + k"
proof -
  define b where "b = unat (cb_per_trigger (pc_budget p))"
  have bk: "b + k < 2 ^ 24" using assms(6) by (simp only: b_def)
  have b: "f32_of_u32 (cb_per_trigger (pc_budget p)) = Fin (of_nat b)"
  proof -
    have "b < 2 ^ 24" using bk by linarith
    then have "int b < int (2 ^ 24)" by (simp only: of_nat_less_iff)
    then have "\<bar>int b\<bar> < 2 ^ 24" by simp
    from f32_round_rep [OF f32_rep_int [OF this]] show ?thesis
      unfolding f32_of_u32_def b_def [symmetric] by (simp only: of_int_of_nat_eq)
  qed
  obtain y where y: "f32_round (of_nat b + ratio) = Fin y" "0 \<le> y" "y \<le> of_nat (b + k)" "f32_rep y"
    by (rule f32_round_bound [of "of_nat b + ratio" "b + k"]) (use assms(4,5) bk in auto)
  let ?p = "p\<lparr> pc_allowance := Fin y, pc_last_real := Some now \<rparr>"
  have "next_emit p True now = (EmitReal, ?p)"
    using assms(2,3) by (simp add: next_emit_def b y)
  moreover have "covers (fst (pace_slots ?p ss)) \<le> b + k"
    by (rule quiet_covers [of _ y]) (use assms(1,7) bk y in auto)
  ultimately show ?thesis unfolding b_def [symmetric] by (cases "pace_slots ?p ss") simp
qed

theorem adaptive_cover_capped_witness:
  "covers (fst (pace_slots (pacer_new ShapeAdaptive 1000 \<lparr> cb_per_trigger = 2, cb_ratio = Fin (1 / 2) \<rparr>)
     ((True, 0) # replicate 10 (False, 1)))) \<le> 3"
  using adaptive_cover_capped [of "pacer_new ShapeAdaptive 1000 \<lparr> cb_per_trigger = 2, cb_ratio = Fin (1 / 2) \<rparr>"
      0 "1 / 2" 1 "replicate 10 (False, 1)"]
  by (simp add: pacer_new_def new_trigger_def)

text \<open>Constant bit-rate leaves no slot empty, ever, and an unlimited adaptive pacer leaves none
  empty within the cooldown of the real packet that started the burst: \<open>u32::MAX\<close> becomes
  \<open>2 ^ 32\<close> in single precision, which subtracting one does not change.\<close>

theorem pacer_fills_slots:
  assumes "pc_mode p = ShapeCbr \<or>
      (pc_budget p = UNLIMITED \<and> new_trigger p start \<and>
       (\<forall>s\<in>set ss. start \<le> snd s \<and> duration_since (snd s) start < pc_cooldown p))"
  shows "EmitIdle \<notin> set (fst (pace_slots p ((True, start) # ss)))"
  using assms
proof (elim disjE conjE)
  assume "pc_mode p = ShapeCbr"
  then show ?thesis by (rule cbr_slots)
next
  assume u: "pc_budget p = UNLIMITED" "new_trigger p start"
    and ss: "\<forall>s\<in>set ss. start \<le> snd s \<and> duration_since (snd s) start < pc_cooldown p"
  let ?p = "p\<lparr> pc_allowance := Fin (2 ^ 32), pc_last_real := Some start \<rparr>"
  have "next_emit p True start = (EmitReal, ?p)"
    using u f32_of_u32_max f32_round_2_32 by (simp add: next_emit_def UNLIMITED_def)
  moreover have "EmitIdle \<notin> set (fst (pace_slots ?p ss))"
    by (rule unlimited_slots [of _ start start]) (use u ss in auto)
  ultimately show ?thesis by (cases "pace_slots ?p ss") simp
qed

theorem pacer_fills_slots_witness:
  "EmitIdle \<notin> set (fst (pace_slots (pacer_new ShapeAdaptive 100 UNLIMITED)
     ((True, 0) # replicate 20 (False, 99))))"
  using pacer_fills_slots [of "pacer_new ShapeAdaptive 100 UNLIMITED" 0 "replicate 20 (False, 99)"]
  by (simp add: pacer_new_def new_trigger_def duration_since_def)

end
