(* ===== verification/Tunnel_Out.thy ===== *)
theory Tunnel_Out
  imports Tunnel_Send Rekey Pacer
begin

text \<open>
  The outbound loop of \<open>run_tunnel_loops\<close> (\<open>src/tunnel_loops.rs\<close>), one function per arm of its
  \<open>select!\<close>, on the state it shares with the other loops (\<open>tunnel\<close>) and its own (\<open>out_state\<close>). The
  fixed surroundings of a run (primitives, parameters, identity, handshake key, segment limit of
  the socket) are the record \<open>tunnel_conf\<close>. What goes to the socket is appended to \<open>t_wire\<close> with
  its destination; a failing send is only logged by the code and loses the datagram, as the
  network may. An arm that waits for room in a channel runs when there is room. \<open>gone\<close> says that
  the task at the other end of a channel has ended.
\<close>

section \<open>Parameters\<close>

record tunnel_params =
  tp_allow_roaming :: bool
  tp_announce_profile :: bool
  tp_profile :: traffic_profile
  tp_follow_peer :: "traffic_config option"
  tp_batch_linger_us :: u64
  tp_gso :: bool
  tp_obf_enabled :: bool
  tp_padding :: pad_policy
  tp_traffic_enabled :: bool
  tp_traffic_mode :: traffic_mode
  tp_rate_pps :: u32
  tp_burst :: u16
  tp_cooldown_ms :: u64
  tp_cover_budget :: u32
  tp_cover_ratio :: f32

definition from_config :: "app_config \<Rightarrow> tunnel_params" where
  "from_config cfg =
     (let t = effective (ac_traffic cfg)
      in \<lparr> tp_allow_roaming = False, tp_announce_profile = True, tp_profile = et_profile t,
           tp_follow_peer = None, tp_batch_linger_us = ec_batch_linger_us (ac_engine cfg),
           tp_gso = ec_gso (ac_engine cfg), tp_obf_enabled = oc_enabled (ac_obfuscation cfg),
           tp_padding = pad_policy_from (oc_padding (ac_obfuscation cfg)),
           tp_traffic_enabled = et_enabled t, tp_traffic_mode = et_mode t, tp_rate_pps = et_rate_pps t,
           tp_burst = et_burst t, tp_cooldown_ms = et_cooldown_ms t,
           tp_cover_budget = et_cover_budget t, tp_cover_ratio = et_cover_ratio t \<rparr>)"

definition NO_PROFILE :: byte where
  "NO_PROFILE = - 1"

definition PEER_PROFILE_MIN_INTERVAL :: duration where
  "PEER_PROFILE_MIN_INTERVAL = secs 1"

record tunnel_conf =
  cf_lib :: crypto_lib
  cf_params :: tunnel_params
  cf_auth :: authenticator
  cf_pref :: aead_algo
  cf_hs_obf :: "bytes option"
  cf_max_gso :: nat

text \<open>\<open>announce_profile\<close> of the loops: announcements ride authenticated frames.\<close>

definition announces :: "tunnel_conf \<Rightarrow> bool" where
  "announces K \<longleftrightarrow> tp_announce_profile (cf_params K) \<and> tp_obf_enabled (cf_params K)"

section \<open>The shared state\<close>

record tunnel =
  t_engine :: engine
  t_peer :: sock_addr
  t_profile :: byte
  t_connected :: bool
  t_tx_bytes :: u64
  t_rx_bytes :: u64
  t_last_recv_epoch :: u64
  t_last_recv :: u64
  t_rekeying :: bool
  t_paced :: bool
  t_hs_chan :: "bytes list"
  t_hs_send :: "bytes list"
  t_order :: "ticket list"
  t_send :: "bytes list list"
  t_next_id :: u32
  t_watch :: effective_traffic
  t_retire :: "instant list"
  t_resend :: "(instant \<times> byte) list"
  t_to_tun :: "bytes list"
  t_wire :: "(sock_addr \<times> transmit) list"

datatype loop_ctl = Go | Stop

definition with_sessions :: "manager \<Rightarrow> tunnel \<Rightarrow> tunnel" where
  "with_sessions m t = t\<lparr> t_engine := (t_engine t)\<lparr> e_sessions := m \<rparr> \<rparr>"

definition send_to :: "sock_addr \<Rightarrow> bytes \<Rightarrow> tunnel \<Rightarrow> tunnel" where
  "send_to peer d t = t\<lparr> t_wire := t_wire t @ [(peer, \<lparr> tm_contents = d, tm_segment = None \<rparr>)] \<rparr>"

definition send_batch :: "tunnel_conf \<Rightarrow> bytes list \<Rightarrow> tunnel \<Rightarrow> tunnel" where
  "send_batch K ds t =
     t\<lparr> t_wire := t_wire t @ map (Pair (t_peer t)) (send_grouped (cf_max_gso K) (tp_gso (cf_params K)) ds) \<rparr>"

definition send_profile_frame ::
  "crypto_lib \<Rightarrow> sock_addr \<Rightarrow> pad_policy \<Rightarrow> byte \<Rightarrow> tunnel \<Rightarrow> rng \<Rightarrow> tunnel \<times> rng" where
  "send_profile_frame C peer pad i t r =
     (let (x, m, r') = sm_seal_obf C (e_sessions (t_engine t)) (ft_as_u8 FT_Profile) [i] pad r;
          t' = with_sessions m t
      in case x of Ok wire \<Rightarrow> (send_to peer wire t', r') | Err e \<Rightarrow> (t', r'))"

section \<open>The outbound loop\<close>

record out_state =
  o_pending :: "bytes list"
  o_paced :: bool
  o_burst :: nat
  o_pacer :: pacer
  o_tick :: duration
  o_live :: bool
  o_rekey :: "(handshake_sink \<times> u32) option"

fun shape_of :: "traffic_mode \<Rightarrow> shape_mode" where
  "shape_of ModeCbr = ShapeCbr"
| "shape_of ModeAdaptive = ShapeAdaptive"

text \<open>\<open>Duration::from_micros(1_000_000 / rate_pps.max(1))\<close>, \<open>burst.max(1)\<close> and \<open>from_millis\<close>.\<close>

definition slot_len :: "u32 \<Rightarrow> duration" where
  "slot_len rate_pps = 1000 * (1000000 div max (unat rate_pps) 1)"

definition slot_burst :: "u16 \<Rightarrow> nat" where
  "slot_burst burst = max (unat burst) 1"

definition cooldown_of :: "u64 \<Rightarrow> duration" where
  "cooldown_of ms = 1000000 * unat ms"

definition linger_of :: "tunnel_conf \<Rightarrow> duration" where
  "linger_of K = 1000 * unat (tp_batch_linger_us (cf_params K))"

definition out_init :: "tunnel_conf \<Rightarrow> out_state" where
  "out_init K =
     (let p = cf_params K; paced = tp_traffic_enabled p \<and> tp_obf_enabled p
      in \<lparr> o_pending = [], o_paced = paced, o_burst = slot_burst (tp_burst p),
           o_pacer = pacer_new (shape_of (tp_traffic_mode p)) (cooldown_of (tp_cooldown_ms p))
             \<lparr> cb_per_trigger = tp_cover_budget p, cb_ratio = tp_cover_ratio p \<rparr>,
           o_tick = (if paced then slot_len (tp_rate_pps p) else linger_of K),
           o_live = True, o_rekey = None \<rparr>)"

text \<open>tokio's \<open>interval\<close> panics on a zero period; the panic ends the task, and with it the tunnel.\<close>

definition out_start :: "tunnel_conf \<Rightarrow> loop_ctl \<times> out_state" where
  "out_start K = (if o_tick (out_init K) = 0 then Stop else Go, out_init K)"

text \<open>The queue of rekey datagrams the pacer sends: the capacity of its channel.\<close>

definition HS_SEND_CHANNEL :: nat where
  "HS_SEND_CHANNEL = 16"

subsection \<open>Packets from the TUN device\<close>

fun stage :: "bytes list \<Rightarrow> bytes list \<Rightarrow> bytes list" where
  "stage pending [] = pending"
| "stage pending (pkt # drained) =
     stage (if length pending \<ge> MAX_QUEUE then pending else pending @ [pkt]) drained"

definition out_recv ::
  "tunnel_conf \<Rightarrow> bytes list \<Rightarrow> (nat \<Rightarrow> rng) \<Rightarrow> bool \<Rightarrow> bool \<Rightarrow> tunnel \<times> out_state \<Rightarrow>
    loop_ctl \<times> tunnel \<times> out_state" where
  "out_recv K drained rs panics gone st =
     (let (t, o1) = st
      in if drained = [] then (Stop, t, o1)
         else
           let t1 = t\<lparr> t_tx_bytes := foldl (\<lambda>n pkt. n + of_nat (length pkt)) (t_tx_bytes t) drained \<rparr>
           in if o_paced o1 then (Go, t1, o1\<lparr> o_pending := stage (o_pending o1) drained \<rparr>)
              else (case dispatch_seal (cf_lib K) (t_engine t1) drained rs panics of
                  (Ok rx, e) \<Rightarrow>
                    if gone then (Stop, t1\<lparr> t_engine := e \<rparr>, o1)
                    else (Go, t1\<lparr> t_engine := e, t_order := t_order t1 @ [rx] \<rparr>, o1)
                | (Err x, e) \<Rightarrow> (Go, t1\<lparr> t_engine := e \<rparr>, o1)))"

subsection \<open>The tick\<close>

text \<open>The slot of a paced tick: \<open>burst\<close> emissions on the queued rekey datagrams \<open>hq\<close>, the pending
  packets and the pacer. \<open>nows\<close> are the readings of the clock, one per decision of the pacer. The
  case marked unreachable is the \<open>expect\<close> of the code.\<close>

type_synonym slot_state = "engine \<times> bytes list \<times> bytes list \<times> pacer \<times> rng"

fun paced_slot :: "crypto_lib \<Rightarrow> nat \<Rightarrow> instant list \<Rightarrow> slot_state \<Rightarrow> bytes list \<times> slot_state" where
  "paced_slot C 0 nows st = ([], st)"
| "paced_slot C (Suc n) nows (e, datagram # hq, pending, p, r) =
     (let (slot, st) = paced_slot C n nows (e, hq, pending, p, r) in (datagram # slot, st))"
| "paced_slot C (Suc n) nows (e, [], pending, p, r) =
     (let now = (case nows of [] \<Rightarrow> 0 | i # _ \<Rightarrow> i); later = (case nows of [] \<Rightarrow> [] | _ # is \<Rightarrow> is)
      in case next_emit p (pending \<noteq> []) now of
        (EmitReal, p') \<Rightarrow>
          (case pending of
             [] \<Rightarrow> ([], (e, [], [], p', r)) \<comment> \<open>unreachable\<close>
           | pkt # rest \<Rightarrow>
               let (x, e', r') = seal_data_full C e pkt r;
                   (slot, st) = paced_slot C n later (e', [], rest, p', r')
               in (case x of Ok wire \<Rightarrow> wire # slot | Err y \<Rightarrow> slot, st))
      | (EmitCover, p') \<Rightarrow>
          let (x, e', r') = cover_datagram C e r;
              (slot, st) = paced_slot C n later (e', [], pending, p', r')
          in (case x of Ok wire \<Rightarrow> wire # slot | Err y \<Rightarrow> slot, st)
      | (EmitIdle, p') \<Rightarrow> ([], (e, [], pending, p', r)))"

definition tick_paced ::
  "tunnel_conf \<Rightarrow> instant list \<Rightarrow> tunnel \<times> out_state \<Rightarrow> rng \<Rightarrow> (tunnel \<times> out_state) \<times> rng" where
  "tick_paced K nows st r =
     (let (t, o1) = st;
          (slot, (e, hq, pending, p, r')) =
            paced_slot (cf_lib K) (o_burst o1) nows (t_engine t, t_hs_send t, o_pending o1, o_pacer o1, r)
      in ((send_batch K slot (t\<lparr> t_engine := e, t_hs_send := hq \<rparr>),
           o1\<lparr> o_pending := pending, o_pacer := p \<rparr>), r'))"

text \<open>What was staged while paced, sealed and handed to the sender task at once.\<close>

definition ship_residue ::
  "tunnel_conf \<Rightarrow> bool \<Rightarrow> tunnel \<times> out_state \<Rightarrow> rng \<Rightarrow> (loop_ctl \<times> tunnel \<times> out_state) \<times> rng" where
  "ship_residue K gone st r =
     (let (t, o1) = st;
          (x, e, r') = encrypt_batch (cf_lib K) (t_engine t) (o_pending o1) r;
          t1 = t\<lparr> t_engine := e \<rparr>; o2 = o1\<lparr> o_pending := [] \<rparr>
      in (case x of
            Ok wires \<Rightarrow>
              if wires = [] then (Go, t1, o2)
              else if gone then (Stop, t1, o2)
              else (Go, t1\<lparr> t_send := t_send t1 @ [wires] \<rparr>, o2)
          | Err y \<Rightarrow> (Go, t1, o2), r'))"

definition rekey_trigger :: "instant \<Rightarrow> tunnel \<times> out_state \<Rightarrow> tunnel \<times> out_state" where
  "rekey_trigger now st =
     (let (t, o1) = st;
          (due, m) = sm_needs_rekey (e_sessions (t_engine t)) now;
          t1 = with_sessions m t
      in if due \<and> \<not> t_rekeying t1
         then let (new_id, next_id) = next_session_id (t_next_id t1);
                  sink = (if o_paced o1 then SinkPaced else SinkDirect (t_peer t1))
              in (t1\<lparr> t_rekeying := True, t_next_id := next_id \<rparr>, o1\<lparr> o_rekey := Some (sink, new_id) \<rparr>)
         else (t1, o1))"

definition out_tick ::
  "tunnel_conf \<Rightarrow> instant list \<Rightarrow> instant \<Rightarrow> bool \<Rightarrow> tunnel \<times> out_state \<Rightarrow> rng \<Rightarrow>
    (loop_ctl \<times> tunnel \<times> out_state) \<times> rng" where
  "out_tick K nows now gone st r =
     (if o_paced (snd st)
      then let (st1, r') = tick_paced K nows st r in ((Go, rekey_trigger now st1), r')
      else if o_pending (snd st) \<noteq> []
      then (case ship_residue K gone st r of
              ((Go, st1), r') \<Rightarrow> ((Go, rekey_trigger now st1), r')
            | ((Stop, st1), r') \<Rightarrow> ((Stop, st1), r'))
      else ((Go, rekey_trigger now st), r))"


subsection \<open>The rekey in flight\<close>

text \<open>The driver's sink hands over one datagram: to the socket, at the address the peer had when the
  rekey began, or to the pacer's queue.\<close>

definition out_rekey_send :: "bytes \<Rightarrow> tunnel \<times> out_state \<Rightarrow> tunnel \<times> out_state" where
  "out_rekey_send datagram st =
     (let (t, o1) = st
      in case o_rekey o1 of
        Some (SinkDirect peer, new_id) \<Rightarrow> (send_to peer datagram t, o1)
      | Some (SinkPaced, new_id) \<Rightarrow> (t\<lparr> t_hs_send := t_hs_send t @ [datagram] \<rparr>, o1)
      | None \<Rightarrow> (t, o1))"

text \<open>The driver takes the oldest frame the inbound loop forwarded.\<close>

definition out_rekey_take :: "tunnel \<times> out_state \<Rightarrow> tunnel \<times> out_state" where
  "out_rekey_take st =
     (let (t, o1) = st
      in if o_rekey o1 = None then (t, o1) else (t\<lparr> t_hs_chan := drop 1 (t_hs_chan t) \<rparr>, o1))"

definition out_rekey_done ::
  "tunnel_conf \<Rightarrow> rekey_env list \<Rightarrow> string option list \<Rightarrow> instant \<Rightarrow> tunnel \<times> out_state \<Rightarrow> rng \<Rightarrow>
    tunnel \<times> out_state" where
  "out_rekey_done K envs faults now st r =
     (let (t, o1) = st
      in case o_rekey o1 of
        None \<Rightarrow> (t, o1)
      | Some (sink, new_id) \<Rightarrow>
          let (res, m, sent) = rekey_as_initiator (cf_lib K) sink (cf_auth K) (cf_pref K)
                (e_sessions (t_engine t)) new_id (cf_hs_obf K) envs faults r;
              t1 = (case res of
                Ok _ \<Rightarrow> with_sessions m (t\<lparr> t_retire := t_retire t @ [schedule_retire now] \<rparr>)
              | Err e \<Rightarrow> with_sessions (sm_abort_rekey m) t)
          in (t1\<lparr> t_rekeying := False \<rparr>, o1\<lparr> o_rekey := None \<rparr>))"

subsection \<open>Live profile switch\<close>

text \<open>The task that drains the sender queue; the switch to pacing waits until it is empty.\<close>

definition sender_task :: "tunnel_conf \<Rightarrow> tunnel \<Rightarrow> tunnel" where
  "sender_task K t =
     (case t_send t of [] \<Rightarrow> t | wires # rest \<Rightarrow> send_batch K wires (t\<lparr> t_send := rest \<rparr>))"

definition drain_sender :: "tunnel_conf \<Rightarrow> tunnel \<Rightarrow> tunnel" where
  "drain_sender K t = (sender_task K ^^ length (t_send t)) t"

definition announce_switch ::
  "tunnel_conf \<Rightarrow> byte option \<Rightarrow> instant \<Rightarrow> tunnel \<Rightarrow> rng \<Rightarrow> tunnel \<times> rng" where
  "announce_switch K wid now t r =
     (case wid of
        None \<Rightarrow> (t\<lparr> t_profile := NO_PROFILE \<rparr>, r)
      | Some i \<Rightarrow>
          let t1 = t\<lparr> t_profile := i \<rparr>
          in if announces K
             then let (t2, r') = send_profile_frame (cf_lib K) (t_peer t1) (tp_padding (cf_params K)) i t1 r
                  in (t2\<lparr> t_resend := t_resend t2 @
                        [(now + int (PEER_PROFILE_MIN_INTERVAL + 100000000), i)] \<rparr>, r')
             else (t1, r))"

definition apply_pacing :: "tunnel_conf \<Rightarrow> effective_traffic \<Rightarrow> out_state \<Rightarrow> out_state" where
  "apply_pacing K eff o1 =
     o1\<lparr> o_burst := slot_burst (et_burst eff),
         o_tick := (if o_paced o1 then slot_len (et_rate_pps eff) else linger_of K),
         o_pacer := pacer_new (shape_of (et_mode eff)) (cooldown_of (et_cooldown_ms eff))
           \<lparr> cb_per_trigger = et_cover_budget eff, cb_ratio = et_cover_ratio eff \<rparr> \<rparr>"

text \<open>The residue of a switch that turns pacing off; unlike the tick, an error of \<open>encrypt_batch\<close> is
  not even logged.\<close>

definition switch_residue ::
  "tunnel_conf \<Rightarrow> bool \<Rightarrow> bool \<Rightarrow> tunnel \<times> out_state \<Rightarrow> rng \<Rightarrow> (loop_ctl \<times> tunnel \<times> out_state) \<times> rng" where
  "switch_residue K new_paced gone st r =
     (if o_paced (snd st) \<and> \<not> new_paced \<and> o_pending (snd st) \<noteq> [] then ship_residue K gone st r
      else ((Go, st), r))"

text \<open>\<open>changed = None\<close>: every sender of the watch channel is gone. The new interval panics on a zero
  period as the first one does.\<close>

definition out_switch ::
  "tunnel_conf \<Rightarrow> effective_traffic option \<Rightarrow> instant \<Rightarrow> bool \<Rightarrow> tunnel \<times> out_state \<Rightarrow> rng \<Rightarrow>
    (loop_ctl \<times> tunnel \<times> out_state) \<times> rng" where
  "out_switch K changed now gone st r =
     (case changed of
        None \<Rightarrow> ((Go, fst st, (snd st)\<lparr> o_live := False \<rparr>), r)
      | Some eff \<Rightarrow>
          let new_paced = et_enabled eff \<and> tp_obf_enabled (cf_params K);
              (t, o1) = st;
              t1 = (if \<not> o_paced o1 \<and> new_paced then drain_sender K t else t)
          in case switch_residue K new_paced gone (t1, o1) r of
               ((Stop, st2), r1) \<Rightarrow> ((Stop, st2), r1)
             | ((Go, t2, o2), r1) \<Rightarrow>
                 let (t3, r2) = announce_switch K (wire_id (et_profile eff)) now (t2\<lparr> t_paced := new_paced \<rparr>) r1;
                     o3 = apply_pacing K eff (o2\<lparr> o_paced := new_paced \<rparr>)
                 in ((if o_tick o3 = 0 then Stop else Go, t3, o3), r2))"

text \<open>The announcement said once more, if the profile is still the one.\<close>

definition resend_profile :: "tunnel_conf \<Rightarrow> byte \<Rightarrow> tunnel \<Rightarrow> rng \<Rightarrow> tunnel \<times> rng" where
  "resend_profile K i t r =
     (if t_profile t = i
      then send_profile_frame (cf_lib K) (t_peer t) (tp_padding (cf_params K)) i t r else (t, r))"

text \<open>One turn of the sequential sender on the shared channel; \<open>kept\<close> is the batch it remembers.\<close>

definition sequential_sender ::
  "tunnel_conf \<Rightarrow> bool list \<Rightarrow> ticket option \<Rightarrow> tunnel \<Rightarrow> ticket option \<times> tunnel" where
  "sequential_sender K ready kept t =
     (case sequential_round kept (t_order t) ready of
        None \<Rightarrow> (kept, t)
      | Some (wires, kept', order) \<Rightarrow>
          (kept', if wires = [] then t\<lparr> t_order := order \<rparr> else send_batch K wires (t\<lparr> t_order := order \<rparr>)))"


section \<open>Lemmas\<close>

lemma stage_take: "length pending \<le> 4096 \<Longrightarrow> stage pending drained = take 4096 (pending @ drained)"
proof (induction drained arbitrary: pending)
  case (Cons pkt drained)
  show ?case
  proof (cases "length pending = 4096")
    case True
    with Cons show ?thesis by (simp add: MAX_QUEUE_def)
  next
    case False
    then obtain k where "4096 - length pending = Suc k" "4095 - length pending = k"
      using Cons.prems by (cases "4096 - length pending") auto
    with Cons False show ?thesis by (simp add: MAX_QUEUE_def)
  qed
qed simp

lemma tag_len_le: "tag_len a \<le> 32"
  by (cases a) (simp_all add: AEGIS_TAG_LEN_def)

lemma reserve_one:
  assumes "unat (s_tx_counter s) < unat (s_rekey_at s)"
  shows "reserve_counters s 1 = (Ok (s_tx_counter s), s\<lparr> s_tx_counter := s_tx_counter s + 1 \<rparr>)"
proof -
  have "sat_add (s_tx_counter s) (sat_sub 1 1) = s_tx_counter s"
    using unat_word_less [of "s_tx_counter s"] by (simp add: word_unat_eq_iff unat_sat_add unat_sat_sub)
  with assms show ?thesis
    by (simp add: reserve_counters_def Let_def word_le_nat_alt)
qed

text \<open>A full-size seal below the rekey limit succeeds and makes a datagram of exactly 1280 bytes.\<close>

definition can_seal :: "nat \<Rightarrow> engine \<Rightarrow> bool" where
  "can_seal n e \<longleftrightarrow> session_wf (m_current (e_sessions e)) \<and>
     unat (s_tx_counter (m_current (e_sessions e))) + n \<le> unat (s_rekey_at (m_current (e_sessions e)))"

lemma seal_full:
  assumes "crypto_ok C" "can_seal (Suc n) e" "length pt \<le> 1232"
  shows "\<exists>d r'. sm_seal_obf C (e_sessions e) t pt PadFull r =
      (Ok d, e_sessions (set_tx e (s_tx_counter (m_current (e_sessions e)) + 1)), r') \<and> length d = 1280 \<and>
    seal_obf_core C (m_current (e_sessions e)) (s_tx_counter (m_current (e_sessions e))) t pt PadFull r = (Ok d, r')"
proof -
  let ?s = "m_current (e_sessions e)"
  have wf: "session_wf ?s" using assms(2) by (simp add: can_seal_def)
  have res: "reserve_counters ?s 1 = (Ok (s_tx_counter ?s), ?s\<lparr> s_tx_counter := s_tx_counter ?s + 1 \<rparr>)"
    by (rule reserve_one) (use assms(2) in \<open>simp add: can_seal_def\<close>)
  obtain d r' where d: "seal_obf_core C ?s (s_tx_counter ?s) t pt PadFull r = (Ok d, r')"
    by (rule seal_obf_core_total [OF assms(1) wf]) (use assms(3) in auto)
  have "3 + length pt \<le> max_framed (tag_len (s_algo ?s))" "max_framed (tag_len (s_algo ?s)) + tag_len (s_algo ?s) = 1267"
    using assms(3) tag_len_le [of "s_algo ?s"] by (simp_all add: max_framed_def obf_consts)
  then have "length d = 1280"
    using seal_obf_core_length [OF assms(1) wf d] by simp
  then show ?thesis
    by (simp add: sm_seal_obf_def seal_obf_def res d set_tx_def)
qed

lemma can_seal_step:
  assumes "can_seal (Suc n) e"
  shows "can_seal n (set_tx e (s_tx_counter (m_current (e_sessions e)) + 1))"
proof -
  have "unat (s_tx_counter (m_current (e_sessions e)) + 1) = unat (s_tx_counter (m_current (e_sessions e))) + 1"
    using assms unat_word_less [of "s_rekey_at (m_current (e_sessions e))"]
    by (simp add: can_seal_def unat_word_ariths)
  with assms show ?thesis by (simp add: can_seal_def session_wf_def)
qed

text \<open>A seal that makes \<open>d\<close> from \<open>e\<close> against the next counter and leaves \<open>e'\<close>.\<close>

definition seals_next :: "crypto_lib \<Rightarrow> engine \<Rightarrow> frame_type \<times> bytes \<Rightarrow> bytes \<Rightarrow> engine \<Rightarrow> bool" where
  "seals_next C e fr d e' \<longleftrightarrow> length d = 1280 \<and> e' = set_tx e (s_tx_counter (m_current (e_sessions e)) + 1) \<and>
     (\<exists>r r'. seal_obf_core C (m_current (e_sessions e)) (s_tx_counter (m_current (e_sessions e))) (ft_as_u8 (fst fr)) (snd fr) PadFull r =
       (Ok d, r'))"

lemma seals_next_run:
  assumes "seals_next C e fr d e'"
    "sealed_run C (m_current (e_sessions e')) (s_tx_counter (m_current (e_sessions e'))) PadFull frames ds"
  shows "sealed_run C (m_current (e_sessions e)) (s_tx_counter (m_current (e_sessions e))) PadFull (fr # frames) (d # ds)"
  using assms by (cases fr) (auto simp: seals_next_def intro: sealed_run_Cons)

lemma seal_data_full_ok:
  assumes "crypto_ok C" "can_seal (Suc n) e" "length pt \<le> 1232"
  obtains d e' r' where "seal_data_full C e pt r = (Ok d, e', r')" "seals_next C e (FT_Data, pt) d e'" "can_seal n e'"
proof -
  obtain d r' where d: "sm_seal_obf C (e_sessions e) (ft_as_u8 FT_Data) pt PadFull r =
      (Ok d, e_sessions (set_tx e (s_tx_counter (m_current (e_sessions e)) + 1)), r')" "length d = 1280"
    "seal_obf_core C (m_current (e_sessions e)) (s_tx_counter (m_current (e_sessions e))) (ft_as_u8 FT_Data) pt PadFull r = (Ok d, r')"
    using seal_full [OF assms] by blast
  show thesis
    by (rule that [OF _ _ can_seal_step [OF assms(2)]])
      (use d in \<open>auto simp: seals_next_def seal_data_full_def set_tx_def\<close>)
qed

lemma cover_datagram_ok:
  assumes "crypto_ok C" "can_seal (Suc n) e"
  obtains d e' r' where "cover_datagram C e r = (Ok d, e', r')" "seals_next C e (FT_Padding, []) d e'" "can_seal n e'"
proof -
  obtain d r' where d: "sm_seal_obf C (e_sessions e) (ft_as_u8 FT_Padding) [] PadFull r =
      (Ok d, e_sessions (set_tx e (s_tx_counter (m_current (e_sessions e)) + 1)), r')" "length d = 1280"
    "seal_obf_core C (m_current (e_sessions e)) (s_tx_counter (m_current (e_sessions e))) (ft_as_u8 FT_Padding) [] PadFull r = (Ok d, r')"
    using seal_full [OF assms, of "[]" "ft_as_u8 FT_Padding" r] by auto
  show thesis
    by (rule that [OF _ _ can_seal_step [OF assms(2)]])
      (use d in \<open>auto simp: seals_next_def cover_datagram_def sm_seal_cover_def sm_seal_obf_def set_tx_def split: prod.splits\<close>)
qed

lemma next_emit_cbr:
  assumes "pc_mode p = ShapeCbr"
  shows "\<exists>p'. next_emit p b now = (if b then EmitReal else EmitCover, p') \<and> pc_mode p' = ShapeCbr"
  using assms by (simp add: next_emit_def)

text \<open>The frames of a constant-rate slot of \<open>n\<close> datagrams: the pending packets, then cover.\<close>

definition slot_frames :: "nat \<Rightarrow> bytes list \<Rightarrow> (frame_type \<times> bytes) list" where
  "slot_frames n pending = map (Pair FT_Data) (take n pending) @ replicate (n - length pending) (FT_Padding, [])"

lemma slot_frames_simps [simp]:
  "slot_frames 0 pending = []" "slot_frames (Suc n) (pkt # rest) = (FT_Data, pkt) # slot_frames n rest"
  "slot_frames (Suc n) [] = (FT_Padding, []) # slot_frames n []" "length (slot_frames n pending) = n"
  by (simp_all add: slot_frames_def)

lemma cbr_slot:
  assumes "crypto_ok C" "pc_mode p = ShapeCbr" "can_seal n e" "\<forall>pkt\<in>set pending. length pkt \<le> 1232"
  shows "\<exists>ds e' p' r'. paced_slot C n nows (e, hq, pending, p, r) =
      (take n hq @ ds, (e', drop n hq, drop (n - length hq) pending, p', r')) \<and>
    (\<forall>d\<in>set ds. length d = 1280) \<and>
    sealed_run C (m_current (e_sessions e)) (s_tx_counter (m_current (e_sessions e))) PadFull (slot_frames (n - length hq) pending) ds"
  using assms(2-)
proof (induction n arbitrary: nows e hq pending p r)
  case 0
  then show ?case by simp
next
  case (Suc n)
  show ?case
  proof (cases hq)
    case (Cons d hq')
    have "can_seal n e" using Suc.prems(2) by (simp add: can_seal_def)
    from Suc.IH [OF Suc.prems(1) this Suc.prems(3), of nows hq' r] show ?thesis
      by (auto simp: Cons)
  next
    case Nil
    define now where "now = (case nows of [] \<Rightarrow> 0 | i # _ \<Rightarrow> i)"
    define later where "later = (case nows of [] \<Rightarrow> [] | _ # is \<Rightarrow> is)"
    obtain p' where p': "next_emit p (pending \<noteq> []) now = (if pending \<noteq> [] then EmitReal else EmitCover, p')"
      "pc_mode p' = ShapeCbr" using next_emit_cbr [OF Suc.prems(1)] by blast
    show ?thesis
    proof (cases pending)
      case none: Nil
      obtain d e' r' where c: "cover_datagram C e r = (Ok d, e', r')" "seals_next C e (FT_Padding, []) d e'" "can_seal n e'"
        by (rule cover_datagram_ok [OF assms(1) Suc.prems(2)])
      have "\<forall>pkt\<in>set ([] :: bytes list). length pkt \<le> 1232" by simp
      from Suc.IH [OF p'(2) c(3) this, of later "[]" r'] show ?thesis
        using p'(1) c(1) seals_next_run [OF c(2)] c(2) [unfolded seals_next_def]
        by (auto simp: Nil none simp flip: now_def later_def)
    next
      case (Cons pkt rest)
      have "length pkt \<le> 1232" "\<forall>pkt\<in>set rest. length pkt \<le> 1232"
        using Suc.prems(3) by (simp_all add: Cons)
      note len = this
      obtain d e' r' where c: "seal_data_full C e pkt r = (Ok d, e', r')" "seals_next C e (FT_Data, pkt) d e'" "can_seal n e'"
        by (rule seal_data_full_ok [OF assms(1) Suc.prems(2) len(1)])
      from Suc.IH [OF p'(2) c(3) len(2), of later "[]" r'] show ?thesis
        using p'(1) c(1) seals_next_run [OF c(2)] c(2) [unfolded seals_next_def]
        by (auto simp: Nil Cons simp flip: now_def later_def)
    qed
  qed
qed

text \<open>The \<open>expect\<close> of the tick holds: the pacer only answers \<open>Real\<close> when a packet is pending.\<close>

lemma real_has_pending: "fst (next_emit p has_real now) = EmitReal \<longleftrightarrow> has_real"
  by (auto simp: next_emit_def Let_def split: shape_mode.splits option.splits if_splits)

lemma drain_sender_empty: "t_send (drain_sender K t) = []"
proof -
  have "length (t_send ((sender_task K ^^ n) t)) = length (t_send t) - n" for n
    by (induction n) (auto simp: sender_task_def send_batch_def split: list.splits)
  from this [of "length (t_send t)"] show ?thesis
    by (simp add: drain_sender_def)
qed

lemma drain_sender_order [simp]: "t_order (drain_sender K t) = t_order t"
proof -
  have "t_order ((sender_task K ^^ n) t) = t_order t" for n
    by (induction n) (auto simp: sender_task_def send_batch_def split: list.splits)
  then show ?thesis by (simp add: drain_sender_def)
qed

lemma tick_paced_order [simp]:
  "t_order (fst (fst (tick_paced K nows st r))) = t_order (fst st)"
  by (auto simp: tick_paced_def send_batch_def Let_def split: prod.splits)

section \<open>Properties\<close>

text \<open>C27: the constant-rate slot. While the current session stays below its rekey limit for a whole slot, no
  pending packet is longer than the 1232 bytes a full-size datagram holds and no queued rekey datagram is
  empty, a tick under the CBR profile sends exactly \<open>burst\<close> datagrams to the peer, whatever is queued: first
  the queued rekey datagrams, then sealed ones of exactly 1280 bytes each; what was sent leaves its queue and
  the rest stays. What the sealed datagrams carry is what the peer gets: any paired receiver that saw none of
  these counters opens them, in whatever pool order, to the pending packets in order and then to cover.\<close>

theorem cbr_slot_constant:
  assumes "crypto_ok (cf_lib K)" "pc_mode (o_pacer o1) = ShapeCbr" "can_seal (o_burst o1) (t_engine t)"
    "\<forall>pkt\<in>set (o_pending o1). length pkt \<le> 1232" "\<forall>d\<in>set (t_hs_send t). d \<noteq> []"
  shows "\<exists>sent ds t' o2 r'. tick_paced K nows (t, o1) r = ((t', o2), r') \<and>
    t_wire t' = t_wire t @ map (Pair (t_peer t)) sent \<and>
    concat (map gso_split sent) = take (o_burst o1) (t_hs_send t) @ ds \<and>
    length (take (o_burst o1) (t_hs_send t) @ ds) = o_burst o1 \<and> (\<forall>d\<in>set ds. length d = 1280) \<and>
    t_hs_send t' = drop (o_burst o1) (t_hs_send t) \<and>
    o_pending o2 = drop (o_burst o1 - length (t_hs_send t)) (o_pending o1) \<and>
    (\<forall>f S ord a. paired (m_current (e_sessions (t_engine t))) (m_current (e_sessions f)) \<and>
        window_rel (s_replay (m_current (e_sessions f))) S \<and>
        (\<forall>x\<in>S. x < unat (s_tx_counter (m_current (e_sessions (t_engine t))))) \<and>
        length ds \<le> 2048 \<and> distinct ord \<and> set ord = {0..<length ds} \<longrightarrow>
      fst (decrypt_batch_par (cf_lib K) f (map (Pair a) ds) ord) =
        map (\<lambda>(d, fr). (a, d, Ok fr)) (zip ds
          (map (Pair FT_Data) (take (length ds) (o_pending o1)) @
           replicate (length ds - length (o_pending o1)) (FT_Padding, []))))"
proof -
  let ?s = "m_current (e_sessions (t_engine t))"
  let ?n = "o_burst o1 - length (t_hs_send t)"
  obtain ds e' p' r' where slot: "paced_slot (cf_lib K) (o_burst o1) nows
      (t_engine t, t_hs_send t, o_pending o1, o_pacer o1, r) =
      (take (o_burst o1) (t_hs_send t) @ ds,
       (e', drop (o_burst o1) (t_hs_send t), drop ?n (o_pending o1), p', r'))"
    and ds: "\<forall>d\<in>set ds. length d = 1280"
    and run: "sealed_run (cf_lib K) ?s (s_tx_counter ?s) PadFull (slot_frames ?n (o_pending o1)) ds"
    using cbr_slot [OF assms(1-4)] by blast
  let ?slot = "take (o_burst o1) (t_hs_send t) @ ds"
  have len: "length ds = ?n" using run by (simp add: sealed_run_def)
  have "\<forall>d\<in>set ?slot. d \<noteq> []" using assms(5) ds by (auto dest: in_set_takeD)
  then have wire: "concat (map gso_split (send_grouped (cf_max_gso K) (tp_gso (cf_params K)) ?slot)) = ?slot"
    by (rule send_grouped_wire)
  have wf: "session_wf ?s" and "unat (s_tx_counter ?s) + o_burst o1 \<le> unat (s_rekey_at ?s)" "unat (s_rekey_at ?s) < 2 ^ 64"
    using assms(3) unat_word_less [of "s_rekey_at ?s"] by (simp_all add: can_seal_def)
  then have lim: "unat (s_tx_counter ?s) + ?n \<le> 2 ^ 64" by linarith
  have small: "\<forall>fr\<in>set (slot_frames ?n (o_pending o1)). length (snd fr) < 2 ^ 16"
    using assms(4) by (auto simp: slot_frames_def dest!: in_set_takeD)
  have opens: "\<forall>f S ord a. paired ?s (m_current (e_sessions f)) \<and> window_rel (s_replay (m_current (e_sessions f))) S \<and>
        (\<forall>x\<in>S. x < unat (s_tx_counter ?s)) \<and> length ds \<le> 2048 \<and> distinct ord \<and> set ord = {0..<length ds} \<longrightarrow>
      fst (decrypt_batch_par (cf_lib K) f (map (Pair a) ds) ord) =
        map (\<lambda>(d, fr). (a, d, Ok fr)) (zip ds (slot_frames (length ds) (o_pending o1)))"
    unfolding len
    by (intro allI impI, rule sealed_run_opens_all [OF assms(1) _ wf run _ _ _ _ small]) (use lim in auto)
  let ?t' = "send_batch K ?slot (t\<lparr> t_engine := e', t_hs_send := drop (o_burst o1) (t_hs_send t) \<rparr>)"
  let ?o' = "o1\<lparr> o_pending := drop ?n (o_pending o1), o_pacer := p' \<rparr>"
  let ?sent = "send_grouped (cf_max_gso K) (tp_gso (cf_params K)) ?slot"
  show ?thesis
  proof (intro exI conjI)
    show "tick_paced K nows (t, o1) r = ((?t', ?o'), r')" by (simp add: tick_paced_def slot)
    show "t_wire ?t' = t_wire t @ map (Pair (t_peer t)) ?sent" by (simp add: send_batch_def)
    show "concat (map gso_split ?sent) = ?slot" by (rule wire)
    show "t_hs_send ?t' = drop (o_burst o1) (t_hs_send t)" by (simp add: send_batch_def)
  qed (use len ds opens [unfolded slot_frames_def] in simp_all)
qed

text \<open>A live switch from \<open>off\<close> to a paced profile does not wait for the batches whose counters are
  already reserved: it empties the queue of the sender task, but the sequential sender's queue is
  as full afterwards as before, and the next slot is on the wire before it.\<close>

theorem switch_overtakes_reserved_batches:
  assumes "\<not> o_paced o1" "et_enabled eff" "tp_obf_enabled (cf_params K)"
  shows "\<exists>c t' o2 r'. out_switch K (Some eff) now gone (t, o1) r = ((c, t', o2), r') \<and>
    o_paced o2 \<and> t_send t' = [] \<and> t_order t' = t_order t \<and>
    t_order (fst (fst (tick_paced K nows (t', o2) r''))) = t_order t"
proof -
  have residue: "switch_residue K True gone (t1, o1) r = ((Go, t1, o1), r)" for t1
    using assms(1) by (simp add: switch_residue_def)
  obtain t3 r2 where a: "announce_switch K (wire_id (et_profile eff)) now
      ((drain_sender K t)\<lparr> t_paced := True \<rparr>) r = (t3, r2)" by (cases "announce_switch K (wire_id (et_profile eff)) now
      ((drain_sender K t)\<lparr> t_paced := True \<rparr>) r")
  have "t_order t3 = t_order t \<and> t_send t3 = []"
    using a drain_sender_empty [of K t]
    by (auto simp: announce_switch_def send_profile_frame_def with_sessions_def send_to_def Let_def
        split: option.splits if_splits prod.splits sum.splits)
  then show ?thesis
    using assms a residue by (auto simp: out_switch_def Let_def apply_pacing_def)
qed

text \<open>The tick of a tunnel that starts from a validated configuration has a zero period, on which
  the outbound loop panics at once, exactly for \<open>batch_linger_us = 0\<close> without pacing and for a
  \<open>custom\<close> profile of more than a million slots per second: \<open>validate\<close> lets both through.\<close>

theorem zero_tick_panics:
  assumes "validate cfg = Ok ()" "cf_params K = from_config cfg"
  shows "fst (out_start K) = Stop \<longleftrightarrow>
    (if et_enabled (effective (ac_traffic cfg))
     then tc_profile (ac_traffic cfg) = ProfCustom \<and> 1000000 < unat (tc_rate_pps (ac_traffic cfg))
     else ec_batch_linger_us (ac_engine cfg) = 0)"
proof -
  let ?t = "ac_traffic cfg"
  let ?eff = "effective ?t"
  have "et_enabled ?eff \<Longrightarrow> oc_enabled (ac_obfuscation cfg) \<and> 1 \<le> unat (et_rate_pps ?eff)"
    using assms(1) by (simp add: validate_iff Let_def)
  moreover have "et_enabled ?eff \<Longrightarrow> 1000000 < unat (et_rate_pps ?eff) \<longleftrightarrow>
      tc_profile ?t = ProfCustom \<and> 1000000 < unat (tc_rate_pps ?t)"
    by (cases "tc_profile ?t") (simp_all add: effective_def Let_def)
  moreover have "unat (ec_batch_linger_us (ac_engine cfg)) = 0 \<longleftrightarrow> ec_batch_linger_us (ac_engine cfg) = 0"
    by (rule unat_eq_0)
  ultimately show ?thesis
    by (auto simp: out_start_def out_init_def assms(2) from_config_def Let_def slot_len_def linger_of_def
        div_eq_0_iff)
qed

section \<open>Witnesses\<close>

definition demo_conf :: "app_config \<Rightarrow> tunnel_conf" where
  "demo_conf cfg = \<lparr> cf_lib = toy_crypto, cf_params = from_config cfg, cf_auth = demo_auth 1 2,
     cf_pref = Aegis256X2, cf_hs_obf = Some (replicate 32 9), cf_max_gso = 64 \<rparr>"

definition demo_tunnel :: tunnel where
  "demo_tunnel = \<lparr> t_engine = engine_new (sm_new (demo_session True) 0) True PadFull, t_peer = \<lparr> sa_ip = V4 [10, 0, 0, 1], sa_port = 5 \<rparr>,
     t_profile = 3, t_connected = True, t_tx_bytes = 0, t_rx_bytes = 0, t_last_recv_epoch = 0,
     t_last_recv = 0, t_rekeying = False, t_paced = True, t_hs_chan = [], t_hs_send = [[1, 2]], t_order = [],
     t_send = [], t_next_id = 2, t_watch = effective traffic_default, t_retire = [], t_resend = [],
     t_to_tun = [], t_wire = [] \<rparr>"

theorem zero_tick_panics_witness:
  "let tc = traffic_default\<lparr> tc_profile := ProfCustom, tc_rate_pps := 2000000 \<rparr>
   in validate (demo_config tc 200) = Ok () \<and> fst (out_start (demo_conf (demo_config tc 200))) = Stop"
proof -
  let ?tc = "traffic_default\<lparr> tc_profile := ProfCustom, tc_rate_pps := 2000000 \<rparr>"
  have v: "validate (demo_config ?tc 200) = Ok ()"
    by (simp add: demo_config_valid effective_def traffic_default_def)
  show ?thesis
    using zero_tick_panics [OF v, of "demo_conf (demo_config ?tc 200)"] v
    by (simp add: demo_conf_def demo_config_def effective_def traffic_default_def)
qed

text \<open>The tunnel of a profile on the demonstration identity.\<close>

definition profile_conf :: "traffic_profile \<Rightarrow> tunnel_conf" where
  "profile_conf p = demo_conf (demo_config (traffic_default\<lparr> tc_profile := p \<rparr>) 200)"

lemmas profile_conf_defs = profile_conf_def demo_conf_def demo_config_def from_config_def effective_def
  traffic_default_def obfuscation_default_def out_init_def slot_burst_def demo_tunnel_def

theorem cbr_slot_constant_witness:
  "\<exists>sent d t' o2 r'. tick_paced (profile_conf ProfStealth) []
       (demo_tunnel, (out_init (profile_conf ProfStealth))\<lparr> o_pending := [[42], [43]] \<rparr>) (\<lambda>_. 0) = ((t', o2), r') \<and>
     t_wire t' = map (Pair (t_peer demo_tunnel)) sent \<and> concat (map gso_split sent) = [[1, 2], d] \<and>
     length d = 1280 \<and> t_hs_send t' = [] \<and> o_pending o2 = [[43]] \<and>
     fst (decrypt_batch_par toy_crypto (engine_new (sm_new (demo_session False) 0) True PadFull) [((), d)] [0]) =
       [((), d, Ok (FT_Data, [42]))]"
proof -
  let ?K = "profile_conf ProfStealth" and ?f = "engine_new (sm_new (demo_session False) 0) True PadFull"
  let ?o = "(out_init ?K)\<lparr> o_pending := [[42], [43]] \<rparr>"
  have o: "o_burst ?o = 2" "crypto_ok (cf_lib ?K)" "pc_mode (o_pacer ?o) = ShapeCbr" "cf_lib ?K = toy_crypto"
    by (simp_all add: profile_conf_defs pacer_new_def toy_crypto_ok Let_def)
  have can: "can_seal (o_burst ?o) (t_engine demo_tunnel)"
    by (simp add: can_seal_def profile_conf_defs engine_new_def sm_new_def demo_session)
  have q: "\<forall>pkt\<in>set (o_pending ?o). length pkt \<le> 1232" "\<forall>d\<in>set (t_hs_send demo_tunnel). d \<noteq> []"
    "t_wire demo_tunnel = []" "t_hs_send demo_tunnel = [[1, 2]]"
    by (simp_all add: demo_tunnel_def)
  have f: "paired (m_current (e_sessions (t_engine demo_tunnel))) (m_current (e_sessions ?f))"
    "window_rel (s_replay (m_current (e_sessions ?f))) {}"
    by (simp_all add: demo_tunnel_def engine_new_def sm_new_def demo_paired demo_session window_rel_new)
  note cbr_slot_constant [OF o(2,3) can q(1,2), of "[]" "\<lambda>_. 0", where 'a = unit]
  then obtain sent ds t' o2 r' where run: "tick_paced ?K [] (demo_tunnel, ?o) (\<lambda>_. 0) = ((t', o2), r')"
    "t_wire t' = t_wire demo_tunnel @ map (Pair (t_peer demo_tunnel)) sent"
    "concat (map gso_split sent) = take (o_burst ?o) (t_hs_send demo_tunnel) @ ds"
    "length (take (o_burst ?o) (t_hs_send demo_tunnel) @ ds) = o_burst ?o" "\<forall>d\<in>set ds. length d = 1280"
    "t_hs_send t' = drop (o_burst ?o) (t_hs_send demo_tunnel)"
    "o_pending o2 = drop (o_burst ?o - length (t_hs_send demo_tunnel)) (o_pending ?o)"
    and opens: "\<forall>f S ord a. paired (m_current (e_sessions (t_engine demo_tunnel))) (m_current (e_sessions f)) \<and>
        window_rel (s_replay (m_current (e_sessions f))) S \<and>
        (\<forall>x\<in>S. x < unat (s_tx_counter (m_current (e_sessions (t_engine demo_tunnel))))) \<and>
        length ds \<le> 2048 \<and> distinct ord \<and> set ord = {0..<length ds} \<longrightarrow>
      fst (decrypt_batch_par (cf_lib ?K) f (map (Pair a) ds) ord) =
        map (\<lambda>(d, fr). (a :: unit, d, Ok fr)) (zip ds
          (map (Pair FT_Data) (take (length ds) (o_pending ?o)) @
           replicate (length ds - length (o_pending ?o)) (FT_Padding, [])))"
    by (elim exE conjE) (rule that, assumption+)
  have len: "length ds = 1" using run(4) q(4) by (simp only: o(1)) simp
  then obtain d where d: "ds = [d]" by (cases ds) auto
  have "fst (decrypt_batch_par (cf_lib ?K) ?f (map (Pair ()) ds) [0]) =
      map (\<lambda>(d, fr). ((), d, Ok fr)) (zip ds (map (Pair FT_Data) (take (length ds) (o_pending ?o)) @
        replicate (length ds - length (o_pending ?o)) (FT_Padding, [])))"
    using opens f len by (intro opens [rule_format] conjI) auto
  then have "fst (decrypt_batch_par toy_crypto ?f [((), d)] [0]) = [((), d, Ok (FT_Data, [42]))]" by (simp add: d o(4))
  then show ?thesis using run q(3,4) unfolding o(1) d
    by (intro exI [of _ sent] exI [of _ d] exI [of _ t'] exI [of _ o2] exI [of _ r'] conjI) simp_all
qed

theorem switch_overtakes_reserved_batches_witness:
  "\<exists>c t' o2 r'. out_switch (profile_conf ProfOff) (Some (effective (traffic_default\<lparr> tc_profile := ProfStealth \<rparr>)))
      5 False (demo_tunnel\<lparr> t_send := [[[7]]], t_order := [\<lparr> tk_session = demo_session True, tk_base = 0, tk_count = 1, tk_result = Ok [[6]] \<rparr>] \<rparr>,
        out_init (profile_conf ProfOff)) (\<lambda>_. 0) = ((c, t', o2), r') \<and>
    o_paced o2 \<and> t_send t' = [] \<and> t_order t' = [\<lparr> tk_session = demo_session True, tk_base = 0, tk_count = 1, tk_result = Ok [[6]] \<rparr>]"
proof -
  let ?t = "demo_tunnel\<lparr> t_send := [[[7]]], t_order := [\<lparr> tk_session = demo_session True, tk_base = 0,
    tk_count = 1, tk_result = Ok [[6]] \<rparr>] \<rparr>"
  have p: "\<not> o_paced (out_init (profile_conf ProfOff))"
    "et_enabled (effective (traffic_default\<lparr> tc_profile := ProfStealth \<rparr>))"
    "tp_obf_enabled (cf_params (profile_conf ProfOff))"
    by (simp_all add: profile_conf_defs Let_def)
  obtain c t' o2 r' where "out_switch (profile_conf ProfOff)
      (Some (effective (traffic_default\<lparr> tc_profile := ProfStealth \<rparr>))) 5 False
      (?t, out_init (profile_conf ProfOff)) (\<lambda>_. 0) = ((c, t', o2), r')"
    "o_paced o2" "t_send t' = []" "t_order t' = t_order ?t"
    using switch_overtakes_reserved_batches [OF p, of 5 False ?t "\<lambda>_. 0"] by blast
  then show ?thesis by - (intro exI conjI, assumption+, simp)
qed

end
