(* ===== verification/Tunnel_In.thy ===== *)
theory Tunnel_In
  imports Tunnel_Out
begin

text \<open>
  The inbound loop and the keepalive task of \<open>run_tunnel_loops\<close> (\<open>src/tunnel_loops.rs\<close>). The
  inbound loop is the only reader of the socket: it decrypts every batch in parallel and then
  handles the results one by one, the authenticated data path first, then, from the pinned peer
  only, the handshake demultiplexer on the obfuscated or the clear-text framing. \<open>now\<close> is the
  monotonic clock, \<open>epoch\<close> the wall clock in seconds (\<open>now_secs\<close>), \<open>open_tun\<close> whether the TUN writer
  still takes packets.
\<close>

definition KEEPALIVE_INTERVAL :: duration where
  "KEEPALIVE_INTERVAL = secs 15"

definition PEER_DEAD_AFTER :: u64 where
  "PEER_DEAD_AFTER = 45"

record in_state =
  i_rekey_reasm :: reassembler
  i_confirm_reasm :: reassembler
  i_pending :: "(handshake \<times> u32) option"
  i_applied :: "traffic_profile option"
  i_last_switch :: "instant option"

definition in_init :: in_state where
  "in_init = \<lparr> i_rekey_reasm = [], i_confirm_reasm = [], i_pending = None, i_applied = None, i_last_switch = None \<rparr>"

definition in_prune :: "instant \<Rightarrow> in_state \<Rightarrow> in_state" where
  "in_prune now i = i\<lparr> i_rekey_reasm := prune_old (i_rekey_reasm i) now (secs 10),
                     i_confirm_reasm := prune_old (i_confirm_reasm i) now (secs 10) \<rparr>"

text \<open>One call of \<open>batch_recv\<close>, which fills the first \<open>count\<close> of the \<open>RECV_BATCH\<close> buffers, is cut into
  datagrams and decrypted as one job; \<open>ord\<close> is the order the pool works in. A panicking job loses its
  batch. Each call is a job of its own, and the loop takes the jobs up as they finish (\<open>consume\<close> in
  theory \<open>Tunnel\<close>), so packets of different calls can overtake each other.\<close>

definition in_recv ::
  "tunnel_conf \<Rightarrow> bytes list \<Rightarrow> sock_addr recv_meta list \<Rightarrow> nat \<Rightarrow> nat list \<Rightarrow> bool \<Rightarrow> tunnel \<Rightarrow>
    (sock_addr \<times> bytes \<times> (frame_type \<times> bytes) result) list \<times> tunnel" where
  "in_recv K storage metas count ord panics t =
     (let (results, e) = decrypt_batch_par (cf_lib K) (t_engine t) (iter_datagrams storage metas count) ord
      in case rayon_spawn_guarded panics (Ok results) of
        Ok rs \<Rightarrow> (rs, t\<lparr> t_engine := e \<rparr>)
      | Err x \<Rightarrow> ([], t\<lparr> t_engine := e \<rparr>))"

section \<open>The authenticated data path\<close>

text \<open>\<open>FrameType::Profile\<close>: \<open>tx_ok\<close> says whether the watch channel still has a receiver.\<close>

definition in_profile ::
  "tunnel_conf \<Rightarrow> instant \<Rightarrow> bool \<Rightarrow> bytes \<Rightarrow> tunnel \<times> in_state \<Rightarrow> tunnel \<times> in_state" where
  "in_profile K now tx_ok plain st =
     (let (t, i) = st
      in case tp_follow_peer (cf_params K) of
        None \<Rightarrow> (t, i)
      | Some base \<Rightarrow>
          let announced = (if length plain = 1 then from_wire_id (plain ! 0) else None);
              due = (case i_last_switch i of None \<Rightarrow> True
                     | Some s \<Rightarrow> duration_since now s \<ge> PEER_PROFILE_MIN_INTERVAL)
          in case announced of
               Some p \<Rightarrow>
                 if Some p \<noteq> i_applied i \<and> due \<and> tx_ok
                 then (t\<lparr> t_watch := effective (base\<lparr> tc_profile := p \<rparr>) \<rparr>,
                       i\<lparr> i_applied := Some p, i_last_switch := Some now \<rparr>)
                 else (t, i)
             | None \<Rightarrow> (t, i))"

definition in_data_path ::
  "tunnel_conf \<Rightarrow> instant \<Rightarrow> u64 \<Rightarrow> bool \<Rightarrow> bool \<Rightarrow> sock_addr \<Rightarrow> frame_type \<Rightarrow> bytes \<Rightarrow> tunnel \<times> in_state \<Rightarrow>
    loop_ctl \<times> tunnel \<times> in_state" where
  "in_data_path K now epoch open_tun tx_ok src ft plain st =
     (let (t, i) = st;
          t1 = (if tp_allow_roaming (cf_params K) \<and> src \<noteq> t_peer t then t\<lparr> t_peer := src \<rparr> else t);
          t2 = t1\<lparr> t_last_recv := epoch, t_last_recv_epoch := epoch \<rparr>
      in case ft of
        FT_Data \<Rightarrow>
          let t3 = t2\<lparr> t_rx_bytes := t_rx_bytes t2 + of_nat (length plain) \<rparr>
          in if open_tun then (Go, t3\<lparr> t_to_tun := t_to_tun t3 @ [plain] \<rparr>, i) else (Stop, t3, i)
      | FT_KeepAlive \<Rightarrow> (Go, t2, i)
      | FT_Close \<Rightarrow> (Stop, t2, i)
      | FT_Handshake \<Rightarrow> (Go, t2, i)
      | FT_Profile \<Rightarrow> (let (t3, i') = in_profile K now tx_ok plain (t2, i) in (Go, t3, i'))
      | FT_Padding \<Rightarrow> (Go, t2, i))"

section \<open>The handshake demultiplexer\<close>

text \<open>What both framings do with a complete Init and with a complete Confirm. The Response leaves
  through the pacer's queue when the outbound loop is paced, else straight to the source.\<close>

definition demux_init ::
  "tunnel_conf \<Rightarrow> sock_addr \<Rightarrow> bytes \<Rightarrow> string option list \<Rightarrow> tunnel \<times> in_state \<Rightarrow> rng \<Rightarrow>
    (tunnel \<times> in_state) \<times> rng" where
  "demux_init K src init_wire faults st r =
     (let (t, i) = st;
          (new_id, next_id) = next_session_id (t_next_id t);
          sink = (if t_paced t then SinkPaced else SinkDirect src);
          (res, sent, r') = rekey_as_responder (cf_lib K) sink (cf_auth K) (cf_pref K) new_id init_wire
            (cf_hs_obf K) faults r;
          t1 = t\<lparr> t_next_id := next_id \<rparr>;
          t2 = (if t_paced t then t1\<lparr> t_hs_send := t_hs_send t1 @ sent \<rparr>
                else foldl (\<lambda>t d. send_to src d t) t1 sent)
      in case res of
        Ok hs \<Rightarrow> ((t2, i\<lparr> i_pending := Some (hs, new_id) \<rparr>), r')
      | Err e \<Rightarrow> ((t2, i), r'))"

definition demux_confirm ::
  "tunnel_conf \<Rightarrow> instant \<Rightarrow> handshake \<Rightarrow> bytes \<Rightarrow> tunnel \<times> in_state \<Rightarrow> tunnel \<times> in_state" where
  "demux_confirm K now hs confirm_wire st =
     (let (t, i) = st;
          (res, m) = rekey_responder_confirm (cf_lib K) hs (cf_auth K) (e_sessions (t_engine t)) confirm_wire;
          t1 = with_sessions m t; i1 = i\<lparr> i_pending := None \<rparr>
      in case res of
        Ok _ \<Rightarrow> (t1\<lparr> t_retire := t_retire t1 @ [schedule_retire now] \<rparr>, i1)
      | Err e \<Rightarrow> (t1, i1))"

definition forward_frame :: "bytes \<Rightarrow> tunnel \<Rightarrow> tunnel" where
  "forward_frame datagram t = t\<lparr> t_hs_chan := t_hs_chan t @ [datagram] \<rparr>"

definition in_obf_handshake ::
  "tunnel_conf \<Rightarrow> bytes \<Rightarrow> instant \<Rightarrow> u64 \<Rightarrow> sock_addr \<Rightarrow> bytes \<Rightarrow> string option list \<Rightarrow> tunnel \<times> in_state \<Rightarrow> rng \<Rightarrow>
    (tunnel \<times> in_state) \<times> rng" where
  "in_obf_handshake K k now epoch src datagram faults st r =
     (case unmask_fragment (cf_lib K) k datagram of
        None \<Rightarrow> (st, r)
      | Some (mid, idx, tot, chunk) \<Rightarrow>
          let (t0, i) = st; t = t0\<lparr> t_last_recv := epoch \<rparr>
          in if t_rekeying t then ((forward_frame datagram t, i), r)
             else case i_pending i of
               None \<Rightarrow>
                 (case push_parts (i_rekey_reasm i) now mid idx tot chunk of
                    (Ok (Some blob), R) \<Rightarrow>
                      (case hs_open (cf_lib K) k blob of
                         Ok init_wire \<Rightarrow> demux_init K src init_wire faults (t, i\<lparr> i_rekey_reasm := R \<rparr>) r
                       | Err e \<Rightarrow> ((t, i\<lparr> i_rekey_reasm := R \<rparr>), r))
                  | (x, R) \<Rightarrow> ((t, i\<lparr> i_rekey_reasm := R \<rparr>), r))
             | Some (hs, new_id) \<Rightarrow>
                 (case push_parts (i_confirm_reasm i) now mid idx tot chunk of
                    (Ok (Some blob), R) \<Rightarrow>
                      (case hs_open (cf_lib K) k blob of
                         Ok confirm_wire \<Rightarrow> (demux_confirm K now hs confirm_wire (t, i\<lparr> i_confirm_reasm := R \<rparr>), r)
                       | Err e \<Rightarrow> ((t, i\<lparr> i_confirm_reasm := R \<rparr>), r))
                  | (x, R) \<Rightarrow> ((t, i\<lparr> i_confirm_reasm := R \<rparr>), r)))"

definition in_clear_data ::
  "tunnel_conf \<Rightarrow> bool \<Rightarrow> sock_addr \<Rightarrow> frame \<Rightarrow> tunnel \<times> in_state \<Rightarrow> loop_ctl \<times> tunnel \<times> in_state" where
  "in_clear_data K open_tun src f st =
     (let (t, i) = st;
          (x, m) = sm_decrypt (cf_lib K) (e_sessions (t_engine t)) (fr_session_id f) (fr_sequence f) (fr_payload f);
          t1 = with_sessions m t
      in case x of
        Err e \<Rightarrow> (Go, t1, i)
      | Ok plain \<Rightarrow>
          let t2 = (if tp_allow_roaming (cf_params K) \<and> src \<noteq> t_peer t1 then t1\<lparr> t_peer := src \<rparr> else t1);
              t3 = t2\<lparr> t_rx_bytes := t_rx_bytes t2 + of_nat (length plain) \<rparr>
          in if open_tun then (Go, t3\<lparr> t_to_tun := t_to_tun t3 @ [plain] \<rparr>, i) else (Stop, t3, i))"

definition in_clear_handshake ::
  "tunnel_conf \<Rightarrow> instant \<Rightarrow> sock_addr \<Rightarrow> bytes \<Rightarrow> frame \<Rightarrow> string option list \<Rightarrow> tunnel \<times> in_state \<Rightarrow> rng \<Rightarrow>
    (tunnel \<times> in_state) \<times> rng" where
  "in_clear_handshake K now src datagram f faults st r =
     (let (t, i) = st
      in if t_rekeying t then ((forward_frame datagram t, i), r)
         else case i_pending i of
           None \<Rightarrow>
             (case push (i_rekey_reasm i) now (fr_payload f) of
                (Ok (Some init_wire), R) \<Rightarrow> demux_init K src init_wire faults (t, i\<lparr> i_rekey_reasm := R \<rparr>) r
              | (x, R) \<Rightarrow> ((t, i\<lparr> i_rekey_reasm := R \<rparr>), r))
         | Some (hs, new_id) \<Rightarrow>
             (case push (i_confirm_reasm i) now (fr_payload f) of
                (Ok (Some confirm_wire), R) \<Rightarrow> (demux_confirm K now hs confirm_wire (t, i\<lparr> i_confirm_reasm := R \<rparr>), r)
              | (x, R) \<Rightarrow> ((t, i\<lparr> i_confirm_reasm := R \<rparr>), r)))"

definition in_clear_frame ::
  "tunnel_conf \<Rightarrow> instant \<Rightarrow> u64 \<Rightarrow> bool \<Rightarrow> sock_addr \<Rightarrow> bytes \<Rightarrow> string option list \<Rightarrow> tunnel \<times> in_state \<Rightarrow> rng \<Rightarrow>
    (loop_ctl \<times> tunnel \<times> in_state) \<times> rng" where
  "in_clear_frame K now epoch open_tun src datagram faults st r =
     (case fr_decode datagram of
        Err e \<Rightarrow> ((Go, st), r)
      | Ok f \<Rightarrow>
          let (t0, i) = st; t = t0\<lparr> t_last_recv := epoch, t_last_recv_epoch := epoch \<rparr>
          in case fr_type f of
               FT_Data \<Rightarrow> (in_clear_data K open_tun src f (t, i), r)
             | FT_Handshake \<Rightarrow>
                 (let (st', r') = in_clear_handshake K now src datagram f faults (t, i) r in ((Go, st'), r'))
             | FT_KeepAlive \<Rightarrow> ((Go, t, i), r)
             | FT_Close \<Rightarrow> ((Go, t, i), r)
             | FT_Padding \<Rightarrow> ((Go, t, i), r)
             | FT_Profile \<Rightarrow> ((Go, t, i), r))"

section \<open>One result, and a batch of them\<close>

definition in_result ::
  "tunnel_conf \<Rightarrow> instant \<Rightarrow> u64 \<Rightarrow> bool \<Rightarrow> bool \<Rightarrow> sock_addr \<times> bytes \<times> (frame_type \<times> bytes) result \<Rightarrow>
    string option list \<Rightarrow> tunnel \<times> in_state \<Rightarrow> rng \<Rightarrow> (loop_ctl \<times> tunnel \<times> in_state) \<times> rng" where
  "in_result K now epoch open_tun tx_ok item faults st r =
     (let (src, datagram, result) = item
      in case result of
        Ok (ft, plain) \<Rightarrow> (in_data_path K now epoch open_tun tx_ok src ft plain st, r)
      | Err e \<Rightarrow>
          if src \<noteq> t_peer (fst st) then ((Go, st), r)
          else case cf_hs_obf K of
              Some k \<Rightarrow>
                (let (st', r') = in_obf_handshake K k now epoch src datagram faults st r in ((Go, st'), r'))
            | None \<Rightarrow> in_clear_frame K now epoch open_tun src datagram faults st r)"

fun in_results ::
  "tunnel_conf \<Rightarrow> instant \<Rightarrow> u64 \<Rightarrow> bool \<Rightarrow> bool \<Rightarrow> (sock_addr \<times> bytes \<times> (frame_type \<times> bytes) result) list \<Rightarrow>
    string option list \<Rightarrow> tunnel \<times> in_state \<Rightarrow> rng \<Rightarrow> (loop_ctl \<times> tunnel \<times> in_state) \<times> rng" where
  "in_results K now epoch open_tun tx_ok [] faults st r = ((Go, st), r)"
| "in_results K now epoch open_tun tx_ok (item # items) faults st r =
     (case in_result K now epoch open_tun tx_ok item faults st r of
        ((Stop, st'), r') \<Rightarrow> ((Stop, st'), r')
      | ((Go, st'), r') \<Rightarrow> in_results K now epoch open_tun tx_ok items faults st' r')"

section \<open>Keepalive and dead-peer detection\<close>

definition ka_skip_send :: "tunnel_conf \<Rightarrow> bool" where
  "ka_skip_send K \<longleftrightarrow> tp_traffic_enabled (cf_params K) \<and> tp_obf_enabled (cf_params K) \<and>
     tp_traffic_mode (cf_params K) = ModeCbr"

text \<open>\<open>now_secs().saturating_sub(last)\<close>.\<close>

definition idle_secs :: "u64 \<Rightarrow> tunnel \<Rightarrow> u64" where
  "idle_secs epoch t = sat_sub epoch (t_last_recv t)"

definition ka_frame :: "tunnel_conf \<Rightarrow> tunnel \<Rightarrow> rng \<Rightarrow> bytes option \<times> tunnel \<times> rng" where
  "ka_frame K t r =
     (if tp_obf_enabled (cf_params K)
      then let (x, m, r') = sm_seal_obf (cf_lib K) (e_sessions (t_engine t)) (ft_as_u8 FT_KeepAlive) []
                 (tp_padding (cf_params K)) r
           in (case x of Ok w \<Rightarrow> Some w | Err e \<Rightarrow> None, with_sessions m t, r')
      else (case fr_encode \<lparr> fr_type = FT_KeepAlive, fr_session_id = 0, fr_sequence = 0, fr_payload = [] \<rparr> of
              Ok w \<Rightarrow> Some w | Err e \<Rightarrow> None, t, r))"

definition ka_tick :: "tunnel_conf \<Rightarrow> u64 \<Rightarrow> tunnel \<Rightarrow> rng \<Rightarrow> (loop_ctl \<times> tunnel) \<times> rng" where
  "ka_tick K epoch t r =
     (if idle_secs epoch t \<ge> PEER_DEAD_AFTER then ((Stop, t), r)
      else
        let (t1, r1) =
              (if announces K \<and> t_profile t \<noteq> NO_PROFILE
               then send_profile_frame (cf_lib K) (t_peer t) (tp_padding (cf_params K)) (t_profile t) t r
               else (t, r))
        in if ka_skip_send K then ((Go, t1), r1)
           else let (wire, t2, r2) = ka_frame K t1 r1
                in ((Go, case wire of Some w \<Rightarrow> send_to (t_peer t2) w t2 | None \<Rightarrow> t2), r2))"

definition now_secs :: "int \<Rightarrow> u64" where
  "now_secs t = (if t < 0 then 0 else of_nat (nat t))"


section \<open>Lemmas\<close>

lemma with_sessions_simps [simp]:
  "t_peer (with_sessions m t) = t_peer t" "t_watch (with_sessions m t) = t_watch t"
  "t_to_tun (with_sessions m t) = t_to_tun t" "t_rekeying (with_sessions m t) = t_rekeying t"
  "t_paced (with_sessions m t) = t_paced t" "t_wire (with_sessions m t) = t_wire t"
  "t_profile (with_sessions m t) = t_profile t" "t_order (with_sessions m t) = t_order t"
  "e_sessions (t_engine (with_sessions m t)) = m" "e_obf (t_engine (with_sessions m t)) = e_obf (t_engine t)"
  "t_last_recv (with_sessions m t) = t_last_recv t"
  by (simp_all add: with_sessions_def)

lemma send_to_simps [simp]:
  "t_peer (send_to a d t) = t_peer t" "t_watch (send_to a d t) = t_watch t"
  "t_to_tun (send_to a d t) = t_to_tun t" "t_rekeying (send_to a d t) = t_rekeying t"
  "t_engine (send_to a d t) = t_engine t" "t_paced (send_to a d t) = t_paced t"
  "t_order (send_to a d t) = t_order t"
  by (simp_all add: send_to_def)

lemma send_tos_simps [simp]:
  "t_peer (foldl (\<lambda>t d. send_to a d t) t ds) = t_peer t"
  "t_watch (foldl (\<lambda>t d. send_to a d t) t ds) = t_watch t"
  "t_to_tun (foldl (\<lambda>t d. send_to a d t) t ds) = t_to_tun t"
  "t_rekeying (foldl (\<lambda>t d. send_to a d t) t ds) = t_rekeying t"
  "t_engine (foldl (\<lambda>t d. send_to a d t) t ds) = t_engine t"
  "t_paced (foldl (\<lambda>t d. send_to a d t) t ds) = t_paced t"
  by (induction ds arbitrary: t) simp_all

lemma forward_frame_simps [simp]:
  "t_peer (forward_frame d t) = t_peer t" "t_watch (forward_frame d t) = t_watch t"
  "t_to_tun (forward_frame d t) = t_to_tun t" "t_engine (forward_frame d t) = t_engine t"
  "t_rekeying (forward_frame d t) = t_rekeying t" "t_paced (forward_frame d t) = t_paced t"
  by (simp_all add: forward_frame_def)

text \<open>The part of the state that traffic from the network may not change on its own.\<close>

definition guarded :: "tunnel \<Rightarrow> sock_addr \<times> effective_traffic \<times> bool \<times> bool" where
  "guarded t = (t_peer t, t_watch t, t_rekeying t, t_paced t)"

text \<open>What an accepted session came from.\<close>

definition confirmed_install :: "tunnel_conf \<Rightarrow> (handshake \<times> u32) option \<Rightarrow> manager \<Rightarrow> manager \<Rightarrow> bool" where
  "confirmed_install K pend m m' \<longleftrightarrow>
     (\<exists>hs new_id w s. pend = Some (hs, new_id) \<and>
        hs_confirm (cf_lib K) hs w (cf_auth K) = Ok (HS_Established s) \<and> m' = sm_install m s)"

lemma demux_init_effect:
  assumes "demux_init K src w faults (t, i) r = ((t', i'), r')"
  shows "guarded t' = guarded t \<and> t_to_tun t' = t_to_tun t \<and> t_engine t' = t_engine t \<and>
    i_applied i' = i_applied i \<and> i_rekey_reasm i' = i_rekey_reasm i"
  using assms
  by (auto simp: demux_init_def Let_def guarded_def next_session_id_def
      split: prod.splits sum.splits if_splits)

lemma demux_confirm_effect:
  assumes "demux_confirm K now hs w (t, i) = (t', i')"
  shows "guarded t' = guarded t \<and> t_to_tun t' = t_to_tun t \<and> i_applied i' = i_applied i \<and> i_pending i' = None \<and>
    (e_sessions (t_engine t') = e_sessions (t_engine t) \<or>
     confirmed_install K (Some (hs, new_id)) (e_sessions (t_engine t)) (e_sessions (t_engine t')))"
  using assms
  by (auto simp: demux_confirm_def rekey_responder_confirm_def Let_def guarded_def confirmed_install_def
      split: prod.splits sum.splits handshake.splits) blast

lemma obf_handshake_effect:
  assumes "in_obf_handshake K k now epoch src d faults (t, i) r = ((t', i'), r')"
  shows "guarded t' = guarded t \<and> t_to_tun t' = t_to_tun t \<and> i_applied i' = i_applied i \<and>
    (e_sessions (t_engine t') = e_sessions (t_engine t) \<or>
     confirmed_install K (i_pending i) (e_sessions (t_engine t)) (e_sessions (t_engine t')))"
  using assms unfolding in_obf_handshake_def
  by (auto simp: Let_def guarded_def
      split: option.splits prod.splits sum.splits if_splits
      dest!: demux_init_effect demux_confirm_effect [where new_id = 0])
    (auto simp: confirmed_install_def)

lemma clear_handshake_effect:
  assumes "in_clear_handshake K now src d f faults (t, i) r = ((t', i'), r')"
  shows "guarded t' = guarded t \<and> t_to_tun t' = t_to_tun t \<and> i_applied i' = i_applied i \<and>
    (e_sessions (t_engine t') = e_sessions (t_engine t) \<or>
     confirmed_install K (i_pending i) (e_sessions (t_engine t)) (e_sessions (t_engine t')))"
  using assms unfolding in_clear_handshake_def
  by (auto simp: Let_def guarded_def
      split: option.splits prod.splits sum.splits if_splits
      dest!: demux_init_effect demux_confirm_effect [where new_id = 0])
    (auto simp: confirmed_install_def)

lemma clear_data_effect:
  assumes "in_clear_data K open_tun src f (t, i) = (c, t', i')" "src = t_peer t"
  shows "guarded t' = guarded t \<and> i' = i \<and> (c = Stop \<longrightarrow> \<not> open_tun) \<and>
    e_sessions (t_engine t') = snd (sm_decrypt (cf_lib K) (e_sessions (t_engine t)) (fr_session_id f) (fr_sequence f) (fr_payload f)) \<and>
    (t_to_tun t' = t_to_tun t \<or>
     (\<exists>plain. fst (sm_decrypt (cf_lib K) (e_sessions (t_engine t)) (fr_session_id f) (fr_sequence f) (fr_payload f)) = Ok plain \<and>
        t_to_tun t' = t_to_tun t @ [plain]))"
  using assms
  by (auto simp: in_clear_data_def Let_def guarded_def split: prod.splits sum.splits if_splits)

text \<open>What a datagram that failed the data path may do to the packets for the TUN device and to the
  sessions.\<close>

definition clear_delivery :: "tunnel_conf \<Rightarrow> manager \<Rightarrow> bytes \<Rightarrow> bytes \<Rightarrow> bool" where
  "clear_delivery K m d plain \<longleftrightarrow> cf_hs_obf K = None \<and>
     (\<exists>f. fr_decode d = Ok f \<and> fr_type f = FT_Data \<and>
        fst (sm_decrypt (cf_lib K) m (fr_session_id f) (fr_sequence f) (fr_payload f)) = Ok plain)"

definition clear_opened :: "tunnel_conf \<Rightarrow> manager \<Rightarrow> manager \<Rightarrow> bool" where
  "clear_opened K m m' \<longleftrightarrow> cf_hs_obf K = None \<and>
     (\<exists>sid ctr ct. m' = snd (sm_decrypt (cf_lib K) m sid ctr ct))"

lemma clear_frame_effect:
  assumes "in_clear_frame K now epoch open_tun src d faults (t, i) r = ((c, t', i'), r')" "src = t_peer t"
    "cf_hs_obf K = None"
  shows "guarded t' = guarded t \<and> i_applied i' = i_applied i \<and> (c = Stop \<longrightarrow> \<not> open_tun) \<and>
    (t_to_tun t' = t_to_tun t \<or>
     (\<exists>plain. clear_delivery K (e_sessions (t_engine t)) d plain \<and> t_to_tun t' = t_to_tun t @ [plain])) \<and>
    (e_sessions (t_engine t') = e_sessions (t_engine t) \<or>
     clear_opened K (e_sessions (t_engine t)) (e_sessions (t_engine t')) \<or>
     confirmed_install K (i_pending i) (e_sessions (t_engine t)) (e_sessions (t_engine t')))"
proof (cases "fr_decode d")
  case (Inl e)
  then show ?thesis using assms(1) by (simp add: in_clear_frame_def)
next
  case (Inr f)
  let ?t = "t\<lparr> t_last_recv := epoch, t_last_recv_epoch := epoch \<rparr>"
  have g: "guarded ?t = guarded t" "t_to_tun ?t = t_to_tun t" "t_engine ?t = t_engine t" "t_peer ?t = t_peer t"
    by (simp_all add: guarded_def)
  show ?thesis
  proof (cases "fr_type f")
    case FT_Data
    then have "in_clear_data K open_tun src f (?t, i) = (c, t', i')"
      using assms(1) Inr by (simp add: in_clear_frame_def Let_def)
    from clear_data_effect [OF this] assms(2,3) Inr FT_Data g show ?thesis
      by (auto simp: clear_delivery_def clear_opened_def)
  next
    case FT_Handshake
    then obtain st' where h: "in_clear_handshake K now src d f faults (?t, i) r = (st', r')" "c = Go" "st' = (t', i')"
      using assms(1) Inr by (auto simp: in_clear_frame_def Let_def split: prod.splits)
    from clear_handshake_effect [OF h(1) [unfolded h(3)]] h(2) g show ?thesis by auto
  qed (use assms(1) Inr g in \<open>auto simp: in_clear_frame_def\<close>)
qed

lemma rejected_effect:
  assumes "in_result K now epoch open_tun tx_ok (src, d, Err e) faults (t, i) r = ((c, t', i'), r')"
  shows "(src \<noteq> t_peer t \<longrightarrow> c = Go \<and> t' = t \<and> i' = i) \<and>
    t_peer t' = t_peer t \<and> t_watch t' = t_watch t \<and> t_rekeying t' = t_rekeying t \<and> t_paced t' = t_paced t \<and>
    i_applied i' = i_applied i \<and> (c = Stop \<longrightarrow> \<not> open_tun) \<and>
    (t_to_tun t' = t_to_tun t \<or>
     (\<exists>plain. clear_delivery K (e_sessions (t_engine t)) d plain \<and> t_to_tun t' = t_to_tun t @ [plain])) \<and>
    (e_sessions (t_engine t') = e_sessions (t_engine t) \<or>
     clear_opened K (e_sessions (t_engine t)) (e_sessions (t_engine t')) \<or>
     confirmed_install K (i_pending i) (e_sessions (t_engine t)) (e_sessions (t_engine t')))"
proof (cases "src = t_peer t")
  case False
  then show ?thesis using assms by (simp add: in_result_def)
next
  case True
  show ?thesis
  proof (cases "cf_hs_obf K")
    case None
    then have "in_clear_frame K now epoch open_tun src d faults (t, i) r = ((c, t', i'), r')"
      using assms True by (simp add: in_result_def)
    from clear_frame_effect [OF this True None] True show ?thesis by (simp add: guarded_def)
  next
    case (Some k)
    then obtain st' where h: "in_obf_handshake K k now epoch src d faults (t, i) r = (st', r')" "c = Go" "st' = (t', i')"
      using assms True by (auto simp: in_result_def split: prod.splits)
    from obf_handshake_effect [OF h(1) [unfolded h(3)]] h(2) True show ?thesis
      by (auto simp: guarded_def)
  qed
qed

text \<open>Whether the rate limit allows a switch.\<close>

definition switch_due :: "instant \<Rightarrow> in_state \<Rightarrow> bool" where
  "switch_due now i \<longleftrightarrow> (\<forall>s. i_last_switch i = Some s \<longrightarrow> s + 1000000000 \<le> now)"

lemma in_profile_due:
  "in_profile K now tx_ok plain (t, i) =
    (case tp_follow_peer (cf_params K) of
       None \<Rightarrow> (t, i)
     | Some base \<Rightarrow>
         (case if length plain = 1 then from_wire_id (plain ! 0) else None of
            Some p \<Rightarrow>
              if Some p \<noteq> i_applied i \<and> switch_due now i \<and> tx_ok
              then (t\<lparr> t_watch := effective (base\<lparr> tc_profile := p \<rparr>) \<rparr>,
                    i\<lparr> i_applied := Some p, i_last_switch := Some now \<rparr>)
              else (t, i)
          | None \<Rightarrow> (t, i)))"
proof -
  have "(case i_last_switch i of None \<Rightarrow> True | Some s \<Rightarrow> duration_since now s \<ge> PEER_PROFILE_MIN_INTERVAL) =
      switch_due now i"
    by (cases "i_last_switch i")
      (auto simp: switch_due_def duration_since_def PEER_PROFILE_MIN_INTERVAL_def secs_def)
  then show ?thesis
    by (cases "tp_follow_peer (cf_params K)"; cases "from_wire_id (plain ! 0)") (simp_all add: in_profile_def Let_def)
qed

lemma in_profile_cases:
  assumes "in_profile K now tx_ok plain (t, i) = (t', i')"
  obtains "(t', i') = (t, i)"
    | base w p where "tp_follow_peer (cf_params K) = Some base" "plain = [w]" "from_wire_id w = Some p"
      "i_applied i \<noteq> Some p" "switch_due now i" tx_ok
      "t' = t\<lparr> t_watch := effective (base\<lparr> tc_profile := p \<rparr>) \<rparr>"
      "i' = i\<lparr> i_applied := Some p, i_last_switch := Some now \<rparr>"
proof (cases "tp_follow_peer (cf_params K)")
  case None
  with assms show thesis by (intro that(1)) (simp add: in_profile_due)
next
  case (Some base)
  show thesis
  proof (cases "\<exists>w p. plain = [w] \<and> from_wire_id w = Some p \<and> i_applied i \<noteq> Some p \<and> switch_due now i \<and> tx_ok")
    case True
    then obtain w p where w: "plain = [w]" "from_wire_id w = Some p" "i_applied i \<noteq> Some p" "switch_due now i" tx_ok
      by blast
    then show thesis
      by (intro that(2) [OF Some w]) (use assms Some in \<open>auto simp: in_profile_due\<close>)
  next
    case False
    then have "length plain = 1 \<Longrightarrow> from_wire_id (plain ! 0) = Some p \<Longrightarrow>
        \<not> (Some p \<noteq> i_applied i \<and> switch_due now i \<and> tx_ok)" for p
      by (cases plain) auto
    then show thesis
      by (intro that(1)) (use assms Some in \<open>auto simp: in_profile_due split: option.splits if_splits\<close>)
  qed
qed

section \<open>Properties\<close>

text \<open>C8: what traffic that does not authenticate can do. A datagram that fails the data path changes
  nothing at all unless it comes from the pinned peer address. From there it cannot move the peer
  address, reshape the traffic, touch the rekey flag or close the tunnel; a packet reaches the TUN
  device only on the clear-text framing and only if it decrypts, and the sessions change only by
  that decryption or by the session of a Confirm that verified.\<close>

theorem unauthenticated_input_confined:
  assumes "in_result K now epoch open_tun tx_ok (src, d, Err e) faults (t, i) r = ((c, t', i'), r')"
  shows "(src \<noteq> t_peer t \<longrightarrow> c = Go \<and> t' = t \<and> i' = i) \<and>
    t_peer t' = t_peer t \<and> t_watch t' = t_watch t \<and> t_rekeying t' = t_rekeying t \<and> t_paced t' = t_paced t \<and>
    i_applied i' = i_applied i \<and> (c = Stop \<longrightarrow> \<not> open_tun) \<and>
    (t_to_tun t' = t_to_tun t \<or>
     (\<exists>plain. clear_delivery K (e_sessions (t_engine t)) d plain \<and> t_to_tun t' = t_to_tun t @ [plain])) \<and>
    (e_sessions (t_engine t') = e_sessions (t_engine t) \<or>
     clear_opened K (e_sessions (t_engine t)) (e_sessions (t_engine t')) \<or>
     confirmed_install K (i_pending i) (e_sessions (t_engine t)) (e_sessions (t_engine t')))"
  by (rule rejected_effect [OF assms])

text \<open>The keepalive task closes the tunnel exactly when nothing was accepted from the peer for 45
  seconds; a clock that runs backwards counts as no time.\<close>

theorem dead_peer_detected:
  "fst (fst (ka_tick K epoch t r)) = Stop \<longleftrightarrow> 45 \<le> unat epoch - unat (t_last_recv t)"
proof -
  have "PEER_DEAD_AFTER \<le> idle_secs epoch t \<longleftrightarrow> 45 \<le> unat epoch - unat (t_last_recv t)"
    by (simp add: idle_secs_def PEER_DEAD_AFTER_def word_le_nat_alt unat_sat_sub)
  then show ?thesis
    by (auto simp: ka_tick_def Let_def split: prod.splits)
qed

text \<open>A following server reshapes its traffic exactly when an authenticated profile frame carries the
  one byte of a known profile, another one than it applied last, and a second has passed since its
  last switch; and right after a switch no profile frame reshapes anything for a second.\<close>

theorem profile_following:
  assumes "in_profile K now tx_ok plain (t, i) = (t', i')"
  shows "((t', i') = (t, i) \<or>
      (\<exists>base w p. tp_follow_peer (cf_params K) = Some base \<and> plain = [w] \<and> from_wire_id w = Some p \<and>
        i_applied i \<noteq> Some p \<and> switch_due now i \<and> tx_ok \<and>
        t' = t\<lparr> t_watch := effective (base\<lparr> tc_profile := p \<rparr>) \<rparr> \<and>
        i' = i\<lparr> i_applied := Some p, i_last_switch := Some now \<rparr>)) \<and>
    (\<forall>base w p. tp_follow_peer (cf_params K) = Some base \<longrightarrow> plain = [w] \<longrightarrow> from_wire_id w = Some p \<longrightarrow>
        i_applied i \<noteq> Some p \<longrightarrow> switch_due now i \<longrightarrow> tx_ok \<longrightarrow>
        t_watch t' = effective (base\<lparr> tc_profile := p \<rparr>)) \<and>
    (\<forall>s. i_last_switch i' = Some s \<longrightarrow> later < s + 1000000000 \<longrightarrow>
        in_profile K later tx_ok' plain' (t', i') = (t', i'))"
proof (intro conjI allI impI)
  show "(t', i') = (t, i) \<or>
      (\<exists>base w p. tp_follow_peer (cf_params K) = Some base \<and> plain = [w] \<and> from_wire_id w = Some p \<and>
        i_applied i \<noteq> Some p \<and> switch_due now i \<and> tx_ok \<and>
        t' = t\<lparr> t_watch := effective (base\<lparr> tc_profile := p \<rparr>) \<rparr> \<and>
        i' = i\<lparr> i_applied := Some p, i_last_switch := Some now \<rparr>)"
    by (rule in_profile_cases [OF assms]) blast+
next
  fix base w p
  assume "tp_follow_peer (cf_params K) = Some base" "plain = [w]" "from_wire_id w = Some p"
    "i_applied i \<noteq> Some p" "switch_due now i" tx_ok
  then show "t_watch t' = effective (base\<lparr> tc_profile := p \<rparr>)"
    using assms by (auto simp: in_profile_due)
next
  fix s
  assume "i_last_switch i' = Some s" "later < s + 1000000000"
  then have "\<not> switch_due later i'" by (simp add: switch_due_def)
  then show "in_profile K later tx_ok' plain' (t', i') = (t', i')"
    by (simp add: in_profile_due split: option.split)
qed

text \<open>A resent Init costs the responder its rekey. While a rekey waits for its Confirm, a complete
  message that does not confirm, such as the Init the initiator sends again after 800 ms, discards
  the pending handshake; the next datagram, be it the last fragment of the valid Confirm, no
  longer installs the session it would have installed.\<close>

theorem resent_init_loses_rekey:
  assumes "cf_hs_obf K = Some k" "i_pending i = Some (hs, new_id)" "\<not> t_rekeying t"
    "unmask_fragment (cf_lib K) k d = Some (mid, idx, tot, chunk)"
    "push_parts (i_confirm_reasm i) now mid idx tot chunk = (Ok (Some blob), R)"
    "hs_open (cf_lib K) k blob = Ok w" "hs_confirm (cf_lib K) hs w (cf_auth K) = Err e"
    "in_obf_handshake K k now epoch src d faults (t, i) r = ((t', i'), r')"
    "in_obf_handshake K k now' epoch' src' d' faults' (t', i') q = ((t'', i''), q')"
  shows "i_pending i' = None \<and> e_sessions (t_engine t') = e_sessions (t_engine t) \<and>
    e_sessions (t_engine t'') = e_sessions (t_engine t)"
proof -
  have "i_pending i' = None \<and> e_sessions (t_engine t') = e_sessions (t_engine t)"
    using assms(2-8)
    by (auto simp: in_obf_handshake_def demux_confirm_def rekey_responder_confirm_def Let_def with_sessions_def)
  moreover from this have "e_sessions (t_engine t'') = e_sessions (t_engine t')"
    using obf_handshake_effect [OF assms(9)] by (simp add: confirmed_install_def)
  ultimately show ?thesis by simp
qed

text \<open>Whether a tunnel sends keepalives is decided when it starts: one that started under CBR pacing
  without announcing its profile, as a server does, never sends one, also after it followed its
  peer to \<open>off\<close> and sends no cover any more, so an idle peer hears nothing and declares it dead.\<close>

theorem switched_off_server_goes_silent:
  assumes "ka_skip_send K" "\<not> tp_announce_profile (cf_params K)"
    "out_switch K (Some eff) now gone (t, o1) r = ((c, t1, o2), r1)" "\<not> et_enabled eff" "o_pending o1 = []"
  shows "t_wire t1 = t_wire t \<and> \<not> o_paced o2 \<and>
    t_wire (snd (fst (ka_tick K epoch t1 r2))) = t_wire t \<and>
    t_wire (fst (snd (fst (out_tick K nows now' gone' (t1, o2) r3)))) = t_wire t"
proof -
  have "\<not> announces K" using assms(2) by (simp add: announces_def)
  then have s: "t_wire t1 = t_wire t \<and> o_paced o2 = False \<and> o_pending o2 = []"
    using assms(3-5)
    by (auto simp: out_switch_def switch_residue_def announce_switch_def apply_pacing_def Let_def
        split: option.splits prod.splits)
  have "t_wire (fst (rekey_trigger now' (t1, o2))) = t_wire t1"
    by (auto simp: rekey_trigger_def Let_def with_sessions_def split: prod.splits)
  then show ?thesis
    using s assms(1) \<open>\<not> announces K\<close> by (simp add: ka_tick_def out_tick_def)
qed

section \<open>Witnesses\<close>

theorem unauthenticated_input_confined_witness:
  "\<exists>c t' i' r'. in_result (profile_conf ProfStealth) 0 9 True True
      (t_peer demo_tunnel, [1], Err DecryptionFailed) [] (demo_tunnel, in_init) (\<lambda>_. 0) = ((c, t', i'), r') \<and>
    t_peer t' = t_peer demo_tunnel \<and> t_watch t' = t_watch demo_tunnel \<and> i_applied i' = None"
proof -
  obtain c t' i' r' where step: "in_result (profile_conf ProfStealth) 0 9 True True
      (t_peer demo_tunnel, [1], Err DecryptionFailed) [] (demo_tunnel, in_init) (\<lambda>_. 0) = ((c, t', i'), r')"
    by (metis prod.exhaust)
  have "i_applied in_init = None" by (simp add: in_init_def)
  with unauthenticated_input_confined [OF step] step show ?thesis by auto
qed

theorem profile_following_witness:
  "let K = (profile_conf ProfOff)\<lparr> cf_params := (cf_params (profile_conf ProfOff))\<lparr> tp_follow_peer := Some traffic_default \<rparr> \<rparr>
   in \<exists>t' i'. in_profile K 7 True [3] (demo_tunnel, in_init) = (t', i') \<and>
     t_watch t' = effective (traffic_default\<lparr> tc_profile := ProfStealth \<rparr>) \<and>
     in_profile K 1000000006 True [0] (t', i') = (t', i')"
proof -
  let ?K = "(profile_conf ProfOff)\<lparr> cf_params := (cf_params (profile_conf ProfOff))\<lparr> tp_follow_peer := Some traffic_default \<rparr> \<rparr>"
  obtain t' i' where step: "in_profile ?K 7 True [3] (demo_tunnel, in_init) = (t', i')" by fastforce
  have "i_applied in_init \<noteq> Some ProfStealth" "switch_due 7 in_init" "from_wire_id 3 = Some ProfStealth"
    by (simp_all add: in_init_def switch_due_def from_wire_id_def)
  moreover from this have "i_last_switch i' = Some 7"
    using step by (auto simp: in_profile_due)
  ultimately show ?thesis
    using profile_following [OF step, of 1000000006 True "[0]"] step by (simp add: Let_def)
qed

text \<open>A single-fragment message under the handshake key, for the witness below.\<close>

lemma one_fragment:
  assumes "length key = 32" "length msg \<le> 900"
  obtains d blob where "unmask_fragment toy_crypto key d = Some (0, 0, 1, blob)"
    "push_parts [] now 0 0 1 blob = (Ok (Some blob), [])" "hs_open toy_crypto key blob = Ok msg"
proof -
  obtain sealed where s: "c_chacha_seal toy_crypto key (replicate 12 0) [] msg = Some sealed"
    using chacha_seal_neq_None [OF toy_crypto_ok, of msg key "replicate 12 0" "[]"] assms(2)
    by (auto simp: aead_max_input_def)
  let ?blob = "replicate 12 0 @ sealed"
  have "length ?blob \<le> 1024"
    using chacha_seal_length [OF toy_crypto_ok s] assms(2) by simp
  then have "push_parts [] now 0 0 1 ?blob = (Ok (Some ?blob), [])"
    by (simp add: push_parts_def frag_consts Let_def)
  moreover have "unmask_fragment toy_crypto key (hs_frag_header toy_crypto key 0 0 1 @ ?blob) = Some (0, 0, 1, ?blob)"
    by (rule unmask_hs_fragment [OF toy_crypto_ok]) (simp_all add: word_le_nat_alt word_less_nat_alt)
  moreover have "hs_open toy_crypto key ?blob = Ok msg"
    by (rule hs_open_sealed [OF toy_crypto_ok assms(1) _ s]) simp
  ultimately show thesis by (intro that)
qed

theorem resent_init_loses_rekey_witness:
  "\<exists>d t' i' r'. in_obf_handshake (profile_conf ProfStealth) (replicate 32 9) 0 9 (t_peer demo_tunnel) d []
      (demo_tunnel, in_init\<lparr> i_pending := Some (HS_SentResponse (demo_session False) [], 5) \<rparr>) (\<lambda>_. 0) =
      ((t', i'), r') \<and> i_pending i' = None \<and> e_sessions (t_engine t') = e_sessions (t_engine demo_tunnel)"
proof -
  let ?K = "profile_conf ProfStealth" and ?i = "in_init\<lparr> i_pending := Some (HS_SentResponse (demo_session False) [], 5) \<rparr>"
  obtain d blob where d: "unmask_fragment toy_crypto (replicate 32 9) d = Some (0, 0, 1, blob)"
    "push_parts [] 0 0 0 1 blob = (Ok (Some blob), [])" "hs_open toy_crypto (replicate 32 9) blob = Ok [7]"
    by (rule one_fragment [of "replicate 32 9" "[7]" 0]) simp_all
  have K: "cf_lib ?K = toy_crypto" "cf_hs_obf ?K = Some (replicate 32 9)"
    by (simp_all add: profile_conf_def demo_conf_def)
  obtain e where e: "hs_confirm toy_crypto (HS_SentResponse (demo_session False) []) [7] (cf_auth ?K) = Err e"
    using decode_length [of "[7]"] by (cases "hs_decode [7]") auto
  obtain t' i' r' where step: "in_obf_handshake ?K (replicate 32 9) 0 9 (t_peer demo_tunnel) d []
      (demo_tunnel, ?i) (\<lambda>_. 0) = ((t', i'), r')" by (metis prod.exhaust)
  obtain t2 i2 r2 where step': "in_obf_handshake ?K (replicate 32 9) 0 9 (t_peer demo_tunnel) d []
      (t', i') (\<lambda>_. 0) = ((t2, i2), r2)" by (metis prod.exhaust)
  have pend: "i_pending ?i = Some (HS_SentResponse (demo_session False) [], 5)" "\<not> t_rekeying demo_tunnel"
    and reasm: "push_parts (i_confirm_reasm ?i) 0 0 0 1 blob = (Ok (Some blob), [])"
    using d(2) by (simp_all add: in_init_def demo_tunnel_def)
  have "i_pending i' = None \<and> e_sessions (t_engine t') = e_sessions (t_engine demo_tunnel) \<and>
      e_sessions (t_engine t2) = e_sessions (t_engine demo_tunnel)"
    by (rule resent_init_loses_rekey [OF K(2) pend d(1) [folded K(1)] reasm d(3) [folded K(1)]
        e [folded K(1)] step step'])
  with step show ?thesis by blast
qed

theorem switched_off_server_goes_silent_witness:
  "let K = (profile_conf ProfStealth)\<lparr> cf_params := (cf_params (profile_conf ProfStealth))\<lparr> tp_announce_profile := False \<rparr> \<rparr>
   in \<exists>c t1 o2 r1. out_switch K (Some (effective traffic_default)) 5 False (demo_tunnel, out_init K) (\<lambda>_. 0) =
       ((c, t1, o2), r1) \<and> t_wire (snd (fst (ka_tick K 30 t1 (\<lambda>_. 0)))) = t_wire demo_tunnel"
proof -
  let ?K = "(profile_conf ProfStealth)\<lparr> cf_params := (cf_params (profile_conf ProfStealth))\<lparr> tp_announce_profile := False \<rparr> \<rparr>"
  obtain c t1 o2 r1 where step: "out_switch ?K (Some (effective traffic_default)) 5 False (demo_tunnel, out_init ?K)
      (\<lambda>_. 0) = ((c, t1, o2), r1)" by (metis prod.exhaust)
  have "t_wire t1 = t_wire demo_tunnel \<and> \<not> o_paced o2 \<and>
    t_wire (snd (fst (ka_tick ?K 30 t1 (\<lambda>_. 0)))) = t_wire demo_tunnel \<and>
    t_wire (fst (snd (fst (out_tick ?K [] 0 False (t1, o2) (\<lambda>_. 0))))) = t_wire demo_tunnel"
    by (rule switched_off_server_goes_silent [OF _ _ step])
      (simp_all add: ka_skip_send_def profile_conf_defs Let_def)
  with step show ?thesis by (auto simp: Let_def)
qed

end
