(* ===== verification/Lineage.thy ===== *)
theory Lineage
  imports Tunnel_In
begin

text \<open>
  What the operations of every layer keep of the sessions. \<open>manager_view\<close> is a view of the session
  manager that no seal, reservation or open changes: its lemmas carry it through the engine and
  every arm of the tunnel loops. \<open>session_property\<close> is a property of sessions that neither a
  transmit counter nor a replay window can break, which gives such a view. \<open>established_sessions\<close>
  adds what a handshake promises about the sessions it makes. The interpretations are the rekey
  claim, the lineage of the keys (in one step a session keeps its keys or is installed on a proof of the peer
  against the handshake this side holds at that step) and well-formedness.
\<close>

definition sessions_all :: "(session \<Rightarrow> bool) \<Rightarrow> manager \<Rightarrow> bool" where
  "sessions_all Q m \<longleftrightarrow> Q (m_current m) \<and> (\<forall>p. m_previous m = Some p \<longrightarrow> Q p)"

lemma sessions_all_simps [simp]:
  "sessions_all Q (m\<lparr> m_in_progress := n \<rparr>) = sessions_all Q m"
  "sessions_all Q (m\<lparr> m_last_attempt := i \<rparr>) = sessions_all Q m"
  by (simp_all add: sessions_all_def)

lemma with_engine_sessions [simp]: "e_sessions (t_engine (with_sessions m t)) = m"
  by (simp add: with_sessions_def)

lemma send_batch_engine [simp]: "t_engine (send_batch K ds t) = t_engine t"
  by (simp add: send_batch_def)

lemma sender_task_engine [simp]: "t_engine (sender_task K t) = t_engine t"
  by (auto simp: sender_task_def split: list.splits)

lemma drain_sender_engine [simp]: "t_engine (drain_sender K t) = t_engine t"
proof -
  have "t_engine ((sender_task K ^^ n) t) = t_engine t" for n by (induction n) simp_all
  then show ?thesis by (simp add: drain_sender_def)
qed

lemma sequential_sender_engine: "sequential_sender K ready kept t = (kept', t') \<Longrightarrow> t_engine t' = t_engine t"
  by (auto simp: sequential_sender_def split: option.splits prod.splits if_splits)

section \<open>What traffic keeps of the session manager\<close>

text \<open>A view of the manager that no single seal, reservation or open changes; then no arm of the loops
  but the rekey changes it.\<close>

locale manager_view =
  fixes view :: "manager \<Rightarrow> 'v"
  assumes seal: "sm_seal_obf C m t p pol r = (x, m', r') \<Longrightarrow> view m' = view m"
    and cover: "sm_seal_cover C m pol r = (x, m', r') \<Longrightarrow> view m' = view m"
    and encrypt: "sm_encrypt C m p = (y, m') \<Longrightarrow> view m' = view m"
    and reserve: "sm_reserve m n = (z, m') \<Longrightarrow> view m' = view m"
    and decrypt: "sm_decrypt C m i c ct = (w, m') \<Longrightarrow> view m' = view m"
    and open_obf: "sm_decrypt_obf C m d = (v, m') \<Longrightarrow> view m' = view m"
begin

lemma engine_cover: "cover_datagram C e r = (x, e', r') \<Longrightarrow> view (e_sessions e') = view (e_sessions e)"
  by (auto simp: cover_datagram_def dest: cover split: prod.splits)

lemma engine_full: "seal_data_full C e p r = (x, e', r') \<Longrightarrow> view (e_sessions e') = view (e_sessions e)"
  by (auto simp: seal_data_full_def dest: seal split: prod.splits)

lemma engine_one: "seal_one C e p r = (x, e', r') \<Longrightarrow> view (e_sessions e') = view (e_sessions e)"
  by (auto simp: seal_one_def dest: seal encrypt split: prod.splits if_splits)

lemma engine_batch: "encrypt_batch C e ps r = (x, e', r') \<Longrightarrow> view (e_sessions e') = view (e_sessions e)"
proof (induction ps arbitrary: e r x e' r')
  case (Cons p ps)
  then show ?case
    by (auto split: prod.splits sum.splits dest!: engine_one Cons.IH)
qed simp

lemma engine_reserve: "engine_reserve e n = (x, e') \<Longrightarrow> view (e_sessions e') = view (e_sessions e)"
  by (auto simp: engine_reserve_def dest: reserve split: prod.splits)

lemma engine_dispatch: "dispatch_seal C e b rs panics = (x, e') \<Longrightarrow> view (e_sessions e') = view (e_sessions e)"
  by (auto simp: dispatch_seal_def dest: engine_reserve split: prod.splits sum.splits)

lemma run_open:
  "run_order (\<lambda>(src, dg) m. sm_decrypt_obf C m dg) items ord outs m = (outs', m') \<Longrightarrow>
    view m' = view m"
  by (induction ord arbitrary: outs m) (auto split: prod.splits dest!: open_obf)

lemma engine_open: "decrypt_batch_par C e ds ord = (xs, e') \<Longrightarrow> view (e_sessions e') = view (e_sessions e)"
  by (auto simp: decrypt_batch_par_def dest: run_open split: prod.splits)

lemma slot: "paced_slot C n nows (e, hq, pend, p, r) = (ds, e', hq', pend', p', r') \<Longrightarrow>
    view (e_sessions e') = view (e_sessions e)"
proof (induction n arbitrary: nows e hq pend p r ds)
  case (Suc n)
  show ?case
  proof (cases hq)
    case Nil
    with Suc.prems show ?thesis
      by (auto simp: Let_def split: prod.splits emit.splits list.splits sum.splits
          dest!: engine_full engine_cover Suc.IH)
  next
    case (Cons d hq1)
    with Suc.prems show ?thesis by (auto split: prod.splits dest!: Suc.IH)
  qed
qed simp


lemma arm_profile: "send_profile_frame C a pad i t r = (t', r') \<Longrightarrow> view (e_sessions (t_engine t')) = view (e_sessions (t_engine t))"
  by (auto simp: send_profile_frame_def Let_def dest: seal split: prod.splits sum.splits)

lemma arm_recv: "out_recv K drained rs panics gone (t, o1) = (c, t', o2) \<Longrightarrow> view (e_sessions (t_engine t')) = view (e_sessions (t_engine t))"
  by (auto simp: out_recv_def Let_def dest: engine_dispatch split: prod.splits sum.splits if_splits)

lemma arm_paced: "tick_paced K nows (t, o1) r = ((t', o2), r') \<Longrightarrow> view (e_sessions (t_engine t')) = view (e_sessions (t_engine t))"
  by (auto simp: tick_paced_def Let_def dest: slot split: prod.splits)

lemma arm_residue: "ship_residue K gone (t, o1) r = ((c, t', o2), r') \<Longrightarrow> view (e_sessions (t_engine t')) = view (e_sessions (t_engine t))"
  by (auto simp: ship_residue_def Let_def dest: engine_batch split: prod.splits sum.splits if_splits)

lemma arm_announce: "announce_switch K wid now t r = (t', r') \<Longrightarrow> view (e_sessions (t_engine t')) = view (e_sessions (t_engine t))"
  by (auto simp: announce_switch_def Let_def dest!: arm_profile split: option.splits prod.splits if_splits)

lemma arm_switch:
  assumes "out_switch K changed now gone (t, o1) r = ((c, t', o2), r')"
  shows "view (e_sessions (t_engine t')) = view (e_sessions (t_engine t))"
proof (cases changed)
  case (Some eff)
  define np where "np = (et_enabled eff \<and> tp_obf_enabled (cf_params K))"
  define t1 where "t1 = (if \<not> o_paced o1 \<and> np then drain_sender K t else t)"
  obtain c1 t2 o3 r1 where res: "switch_residue K np gone (t1, o1) r = ((c1, t2, o3), r1)"
    by (metis prod.exhaust)
  have "view (e_sessions (t_engine t1)) = view (e_sessions (t_engine t))" by (simp add: t1_def)
  moreover have "view (e_sessions (t_engine t2)) = view (e_sessions (t_engine t1))"
    using res by (auto simp: switch_residue_def dest: arm_residue split: if_splits)
  moreover have "view (e_sessions (t_engine t')) = view (e_sessions (t_engine t2))"
    using assms res Some
    by (auto simp: out_switch_def Let_def np_def t1_def dest!: arm_announce split: loop_ctl.splits prod.splits)
  ultimately show ?thesis by simp
qed (use assms in \<open>simp add: out_switch_def\<close>)

lemma arm_resend: "resend_profile K i t r = (t', r') \<Longrightarrow> view (e_sessions (t_engine t')) = view (e_sessions (t_engine t))"
  by (auto simp: resend_profile_def dest: arm_profile split: if_splits)

lemma arm_in_recv: "in_recv K storage metas count ord panics t = (items, t') \<Longrightarrow> view (e_sessions (t_engine t')) = view (e_sessions (t_engine t))"
  by (auto simp: in_recv_def Let_def dest: engine_open split: prod.splits sum.splits)

lemma arm_keepalive:
  assumes "ka_tick K epoch t r = ((c, t'), r')"
  shows "view (e_sessions (t_engine t')) = view (e_sessions (t_engine t))"
proof -
  have "ka_frame K t1 r1 = (w, t2, r2) \<Longrightarrow> view (e_sessions (t_engine t2)) = view (e_sessions (t_engine t1))" for t1 r1 w t2 r2
    by (auto simp: ka_frame_def Let_def dest: seal split: prod.splits sum.splits if_splits)
  with assms show ?thesis
    by (auto simp: ka_tick_def Let_def dest!: arm_profile split: prod.splits option.splits if_splits)
qed

lemma arm_data_path:
  assumes "in_data_path K now epoch open_tun tx_ok src ft plain (t, i) = (c, t', i')"
  shows "t_engine t' = t_engine t \<and> i_pending i' = i_pending i"
  using assms
  by (auto simp: in_data_path_def Let_def split: frame_type.splits if_splits prod.splits elim!: in_profile_cases)

lemma arm_clear_data: "in_clear_data K open_tun src f (t, i) = (c, t', i') \<Longrightarrow>
    view (e_sessions (t_engine t')) = view (e_sessions (t_engine t)) \<and> i' = i"
  by (auto simp: in_clear_data_def Let_def dest: decrypt split: prod.splits sum.splits if_splits)

end

text \<open>The rekey claim is such a view: traffic neither takes nor releases it.\<close>

interpretation claim: manager_view m_in_progress
  by unfold_locales
    (auto simp: sm_seal_obf_def sm_seal_cover_def sm_encrypt_def sm_reserve_def sm_decrypt_def sm_decrypt_obf_def
      Let_def split: prod.splits sum.splits option.splits if_splits)

section \<open>Properties of sessions\<close>

abbreviation tunnel_all :: "(session \<Rightarrow> bool) \<Rightarrow> tunnel \<Rightarrow> bool" where
  "tunnel_all Q t \<equiv> sessions_all Q (e_sessions (t_engine t))"

locale session_property =
  fixes Q :: "session \<Rightarrow> bool"
  assumes tx [simp]: "Q (s\<lparr> s_tx_counter := n \<rparr>) = Q s"
    and rx [simp]: "Q (s\<lparr> s_replay := w \<rparr>) = Q s"
begin

lemma reserve: "Q (snd (reserve_counters s n)) = Q s"
  by (simp add: reserve_counters_def Let_def)

lemma seal_obf: "seal_obf C s t p pol r = (d, s', r') \<Longrightarrow> Q s' = Q s"
  using reserve [of s 1] by (auto simp: seal_obf_def Let_def split: prod.splits sum.splits)

lemma encrypt: "encrypt C s p = (x, s') \<Longrightarrow> Q s' = Q s"
  using reserve [of s 1] by (auto simp: encrypt_def split: prod.splits sum.splits)

lemma decrypt: "decrypt C s c ct = (x, s') \<Longrightarrow> Q s' = Q s"
  by (auto simp: decrypt_def decrypt_finish_def split: sum.splits)

lemma open_obf: "try_open_obf C s d = (x, s') \<Longrightarrow> Q s' = Q s"
  by (auto simp: try_open_obf_def Let_def dest: decrypt split: option.splits prod.splits sum.splits if_splits)

lemma manager_seal: "sm_seal_obf C m t p pol r = (x, m', r') \<Longrightarrow> sessions_all Q m' = sessions_all Q m"
  by (auto simp: sm_seal_obf_def sessions_all_def dest: seal_obf split: prod.splits)

lemma manager_cover: "sm_seal_cover C m pol r = (x, m', r') \<Longrightarrow> sessions_all Q m' = sessions_all Q m"
  by (auto simp: sm_seal_cover_def sessions_all_def dest: seal_obf split: prod.splits)

lemma manager_encrypt: "sm_encrypt C m p = (x, m') \<Longrightarrow> sessions_all Q m' = sessions_all Q m"
  by (auto simp: sm_encrypt_def sessions_all_def dest: encrypt split: prod.splits)

lemma manager_reserve: "sm_reserve m n = (x, m') \<Longrightarrow> sessions_all Q m' = sessions_all Q m"
  using reserve [of "m_current m" n] by (auto simp: sm_reserve_def sessions_all_def split: prod.splits)

lemma manager_decrypt: "sm_decrypt C m i c ct = (x, m') \<Longrightarrow> sessions_all Q m' = sessions_all Q m"
  by (auto simp: sm_decrypt_def sessions_all_def dest: decrypt split: prod.splits option.splits if_splits)

lemma manager_open: "sm_decrypt_obf C m d = (x, m') \<Longrightarrow> sessions_all Q m' = sessions_all Q m"
  by (auto simp: sm_decrypt_obf_def sessions_all_def Let_def dest: open_obf
      split: prod.splits option.splits sum.splits)

lemma manager_needs_rekey: "sm_needs_rekey m now = (x, m') \<Longrightarrow> sessions_all Q m' = sessions_all Q m"
  by (auto simp: sm_needs_rekey_def sm_rekey_claim_def sessions_all_def split: if_splits)

lemma manager_abort: "sessions_all Q (sm_abort_rekey m) = sessions_all Q m"
  by (simp add: sm_abort_rekey_def)

lemma manager_install: "sessions_all Q m \<Longrightarrow> Q s \<Longrightarrow> sessions_all Q (sm_install m s)"
  by (simp add: sm_install_def sessions_all_def)

lemma manager_retire: "sessions_all Q m \<Longrightarrow> sessions_all Q (sm_retire_previous m)"
  by (simp add: sm_retire_previous_def sessions_all_def)

end

sublocale session_property \<subseteq> traffic: manager_view "sessions_all Q"
  by unfold_locales
    (fact manager_seal manager_cover manager_encrypt manager_reserve manager_decrypt manager_open)+

context session_property
begin

lemma arm_trigger: "rekey_trigger now (t, o1) = (t', o2) \<Longrightarrow> tunnel_all Q t' = tunnel_all Q t"
  by (auto simp: rekey_trigger_def Let_def dest: manager_needs_rekey split: prod.splits if_splits)

lemma arm_tick: "out_tick K nows now gone (t, o1) r = ((c, t', o2), r') \<Longrightarrow> tunnel_all Q t' = tunnel_all Q t"
  by (auto simp: out_tick_def dest!: traffic.arm_paced traffic.arm_residue arm_trigger
      split: prod.splits loop_ctl.splits if_splits)

end

section \<open>Sessions a handshake makes\<close>

text \<open>What is known of the handshake the responder keeps until its Confirm comes. \<open>responded\<close>: it is one
  that \<open>respond\<close> returned.\<close>

definition pending_in :: "(handshake \<Rightarrow> bool) \<Rightarrow> in_state \<Rightarrow> bool" where
  "pending_in P i \<longleftrightarrow> (\<forall>h new_id. i_pending i = Some (h, new_id) \<longrightarrow> P h)"

definition responded :: "tunnel_conf \<Rightarrow> handshake \<Rightarrow> bool" where
  "responded K h \<longleftrightarrow> (\<exists>w r w' r'. hs_respond (cf_lib K) (cf_auth K) (cf_pref K) w r = Ok (h, w', r'))"

lemma rekey_initiator_cases:
  assumes "rekey_as_initiator C sink auth pref m sid hs_obf envs faults r = (x, m', sent)"
  obtains "m' = m" "\<not> is_ok x"
    | h w r1 raw q s w' q' where "hs_start C auth pref r = Ok (h, w, r1)"
      "hs_finalize C h raw auth q = Ok (HS_Established s, w', q')" "m' = sm_install m s" "x = Ok ()"
  using assms
  by (auto simp: rekey_as_initiator_def rbind_eq_Ok split: sum.splits prod.splits handshake.splits)

lemma rekey_responder_Ok:
  "rekey_as_responder C sink auth pref sid w hs_obf faults r = (Ok h, ds, r') \<Longrightarrow>
    \<exists>w' r1. hs_respond C auth pref w r = Ok (h, w', r1)"
  by (auto simp: rekey_as_responder_def split: sum.splits prod.splits handshake.splits)

lemma demux_init_pending:
  assumes "demux_init K src w faults (t, i) r = ((t', i'), r')" "pending_in (responded K) i"
  shows "pending_in (responded K) i'"
  using assms
  by (auto simp: demux_init_def Let_def pending_in_def responded_def dest!: rekey_responder_Ok
      split: prod.splits sum.splits) blast

lemma demux_confirm_pending:
  "demux_confirm K now h w (t, i) = (t', i') \<Longrightarrow> pending_in P i'"
  by (auto simp: demux_confirm_def Let_def pending_in_def split: prod.splits sum.splits)

lemma pending_reasm [simp]:
  "pending_in P (i\<lparr> i_rekey_reasm := R \<rparr>) = pending_in P i"
  "pending_in P (i\<lparr> i_confirm_reasm := R \<rparr>) = pending_in P i"
  by (simp_all add: pending_in_def)

lemma obf_handshake_pending:
  assumes "in_obf_handshake K k now epoch src d faults (t, i) r = ((t', i'), r')" "pending_in (responded K) i"
  shows "pending_in (responded K) i'"
  using assms
  by (auto simp: in_obf_handshake_def Let_def dest: demux_init_pending demux_confirm_pending
      split: option.splits prod.splits sum.splits if_splits)

lemma clear_handshake_pending:
  assumes "in_clear_handshake K now src d f faults (t, i) r = ((t', i'), r')" "pending_in (responded K) i"
  shows "pending_in (responded K) i'"
  using assms
  by (auto simp: in_clear_handshake_def Let_def dest: demux_init_pending demux_confirm_pending
      split: option.splits prod.splits sum.splits if_splits)

text \<open>The ways a result goes: the data path, nothing at all, a handshake on either framing, data in the clear.\<close>

lemma in_result_cases:
  assumes "in_result K now epoch open_tun tx_ok (src, d, x) faults (t, i) r = ((c, t', i'), r')"
  obtains (data) ft plain where "in_data_path K now epoch open_tun tx_ok src ft plain (t, i) = (c, t', i')"
    | (still) "t_engine t' = t_engine t" "guarded t' = guarded t" "i' = i"
    | (obf) k where "in_obf_handshake K k now epoch src d faults (t, i) r = ((t', i'), r')"
    | (clear) f r'' where "in_clear_handshake K now src d f faults
        (t\<lparr> t_last_recv := epoch, t_last_recv_epoch := epoch \<rparr>, i) r = ((t', i'), r'')"
    | (clear_data) f where "in_clear_data K open_tun src f
        (t\<lparr> t_last_recv := epoch, t_last_recv_epoch := epoch \<rparr>, i) = (c, t', i')"
proof (cases x)
  case (Inr fp)
  obtain ft plain where "fp = (ft, plain)" by fastforce
  with Inr show ?thesis using assms data [of ft plain] by (simp add: in_result_def)
next
  case (Inl e)
  show ?thesis
  proof (cases "src = t_peer t")
    case False
    then show ?thesis using assms Inl still by (simp add: in_result_def)
  next
    case True
    show ?thesis
    proof (cases "cf_hs_obf K")
      case (Some k)
      then show ?thesis using assms Inl True obf [of k] by (auto simp: in_result_def split: prod.splits)
    next
      case None
      then have cf: "in_clear_frame K now epoch open_tun src d faults (t, i) r = ((c, t', i'), r')"
        using assms Inl True by (simp add: in_result_def)
      show ?thesis
      proof (cases "fr_decode d")
        case (Inl e)
        with cf still show ?thesis by (simp add: in_clear_frame_def)
      next
        case (Inr f)
        with cf still clear [of f] clear_data [of f] show ?thesis
          by (auto simp: in_clear_frame_def guarded_def Let_def split: frame_type.splits prod.splits)
      qed
    qed
  qed
qed

lemma result_responded:
  assumes "in_result K now epoch open_tun tx_ok (src, d, x) faults (t, i) r = ((c, t', i'), r')" "pending_in (responded K) i"
  shows "pending_in (responded K) i'"
  using assms(1)
proof (cases rule: in_result_cases)
  case (data ft plain)
  from claim.arm_data_path [OF this] assms(2) show ?thesis by (simp add: pending_in_def)
next
  case (clear_data f)
  from claim.arm_clear_data [OF this] assms(2) show ?thesis by simp
qed (use assms(2) in \<open>auto dest: obf_handshake_pending clear_handshake_pending\<close>)

text \<open>A property of sessions that every handshake of the run establishes: as initiator while a rekey is in
  flight (\<open>rekeying\<close>), as responder by the confirmation of a handshake of which \<open>P\<close> is known.\<close>

locale established_sessions = session_property +
  fixes K :: tunnel_conf and P :: "handshake \<Rightarrow> bool" and rekeying :: bool
  assumes initiator: "rekeying \<Longrightarrow> hs_start (cf_lib K) (cf_auth K) (cf_pref K) r = Ok (h, w, r1) \<Longrightarrow>
      hs_finalize (cf_lib K) h raw (cf_auth K) q = Ok (HS_Established s, w', q') \<Longrightarrow> Q s"
    and responder: "P h \<Longrightarrow> hs_confirm (cf_lib K) h raw (cf_auth K) = Ok (HS_Established s) \<Longrightarrow> Q s"
begin

lemma arm_rekey_done:
  assumes "tunnel_all Q t" "out_rekey_done K envs faults now (t, o1) r = (t', o2)" "o_rekey o1 \<noteq> None \<Longrightarrow> rekeying"
  shows "tunnel_all Q t'"
proof (cases "o_rekey o1")
  case None
  then show ?thesis using assms by (simp add: out_rekey_done_def)
next
  case (Some rk)
  then have "rekeying" using assms(3) by simp
  obtain sink new_id where rk: "rk = (sink, new_id)" by fastforce
  obtain x m sent where run: "rekey_as_initiator (cf_lib K) sink (cf_auth K) (cf_pref K)
      (e_sessions (t_engine t)) new_id (cf_hs_obf K) envs faults r = (x, m, sent)" by (metis prod.exhaust)
  have "sessions_all Q m"
    using run by (rule rekey_initiator_cases) (use assms(1) \<open>rekeying\<close> in \<open>auto intro: manager_install initiator\<close>)
  then show ?thesis
    using assms(2) Some rk run
    by (auto simp: out_rekey_done_def Let_def manager_abort split: sum.splits)
qed

lemma confirmed:
  assumes "confirmed_install K (i_pending i) m m'" "pending_in P i" "sessions_all Q m"
  shows "sessions_all Q m'"
  using assms by (auto simp: confirmed_install_def pending_in_def intro!: manager_install dest: responder)

lemma arm_result:
  assumes "in_result K now epoch open_tun tx_ok (src, d, x) faults (t, i) r = ((c, t', i'), r')"
    "tunnel_all Q t" "pending_in P i"
  shows "tunnel_all Q t'"
  using assms(1)
proof (cases rule: in_result_cases)
  case (data ft plain)
  from traffic.arm_data_path [OF this] assms(2) show ?thesis by simp
next
  case (obf k)
  from obf_handshake_effect [OF this] assms(2,3) show ?thesis by (auto dest: confirmed)
next
  case (clear f r'')
  from clear_handshake_effect [OF this] assms(2,3) show ?thesis by (auto dest: confirmed)
next
  case (clear_data f)
  from traffic.arm_clear_data [OF this] assms(2) show ?thesis by simp
qed (use assms(2) in simp)

end

section \<open>The lineage of the keys\<close>

text \<open>Two sessions with the same keys, salts and identifier.\<close>

definition same_keys :: "session \<Rightarrow> session \<Rightarrow> bool" where
  "same_keys a b \<longleftrightarrow> b = a\<lparr> s_tx_counter := s_tx_counter b, s_replay := s_replay b \<rparr>"

lemma same_keys_refl [simp]: "same_keys s s"
  by (simp add: same_keys_def)

lemma same_keys_update [simp]:
  "same_keys a (b\<lparr> s_tx_counter := n \<rparr>) = same_keys a b" "same_keys a (b\<lparr> s_replay := w \<rparr>) = same_keys a b"
  by (cases a, cases b, simp add: same_keys_def)+

lemma same_keys_trans: "same_keys a b \<Longrightarrow> same_keys b c \<Longrightarrow> same_keys a c"
  by (cases a, cases b, cases c) (simp add: same_keys_def)

text \<open>What proves the peer's identity, in terms of its signature. As initiator: a Response to the Init
  this side made itself, whose signature verifies under the pinned keys over the responder's label and the
  transcript of both messages, and whose MAC is made with the secret from which the session's keys come.\<close>

definition response_proof :: "tunnel_conf \<Rightarrow> session \<Rightarrow> bool" where
  "response_proof K s \<longleftrightarrow>
     (\<exists>q x sk t w q' raw m th shared chosen s1.
        hs_start (cf_lib K) (cf_auth K) (cf_pref K) q = Ok (HS_SentInit x sk t, w, q') \<and>
        hs_decode raw = Ok m \<and> hm_type m = HT_Response \<and>
        th = transcript_hash (cf_lib K) (absorb t (transcript_bytes m)) \<and>
        auth_verify (cf_lib K) (cf_auth K) (role_bound_hash (cf_lib K) SIG_LABEL_RESPONDER th) (hm_sig m) = Ok () \<and>
        shared = derive_shared (cf_lib K) (c_x_dh (cf_lib K) x (hm_x m)) (c_kem_decaps (cf_lib K) (mlkem_ct m) sk) \<and>
        hm_mac m = c_hmac (cf_lib K) (mac_key_from (cf_lib K) shared) th \<and>
        from_handshake_with_algo (cf_lib K) (derive_session_id (cf_lib K) shared) shared True chosen = Ok s1 \<and>
        same_keys s1 s)"

text \<open>As responder, for the handshake \<open>h\<close>: a Confirm whose signature verifies under the pinned keys over the
  initiator's label and the transcript of \<open>h\<close>; the session is the one \<open>h\<close> prepared.\<close>

definition confirm_proof :: "tunnel_conf \<Rightarrow> handshake \<Rightarrow> session \<Rightarrow> bool" where
  "confirm_proof K h s \<longleftrightarrow>
     (\<exists>s1 th raw m. h = HS_SentResponse s1 th \<and> hs_decode raw = Ok m \<and> hm_type m = HT_Confirm \<and>
        auth_verify (cf_lib K) (cf_auth K) (role_bound_hash (cf_lib K) SIG_LABEL_INITIATOR th) (hm_sig m) = Ok () \<and>
        same_keys s1 s)"

lemma finalize_proof:
  assumes "hs_start (cf_lib K) (cf_auth K) (cf_pref K) r = Ok (h, w, r1)"
    "hs_finalize (cf_lib K) h raw (cf_auth K) q = Ok (HS_Established s, w', q')"
  shows "response_proof K s"
  using assms(2)
proof (rule hs_finalize_OkD)
  fix x sk t m shared th s' chosen
  assume a: "h = HS_SentInit x sk t" "hs_decode raw = Ok m" "hm_type m = HT_Response"
    "shared = derive_shared (cf_lib K) (c_x_dh (cf_lib K) x (hm_x m)) (c_kem_decaps (cf_lib K) (mlkem_ct m) sk)"
    "th = transcript_hash (cf_lib K) (absorb t (transcript_bytes m))"
    "auth_verify (cf_lib K) (cf_auth K) (role_bound_hash (cf_lib K) SIG_LABEL_RESPONDER th) (hm_sig m) = Ok ()"
    "hm_mac m = c_hmac (cf_lib K) (mac_key_from (cf_lib K) shared) th"
    "from_handshake_with_algo (cf_lib K) (derive_session_id (cf_lib K) shared) shared True chosen = Ok s'"
    "HS_Established s = HS_Established s'"
  have "same_keys s' s" using a(9) by simp
  then show ?thesis using assms(1) a(1-8) unfolding response_proof_def by blast
qed

lemma confirm_proofI:
  assumes "hs_confirm (cf_lib K) h raw (cf_auth K) = Ok (HS_Established s)"
  shows "confirm_proof K h s"
proof -
  obtain s1 th m where "h = HS_SentResponse s1 th" "hs_decode raw = Ok m" "hm_type m = HT_Confirm"
    "auth_verify (cf_lib K) (cf_auth K) (role_bound_hash (cf_lib K) SIG_LABEL_INITIATOR th) (hm_sig m) = Ok ()" "s = s1"
    using assms by (cases h) (auto simp: rbind_eq_Ok split: if_splits sum.splits)
  then show ?thesis unfolding confirm_proof_def using same_keys_refl by blast
qed

lemma proof_update [simp]:
  "response_proof K (s\<lparr> s_tx_counter := n \<rparr>) = response_proof K s" "response_proof K (s\<lparr> s_replay := w \<rparr>) = response_proof K s"
  "confirm_proof K h (s\<lparr> s_tx_counter := n \<rparr>) = confirm_proof K h s" "confirm_proof K h (s\<lparr> s_replay := w \<rparr>) = confirm_proof K h s"
  by (simp_all add: response_proof_def confirm_proof_def)

text \<open>Where a session comes from in one step, when \<open>m\<close> holds the sessions before it, \<open>pending\<close> is the handshake
  the responder keeps and \<open>rekeying\<close> says whether a rekey is in flight.\<close>

definition holds_keys :: "manager \<Rightarrow> session \<Rightarrow> bool" where
  "holds_keys m s \<longleftrightarrow> same_keys (m_current m) s \<or> (\<exists>p. m_previous m = Some p \<and> same_keys p s)"

definition proved :: "tunnel_conf \<Rightarrow> (handshake \<times> u32) option \<Rightarrow> bool \<Rightarrow> session \<Rightarrow> bool" where
  "proved K pending rekeying s \<longleftrightarrow>
     rekeying \<and> response_proof K s \<or> (\<exists>h new_id. pending = Some (h, new_id) \<and> confirm_proof K h s)"

definition kept_or_proved :: "tunnel_conf \<Rightarrow> manager \<Rightarrow> (handshake \<times> u32) option \<Rightarrow> bool \<Rightarrow> session \<Rightarrow> bool" where
  "kept_or_proved K m pending rekeying s \<longleftrightarrow> holds_keys m s \<or> proved K pending rekeying s"

interpretation proved: established_sessions "kept_or_proved K m pending rekeying" K
  "\<lambda>h. \<exists>new_id. pending = Some (h, new_id)" rekeying for K m pending rekeying
proof unfold_locales
  show "kept_or_proved K m pending rekeying (s\<lparr> s_tx_counter := n \<rparr>) = kept_or_proved K m pending rekeying s" for s n
    by (simp add: kept_or_proved_def holds_keys_def proved_def)
  show "kept_or_proved K m pending rekeying (s\<lparr> s_replay := w \<rparr>) = kept_or_proved K m pending rekeying s" for s w
    by (simp add: kept_or_proved_def holds_keys_def proved_def)
next
  fix r h w r1 raw q s w' q'
  assume "rekeying" "hs_start (cf_lib K) (cf_auth K) (cf_pref K) r = Ok (h, w, r1)"
    "hs_finalize (cf_lib K) h raw (cf_auth K) q = Ok (HS_Established s, w', q')"
  then show "kept_or_proved K m pending rekeying s" using finalize_proof unfolding kept_or_proved_def proved_def by blast
next
  fix h raw s
  assume "\<exists>new_id. pending = Some (h, new_id)" "hs_confirm (cf_lib K) h raw (cf_auth K) = Ok (HS_Established s)"
  then show "kept_or_proved K m pending rekeying s" using confirm_proofI unfolding kept_or_proved_def proved_def by blast
qed

section \<open>Well-formed sessions\<close>

text \<open>The limits and lengths the data path relies on: the nonces of the two directions differ, and the
  counters end at \<open>2 ^ 48\<close>.\<close>

definition session_typed :: "session \<Rightarrow> bool" where
  "session_typed s \<longleftrightarrow> session_wf s \<and> s_tx_salt s \<noteq> s_rx_salt s \<and> s_rekey_at s = 2 ^ 48"

lemma from_handshake_typed:
  assumes "crypto_ok C" "from_handshake_with_algo C i sh ini algo = Ok s"
  shows "session_typed s"
proof -
  have "session_wf s" "s_rekey_at s = 2 ^ 48"
    using from_handshake_total [OF assms(1), of i sh ini algo] assms(2) by (metis sum.inject(2))+
  moreover have "s_tx_salt s \<noteq> s_rx_salt s"
    using assms(2) by (cases ini) (auto simp: from_handshake_with_algo_def rbind_eq_Ok Let_def split: prod.splits)
  ultimately show ?thesis by (simp add: session_typed_def)
qed

lemma finalize_typed:
  assumes "crypto_ok C" "hs_finalize C h raw auth q = Ok (HS_Established s, w, q')"
  shows "session_typed s"
  using assms(2)
  by (cases h) (auto simp: rbind_eq_Ok Let_def split: if_splits dest: from_handshake_typed [OF assms(1)])

lemma respond_typed:
  assumes "crypto_ok C" "hs_respond C auth pref w r = Ok (h, w', r')"
    "hs_confirm C h raw auth' = Ok (HS_Established s)"
  shows "session_typed s"
proof -
  have "\<exists>s th. h = HS_SentResponse s th \<and> session_typed s"
    using assms(2)
    by (auto simp: hs_respond_def rbind_eq_Ok Let_def split: if_splits prod.splits
        dest: from_handshake_typed [OF assms(1)])
  then show ?thesis
    using assms(3) by (auto simp: rbind_eq_Ok split: if_splits sum.splits)
qed

text \<open>On correct primitives.\<close>

definition typed_on :: "tunnel_conf \<Rightarrow> session \<Rightarrow> bool" where
  "typed_on K s \<longleftrightarrow> (crypto_ok (cf_lib K) \<longrightarrow> session_typed s)"

interpretation typed: established_sessions "typed_on K" K "responded K" True for K
proof unfold_locales
  show "typed_on K (s\<lparr> s_tx_counter := n \<rparr>) = typed_on K s" for s n
    by (simp add: typed_on_def session_typed_def session_wf_def)
  show "typed_on K (s\<lparr> s_replay := w \<rparr>) = typed_on K s" for s w
    by (simp add: typed_on_def session_typed_def session_wf_def)
next
  fix r h w r1 raw q s w' q'
  assume "hs_finalize (cf_lib K) h raw (cf_auth K) q = Ok (HS_Established s, w', q')"
  then show "typed_on K s" by (auto simp: typed_on_def dest: finalize_typed)
next
  fix h raw s
  assume "responded K h" "hs_confirm (cf_lib K) h raw (cf_auth K) = Ok (HS_Established s)"
  then show "typed_on K s" by (auto simp: typed_on_def responded_def dest: respond_typed)
qed

end
