(* ===== verification/Tunnel.thy ===== *)
theory Tunnel
  imports Lineage
begin

text \<open>
  A whole tunnel (\<open>run_tunnel_loops\<close> of \<open>src/tunnel_loops.rs\<close>): the three loops, the two senders and
  the tasks they spawn, as one state and a step relation with a rule per arm of a \<open>select!\<close> or per
  turn of a task. Which step comes next, what the network delivers, every clock reading, every
  random stream and every pool order are free. A step that ends a loop ends the tunnel
  (\<open>tasks.join_next\<close>, then \<open>tasks.shutdown\<close>).
\<close>

text \<open>\<open>n_jobs\<close> are the decrypted batches whose results were not consumed yet, \<open>n_batch\<close> is the rest of
  the batch the inbound loop is working on, \<open>n_kept\<close> the ticket the sequential sender remembers.\<close>

type_synonym decrypt_item = "sock_addr \<times> bytes \<times> (frame_type \<times> bytes) result"

record node =
  n_tun :: tunnel
  n_out :: out_state
  n_in :: in_state
  n_kept :: "ticket option"
  n_jobs :: "decrypt_item list list"
  n_batch :: "decrypt_item list"
  n_up :: bool

text \<open>The state \<open>run_tunnel_loops\<close> sets up; \<open>next_id\<close> is the process-wide session id counter.\<close>

definition tunnel_start ::
  "tunnel_conf \<Rightarrow> engine \<Rightarrow> sock_addr \<Rightarrow> u32 \<Rightarrow> effective_traffic \<Rightarrow> u64 \<Rightarrow> node" where
  "tunnel_start K e peer next_id eff epoch =
     (let p = cf_params K; (c, o1) = out_start K
      in \<lparr> n_tun = \<lparr> t_engine = e, t_peer = peer,
             t_profile = (case wire_id (tp_profile p) of Some i \<Rightarrow> i | None \<Rightarrow> NO_PROFILE),
             t_connected = True, t_tx_bytes = 0, t_rx_bytes = 0, t_last_recv_epoch = 0, t_last_recv = epoch,
             t_rekeying = False, t_paced = tp_traffic_enabled p \<and> tp_obf_enabled p,
             t_hs_chan = [], t_hs_send = [], t_order = [], t_send = [], t_next_id = next_id,
             t_watch = eff, t_retire = [], t_resend = [], t_to_tun = [], t_wire = [] \<rparr>,
           n_out = o1, n_in = in_init, n_kept = None, n_jobs = [], n_batch = [], n_up = (c = Go) \<rparr>)"

definition move :: "node \<Rightarrow> loop_ctl \<Rightarrow> tunnel \<Rightarrow> out_state \<Rightarrow> node" where
  "move n c t o1 = n\<lparr> n_tun := t, n_out := o1, n_up := (c = Go) \<rparr>"

text \<open>\<open>sw\<close> tells the live switches apart from all other steps. The rekey driver hands a datagram to the
  pacer only when its channel has room.\<close>

inductive tunnel_step :: "tunnel_conf \<Rightarrow> bool \<Rightarrow> node \<Rightarrow> node \<Rightarrow> bool" for K where
  recv: "n_up n \<Longrightarrow> length drained \<le> MAX_BATCH \<Longrightarrow>
    out_recv K drained rs panics gone (n_tun n, n_out n) = (c, t, o1) \<Longrightarrow> tunnel_step K False n (move n c t o1)"
| tick: "n_up n \<Longrightarrow> out_tick K nows now gone (n_tun n, n_out n) r = ((c, t, o1), r') \<Longrightarrow>
    tunnel_step K False n (move n c t o1)"
| rekey_send: "n_up n \<Longrightarrow> o_rekey (n_out n) = Some (sink, i) \<Longrightarrow>
    sink = SinkPaced \<longrightarrow> length (t_hs_send (n_tun n)) < HS_SEND_CHANNEL \<Longrightarrow>
    out_rekey_send d (n_tun n, n_out n) = (t, o1) \<Longrightarrow> tunnel_step K False n (move n Go t o1)"
| rekey_take: "n_up n \<Longrightarrow> out_rekey_take (n_tun n, n_out n) = (t, o1) \<Longrightarrow> tunnel_step K False n (move n Go t o1)"
| rekey_done: "n_up n \<Longrightarrow> out_rekey_done K envs faults now (n_tun n, n_out n) r = (t, o1) \<Longrightarrow>
    tunnel_step K False n (move n Go t o1)"
| switch: "n_up n \<Longrightarrow> o_live (n_out n) \<Longrightarrow> changed = None \<or> changed = Some (t_watch (n_tun n)) \<Longrightarrow>
    out_switch K changed now gone (n_tun n, n_out n) r = ((c, t, o1), r') \<Longrightarrow>
    tunnel_step K True n (move n c t o1)"
| retune: "n_up n \<Longrightarrow> tunnel_step K False n (n\<lparr> n_tun := (n_tun n)\<lparr> t_watch := eff \<rparr> \<rparr>)"
| sender: "n_up n \<Longrightarrow> tunnel_step K False n (n\<lparr> n_tun := sender_task K (n_tun n) \<rparr>)"
| sequential: "n_up n \<Longrightarrow> sequential_sender K ready (n_kept n) (n_tun n) = (kept, t) \<Longrightarrow>
    tunnel_step K False n (n\<lparr> n_tun := t, n_kept := kept \<rparr>)"
| resend: "n_up n \<Longrightarrow> (at_time, i) \<in> set (t_resend (n_tun n)) \<Longrightarrow> resend_profile K i (n_tun n) r = (t, r') \<Longrightarrow>
    tunnel_step K False n (n\<lparr> n_tun := t\<lparr> t_resend := remove1 (at_time, i) (t_resend t) \<rparr> \<rparr>)"
| retire: "n_up n \<Longrightarrow> at_time \<in> set (t_retire (n_tun n)) \<Longrightarrow>
    tunnel_step K False n (n\<lparr> n_tun := (with_sessions (sm_retire_previous (e_sessions (t_engine (n_tun n)))) (n_tun n))
      \<lparr> t_retire := remove1 at_time (t_retire (n_tun n)) \<rparr> \<rparr>)"
| prune: "n_up n \<Longrightarrow> tunnel_step K False n (n\<lparr> n_in := in_prune now (n_in n) \<rparr>)"
| udp_recv: "n_up n \<Longrightarrow> in_recv K storage metas count ord panics (n_tun n) = (items, t) \<Longrightarrow>
    tunnel_step K False n (n\<lparr> n_tun := t, n_jobs := n_jobs n @ [items] \<rparr>)"
| consume: "n_up n \<Longrightarrow> n_batch n = [] \<Longrightarrow> items \<in> set (n_jobs n) \<Longrightarrow>
    tunnel_step K False n (n\<lparr> n_batch := items, n_jobs := remove1 items (n_jobs n) \<rparr>)"
| item: "n_up n \<Longrightarrow> n_batch n = (src, d, x) # items \<Longrightarrow>
    in_result K now epoch open_tun tx_ok (src, d, x) faults (n_tun n, n_in n) r = ((c, t, i), r') \<Longrightarrow>
    tunnel_step K False n (n\<lparr> n_tun := t, n_in := i, n_batch := items, n_up := (c = Go) \<rparr>)"
| keepalive: "n_up n \<Longrightarrow> ka_tick K epoch (n_tun n) r = ((c, t), r') \<Longrightarrow>
    tunnel_step K False n (n\<lparr> n_tun := t, n_up := (c = Go) \<rparr>)"
| teardown: "\<not> n_up n \<Longrightarrow> tunnel_step K False n (n\<lparr> n_tun := (n_tun n)\<lparr> t_connected := False \<rparr> \<rparr>)"

definition tunnel_reach :: "tunnel_conf \<Rightarrow> node \<Rightarrow> node \<Rightarrow> bool" where
  "tunnel_reach K = (\<lambda>n n'. \<exists>sw. tunnel_step K sw n n')\<^sup>*\<^sup>*"

section \<open>The invariant\<close>

definition control_ok :: "tunnel_conf \<Rightarrow> tunnel \<Rightarrow> out_state \<Rightarrow> bool" where
  "control_ok K t o1 \<longleftrightarrow>
     (t_rekeying t \<longleftrightarrow> o_rekey o1 \<noteq> None) \<and>
     (m_in_progress (e_sessions (t_engine t)) \<noteq> 0 \<longrightarrow> o_rekey o1 \<noteq> None) \<and>
     (t_paced t \<longleftrightarrow> o_paced o1) \<and> (o_paced o1 \<longrightarrow> tp_obf_enabled (cf_params K)) \<and>
     length (o_pending o1) \<le> 4096 \<and> 1 \<le> o_burst o1"

text \<open>A step that touches only what \<open>control_ok\<close> does not look at.\<close>

lemma control_frame:
  assumes "control_ok K t o1" "t_rekeying t' = t_rekeying t" "t_paced t' = t_paced t"
    "m_in_progress (e_sessions (t_engine t')) = m_in_progress (e_sessions (t_engine t))"
    "o_rekey o2 = o_rekey o1" "o_paced o2 = o_paced o1" "o_burst o2 = o_burst o1" "length (o_pending o2) \<le> 4096"
  shows "control_ok K t' o2"
  using assms by (simp add: control_ok_def)

lemma stage_bounded: "length pend \<le> 4096 \<Longrightarrow> length (stage pend ds) \<le> 4096"
  by (simp add: stage_take)

lemma send_frame [simp]:
  "t_rekeying (send_batch K ds t) = t_rekeying t" "t_paced (send_batch K ds t) = t_paced t"
  by (simp_all add: send_batch_def)

lemma sender_frame [simp]:
  "t_rekeying (sender_task K t) = t_rekeying t" "t_paced (sender_task K t) = t_paced t"
  by (auto simp: sender_task_def split: list.splits)

lemma drain_frame [simp]:
  "t_rekeying (drain_sender K t) = t_rekeying t" "t_paced (drain_sender K t) = t_paced t"
proof -
  have "t_rekeying ((sender_task K ^^ n) t) = t_rekeying t \<and> t_paced ((sender_task K ^^ n) t) = t_paced t" for n
    by (induction n) simp_all
  then show "t_rekeying (drain_sender K t) = t_rekeying t" "t_paced (drain_sender K t) = t_paced t"
    by (simp_all add: drain_sender_def)
qed

lemma profile_frame: "send_profile_frame C a pad i t r = (t', r') \<Longrightarrow>
    t_rekeying t' = t_rekeying t \<and> t_paced t' = t_paced t \<and> t_hs_send t' = t_hs_send t"
  by (auto simp: send_profile_frame_def Let_def with_sessions_def send_to_def split: prod.splits sum.splits)

lemma recv_control:
  assumes "out_recv K drained rs panics gone (t, o1) = (c, t', o2)" "control_ok K t o1"
  shows "control_ok K t' o2"
proof -
  have "t_rekeying t' = t_rekeying t \<and> t_paced t' = t_paced t \<and> o_rekey o2 = o_rekey o1 \<and> o_paced o2 = o_paced o1 \<and>
      o_burst o2 = o_burst o1 \<and> length (o_pending o2) \<le> 4096"
    using assms
    by (auto simp: out_recv_def Let_def control_ok_def stage_bounded split: prod.splits sum.splits if_splits)
  then show ?thesis
    using claim.arm_recv [OF assms(1)] by (intro control_frame [OF assms(2)]) simp_all
qed

lemma slot_queues:
  "paced_slot C n nows (e, hq, pend, p, r) = (ds, e', hq', pend', p', r') \<Longrightarrow>
    length pend' \<le> length pend \<and> (\<exists>k. hq' = drop k hq)"
proof (induction n arbitrary: nows e hq pend p r ds)
  case 0
  then show ?case by (auto intro: exI [of _ 0])
next
  case (Suc n)
  show ?case
  proof (cases hq)
    case Nil
    with Suc.prems show ?thesis
      by (auto simp: Let_def split: prod.splits emit.splits list.splits sum.splits dest!: Suc.IH)
  next
    case (Cons d hq1)
    with Suc.prems obtain ds1 where "paced_slot C n nows (e, hq1, pend, p, r) = (ds1, e', hq', pend', p', r')"
      by (auto split: prod.splits)
    from Suc.IH [OF this] obtain k where "length pend' \<le> length pend" "hq' = drop k hq1" by blast
    then show ?thesis using Cons by (auto intro: exI [of _ "Suc k"])
  qed
qed

lemma paced_control:
  assumes "tick_paced K nows (t, o1) r = ((t', o2), r')" "control_ok K t o1"
  shows "control_ok K t' o2"
proof -
  have "t_rekeying t' = t_rekeying t \<and> t_paced t' = t_paced t \<and> o_rekey o2 = o_rekey o1 \<and> o_paced o2 = o_paced o1 \<and>
      o_burst o2 = o_burst o1 \<and> length (o_pending o2) \<le> length (o_pending o1)"
    using assms(1) by (auto simp: tick_paced_def Let_def dest: slot_queues split: prod.splits)
  then show ?thesis
    using claim.arm_paced [OF assms(1)] assms(2)
    by (intro control_frame [OF assms(2)]) (auto simp: control_ok_def)
qed

lemma residue_control:
  assumes "ship_residue K gone (t, o1) r = ((c, t', o2), r')" "control_ok K t o1"
  shows "control_ok K t' o2"
proof -
  have "t_rekeying t' = t_rekeying t \<and> t_paced t' = t_paced t \<and> o_rekey o2 = o_rekey o1 \<and> o_paced o2 = o_paced o1 \<and>
      o_burst o2 = o_burst o1 \<and> o_pending o2 = []"
    using assms(1) by (auto simp: ship_residue_def Let_def split: prod.splits sum.splits if_splits)
  then show ?thesis
    using claim.arm_residue [OF assms(1)] by (intro control_frame [OF assms(2)]) simp_all
qed

lemma trigger_control:
  assumes "rekey_trigger now (t, o1) = (t', o2)" "control_ok K t o1"
  shows "control_ok K t' o2"
  using assms
  by (auto simp: rekey_trigger_def Let_def control_ok_def with_sessions_def sm_needs_rekey_def sm_rekey_claim_def
      split: prod.splits if_splits)

lemma tick_control:
  assumes "out_tick K nows now gone (t, o1) r = ((c, t', o2), r')" "control_ok K t o1"
  shows "control_ok K t' o2"
  using assms
  by (auto simp: out_tick_def split: prod.splits loop_ctl.splits if_splits
      intro: trigger_control paced_control residue_control)

lemma rekey_done_control:
  assumes "out_rekey_done K envs faults now (t, o1) r = (t', o2)" "control_ok K t o1"
  shows "control_ok K t' o2"
proof (cases "o_rekey o1")
  case None
  then show ?thesis using assms by (simp add: out_rekey_done_def)
next
  case (Some rk)
  obtain sink new_id where rk: "rk = (sink, new_id)" by fastforce
  obtain x m sent where run: "rekey_as_initiator (cf_lib K) sink (cf_auth K) (cf_pref K)
      (e_sessions (t_engine t)) new_id (cf_hs_obf K) envs faults r = (x, m, sent)" by (metis prod.exhaust)
  have "is_ok x \<longrightarrow> m_in_progress m = 0"
    using run by (rule rekey_initiator_cases) (simp_all add: sm_install_def)
  then show ?thesis
    using assms Some rk run
    by (auto simp: out_rekey_done_def Let_def control_ok_def with_sessions_def sm_abort_rekey_def split: sum.splits)
qed

lemma announce_frame: "announce_switch K wid now t r = (t', r') \<Longrightarrow>
    t_rekeying t' = t_rekeying t \<and> t_paced t' = t_paced t \<and> t_hs_send t' = t_hs_send t"
  by (auto simp: announce_switch_def Let_def dest!: profile_frame split: option.splits prod.splits if_splits)

lemma switch_control:
  assumes "out_switch K changed now gone (t, o1) r = ((c, t', o2), r')" "control_ok K t o1"
  shows "control_ok K t' o2"
proof (cases changed)
  case None
  then show ?thesis using assms by (auto simp: out_switch_def control_ok_def)
next
  case (Some eff)
  define np where "np = (et_enabled eff \<and> tp_obf_enabled (cf_params K))"
  define t1 where "t1 = (if \<not> o_paced o1 \<and> np then drain_sender K t else t)"
  obtain c1 t2 o3 r1 where res: "switch_residue K np gone (t1, o1) r = ((c1, t2, o3), r1)"
    by (metis prod.exhaust)
  have "control_ok K t1 o1" using assms(2) by (auto simp: t1_def control_ok_def)
  then have ctl: "control_ok K t2 o3"
    using res by (auto simp: switch_residue_def intro: residue_control split: if_splits)
  show ?thesis
  proof (cases c1)
    case Stop
    with assms(1) res Some ctl show ?thesis
      by (simp add: out_switch_def Let_def np_def [symmetric] t1_def [symmetric])
  next
    case Go
    obtain t3 r2 where ann: "announce_switch K (wire_id (et_profile eff)) now (t2\<lparr> t_paced := np \<rparr>) r1 = (t3, r2)"
      by fastforce
    have "m_in_progress (e_sessions (t_engine t3)) = m_in_progress (e_sessions (t_engine t2))"
      using claim.arm_announce [OF ann] by simp
    moreover have "t' = t3" "o2 = apply_pacing K eff (o3\<lparr> o_paced := np \<rparr>)"
      using assms(1) res Some Go ann
      by (simp_all add: out_switch_def Let_def np_def [symmetric] t1_def [symmetric])
    ultimately show ?thesis
      using ctl announce_frame [OF ann] by (auto simp: control_ok_def apply_pacing_def slot_burst_def np_def)
  qed
qed

lemma decrypt_claim [simp]: "m_in_progress (snd (sm_decrypt C m i c ct)) = m_in_progress m"
  using claim.decrypt [of C m i c ct] by (metis prod.collapse)

lemma result_control:
  assumes "in_result K now epoch open_tun tx_ok (src, d, x) faults (t, i) r = ((c, t', i'), r')" "control_ok K t o1"
  shows "control_ok K t' o1"
proof (cases x)
  case (Inl e)
  with rejected_effect [of K now epoch open_tun tx_ok src d e] assms(1)
  have e: "t_rekeying t' = t_rekeying t" "t_paced t' = t_paced t"
    "e_sessions (t_engine t') = e_sessions (t_engine t) \<or>
     clear_opened K (e_sessions (t_engine t)) (e_sessions (t_engine t')) \<or>
     confirmed_install K (i_pending i) (e_sessions (t_engine t)) (e_sessions (t_engine t'))"
    by blast+
  then have "m_in_progress (e_sessions (t_engine t')) = m_in_progress (e_sessions (t_engine t)) \<or>
      m_in_progress (e_sessions (t_engine t')) = 0"
    by (auto simp: clear_opened_def confirmed_install_def sm_install_def)
  with e(1,2) assms(2) show ?thesis by (auto simp: control_ok_def)
next
  case (Inr fp)
  obtain ft plain where fp: "fp = (ft, plain)" by fastforce
  with Inr assms(1) have dp: "in_data_path K now epoch open_tun tx_ok src ft plain (t, i) = (c, t', i')"
    by (simp add: in_result_def)
  then have "t_rekeying t' = t_rekeying t \<and> t_paced t' = t_paced t"
    by (auto simp: in_data_path_def Let_def split: frame_type.splits if_splits prod.splits elim!: in_profile_cases)
  then show ?thesis
    using claim.arm_data_path [OF dp] assms(2) by (simp add: control_ok_def)
qed

section \<open>Every step keeps the invariant\<close>

lemma move_simps [simp]:
  "n_tun (move n c t o1) = t" "n_out (move n c t o1) = o1" "n_in (move n c t o1) = n_in n"
  "n_up (move n c t o1) = (c = Go)"
  by (simp_all add: move_def)

lemma rekey_io_frame:
  "out_rekey_send d (t, o1) = (t', o2) \<Longrightarrow> t_engine t' = t_engine t \<and> t_rekeying t' = t_rekeying t \<and> t_paced t' = t_paced t \<and> o2 = o1"
  "out_rekey_take (t, o1) = (t', o2) \<Longrightarrow> t_engine t' = t_engine t \<and> t_rekeying t' = t_rekeying t \<and> t_paced t' = t_paced t \<and> o2 = o1"
  by (auto simp: out_rekey_send_def out_rekey_take_def send_to_def split: option.splits handshake_sink.splits if_splits)

lemma keepalive_frame:
  "ka_tick K epoch t r = ((c, t'), r') \<Longrightarrow> t_rekeying t' = t_rekeying t \<and> t_paced t' = t_paced t \<and> t_hs_send t' = t_hs_send t"
  by (auto simp: ka_tick_def ka_frame_def Let_def with_sessions_def send_to_def
      split: prod.splits option.splits sum.splits if_splits dest!: profile_frame)

lemma recv_frame:
  "in_recv K storage metas count ord panics t = (items, t') \<Longrightarrow>
    t_rekeying t' = t_rekeying t \<and> t_paced t' = t_paced t \<and> t_hs_send t' = t_hs_send t"
  by (auto simp: in_recv_def Let_def split: prod.splits sum.splits)

lemma resend_frame:
  "resend_profile K i t r = (t', r') \<Longrightarrow>
    t_rekeying t' = t_rekeying t \<and> t_paced t' = t_paced t \<and> t_hs_send t' = t_hs_send t"
  by (auto simp: resend_profile_def dest: profile_frame split: if_splits)

lemma sequential_frame:
  "sequential_sender K ready kept t = (kept', t') \<Longrightarrow>
    t_rekeying t' = t_rekeying t \<and> t_paced t' = t_paced t \<and> t_hs_send t' = t_hs_send t"
  by (auto simp: sequential_sender_def send_batch_def split: option.splits prod.splits if_splits)

lemma control_untouched:
  "control_ok K t o1 \<Longrightarrow> t_engine t' = t_engine t \<Longrightarrow> t_rekeying t' = t_rekeying t \<Longrightarrow> t_paced t' = t_paced t \<Longrightarrow>
    control_ok K t' o1"
  by (simp add: control_ok_def)

lemma step_control: "tunnel_step K sw n n' \<Longrightarrow> control_ok K (n_tun n) (n_out n) \<Longrightarrow> control_ok K (n_tun n') (n_out n')"
proof (induction rule: tunnel_step.induct)
  case (sequential n ready kept t)
  then show ?case
    using sequential_frame sequential_sender_engine by (fastforce intro: control_untouched)
next
  case (resend n at_time i r t r')
  have "control_ok K t (n_out n)"
    using resend.prems resend_frame [OF resend.hyps(3)] claim.arm_resend [OF resend.hyps(3)]
    by (simp add: control_ok_def)
  then show ?case by (simp add: control_ok_def)
next
  case (udp_recv n storage metas count ord panics items t)
  then show ?case
    using recv_frame [OF udp_recv.hyps(2)] claim.arm_in_recv [OF udp_recv.hyps(2)] by (simp add: control_ok_def)
next
  case (keepalive n epoch r c t r')
  then show ?case
    using keepalive_frame [OF keepalive.hyps(2)] claim.arm_keepalive [OF keepalive.hyps(2)]
    by (simp add: control_ok_def)
next
  case (retire n at_time)
  then show ?case by (simp add: control_ok_def with_sessions_def sm_retire_previous_def)
next
  case (rekey_send n sink i d t o1)
  then show ?case using rekey_io_frame(1) [OF rekey_send.hyps(4)] by (auto simp: control_ok_def)
next
  case (rekey_take n t o1)
  then show ?case using rekey_io_frame(2) [OF rekey_take.hyps(2)] by (auto simp: control_ok_def)
qed (auto intro: recv_control tick_control rekey_done_control switch_control result_control
  simp: control_ok_def [of K "(n_tun n)\<lparr> t_watch := eff \<rparr>" for n eff]
    control_ok_def [of K "(n_tun n)\<lparr> t_connected := x \<rparr>" for n x] control_ok_def [of K "sender_task K t" for t]
    control_ok_def [of K "n_tun n" for n])

lemma frame_sessions:
  "t_engine (sender_task K t) = t_engine t" "tunnel_all Q (t\<lparr> t_watch := eff \<rparr>) = tunnel_all Q t"
  "tunnel_all Q (t\<lparr> t_connected := b \<rparr>) = tunnel_all Q t" "tunnel_all Q (t\<lparr> t_resend := xs \<rparr>) = tunnel_all Q t"
  "tunnel_all Q (t\<lparr> t_retire := ys \<rparr>) = tunnel_all Q t"
  by simp_all

lemma step_responded:
  "tunnel_step K sw n n' \<Longrightarrow> pending_in (responded K) (n_in n) \<Longrightarrow> pending_in (responded K) (n_in n')"
proof (induction rule: tunnel_step.induct)
  case (item n src d x items now epoch open_tun tx_ok faults r c t i r')
  then show ?case using result_responded by simp
next
  case (prune n now)
  then show ?case by (simp add: in_prune_def pending_in_def)
qed simp_all

context established_sessions
begin

lemma step_sessions:
  "tunnel_step K sw n n' \<Longrightarrow> tunnel_all Q (n_tun n) \<Longrightarrow> pending_in P (n_in n) \<Longrightarrow>
    (o_rekey (n_out n) \<noteq> None \<Longrightarrow> rekeying) \<Longrightarrow> tunnel_all Q (n_tun n')"
proof (induction rule: tunnel_step.induct)
  case (retire n at_time)
  then show ?case by (simp add: manager_retire)
next
  case (rekey_send n sink i d t o1)
  then show ?case using rekey_io_frame(1) [OF rekey_send.hyps(4)] by simp
next
  case (rekey_take n t o1)
  then show ?case using rekey_io_frame(2) [OF rekey_take.hyps(2)] by simp
next
  case (rekey_done n envs faults now r t o1)
  then show ?case using arm_rekey_done [OF rekey_done.prems(1) rekey_done.hyps(2)] by simp
next
  case (sequential n ready kept t)
  then show ?case by (simp add: sequential_sender_engine)
next
  case (item n src d x items now epoch open_tun tx_ok faults r c t i r')
  then show ?case using arm_result by simp
next
  case (resend n at_time i r t r')
  then show ?case using traffic.arm_resend [OF resend.hyps(3)] by simp
next
  case (udp_recv n storage metas count ord panics items t)
  then show ?case using traffic.arm_in_recv [OF udp_recv.hyps(2)] by simp
next
  case (keepalive n epoch r c t r')
  then show ?case using traffic.arm_keepalive [OF keepalive.hyps(2)] by simp
qed (auto dest: traffic.arm_recv arm_tick traffic.arm_switch)

lemma reach_sessions:
  assumes "tunnel_reach K n n'" "tunnel_all Q (n_tun n)" "pending_in (responded K) (n_in n)"
    "rekeying" "\<And>h. responded K h \<Longrightarrow> P h"
  shows "tunnel_all Q (n_tun n')"
proof -
  have P: "pending_in (responded K) i \<Longrightarrow> pending_in P i" for i using assms(5) by (auto simp: pending_in_def)
  have "tunnel_all Q (n_tun n') \<and> pending_in (responded K) (n_in n')"
    using assms(1) unfolding tunnel_reach_def
    by (induction rule: rtranclp_induct) (use assms(2-4) step_sessions step_responded P in blast)+
  then show ?thesis ..
qed

end

section \<open>Where the sessions of a run come from\<close>

abbreviation sessions_of :: "node \<Rightarrow> manager" where
  "sessions_of n \<equiv> e_sessions (t_engine (n_tun n))"

text \<open>A session is verified at \<open>n\<close>, in a run from \<open>n0\<close>, if it has the keys the run started with, or a step
  of the run, from \<open>n1\<close> to \<open>n2\<close>, installed it on a proof of the peer's identity: a Response to this side's own
  Init, while a rekey was in flight, or a Confirm for the very handshake the responder kept at \<open>n1\<close>.\<close>

definition verified :: "tunnel_conf \<Rightarrow> node \<Rightarrow> node \<Rightarrow> session \<Rightarrow> bool" where
  "verified K n0 n s \<longleftrightarrow> same_keys (m_current (sessions_of n0)) s \<or>
     (\<exists>n1 n2 sw. tunnel_reach K n0 n1 \<and> tunnel_step K sw n1 n2 \<and> tunnel_reach K n2 n \<and> holds_keys (sessions_of n2) s \<and>
        (o_rekey (n_out n1) \<noteq> None \<and> response_proof K s \<or>
         (\<exists>h new_id. i_pending (n_in n1) = Some (h, new_id) \<and> responded K h \<and> confirm_proof K h s)))"

lemma step_origin:
  assumes "tunnel_step K sw n n'"
  shows "sessions_all (kept_or_proved K (sessions_of n) (i_pending (n_in n)) (o_rekey (n_out n) \<noteq> None)) (sessions_of n')"
  by (rule proved.step_sessions [OF assms])
    (auto simp: sessions_all_def kept_or_proved_def holds_keys_def pending_in_def)

lemma same_keys_proof:
  assumes "same_keys a b"
  shows "response_proof K a \<Longrightarrow> response_proof K b" "confirm_proof K h a \<Longrightarrow> confirm_proof K h b"
    "holds_keys m a \<Longrightarrow> holds_keys m b"
  using assms same_keys_trans unfolding response_proof_def confirm_proof_def holds_keys_def by blast+

lemma reach_step: "tunnel_reach K n0 n \<Longrightarrow> tunnel_step K sw n n' \<Longrightarrow> tunnel_reach K n0 n'"
  unfolding tunnel_reach_def by (metis rtranclp.rtrancl_into_rtrancl)

lemma verified_step:
  assumes "verified K n0 n c" "same_keys c s" "tunnel_step K sw n n'"
  shows "verified K n0 n' s"
  using assms(1) [unfolded verified_def]
proof (elim disjE exE conjE)
  assume "same_keys (m_current (sessions_of n0)) c"
  then show ?thesis using same_keys_trans [OF _ assms(2)] unfolding verified_def by blast
next
  fix n1 n2 sw1
  assume "tunnel_reach K n0 n1" "tunnel_step K sw1 n1 n2" "tunnel_reach K n2 n" "holds_keys (sessions_of n2) c"
    "o_rekey (n_out n1) \<noteq> None" "response_proof K c"
  then show ?thesis using same_keys_proof [OF assms(2)] reach_step [OF _ assms(3)] unfolding verified_def by blast
next
  fix n1 n2 sw1 h new_id
  assume "tunnel_reach K n0 n1" "tunnel_step K sw1 n1 n2" "tunnel_reach K n2 n" "holds_keys (sessions_of n2) c"
    "i_pending (n_in n1) = Some (h, new_id)" "responded K h" "confirm_proof K h c"
  then show ?thesis using same_keys_proof [OF assms(2)] reach_step [OF _ assms(3)] unfolding verified_def by blast
qed

lemma reach_verified:
  assumes "tunnel_reach K n0 n" "m_previous (sessions_of n0) = None" "pending_in (responded K) (n_in n0)"
  shows "sessions_all (verified K n0 n) (sessions_of n)"
proof -
  have "tunnel_reach K n0 n \<and> sessions_all (verified K n0 n) (sessions_of n) \<and> pending_in (responded K) (n_in n)"
    using assms(1) unfolding tunnel_reach_def
  proof (induction rule: rtranclp_induct)
    case base
    then show ?case using assms(2,3) by (simp add: sessions_all_def verified_def)
  next
    case (step n n')
    then obtain sw where sw: "tunnel_step K sw n n'" by blast
    have reach: "tunnel_reach K n0 n" using step.hyps(1) unfolding tunnel_reach_def .
    have "verified K n0 n' s" if "kept_or_proved K (sessions_of n) (i_pending (n_in n)) (o_rekey (n_out n) \<noteq> None) s"
      "holds_keys (sessions_of n') s" for s
      using that(1) unfolding kept_or_proved_def
    proof
      assume "holds_keys (sessions_of n) s"
      then show ?thesis using step.IH verified_step [OF _ _ sw] unfolding holds_keys_def sessions_all_def by blast
    next
      assume "proved K (i_pending (n_in n)) (o_rekey (n_out n) \<noteq> None) s"
      moreover have "tunnel_reach K n' n'" by (simp add: tunnel_reach_def)
      ultimately show ?thesis
        using step.IH reach sw that(2) unfolding proved_def verified_def pending_in_def by blast
    qed
    then have "sessions_all (verified K n0 n') (sessions_of n')"
      using step_origin [OF sw] by (auto simp: sessions_all_def holds_keys_def)
    then show ?case using step_responded [OF sw] step.IH reach_step [OF reach sw] unfolding tunnel_reach_def by blast
  qed
  then show ?thesis by blast
qed

lemma start_pending [simp]: "pending_in P (n_in (tunnel_start K e peer nid eff epoch))"
  by (simp add: tunnel_start_def Let_def pending_in_def in_init_def split: prod.splits)

lemma start_engine [simp]: "t_engine (n_tun (tunnel_start K e peer nid eff epoch)) = e"
  by (simp add: tunnel_start_def Let_def split: prod.splits)

lemma start_control:
  assumes "m_in_progress (e_sessions e) = 0"
  shows "control_ok K (n_tun (tunnel_start K e peer nid eff epoch)) (n_out (tunnel_start K e peer nid eff epoch))"
  using assms
  by (simp add: tunnel_start_def out_start_def out_init_def control_ok_def Let_def slot_burst_def)

section \<open>The pacer's queue while traffic is not paced\<close>

definition grows :: "tunnel \<Rightarrow> tunnel \<Rightarrow> bool" where
  "grows t t' \<longleftrightarrow> (\<exists>more. t_hs_send t' = t_hs_send t @ more)"

lemma grows_same: "t_hs_send t' = t_hs_send t \<Longrightarrow> grows t t'"
  by (simp add: grows_def)

lemma grows_trans: "grows t t' \<Longrightarrow> grows t' t'' \<Longrightarrow> grows t t''"
  by (auto simp: grows_def)

lemma hs_send_simps [simp]:
  "t_hs_send (with_sessions m t) = t_hs_send t" "t_hs_send (send_to a d t) = t_hs_send t"
  "t_hs_send (send_batch K ds t) = t_hs_send t" "t_hs_send (sender_task K t) = t_hs_send t"
  "t_hs_send (forward_frame d t) = t_hs_send t"
  "t_hs_send (foldl (\<lambda>t d. send_to a d t) t ds) = t_hs_send t"
proof -
  show "t_hs_send (foldl (\<lambda>t d. send_to a d t) t ds) = t_hs_send t"
    by (induction ds arbitrary: t) (simp_all add: send_to_def)
qed (auto simp: with_sessions_def send_to_def send_batch_def sender_task_def forward_frame_def split: list.splits)

lemma demux_init_grows:
  assumes "demux_init K src w faults (t, i) r = ((t', i'), r')"
  shows "grows t t'"
  using assms by (auto simp: demux_init_def Let_def grows_def split: prod.splits sum.splits if_splits)

lemma demux_confirm_grows: "demux_confirm K now h w (t, i) = (t', i') \<Longrightarrow> grows t t'"
  by (auto simp: demux_confirm_def Let_def intro!: grows_same split: prod.splits sum.splits)

lemma grows_recv_time [simp]:
  "grows (t\<lparr> t_last_recv := epoch \<rparr>) t' = grows t t'"
  "grows (t\<lparr> t_last_recv := epoch, t_last_recv_epoch := epoch' \<rparr>) t' = grows t t'"
  by (simp_all add: grows_def)

lemma obf_handshake_grows:
  assumes "in_obf_handshake K k now epoch src d faults (t, i) r = ((t', i'), r')"
  shows "grows t t'"
  using assms
  by (auto simp: in_obf_handshake_def Let_def dest!: demux_init_grows demux_confirm_grows
      intro: grows_same split: option.splits prod.splits sum.splits if_splits)

lemma clear_handshake_grows:
  assumes "in_clear_handshake K now src d f faults (t, i) r = ((t', i'), r')"
  shows "grows t t'"
  using assms
  by (auto simp: in_clear_handshake_def Let_def dest!: demux_init_grows demux_confirm_grows
      intro: grows_same split: option.splits prod.splits sum.splits if_splits)

lemma result_grows:
  assumes "in_result K now epoch open_tun tx_ok (src, d, x) faults (t, i) r = ((c, t', i'), r')"
  shows "grows t t'"
proof (cases x)
  case (Inr fp)
  obtain ft plain where fp: "fp = (ft, plain)" by fastforce
  with Inr assms have "in_data_path K now epoch open_tun tx_ok src ft plain (t, i) = (c, t', i')"
    by (simp add: in_result_def)
  then show ?thesis
    by (intro grows_same)
      (auto simp: in_data_path_def Let_def split: frame_type.splits if_splits prod.splits elim!: in_profile_cases)
next
  case (Inl e)
  have clear: "grows t t'" if "in_clear_frame K now epoch open_tun a d faults (t, i) r = ((c, t', i'), r')" for a
    using that
    by (auto simp: in_clear_frame_def in_clear_data_def Let_def dest!: clear_handshake_grows intro: grows_same
        split: sum.splits frame_type.splits prod.splits if_splits)
  show ?thesis
    using assms Inl
    by (auto simp: in_result_def dest: obf_handshake_grows clear intro: grows_same
        split: if_splits option.splits prod.splits)
qed

lemma unpaced_step:
  assumes "tunnel_step K sw n n'" "\<not> sw" "\<not> o_paced (n_out n)"
  shows "\<not> o_paced (n_out n') \<and> grows (n_tun n) (n_tun n')"
  using assms
proof (induction rule: tunnel_step.induct)
  case (recv n drained rs panics gone c t o1)
  then show ?case
    by (auto simp: out_recv_def Let_def intro!: grows_same split: prod.splits sum.splits if_splits)
next
  case (tick n nows now gone r c t o1 r')
  then show ?case
    by (auto simp: out_tick_def ship_residue_def rekey_trigger_def Let_def intro!: grows_same
        split: prod.splits sum.splits loop_ctl.splits if_splits)
next
  case (rekey_send n sink i d t o1)
  then show ?case
    by (auto simp: out_rekey_send_def grows_def split: handshake_sink.splits)
next
  case (rekey_take n t o1)
  then show ?case by (auto simp: out_rekey_take_def intro!: grows_same split: if_splits)
next
  case (rekey_done n envs faults now r t o1)
  then show ?case
    by (auto simp: out_rekey_done_def Let_def intro!: grows_same split: option.splits prod.splits sum.splits)
next
  case (sequential n ready kept t)
  then show ?case using sequential_frame by (auto intro!: grows_same)
next
  case (resend n at_time i r t r')
  then show ?case using resend_frame by (auto intro!: grows_same)
next
  case (udp_recv n storage metas count ord panics items t)
  then show ?case using recv_frame by (auto intro!: grows_same)
next
  case (item n src d x items now epoch open_tun tx_ok faults r c t i r')
  then show ?case using result_grows by auto
next
  case (keepalive n epoch r c t r')
  then show ?case using keepalive_frame by (auto intro!: grows_same)
qed (auto intro!: grows_same)

lemma unpaced_run:
  "(tunnel_step K False)\<^sup>*\<^sup>* n n' \<Longrightarrow> \<not> o_paced (n_out n) \<Longrightarrow> \<not> o_paced (n_out n') \<and> grows (n_tun n) (n_tun n')"
proof (induction rule: rtranclp_induct)
  case base
  then show ?case by (simp add: grows_def)
next
  case (step n1 n2)
  then show ?case using unpaced_step [OF step.hyps(2)] by (auto intro: grows_trans)
qed

text \<open>A handshake message takes at least nine datagrams, and none of them reaches 1280 bytes.\<close>

lemma chunk_count:
  assumes "crypto_ok C" "length w = 8192" "build_handshake_datagrams C sid w (Some k) r = Ok (ds, r')"
  shows "8 < length ds \<and> (\<forall>d\<in>set ds. length d \<le> 1032)"
proof -
  have "seal_and_fragment C k w r = Ok (ds, r')"
    using assms(3) by (simp add: build_handshake_datagrams_def)
  then obtain nonce sealed msg_id cs q where s: "length nonce = 12"
    "c_chacha_seal C k nonce [] w = Some sealed" "cs = fst (variable_chunks (nonce @ sealed) q)"
    "ds = map (\<lambda>(i, chunk). hs_frag_header C k msg_id (of_nat i) (of_nat (length cs)) @ chunk) (enumerate 0 cs)"
    by (rule seal_and_fragment_OkD) blast
  have sz: "\<forall>c\<in>set cs. length c \<le> 1024" using variable_chunks_size s(3) by blast
  have "length (concat cs) = 8220"
    using concat_variable_chunks [of "nonce @ sealed" q] chacha_seal_length [OF assms(1) s(2)] s(1,3) assms(2) by simp
  moreover have "length (concat cs) \<le> length cs * 1024"
    using sum_list_bound [OF sz] by (simp add: length_concat)
  ultimately have "8 < length cs" by simp
  moreover have "length (hs_frag_header C k msg_id i tot) = 8" for i tot
    using assms(1) by (simp add: hs_frag_header_def frag_mask_def crypto_hash)
  ultimately show ?thesis using sz s(4) by (auto simp: in_set_enumerate_eq)
qed

section \<open>Properties\<close>

text \<open>C7: the control state of a tunnel is consistent in every reachable state, whatever the network and
  the scheduler do: the rekey flag is up exactly while a rekey is in flight, the session manager's
  claim is never held without one (so a rekey can always be claimed again), both loops agree on
  whether traffic is paced, pacing only happens over the obfuscated data path, the staging queue
  holds at most 4096 packets and a slot has at least one.\<close>

theorem tunnel_control_invariant:
  assumes "m_in_progress (e_sessions e) = 0" "tunnel_reach K (tunnel_start K e peer nid eff epoch) n"
  shows "(t_rekeying (n_tun n) \<longleftrightarrow> o_rekey (n_out n) \<noteq> None) \<and>
    (m_in_progress (e_sessions (t_engine (n_tun n))) \<noteq> 0 \<longrightarrow> o_rekey (n_out n) \<noteq> None) \<and>
    (t_paced (n_tun n) \<longleftrightarrow> o_paced (n_out n)) \<and> (o_paced (n_out n) \<longrightarrow> tp_obf_enabled (cf_params K)) \<and>
    length (o_pending (n_out n)) \<le> 4096 \<and> 1 \<le> o_burst (n_out n)"
proof -
  have "control_ok K (n_tun n) (n_out n)"
    using assms(2) unfolding tunnel_reach_def
    by (induction rule: rtranclp_induct) (use start_control [OF assms(1)] step_control in blast)+
  then show ?thesis by (simp add: control_ok_def)
qed

text \<open>C3: only verified sessions carry traffic. In every reachable state of a tunnel the current and the
  previous session have the keys of the session the tunnel started with, or some step of this run installed
  them on a proof of the peer's identity: while a rekey was in flight, a Response to an Init of this side whose
  signature under the pinned keys covers the responder's label and the transcript of both messages and whose
  MAC is made with the secret the session's keys come from; or, for the handshake the responder itself was
  keeping at that step, a Confirm whose signature under the pinned keys covers the initiator's label and the
  transcript of that handshake, the session being the one it had prepared.\<close>

theorem only_verified_sessions:
  assumes "m_previous (e_sessions e) = None" "tunnel_reach K (tunnel_start K e peer nid eff epoch) n"
  shows "verified K (tunnel_start K e peer nid eff epoch) n (m_current (e_sessions (t_engine (n_tun n)))) \<and>
    (\<forall>p. m_previous (e_sessions (t_engine (n_tun n))) = Some p \<longrightarrow>
      verified K (tunnel_start K e peer nid eff epoch) n p)"
  using reach_verified [OF assms(2)] assms(1) by (simp add: sessions_all_def)

text \<open>C19: sessions stay well-formed: on correct primitives every session a running tunnel uses has salts
  of four bytes that differ between the directions, ciphers of the negotiated algorithm in both, and
  the counter limit \<open>2 ^ 48\<close>.\<close>

theorem sessions_stay_typed:
  assumes "crypto_ok (cf_lib K)" "session_typed (m_current (e_sessions e))" "m_previous (e_sessions e) = None"
    "tunnel_reach K (tunnel_start K e peer nid eff epoch) n"
  shows "session_typed (m_current (e_sessions (t_engine (n_tun n)))) \<and>
    (\<forall>p. m_previous (e_sessions (t_engine (n_tun n))) = Some p \<longrightarrow> session_typed p)"
  using typed.reach_sessions [OF assms(4) _ start_pending TrueI] assms(1-3)
  by (simp add: sessions_all_def typed_on_def)

text \<open>A switch to \<open>off\<close> during a paced rekey wedges it. While traffic is not paced, no step but another
  switch takes a datagram out of the pacer's queue; once the 16 places are taken, the rekey driver,
  whose sink was fixed when the rekey began, can never hand over another datagram, and one Init is
  nine datagrams or more, so its second transmission cannot complete. The driver's timeout does
  not cover sending.\<close>

theorem switch_wedges_paced_rekey:
  assumes "crypto_ok (cf_lib K)" "\<not> o_paced (n_out n)" "(tunnel_step K False)\<^sup>*\<^sup>* n n'"
    "build_handshake_datagrams (cf_lib K) sid w (Some k) r = Ok (ds, r')" "length w = 8192"
  shows "\<not> o_paced (n_out n') \<and> (\<exists>more. t_hs_send (n_tun n') = t_hs_send (n_tun n) @ more) \<and>
    (HS_SEND_CHANNEL \<le> length (t_hs_send (n_tun n)) \<longrightarrow> HS_SEND_CHANNEL \<le> length (t_hs_send (n_tun n'))) \<and>
    HS_SEND_CHANNEL < 2 * length ds"
  using unpaced_run [OF assms(3,2)] chunk_count [OF assms(1,5,4)]
  by (auto simp: grows_def HS_SEND_CHANNEL_def)

text \<open>Rekey datagrams do not blend into the constant-size stream: a paced slot sends them unmodified,
  and none is longer than 1032 bytes, where every data and cover datagram of the slot has 1280.\<close>

theorem rekey_datagrams_stand_out:
  assumes "crypto_ok C" "length w = 8192" "build_handshake_datagrams C sid w (Some k) r = Ok (ds, r')"
    "paced_slot C n nows (e, ds @ hq, pending, p, q) = (slot, st)" "d \<in> set (take n ds)"
  shows "d \<in> set slot \<and> length d \<le> 1032"
proof -
  have d: "d \<in> set ds" using assms(5) by (rule in_set_takeD)
  have "d \<in> set slot"
    using assms(4,5)
  proof (induction n arbitrary: ds slot)
    case (Suc n)
    then obtain d' ds' where ds: "ds = d' # ds'" by (cases ds) auto
    obtain slot' st' where rest: "paced_slot C n nows (e, ds' @ hq, pending, p, q) = (slot', st')"
      by (metis surj_pair)
    with Suc.prems ds have "slot = d' # slot'" "st' = st" by simp_all
    with Suc.prems(2) ds show ?case using Suc.IH [OF rest [unfolded \<open>st' = st\<close>]] by auto
  qed simp
  then show ?thesis using chunk_count [OF assms(1-3)] d by blast
qed

section \<open>Witnesses\<close>

text \<open>A tunnel under the \<open>stealth\<close> profile that has staged one packet.\<close>

definition demo_node :: node where
  "demo_node = tunnel_start (profile_conf ProfStealth) (engine_new (sm_new (demo_session True) 0) True PadFull)
     (t_peer demo_tunnel) 2 (effective traffic_default) 0"

lemma demo_reach:
  "\<exists>n. tunnel_reach (profile_conf ProfStealth) demo_node n \<and> o_pending (n_out n) = [[42]]"
proof -
  let ?K = "profile_conf ProfStealth"
  obtain c t o1 where r: "out_recv ?K [[42]] (\<lambda>_ _. 0) False False (n_tun demo_node, n_out demo_node) = (c, t, o1)"
    by (metis prod.exhaust)
  have "n_up demo_node"
    by (simp add: demo_node_def tunnel_start_def out_start_def profile_conf_defs slot_len_def Let_def)
  then have "tunnel_step ?K False demo_node (move demo_node c t o1)"
    by (rule tunnel_step.recv [OF _ _ r]) (simp add: MAX_BATCH_def)
  moreover have "o_pending o1 = [[42]]"
    using r by (auto simp: demo_node_def tunnel_start_def out_start_def out_recv_def profile_conf_defs MAX_QUEUE_def Let_def)
  ultimately show ?thesis
    unfolding tunnel_reach_def by (intro exI [of _ "move demo_node c t o1"]) auto
qed

theorem tunnel_control_invariant_witness:
  "\<exists>n :: node. o_pending (n_out n) = [[42]] \<and> (t_rekeying (n_tun n) \<longleftrightarrow> o_rekey (n_out n) \<noteq> None) \<and>
     (t_paced (n_tun n) \<longleftrightarrow> o_paced (n_out n))"
proof -
  obtain n where n: "tunnel_reach (profile_conf ProfStealth) demo_node n" "o_pending (n_out n) = [[42]]"
    using demo_reach by blast
  have z: "m_in_progress (e_sessions (engine_new (sm_new (demo_session True) 0) True PadFull)) = 0"
    by (simp add: engine_new_def sm_new_def)
  show ?thesis
    using tunnel_control_invariant [OF z n(1) [unfolded demo_node_def]] n(2) by blast
qed

theorem only_verified_sessions_witness:
  "\<exists>n :: node. o_pending (n_out n) = [[42]] \<and>
     verified (profile_conf ProfStealth) demo_node n (m_current (e_sessions (t_engine (n_tun n))))"
proof -
  obtain n where n: "tunnel_reach (profile_conf ProfStealth) demo_node n" "o_pending (n_out n) = [[42]]"
    using demo_reach by blast
  have z: "m_previous (e_sessions (engine_new (sm_new (demo_session True) 0) True PadFull)) = None"
    by (simp add: engine_new_def sm_new_def)
  show ?thesis
    using only_verified_sessions [OF z n(1) [unfolded demo_node_def]] n(2) unfolding demo_node_def by blast
qed

lemma demo_typed: "session_typed (demo_session True)"
  using from_handshake_total [OF toy_crypto_ok, of 7 "replicate 32 1" True ChaCha20Poly1305]
  by (metis demo_session_def from_handshake_typed [OF toy_crypto_ok] sum.sel(2))

theorem sessions_stay_typed_witness:
  "\<exists>n :: node. o_pending (n_out n) = [[42]] \<and> session_typed (m_current (e_sessions (t_engine (n_tun n))))"
proof -
  obtain n where n: "tunnel_reach (profile_conf ProfStealth) demo_node n" "o_pending (n_out n) = [[42]]"
    using demo_reach by blast
  have z: "crypto_ok (cf_lib (profile_conf ProfStealth))"
    "session_typed (m_current (e_sessions (engine_new (sm_new (demo_session True) 0) True PadFull)))"
    "m_previous (e_sessions (engine_new (sm_new (demo_session True) 0) True PadFull)) = None"
    by (simp_all add: profile_conf_def demo_conf_def toy_crypto_ok engine_new_def sm_new_def demo_typed)
  show ?thesis
    using sessions_stay_typed [OF z n(1) [unfolded demo_node_def]] n(2) by blast
qed

text \<open>The datagrams of one handshake message over the toy primitives.\<close>

lemma demo_datagrams:
  obtains ds r' where "build_handshake_datagrams toy_crypto 1 (replicate 8192 7) (Some (replicate 32 9)) (\<lambda>_. 0) = Ok (ds, r')"
  by (rule build_handshake_datagrams_total [OF toy_crypto_ok, of "Some (replicate 32 9)" "replicate 8192 7"]) simp_all

theorem switch_wedges_paced_rekey_witness:
  "\<exists>ds r'. build_handshake_datagrams toy_crypto 1 (replicate 8192 7) (Some (replicate 32 9)) (\<lambda>_. 0) = Ok (ds, r') \<and>
     HS_SEND_CHANNEL < 2 * length ds"
proof -
  let ?n = "tunnel_start (profile_conf ProfOff) (t_engine demo_tunnel) (t_peer demo_tunnel) 2 (effective traffic_default) 0"
  obtain ds r' where d: "build_handshake_datagrams toy_crypto 1 (replicate 8192 7) (Some (replicate 32 9)) (\<lambda>_. 0) = Ok (ds, r')"
    by (rule demo_datagrams)
  have K: "cf_lib (profile_conf ProfOff) = toy_crypto" by (simp add: profile_conf_def demo_conf_def)
  have "\<not> o_paced (n_out ?n)"
    by (simp add: tunnel_start_def out_start_def profile_conf_defs Let_def)
  from switch_wedges_paced_rekey [OF _ this rtranclp.rtrancl_refl, where K = "profile_conf ProfOff" and sid = 1 and
      w = "replicate 8192 7" and k = "replicate 32 9" and r = "\<lambda>_. 0" and ds = ds and r' = r'] d
  show ?thesis using K toy_crypto_ok by auto
qed

theorem rekey_datagrams_stand_out_witness:
  "\<exists>ds r' d slot st. build_handshake_datagrams toy_crypto 1 (replicate 8192 7) (Some (replicate 32 9)) (\<lambda>_. 0) = Ok (ds, r') \<and>
     paced_slot toy_crypto 2 [] (t_engine demo_tunnel, ds, [], o_pacer (out_init (profile_conf ProfStealth)), \<lambda>_. 0) = (slot, st) \<and>
     d \<in> set slot \<and> length d \<le> 1032"
proof -
  obtain ds r' where d: "build_handshake_datagrams toy_crypto 1 (replicate 8192 7) (Some (replicate 32 9)) (\<lambda>_. 0) = Ok (ds, r')"
    by (rule demo_datagrams)
  obtain slot st where s: "paced_slot toy_crypto 2 [] (t_engine demo_tunnel, ds @ [], [],
      o_pacer (out_init (profile_conf ProfStealth)), \<lambda>_. 0) = (slot, st)" by (metis surj_pair)
  have "8 < length ds" using chunk_count [OF toy_crypto_ok _ d] by simp
  then have "hd ds \<in> set (take 2 ds)" by (cases ds) auto
  from rekey_datagrams_stand_out [OF toy_crypto_ok _ d s this] d s show ?thesis
    by (metis append_Nil2 length_replicate)
qed

end
