(* ===== verification/Pinning.thy ===== *)
theory Pinning
  imports Tunnel
begin

text \<open>
  Where the datagrams of a tunnel go: without roaming the peer address of \<open>src/tunnel_loops.rs\<close>
  (\<open>PeerAddr\<close>) is pinned, and no step sends to any other address.
\<close>

text \<open>Without roaming: the peer address is pinned, and nothing is sent or about to be sent elsewhere.\<close>

definition pinned :: "sock_addr \<Rightarrow> tunnel \<Rightarrow> bool" where
  "pinned a t \<longleftrightarrow> t_peer t = a \<and> (\<forall>(dst, tm)\<in>set (t_wire t). dst = a)"

definition sink_pinned :: "sock_addr \<Rightarrow> out_state \<Rightarrow> bool" where
  "sink_pinned a o1 \<longleftrightarrow> (\<forall>dst i. o_rekey o1 = Some (SinkDirect dst, i) \<longrightarrow> dst = a)"

lemma pinned_simps [simp]:
  "pinned a (with_sessions m t) = pinned a t" "pinned a (forward_frame d t) = pinned a t"
  "pinned a (t\<lparr> t_engine := e \<rparr>) = pinned a t" "pinned a (t\<lparr> t_hs_send := q \<rparr>) = pinned a t"
  "pinned a (t\<lparr> t_order := ord \<rparr>) = pinned a t" "pinned a (t\<lparr> t_send := bs \<rparr>) = pinned a t"
  "pinned a (t\<lparr> t_next_id := nid \<rparr>) = pinned a t" "pinned a (t\<lparr> t_rekeying := b \<rparr>) = pinned a t"
  "pinned a (t\<lparr> t_retire := is \<rparr>) = pinned a t" "pinned a (t\<lparr> t_resend := rs \<rparr>) = pinned a t"
  "pinned a (t\<lparr> t_watch := eff \<rparr>) = pinned a t" "pinned a (t\<lparr> t_connected := b \<rparr>) = pinned a t"
  "pinned a (t\<lparr> t_paced := b \<rparr>) = pinned a t" "pinned a (t\<lparr> t_profile := pr \<rparr>) = pinned a t"
  "pinned a (t\<lparr> t_tx_bytes := n \<rparr>) = pinned a t" "pinned a (t\<lparr> t_rx_bytes := n \<rparr>) = pinned a t"
  "pinned a (t\<lparr> t_last_recv := n \<rparr>) = pinned a t" "pinned a (t\<lparr> t_last_recv_epoch := n \<rparr>) = pinned a t"
  "pinned a (t\<lparr> t_to_tun := ps \<rparr>) = pinned a t" "pinned a (t\<lparr> t_hs_chan := fs \<rparr>) = pinned a t"
  by (simp_all add: pinned_def with_sessions_def forward_frame_def)

lemma pinned_send [intro]: "pinned a t \<Longrightarrow> dst = a \<Longrightarrow> pinned a (send_to dst d t)"
  by (simp add: pinned_def send_to_def)

lemma pinned_peer: "pinned a t \<Longrightarrow> t_peer t = a"
  by (simp add: pinned_def)

lemma pinned_sends: "pinned a t \<Longrightarrow> dst = a \<Longrightarrow> pinned a (foldl (\<lambda>t d. send_to dst d t) t ds)"
  by (induction ds arbitrary: t) auto

lemma pinned_batch [intro]: "pinned a t \<Longrightarrow> pinned a (send_batch K ds t)"
  by (auto simp: pinned_def send_batch_def)

lemma pinned_sender [intro]: "pinned a t \<Longrightarrow> pinned a (sender_task K t)"
  by (auto simp: sender_task_def split: list.splits)

lemma pinned_drain [intro]: "pinned a t \<Longrightarrow> pinned a (drain_sender K t)"
proof -
  have "pinned a t \<Longrightarrow> pinned a ((sender_task K ^^ n) t)" for n by (induction n) auto
  then show "pinned a t \<Longrightarrow> pinned a (drain_sender K t)" by (simp add: drain_sender_def)
qed

lemma pinned_profile: "send_profile_frame C dst pad i t r = (t', r') \<Longrightarrow> pinned a t \<Longrightarrow> dst = a \<Longrightarrow> pinned a t'"
  by (auto simp: send_profile_frame_def Let_def split: prod.splits sum.splits)

lemma pinned_announce: "announce_switch K wid now t r = (t', r') \<Longrightarrow> pinned a t \<Longrightarrow> pinned a t'"
  by (auto simp: announce_switch_def Let_def pinned_peer dest!: pinned_profile
      split: option.splits prod.splits if_splits)

lemma pinned_residue: "ship_residue K gone (t, o1) r = ((c, t', o2), r') \<Longrightarrow> pinned a t \<Longrightarrow> pinned a t' \<and> o_rekey o2 = o_rekey o1"
  by (auto simp: ship_residue_def Let_def split: prod.splits sum.splits if_splits)

lemma pinned_paced: "tick_paced K nows (t, o1) r = ((t', o2), r') \<Longrightarrow> pinned a t \<Longrightarrow> pinned a t' \<and> o_rekey o2 = o_rekey o1"
  by (auto simp: tick_paced_def Let_def split: prod.splits)

lemma pinned_trigger:
  "rekey_trigger now (t, o1) = (t', o2) \<Longrightarrow> pinned a t \<Longrightarrow> sink_pinned a o1 \<Longrightarrow> pinned a t' \<and> sink_pinned a o2"
  by (auto simp: rekey_trigger_def Let_def sink_pinned_def pinned_peer split: prod.splits if_splits)

lemma pinned_tick:
  assumes "out_tick K nows now gone (t, o1) r = ((c, t', o2), r')" "pinned a t" "sink_pinned a o1"
  shows "pinned a t' \<and> sink_pinned a o2"
proof -
  have s: "sink_pinned a o3" if "o_rekey o3 = o_rekey o1" for o3
    using assms(3) that by (simp add: sink_pinned_def)
  show ?thesis
    using assms(1)
    by (auto simp: out_tick_def split: prod.splits loop_ctl.splits if_splits
        dest!: pinned_paced [OF _ assms(2)] pinned_residue [OF _ assms(2)] pinned_trigger s
        intro: assms(2,3))
qed

lemma pinned_switch:
  assumes "out_switch K changed now gone (t, o1) r = ((c, t', o2), r')" "pinned a t" "sink_pinned a o1"
  shows "pinned a t' \<and> sink_pinned a o2"
proof (cases changed)
  case None
  then show ?thesis using assms by (auto simp: out_switch_def sink_pinned_def)
next
  case (Some eff)
  define np where "np = (et_enabled eff \<and> tp_obf_enabled (cf_params K))"
  define t1 where "t1 = (if \<not> o_paced o1 \<and> np then drain_sender K t else t)"
  obtain c1 t2 o3 r1 where res: "switch_residue K np gone (t1, o1) r = ((c1, t2, o3), r1)"
    by (metis prod.exhaust)
  have "pinned a t1" using assms(2) by (auto simp: t1_def)
  then have t2: "pinned a t2 \<and> o_rekey o3 = o_rekey o1"
    using res by (auto simp: switch_residue_def dest: pinned_residue split: if_splits)
  obtain t3 r2 where ann: "announce_switch K (wire_id (et_profile eff)) now (t2\<lparr> t_paced := np \<rparr>) r1 = (t3, r2)"
    by fastforce
  have "pinned a t3" using pinned_announce [OF ann] t2 by simp
  then show ?thesis
    using assms(1,3) res Some t2 ann
    by (cases c1) (auto simp: out_switch_def Let_def np_def [symmetric] t1_def [symmetric]
        apply_pacing_def sink_pinned_def)
qed

lemma pinned_demux_init:
  assumes "demux_init K src w faults (t, i) r = ((t', i'), r')" "pinned a t" "src = a"
  shows "pinned a t'"
  using assms by (auto simp: demux_init_def Let_def intro: pinned_sends split: prod.splits sum.splits if_splits)

lemma pinned_demux_confirm: "demux_confirm K now h w (t, i) = (t', i') \<Longrightarrow> pinned a t \<Longrightarrow> pinned a t'"
  by (auto simp: demux_confirm_def Let_def split: prod.splits sum.splits)

lemma pinned_obf_handshake:
  assumes "in_obf_handshake K k now epoch src d faults (t, i) r = ((t', i'), r')" "pinned a t" "src = a"
  shows "pinned a t'"
  using assms
  by (auto simp: in_obf_handshake_def Let_def dest: pinned_demux_init pinned_demux_confirm
      split: option.splits prod.splits sum.splits if_splits)

lemma pinned_clear_handshake:
  assumes "in_clear_handshake K now src d f faults (t, i) r = ((t', i'), r')" "pinned a t" "src = a"
  shows "pinned a t'"
  using assms
  by (auto simp: in_clear_handshake_def Let_def dest: pinned_demux_init pinned_demux_confirm
      split: option.splits prod.splits sum.splits if_splits)

lemma pinned_result:
  assumes "in_result K now epoch open_tun tx_ok (src, d, x) faults (t, i) r = ((c, t', i'), r')" "pinned a t"
    "\<not> tp_allow_roaming (cf_params K)"
  shows "pinned a t'"
proof (cases x)
  case (Inr fp)
  obtain ft plain where fp: "fp = (ft, plain)" by fastforce
  with Inr assms(1) have "in_data_path K now epoch open_tun tx_ok src ft plain (t, i) = (c, t', i')"
    by (simp add: in_result_def)
  then show ?thesis
    using assms(2,3)
    by (auto simp: in_data_path_def Let_def split: frame_type.splits if_splits prod.splits elim!: in_profile_cases)
next
  case (Inl e)
  have clear: "pinned a t'"
    if "in_clear_frame K now epoch open_tun b d faults (t, i) r = ((c, t', i'), r')" "b = a" for b
    using that assms(2,3)
    by (auto simp: in_clear_frame_def in_clear_data_def Let_def dest!: pinned_clear_handshake
        split: sum.splits frame_type.splits prod.splits if_splits)
  show ?thesis
    using assms Inl pinned_peer [OF assms(2)]
    by (auto simp: in_result_def dest: pinned_obf_handshake clear split: if_splits option.splits prod.splits)
qed

lemma pinned_keepalive: "ka_tick K epoch t r = ((c, t'), r') \<Longrightarrow> pinned a t \<Longrightarrow> pinned a t'"
  by (auto simp: ka_tick_def ka_frame_def Let_def pinned_peer
      split: prod.splits option.splits sum.splits if_splits dest!: pinned_profile)

lemma pinned_step:
  assumes "tunnel_step K sw n n'" "\<not> tp_allow_roaming (cf_params K)" "pinned a (n_tun n) \<and> sink_pinned a (n_out n)"
  shows "pinned a (n_tun n') \<and> sink_pinned a (n_out n')"
  using assms
proof (induction rule: tunnel_step.induct)
  case (recv n drained rs panics gone c t o1)
  then show ?case
    by (auto simp: out_recv_def Let_def sink_pinned_def split: prod.splits sum.splits if_splits)
next
  case (rekey_send n sink i d t o1)
  then show ?case by (auto simp: out_rekey_send_def sink_pinned_def split: handshake_sink.splits)
next
  case (rekey_take n t o1)
  then show ?case by (auto simp: out_rekey_take_def split: if_splits)
next
  case (rekey_done n envs faults now r t o1)
  then show ?case
    by (auto simp: out_rekey_done_def Let_def sink_pinned_def split: option.splits prod.splits sum.splits)
next
  case (sequential n ready kept t)
  then show ?case by (auto simp: sequential_sender_def split: option.splits prod.splits if_splits)
next
  case (resend n at_time i r t r')
  then show ?case by (auto simp: resend_profile_def pinned_peer dest: pinned_profile split: if_splits)
next
  case (udp_recv n storage metas count ord panics items t)
  then show ?case by (auto simp: in_recv_def Let_def split: prod.splits sum.splits)
qed (auto dest: pinned_tick pinned_switch pinned_result pinned_keepalive)

section \<open>Property\<close>

text \<open>C20: a client only ever talks to its server. On a tunnel without roaming the peer address never
  changes, and every datagram the tunnel sends in any reachable state, data, cover, rekey, profile
  and keepalive alike, is addressed to it.\<close>

theorem client_sends_to_pinned_peer:
  assumes "\<not> tp_allow_roaming (cf_params K)" "tunnel_reach K (tunnel_start K e peer nid eff epoch) n"
  shows "t_peer (n_tun n) = peer \<and> (\<forall>(dst, tm)\<in>set (t_wire (n_tun n)). dst = peer)"
proof -
  have "pinned peer (n_tun n) \<and> sink_pinned peer (n_out n)"
    using assms(2) unfolding tunnel_reach_def
  proof (induction rule: rtranclp_induct)
    case base
    show ?case
      by (simp add: tunnel_start_def out_start_def out_init_def Let_def pinned_def sink_pinned_def)
  next
    case (step n1 n2)
    then show ?case using pinned_step assms(1) by blast
  qed
  then show ?thesis by (simp add: pinned_def)
qed

theorem client_sends_to_pinned_peer_witness:
  "\<exists>n :: node. o_pending (n_out n) = [[42]] \<and> t_peer (n_tun n) = t_peer demo_tunnel \<and>
     (\<forall>(dst, tm)\<in>set (t_wire (n_tun n)). dst = t_peer demo_tunnel)"
proof -
  obtain n where n: "tunnel_reach (profile_conf ProfStealth) demo_node n" "o_pending (n_out n) = [[42]]"
    using demo_reach by blast
  have "\<not> tp_allow_roaming (cf_params (profile_conf ProfStealth))"
    by (simp add: profile_conf_def demo_conf_def from_config_def Let_def)
  from client_sends_to_pinned_peer [OF this n(1) [unfolded demo_node_def]] n(2) show ?thesis by blast
qed

end
