(* ===== verification/Delivery.thy ===== *)
theory Delivery
  imports Pinning "HOL-Library.Multiset"
begin

text \<open>
  Two tunnels back to back: what the outbound loop of one side takes from its TUN device, the crypto
  pool seals, the sequential sender batches for the kernel, the other side's kernel coalesces, and its
  inbound loop receives, call by call (\<open>RECV_BATCH\<close> buffers of \<open>RECV_BUF\<close> bytes each), opens in one pool
  job per call and hands to its TUN device as the jobs finish. Within one call the order of the packets is
  kept; calls may overtake each other, as the comment above \<open>decrypt_jobs\<close> in \<open>src/tunnel_loops.rs\<close> says.
\<close>

section \<open>Lemmas\<close>

lemma sealed_batch_total:
  assumes "crypto_ok C" "can_seal (length batch) e" "0 < length batch" "length batch < 2 ^ 64" "e_obf e"
    "\<forall>pkt\<in>set batch. length pkt < 2 ^ 16"
  obtains sess base e' ds where "engine_reserve e (of_nat (length batch)) = (Ok (sess, base), e')"
    "seal_batch_with_counters C e' sess base batch rs = Ok ds" "length ds = length batch" "\<forall>d\<in>set ds. d \<noteq> []"
proof -
  let ?a = "m_current (e_sessions e)" and ?n = "length batch"
  let ?s = "?a\<lparr> s_tx_counter := s_tx_counter ?a + of_nat ?n \<rparr>"
  define e' where "e' = set_tx e (s_tx_counter ?a + of_nat ?n)"
  have res: "engine_reserve e (of_nat ?n) = (Ok (?s, s_tx_counter ?a), e')"
  proof (rule reserve_below_limit)
    show "unat (s_tx_counter ?a) + (?n - 1) < unat (s_rekey_at ?a)"
      using assms(2,3) unfolding can_seal_def by linarith
  qed (use assms(4) in \<open>simp_all add: e'_def\<close>)
  have wf: "session_wf ?s" using assms(2) by (simp add: can_seal_def session_wf_def)
  have "\<exists>d. seal_packet_with_counter C e' ?s (s_tx_counter ?a + of_nat i) (batch ! i) (rs i) = Ok d \<and> d \<noteq> []"
    if "i < ?n" for i
  proof -
    have "length (batch ! i) < 2 ^ 16" using assms(6) that by simp
    then obtain d r' where d: "seal_obf_core C ?s (s_tx_counter ?a + of_nat i) (ft_as_u8 FT_Data) (batch ! i)
        (e_pad e) (rs i) = (Ok d, r')"
      by (rule seal_obf_core_total [OF assms(1) wf])
    moreover have "d \<noteq> []" using seal_obf_core_length [OF assms(1) wf d] by auto
    ultimately show ?thesis
      using assms(5) by (simp add: seal_packet_with_counter_def seal_obf_with_counter_def e'_def set_tx_def)
  qed
  then obtain d where d: "\<And>i. i < ?n \<Longrightarrow>
      seal_packet_with_counter C e' ?s (s_tx_counter ?a + of_nat i) (batch ! i) (rs i) = Ok (d i) \<and> d i \<noteq> []"
    by metis
  have "seal_batch_with_counters C e' ?s (s_tx_counter ?a) batch rs = Ok (map d [0..<?n])"
    unfolding seal_batch_with_counters_def
    by (rule collect_results_nth) (use d in \<open>simp_all add: nth_enumerate_eq\<close>)
  with res show thesis by (rule that) (use d in auto)
qed

text \<open>The inbound loop while it only receives and forwards: receive calls, each a job handed to the pool together with
  the order in which the pool opens its datagrams, jobs the pool opens, in any order, and finished jobs the loop takes up,
  in any order.\<close>

type_synonym recv_call = "bytes list \<times> sock_addr recv_meta list \<times> nat"
type_synonym decrypted = "(sock_addr \<times> bytes \<times> (frame_type \<times> bytes) result) list"

datatype arrival = Receive recv_call "nat list" | Open nat | Finish nat instant u64

definition without :: "nat \<Rightarrow> 'a list \<Rightarrow> 'a list" where
  "without k xs = take k xs @ drop (Suc k) xs"

fun inbound ::
  "tunnel_conf \<Rightarrow> bool \<Rightarrow> arrival list \<Rightarrow>
    (recv_call \<times> nat list) list \<times> decrypted list \<times> tunnel \<times> in_state \<Rightarrow> rng \<Rightarrow>
    (loop_ctl \<times> (recv_call \<times> nat list) list \<times> decrypted list \<times> tunnel \<times> in_state) \<times> rng" where
  "inbound K tx_ok [] st r = ((Go, st), r)"
| "inbound K tx_ok (Receive call ord # es) (waiting, jobs, t, i) r =
     inbound K tx_ok es (waiting @ [(call, ord)], jobs, t, i) r"
| "inbound K tx_ok (Open k # es) (waiting, jobs, t, i) r =
     (if k < length waiting
      then let ((storage, metas, cnt), ord) = waiting ! k;
               (items, t1) = in_recv K storage metas cnt ord False t
           in inbound K tx_ok es (without k waiting, jobs @ [items], t1, i) r
      else inbound K tx_ok es (waiting, jobs, t, i) r)"
| "inbound K tx_ok (Finish k now epoch # es) (waiting, jobs, t, i) r =
     (if k < length jobs
      then let ((c, t1, i1), r1) = in_results K now epoch True tx_ok (jobs ! k) [] (t, i) r
           in case c of
                Go \<Rightarrow> inbound K tx_ok es (waiting, without k jobs, t1, i1) r1
              | Stop \<Rightarrow> ((Stop, waiting, without k jobs, t1, i1), r1)
      else inbound K tx_ok es (waiting, jobs, t, i) r)"

fun receives :: "arrival list \<Rightarrow> (recv_call \<times> nat list) list" where
  "receives [] = []"
| "receives (Receive call ord # es) = (call, ord) # receives es"
| "receives (Open k # es) = receives es"
| "receives (Finish k now epoch # es) = receives es"

lemma mset_without: "k < length xs \<Longrightarrow> mset xs = add_mset (xs ! k) (mset (without k xs))"
  unfolding without_def
  by (subst id_take_nth_drop [of k xs], assumption) (simp only: mset_append mset.simps union_mset_add_mset_right)

lemma list_all2_without: "list_all2 P xs ys \<Longrightarrow> list_all2 P (without k xs) (without k ys)"
  unfolding without_def by (intro list_all2_appendI list_all2_takeI list_all2_dropI)

text \<open>Decrypt jobs full of data: what they hold, and where it goes.\<close>

definition data_job :: "sock_addr \<Rightarrow> bytes list \<Rightarrow> decrypted \<Rightarrow> bool" where
  "data_job a ps items \<longleftrightarrow> (\<exists>ds. length ds = length ps \<and> items = map (\<lambda>(d, p). (a, d, Ok (FT_Data, p))) (zip ds ps))"

lemma finish_job:
  assumes "data_job a ps items"
  shows "\<exists>t' i'. in_results K now epoch True tx_ok items faults (t, i) r = ((Go, t', i'), r) \<and>
    t_to_tun t' = t_to_tun t @ ps \<and> t_engine t' = t_engine t"
proof -
  have "\<exists>t' i'. in_results K now epoch True tx_ok (map (\<lambda>(d, p). (a, d, Ok (FT_Data, p))) dps) faults (t, i) r = ((Go, t', i'), r) \<and>
      t_to_tun t' = t_to_tun t @ map snd dps \<and> t_engine t' = t_engine t" for dps
  proof (induction dps arbitrary: t i)
    case (Cons dp dps)
    obtain d p where dp: "dp = (d, p)" by fastforce
    obtain t1 where one: "in_result K now epoch True tx_ok (a, d, Ok (FT_Data, p)) faults (t, i) r = ((Go, t1, i), r)"
      "t_to_tun t1 = t_to_tun t @ [p]" "t_engine t1 = t_engine t"
      by (simp add: in_result_def in_data_path_def Let_def)
    with Cons.IH [of t1 i] show ?case by (auto simp: dp)
  qed simp
  moreover obtain ds where "length ds = length ps" "items = map (\<lambda>(d, p). (a, d, Ok (FT_Data, p))) (zip ds ps)"
    using assms by (auto simp: data_job_def)
  ultimately show ?thesis by (metis map_snd_zip)
qed

text \<open>A receive call that brings the datagrams \<open>js\<close> of a sealed run, and what opening it does.\<close>

definition brings :: "sock_addr \<Rightarrow> bytes list \<Rightarrow> nat list \<Rightarrow> recv_call \<times> nat list \<Rightarrow> bool" where
  "brings a ds js call \<longleftrightarrow> (\<exists>ts. received a ts (fst call) \<and> (\<forall>t\<in>set ts. transmit_ok t) \<and>
     concat (map gso_split ts) = map ((!) ds) js) \<and> distinct (snd call) \<and> set (snd call) = {0..<length js}"

lemma open_job:
  assumes "crypto_ok (cf_lib K)" "paired s (m_current (e_sessions (t_engine u)))" "session_wf s"
    "sealed_run (cf_lib K) s c pol (map (Pair FT_Data) ps) ds"
    "window_rel (s_replay (m_current (e_sessions (t_engine u)))) (run_window S c J)" "\<forall>x\<in>S. x < unat c"
    "length ps \<le> 2048" "unat c + length ps \<le> 2 ^ 64" "\<forall>p\<in>set ps. length p < 2 ^ 16"
    "brings a ds js ((storage, metas, cnt), ord)"
    "distinct js" "set js \<subseteq> {0..<length ps} - J" "J \<subseteq> {0..<length ps}"
  shows "\<exists>items u'. in_recv K storage metas cnt ord False u = (items, u') \<and>
    data_job a (map ((!) ps) js) items \<and> t_to_tun u' = t_to_tun u \<and>
    window_rel (s_replay (m_current (e_sessions (t_engine u')))) (run_window S c (J \<union> set js)) \<and>
    paired s (m_current (e_sessions (t_engine u')))"
proof -
  let ?f = "t_engine u"
  have n: "length ds = length ps" using assms(4) by (simp add: sealed_run_def)
  obtain ts where ts: "received a ts (storage, metas, cnt)" "\<forall>t\<in>set ts. transmit_ok t"
    "concat (map gso_split ts) = map ((!) ds) js" "distinct ord" "set ord = {0..<length js}"
    using assms(10) by (auto simp: brings_def)
  have cut: "iter_datagrams storage metas cnt = map (\<lambda>j. (a, ds ! j)) js"
    using iter_received [OF ts(1,2)] by (simp add: ts(3) comp_def)
  obtain f' where f': "decrypt_batch_par (cf_lib K) ?f (map (\<lambda>j. (a, ds ! j)) js) ord =
      (map (\<lambda>j. (a, ds ! j, Ok (map (Pair FT_Data) ps ! j))) js, f')"
    "window_rel (s_replay (m_current (e_sessions f'))) (run_window S c (J \<union> set js))" "paired s (m_current (e_sessions f'))"
    using sealed_run_opens [OF assms(1-6), where js = js and ord = ord and src = a] assms(7-9,11-13) ts(4,5) by auto
  have items: "map (\<lambda>j. (a, ds ! j, Ok (map (Pair FT_Data) ps ! j))) js =
      map (\<lambda>(d, p). (a, d, Ok (FT_Data, p))) (zip (map ((!) ds) js) (map ((!) ps) js))"
  proof (rule nth_equalityI)
    fix i assume "i < length (map (\<lambda>j. (a, ds ! j, Ok (map (Pair FT_Data) ps ! j))) js)"
    moreover from this have "js ! i \<in> set js" by simp
    then have "js ! i < length ps" using assms(12) by auto
    ultimately show "map (\<lambda>j. (a, ds ! j, Ok (map (Pair FT_Data) ps ! j))) js ! i =
        map (\<lambda>(d, p). (a, d, Ok (FT_Data, p))) (zip (map ((!) ds) js) (map ((!) ps) js)) ! i" by simp
  qed simp
  have job: "data_job a (map ((!) ps) js) (map (\<lambda>j. (a, ds ! j, Ok (map (Pair FT_Data) ps ! j))) js)"
    unfolding data_job_def items by (intro exI [of _ "map ((!) ds) js"]) simp
  have "in_recv K storage metas cnt ord False u = (map (\<lambda>j. (a, ds ! j, Ok (map (Pair FT_Data) ps ! j))) js, u\<lparr> t_engine := f' \<rparr>)"
    by (simp add: in_recv_def rayon_spawn_guarded_def cut f'(1))
  then show ?thesis using job f'(2,3) by (intro exI [of _ "u\<lparr> t_engine := f' \<rparr>"] exI conjI) (assumption, simp_all)
qed

definition call_of :: "sock_addr \<Rightarrow> transmit list \<Rightarrow> recv_call \<times> nat list \<Rightarrow> bool" where
  "call_of a ts call \<longleftrightarrow> received a ts (fst call) \<and> distinct (snd call) \<and> set (snd call) = {0..<length (concat (map gso_split ts))}"

text \<open>Where a datagram of the run can be: not arrived, waiting for the pool, opened, handed over.\<close>

definition in_flight :: "nat list list \<Rightarrow> nat set \<Rightarrow> nat \<Rightarrow> bool" where
  "in_flight ws J lo \<longleftrightarrow> distinct (concat ws) \<and> (\<forall>js\<in>set ws. set js \<inter> J = {}) \<and> (\<forall>js\<in>set ws. set js \<subseteq> {0..<lo}) \<and> J \<subseteq> {0..<lo}"

lemma in_flight_receive:
  "in_flight ws J lo \<Longrightarrow> in_flight (ws @ [[lo..<lo + k]]) J (lo + k)"
  by (fastforce simp: in_flight_def)

lemma in_flight_open:
  assumes "in_flight ws J lo" "k < length ws"
  shows "distinct (ws ! k)" "set (ws ! k) \<subseteq> {0..<lo} - J" "in_flight (without k ws) (J \<union> set (ws ! k)) lo"
proof -
  have w: "ws ! k \<in> set ws" using assms(2) by simp
  have "ws = take k ws @ ws ! k # drop (Suc k) ws" by (rule id_take_nth_drop [OF assms(2)])
  then obtain us vs where ws: "ws = us @ ws ! k # vs" "without k ws = us @ vs" by (metis without_def)
  have "distinct (concat (us @ ws ! k # vs))" using assms(1) ws(1) by (metis in_flight_def)
  then show "distinct (ws ! k)" by simp
  show "set (ws ! k) \<subseteq> {0..<lo} - J" using assms(1) w unfolding in_flight_def by blast
  have sub: "set (us @ vs) \<subseteq> set ws" using arg_cong [OF ws(1), of set] by auto
  show "in_flight (without k ws) (J \<union> set (ws ! k)) lo"
    using assms(1) w sub \<open>distinct (concat (us @ ws ! k # vs))\<close>
    unfolding in_flight_def ws(2) by auto
qed

lemma inbound_delivers:
  assumes C: "crypto_ok (cf_lib K)" and s: "session_wf s" "sealed_run (cf_lib K) s c pol (map (Pair FT_Data) ps) ds"
    and S: "\<forall>x\<in>S. x < unat c" and ps: "length ps \<le> 2048" "unat c + length ps \<le> 2 ^ 64" "\<forall>p\<in>set ps. length p < 2 ^ 16"
    and ok: "\<forall>t\<in>set (concat calls). transmit_ok t"
    and calls: "list_all2 (call_of a) calls (receives es)" "concat (map gso_split (concat calls)) = drop lo ds" "lo \<le> length ps"
    and u: "paired s (m_current (e_sessions (t_engine u)))"
      "window_rel (s_replay (m_current (e_sessions (t_engine u)))) (run_window S c J)"
    and ws: "in_flight ws J lo" "list_all2 (brings a ds) ws waiting"
    and jobs: "list_all2 (data_job a) stash jobs"
  shows "\<exists>parts ws' waiting' jobs' u' i' stash' tunned.
    inbound K tx_ok es (waiting, jobs, u, i) r = ((Go, waiting', jobs', u', i'), r) \<and>
    concat parts = drop lo ps \<and> map length parts = map (\<lambda>ts. length (concat (map gso_split ts))) calls \<and>
    length ws' = length waiting' \<and> length stash' = length jobs' \<and> t_to_tun u' = t_to_tun u @ concat tunned \<and>
    mset (tunned @ stash' @ map (map ((!) ps)) ws') = mset (stash @ map (map ((!) ps)) ws @ parts)"
  using ok calls u ws jobs
proof (induction es arbitrary: calls lo u i J ws waiting stash jobs)
  case Nil
  have "length ds = length ps" using s(2) by (simp add: sealed_run_def)
  with Nil.prems have "calls = []" "drop lo ps = []" "length ws = length waiting" "length stash = length jobs"
    by (auto dest: list_all2_lengthD)
  moreover have "inbound K tx_ok [] (waiting, jobs, u, i) r = ((Go, waiting, jobs, u, i), r)"
    "t_to_tun u = t_to_tun u @ concat []" by simp_all
  moreover have "mset ([] @ stash @ map (map ((!) ps)) ws) = mset (stash @ map (map ((!) ps)) ws @ [])" by simp
  moreover have "concat [] = drop lo ps" "map length [] = map (\<lambda>ts. length (concat (map gso_split ts))) calls"
    using calculation(1,2) by simp_all
  ultimately show ?case by blast
next
  case (Cons e es)
  have n: "length ds = length ps" using s(2) by (simp add: sealed_run_def)
  show ?case
  proof (cases e)
    case (Receive call ord)
    obtain ts more where calls: "calls = ts # more" "call_of a ts (call, ord)" "list_all2 (call_of a) more (receives es)"
      using Cons.prems(2) by (cases calls) (auto simp: Receive)
    define k where "k = length (concat (map gso_split ts))"
    have split: "concat (map gso_split ts) @ concat (map gso_split (concat more)) = drop lo ds" using Cons.prems(3) by (simp add: calls(1))
    then have "k + length (concat (map gso_split (concat more))) = length ps - lo" using n by (metis k_def length_append length_drop)
    then have k: "lo + k \<le> length ps" using Cons.prems(4) by linarith
    have rest: "concat (map gso_split (concat more)) = drop (lo + k) ds"
      using split by (metis append_eq_conv_conj drop_drop add.commute k_def)
    have "concat (map gso_split ts) = map ((!) ds) [lo..<lo + k]"
    proof -
      have "concat (map gso_split ts) = take k (drop lo ds)" using split by (metis append_eq_conv_conj k_def)
      with k n show ?thesis by (auto intro: nth_equalityI)
    qed
    then have "brings a ds [lo..<lo + k] (call, ord)"
      using calls(2) Cons.prems(1) by (auto simp: brings_def call_of_def k_def calls(1))
    then have w: "list_all2 (brings a ds) (ws @ [[lo..<lo + k]]) (waiting @ [(call, ord)])"
      using Cons.prems(8) by (simp add: list_all2_appendI)
    have "\<forall>t\<in>set (concat more). transmit_ok t" using Cons.prems(1) by (simp add: calls(1))
    from Cons.IH [OF this calls(3) rest k Cons.prems(5,6) in_flight_receive [OF Cons.prems(7)] w Cons.prems(9), of i]
    obtain parts ws' waiting' jobs' u' i' stash' tunned where IH:
      "inbound K tx_ok es (waiting @ [(call, ord)], jobs, u, i) r = ((Go, waiting', jobs', u', i'), r)"
      "concat parts = drop (lo + k) ps" "map length parts = map (\<lambda>ts. length (concat (map gso_split ts))) more"
      "length ws' = length waiting'" "length stash' = length jobs'" "t_to_tun u' = t_to_tun u @ concat tunned"
      "mset (tunned @ stash' @ map (map ((!) ps)) ws') = mset (stash @ map (map ((!) ps)) (ws @ [[lo..<lo + k]]) @ parts)"
      by blast
    have part: "map ((!) ps) [lo..<lo + k] = take k (drop lo ps)" using k by (auto intro!: nth_equalityI)
    have "concat (take k (drop lo ps) # parts) = drop lo ps"
      using IH(2) by (simp add: add.commute) (metis append_take_drop_id drop_drop)
    moreover have "length (take k (drop lo ps)) = k" using k by simp
    ultimately have parts: "concat (take k (drop lo ps) # parts) = drop lo ps"
      "map length (take k (drop lo ps) # parts) = map (\<lambda>ts. length (concat (map gso_split ts))) calls"
      using IH(3) by (simp_all add: calls(1) k_def)
    have "inbound K tx_ok (e # es) (waiting, jobs, u, i) r = ((Go, waiting', jobs', u', i'), r)"
      using IH(1) by (simp add: Receive)
    moreover have "mset (tunned @ stash' @ map (map ((!) ps)) ws') =
        mset (stash @ map (map ((!) ps)) ws @ take k (drop lo ps) # parts)"
      using IH(7) part by simp
    ultimately show ?thesis using IH(4-6) parts by blast
  next
    case (Open k)
    have calls: "list_all2 (call_of a) calls (receives es)" using Cons.prems(2) by (simp add: Open)
    show ?thesis
    proof (cases "k < length waiting")
      case False
      then show ?thesis using Cons.IH [OF Cons.prems(1) calls Cons.prems(3-9), of i] by (simp add: Open)
    next
      case True
      then have k: "k < length ws" "brings a ds (ws ! k) (waiting ! k)"
        using Cons.prems(8) by (auto simp: list_all2_conv_all_nth)
      note fl = in_flight_open [OF Cons.prems(7) k(1)]
      obtain storage metas cnt ord where w: "waiting ! k = ((storage, metas, cnt), ord)" by (metis prod.exhaust)
      have sub: "set (ws ! k) \<subseteq> {0..<length ps} - J" "J \<subseteq> {0..<length ps}"
        using fl(2) Cons.prems(4,7) by (auto simp: in_flight_def)
      obtain items u1 where op: "in_recv K storage metas cnt ord False u = (items, u1)"
        "data_job a (map ((!) ps) (ws ! k)) items" "t_to_tun u1 = t_to_tun u"
        "window_rel (s_replay (m_current (e_sessions (t_engine u1)))) (run_window S c (J \<union> set (ws ! k)))"
        "paired s (m_current (e_sessions (t_engine u1)))"
        using open_job [OF C Cons.prems(5) s Cons.prems(6) S ps k(2) [unfolded w] fl(1) sub] by blast
      have "list_all2 (data_job a) (stash @ [map ((!) ps) (ws ! k)]) (jobs @ [items])"
        using Cons.prems(9) op(2) by (simp add: list_all2_appendI)
      from Cons.IH [OF Cons.prems(1) calls Cons.prems(3,4) op(5,4) fl(3) list_all2_without [OF Cons.prems(8)] this, of i]
      obtain parts ws' waiting' jobs' u' i' stash' tunned where IH:
        "inbound K tx_ok es (without k waiting, jobs @ [items], u1, i) r = ((Go, waiting', jobs', u', i'), r)"
        "concat parts = drop lo ps" "map length parts = map (\<lambda>ts. length (concat (map gso_split ts))) calls"
        "length ws' = length waiting'" "length stash' = length jobs'" "t_to_tun u' = t_to_tun u1 @ concat tunned"
        "mset (tunned @ stash' @ map (map ((!) ps)) ws') =
          mset ((stash @ [map ((!) ps) (ws ! k)]) @ map (map ((!) ps)) (without k ws) @ parts)"
        by blast
      have "mset (map (map ((!) ps)) ws) = add_mset (map ((!) ps) (ws ! k)) (mset (map (map ((!) ps)) (without k ws)))"
        using mset_without [OF k(1)] by simp
      then have "mset (tunned @ stash' @ map (map ((!) ps)) ws') = mset (stash @ map (map ((!) ps)) ws @ parts)"
        using IH(7) by simp
      moreover have "inbound K tx_ok (e # es) (waiting, jobs, u, i) r = ((Go, waiting', jobs', u', i'), r)"
        using IH(1) True w op(1) by (simp add: Open)
      ultimately show ?thesis using IH(2-6) unfolding op(3) by blast
    qed
  next
    case (Finish k now epoch)
    have calls: "list_all2 (call_of a) calls (receives es)" using Cons.prems(2) by (simp add: Finish)
    show ?thesis
    proof (cases "k < length jobs")
      case False
      then show ?thesis using Cons.IH [OF Cons.prems(1) calls Cons.prems(3-9), of i] by (simp add: Finish)
    next
      case True
      then have kh: "k < length stash" "data_job a (stash ! k) (jobs ! k)"
        using Cons.prems(9) by (auto simp: list_all2_conv_all_nth)
      obtain u1 i1 where fin: "in_results K now epoch True tx_ok (jobs ! k) [] (u, i) r = ((Go, u1, i1), r)"
        "t_to_tun u1 = t_to_tun u @ stash ! k" "t_engine u1 = t_engine u"
        using finish_job [OF kh(2)] by metis
      from Cons.IH [OF Cons.prems(1) calls Cons.prems(3,4) _ _ Cons.prems(7,8) list_all2_without [OF Cons.prems(9)], of u1 k i1]
      obtain parts ws' waiting' jobs' u' i' stash' tunned where IH:
        "inbound K tx_ok es (waiting, without k jobs, u1, i1) r = ((Go, waiting', jobs', u', i'), r)"
        "concat parts = drop lo ps" "map length parts = map (\<lambda>ts. length (concat (map gso_split ts))) calls"
        "length ws' = length waiting'" "length stash' = length jobs'" "t_to_tun u' = t_to_tun u1 @ concat tunned"
        "mset (tunned @ stash' @ map (map ((!) ps)) ws') = mset (without k stash @ map (map ((!) ps)) ws @ parts)"
        using Cons.prems(5,6) unfolding fin(3) by blast
      have "mset ((stash ! k # tunned) @ stash' @ map (map ((!) ps)) ws') = mset (stash @ map (map ((!) ps)) ws @ parts)"
        using IH(7) mset_without [OF kh(1)] by simp
      moreover have "inbound K tx_ok (e # es) (waiting, jobs, u, i) r = ((Go, waiting', jobs', u', i'), r)"
        using IH(1) fin(1) True by (simp add: Finish)
      moreover have "t_to_tun u' = t_to_tun u @ concat (stash ! k # tunned)" using IH(6) fin(2) by simp
      ultimately show ?thesis using IH(2-5) by blast
    qed
  qed
qed

lemma inbound_one_call:
  "inbound K tx_ok [Receive call ord, Open 0, Finish 0 now epoch] ([], [], u, i) r = ((Go, waiting, jobs, u', i'), r') \<Longrightarrow>
    waiting = [] \<and> jobs = []"
  by (cases call) (auto simp: without_def split: prod.splits loop_ctl.splits)

section \<open>Property\<close>

text \<open>C1: packets cross the tunnel. On two paired, obfuscated tunnels of which the sender is not paced,
  every batch the sender takes from its TUN device, below the rekey limit and within \<open>MAX_BATCH\<close>, goes to
  the wire in one turn of the sequential sender, one datagram per packet; with GSO off and packets of at
  most 1232 bytes no buffer is larger than 1280 bytes. If no buffer exceeds what a UDP datagram can carry,
  the receiver gets exactly these packets, however its kernel coalesces the datagrams and spreads them, in
  order, over receive calls of at most 32 buffers, in whatever order the pool opens the datagrams of a call,
  the pool works on the calls and the loop takes up the finished ones: at every moment what went to its TUN
  device is made of whole calls, each in the sender's order and none twice, and once no call is waiting
  and no job is outstanding it is all of them. So the order is the sender's within a receive call; across
  calls it need not be.\<close>

theorem packets_cross_the_tunnel:
  assumes "crypto_ok (cf_lib K)" "cf_lib K' = cf_lib K"
    "paired (m_current (e_sessions (t_engine t))) (m_current (e_sessions (t_engine u)))"
    "can_seal (length drained) (t_engine t)" "e_obf (t_engine t)"
    "window_rel (s_replay (m_current (e_sessions (t_engine u)))) S"
    "\<forall>x\<in>S. x < unat (s_tx_counter (m_current (e_sessions (t_engine t))))"
    "drained \<noteq> []" "length drained \<le> MAX_BATCH" "\<forall>pkt\<in>set drained. length pkt < 2 ^ 16"
    "\<not> o_paced o1" "t_order t = []"
  shows "\<exists>t1 t2 tms. out_recv K drained rs False False (t, o1) = (Go, t1, o1) \<and>
    sequential_sender K ready None t1 = (None, t2) \<and> t_wire t2 = t_wire t @ map (Pair (t_peer t)) tms \<and>
    length (concat (map gso_split tms)) = length drained \<and> (\<forall>tm\<in>set tms. transmit_ok tm) \<and>
    (\<not> tp_gso (cf_params K) \<and> (\<forall>pkt\<in>set drained. length pkt \<le> 1232) \<longrightarrow>
      (\<forall>tm\<in>set tms. tm_segment tm = None \<and> length (tm_contents tm) \<le> 1280)) \<and>
    ((\<forall>tm\<in>set tms. length (tm_contents tm) \<le> UDP_PAYLOAD) \<longrightarrow>
      (\<forall>calls es. list_all2 (call_of a) calls (receives es) \<and> (\<forall>tm\<in>set (concat calls). transmit_ok tm) \<and>
          concat (map gso_split (concat calls)) = concat (map gso_split tms) \<longrightarrow>
        (\<exists>parts tunned waiting jobs u' i'. inbound K' tx_ok es ([], [], u, i) q = ((Go, waiting, jobs, u', i'), q) \<and>
          concat parts = drained \<and> map length parts = map (\<lambda>ts. length (concat (map gso_split ts))) calls \<and>
          t_to_tun u' = t_to_tun u @ concat tunned \<and> mset tunned \<subseteq># mset parts \<and>
          (waiting = [] \<and> jobs = [] \<longrightarrow> mset tunned = mset parts))))"
proof -
  let ?C = "cf_lib K" and ?n = "length drained" and ?s = "m_current (e_sessions (t_engine t))"
  have n: "0 < ?n" "?n < 2 ^ 64" "?n \<le> 2048" using assms(8,9) by (auto simp: MAX_BATCH_def)
  have wf: "session_wf ?s" using assms(4) by (simp add: can_seal_def)
  obtain sess base e' ds where res: "engine_reserve (t_engine t) (of_nat ?n) = (Ok (sess, base), e')"
    and seal: "seal_batch_with_counters ?C e' sess base drained rs = Ok ds"
    and ds: "length ds = ?n" "\<forall>d\<in>set ds. d \<noteq> []"
    by (rule sealed_batch_total [OF assms(1,4) n(1,2) assms(5,10)])
  let ?tms = "send_grouped (cf_max_gso K) (tp_gso (cf_params K)) ds"
  from reserved_batch_run [OF res assms(5,8) n(2) seal]
  have run: "sealed_run ?C ?s base (e_pad (t_engine t)) (map (Pair FT_Data) drained) ds"
    and base: "base = s_tx_counter ?s" "unat base + ?n \<le> 2 ^ 64" by blast+
  have wire: "concat (map gso_split ?tms) = ds" using send_grouped_wire [OF ds(2)] by auto
  define t1 where "t1 = t\<lparr> t_tx_bytes := foldl (\<lambda>n pkt. n + of_nat (length pkt)) (t_tx_bytes t) drained,
    t_engine := e', t_order := [\<lparr> tk_session = sess, tk_base = base, tk_count = ?n, tk_result = Ok ds \<rparr>] \<rparr>"
  have out: "out_recv K drained rs False False (t, o1) = (Go, t1, o1)"
    using assms(8,11,12) res seal
    by (simp add: out_recv_def dispatch_seal_def rayon_spawn_guarded_def t1_def Let_def)
  have "ds \<noteq> []" using ds(1) n(1) by auto
  then have sender: "sequential_sender K ready None t1 = (None, send_batch K ds (t1\<lparr> t_order := [] \<rparr>))"
    by (simp add: sequential_sender_def sequential_round_def t1_def ok_wires_def)
  have small: "\<not> tp_gso (cf_params K) \<and> (\<forall>pkt\<in>set drained. length pkt \<le> 1232) \<longrightarrow>
      (\<forall>tm\<in>set ?tms. tm_segment tm = None \<and> length (tm_contents tm) \<le> 1280)"
  proof (intro impI, rule unsegmented_buffers [OF ds(2)])
    assume "\<not> tp_gso (cf_params K) \<and> (\<forall>pkt\<in>set drained. length pkt \<le> 1232)"
    then show "\<not> tp_gso (cf_params K)" "\<forall>d\<in>set ds. length d \<le> 1280"
      using sealed_run_size [OF assms(1) wf run] by auto
  qed
  have deliver: "\<exists>parts tunned waiting jobs u' i'. inbound K' tx_ok es ([], [], u, i) q = ((Go, waiting, jobs, u', i'), q) \<and>
      concat parts = drained \<and> map length parts = map (\<lambda>ts. length (concat (map gso_split ts))) calls \<and>
      t_to_tun u' = t_to_tun u @ concat tunned \<and> mset tunned \<subseteq># mset parts \<and>
      (waiting = [] \<and> jobs = [] \<longrightarrow> mset tunned = mset parts)"
    if calls: "list_all2 (call_of a) calls (receives es)" "\<forall>tm\<in>set (concat calls). transmit_ok tm"
      "concat (map gso_split (concat calls)) = ds" for calls es
  proof -
    have start: "in_flight [] {} 0" "list_all2 (brings a ds) [] []" "list_all2 (data_job a) [] []"
      "window_rel (s_replay (m_current (e_sessions (t_engine u)))) (run_window S base {})"
      using assms(6) by (simp_all add: in_flight_def run_window_def)
    have S: "\<forall>x\<in>S. x < unat base" and C: "crypto_ok (cf_lib K')" using assms(1,2,7) base(1) by simp_all
    have run': "sealed_run (cf_lib K') ?s base (e_pad (t_engine t)) (map (Pair FT_Data) drained) ds" using run assms(2) by simp
    have all: "concat (map gso_split (concat calls)) = drop 0 ds" using calls(3) by simp
    from inbound_delivers [OF C wf run' S n(3) base(2) assms(10) calls(2,1) all le0 assms(3) start(4,1,2,3), where tx_ok = tx_ok and i = i and r = q]
    obtain parts ws' waiting jobs u' i' stash tunned where run:
      "inbound K' tx_ok es ([], [], u, i) q = ((Go, waiting, jobs, u', i'), q)"
      "concat parts = drained" "map length parts = map (\<lambda>ts. length (concat (map gso_split ts))) calls"
      "length ws' = length waiting" "length stash = length jobs" "t_to_tun u' = t_to_tun u @ concat tunned"
      "mset (tunned @ stash @ map (map ((!) drained)) ws') = mset parts"
      by auto
    have "mset tunned \<subseteq># mset parts" using run(7) by (metis mset_append mset_subset_eq_add_left)
    moreover have "mset tunned = mset parts" if "waiting = [] \<and> jobs = []" using run(4,5,7) that by simp
    ultimately show ?thesis using run(1-3,6) by blast
  qed
  show ?thesis
  proof (intro exI conjI)
    show "out_recv K drained rs False False (t, o1) = (Go, t1, o1)" by (rule out)
    show "sequential_sender K ready None t1 = (None, send_batch K ds (t1\<lparr> t_order := [] \<rparr>))" by (rule sender)
    show "t_wire (send_batch K ds (t1\<lparr> t_order := [] \<rparr>)) = t_wire t @ map (Pair (t_peer t)) ?tms"
      by (simp add: send_batch_def t1_def)
    show "length (concat (map gso_split ?tms)) = ?n" using wire ds(1) by simp
    show "\<forall>tm\<in>set ?tms. transmit_ok tm" using send_grouped_ok [OF ds(2)] by blast
  qed (use small in blast, unfold wire, use deliver in blast)
qed

theorem packets_cross_the_tunnel_witness:
  "let K = profile_conf ProfOff; u = demo_tunnel\<lparr> t_engine := engine_new (sm_new (demo_session False) 0) True PadFull \<rparr> in
   \<exists>t1 t2 tms u' i'. out_recv K [[42], [43, 44]] (\<lambda>_ _. 0) False False (demo_tunnel, out_init K) = (Go, t1, out_init K) \<and>
    sequential_sender K [] None t1 = (None, t2) \<and> t_wire t2 = map (Pair (t_peer demo_tunnel)) tms \<and>
    inbound K True [Receive (one_call (t_peer u) tms) [1, 0], Open 0, Finish 0 7 9] ([], [], u, in_init) (\<lambda>_. 0) =
      ((Go, [], [], u', i'), \<lambda>_. 0) \<and> t_to_tun u' = [[42], [43, 44]]"
proof -
  define K where "K = profile_conf ProfOff"
  define u where "u = demo_tunnel\<lparr> t_engine := engine_new (sm_new (demo_session False) 0) True PadFull \<rparr>"
  let ?ps = "[[42], [43, 44]] :: bytes list" and ?a = "t_peer u"
  have c: "crypto_ok (cf_lib K)" "cf_lib K = cf_lib K"
    by (simp_all add: K_def profile_conf_defs toy_crypto_ok)
  have e: "paired (m_current (e_sessions (t_engine demo_tunnel))) (m_current (e_sessions (t_engine u)))"
    "can_seal (length ?ps) (t_engine demo_tunnel)" "e_obf (t_engine demo_tunnel)"
    "window_rel (s_replay (m_current (e_sessions (t_engine u)))) {}"
    "\<forall>x\<in>{}. x < unat (s_tx_counter (m_current (e_sessions (t_engine demo_tunnel))))"
    by (simp_all add: u_def demo_tunnel_def engine_new_def sm_new_def demo_paired demo_session can_seal_def window_rel_new)
  have b: "?ps \<noteq> []" "length ?ps \<le> MAX_BATCH" "\<forall>pkt\<in>set ?ps. length pkt < 2 ^ 16"
    by (simp_all add: MAX_BATCH_def)
  have o: "\<not> o_paced (out_init K)" "t_order demo_tunnel = []"
    by (auto simp: K_def profile_conf_defs demo_tunnel_def Let_def)
  have gso: "\<not> tp_gso (cf_params K)" by (simp add: K_def profile_conf_defs engine_default_def)
  have start: "t_wire demo_tunnel = []" "t_to_tun u = []" by (simp_all add: u_def demo_tunnel_def)
  obtain t1 t2 tms where run: "out_recv K ?ps (\<lambda>_ _. 0) False False (demo_tunnel, out_init K) = (Go, t1, out_init K)"
    "sequential_sender K [] None t1 = (None, t2)" "t_wire t2 = t_wire demo_tunnel @ map (Pair (t_peer demo_tunnel)) tms"
    "length (concat (map gso_split tms)) = length ?ps" "\<forall>tm\<in>set tms. transmit_ok tm"
    "\<not> tp_gso (cf_params K) \<and> (\<forall>pkt\<in>set ?ps. length pkt \<le> 1232) \<longrightarrow>
      (\<forall>tm\<in>set tms. tm_segment tm = None \<and> length (tm_contents tm) \<le> 1280)"
    and del: "(\<forall>tm\<in>set tms. length (tm_contents tm) \<le> UDP_PAYLOAD) \<longrightarrow>
      (\<forall>calls es. list_all2 (call_of ?a) calls (receives es) \<and>
        (\<forall>tm\<in>set (concat calls). transmit_ok tm) \<and> concat (map gso_split (concat calls)) = concat (map gso_split tms) \<longrightarrow>
      (\<exists>parts tunned waiting jobs u' i'. inbound K True es ([], [], u, in_init) (\<lambda>_. 0) = ((Go, waiting, jobs, u', i'), \<lambda>_. 0) \<and>
        concat parts = ?ps \<and> map length parts = map (\<lambda>ts. length (concat (map gso_split ts))) calls \<and>
        t_to_tun u' = t_to_tun u @ concat tunned \<and> mset tunned \<subseteq># mset parts \<and>
        (waiting = [] \<and> jobs = [] \<longrightarrow> mset tunned = mset parts)))"
    using packets_cross_the_tunnel [OF c e b o, where rs = "\<lambda>_ _. 0" and ready = "[]" and a = "t_peer u"
        and tx_ok = True and i = in_init and q = "\<lambda>_. 0"]
    by (elim exE conjE) (rule that, assumption+)
  have small: "\<forall>tm\<in>set tms. tm_segment tm = None \<and> length (tm_contents tm) \<le> 1280" using run(6) gso by simp
  have single: "map gso_split tms = map (\<lambda>tm. [tm_contents tm]) tms" using small by (simp add: gso_split_def)
  have len: "length tms = 2" using run(4) unfolding single by (simp add: concat_map_singleton)
  let ?call = "one_call ?a tms" and ?es = "[Receive (one_call ?a tms) [1, 0], Open 0, Finish 0 7 9]"
  have "received ?a tms ?call"
    by (rule one_call_received) (use len small in \<open>auto simp: RECV_BATCH_def RECV_BUF_def\<close>)
  then have call: "list_all2 (call_of ?a) [tms] (receives ?es)"
    using run(4) by (auto simp: call_of_def)
  have fits: "\<forall>tm\<in>set tms. length (tm_contents tm) \<le> UDP_PAYLOAD" using small by (auto simp: UDP_PAYLOAD_def)
  have "list_all2 (call_of ?a) [tms] (receives ?es) \<and> (\<forall>tm\<in>set (concat [tms]). transmit_ok tm) \<and>
      concat (map gso_split (concat [tms])) = concat (map gso_split tms)"
    using call run(5) by simp
  with del fits obtain parts tunned waiting jobs u' i' where d:
    "inbound K True ?es ([], [], u, in_init) (\<lambda>_. 0) = ((Go, waiting, jobs, u', i'), \<lambda>_. 0)" "concat parts = ?ps"
    "map length parts = map (\<lambda>ts. length (concat (map gso_split ts))) [tms]" "t_to_tun u' = t_to_tun u @ concat tunned"
    "waiting = [] \<and> jobs = [] \<longrightarrow> mset tunned = mset parts"
    by blast
  have empty: "waiting = [] \<and> jobs = []" by (rule inbound_one_call [OF d(1)])
  then have "mset tunned = mset parts" using d(5) by blast
  moreover have "parts = [?ps]" using d(2,3) by (cases parts) auto
  ultimately have "tunned = [?ps]" by simp
  then have "t_to_tun u' = ?ps" using d(4) start by simp
  with d(1) empty run(1-3) show ?thesis
    unfolding K_def [symmetric] u_def [symmetric] Let_def start append_Nil by blast
qed

end
