(* ===== verification/Toml.thy ===== *)
theory Toml
  imports Config
begin

text \<open>
  Loading a configuration (\<open>src/config.rs\<close>, \<open>AppConfig::load\<close> and \<open>from_toml_str\<close>): the deserialisation of the
  sections as the \<open>serde\<close> attributes of their structs fix it, with every default, and the validation. The TOML
  parser (crate \<open>toml\<close>) is a parameter: it turns text into tables, and words the message for a document
  that does not fit. What it does with the documents the set-up generates is the hypothesis \<open>toml_ok\<close>.
\<close>

section \<open>Documents\<close>

text \<open>A float is given as what an \<open>f32\<close> field receives. A table lists its keys, each once.\<close>

datatype toml =
    TStr string
  | TInt int
  | TBool bool
  | TFloat f32
  | TArr "toml list"
  | TTable "(string \<times> toml) list"

type_synonym table = "(string \<times> toml) list"

record toml_lib =
  tl_parse :: "string \<Rightarrow> string + table"
  tl_misfit :: "string \<Rightarrow> string"

section \<open>Deserialisation\<close>

text \<open>A required field, one with a default, and one of option type (absent is \<open>None\<close>).\<close>

definition required :: "table \<Rightarrow> string \<Rightarrow> (toml \<Rightarrow> 'a option) \<Rightarrow> 'a option" where
  "required t k d = (case map_of t k of None \<Rightarrow> None | Some v \<Rightarrow> d v)"

definition or_default :: "table \<Rightarrow> string \<Rightarrow> (toml \<Rightarrow> 'a option) \<Rightarrow> 'a \<Rightarrow> 'a option" where
  "or_default t k d x = (case map_of t k of None \<Rightarrow> Some x | Some v \<Rightarrow> d v)"

definition maybe :: "table \<Rightarrow> string \<Rightarrow> (toml \<Rightarrow> 'a option) \<Rightarrow> 'a option option" where
  "maybe t k d = (case map_of t k of None \<Rightarrow> Some None | Some v \<Rightarrow> map_option Some (d v))"

fun de_string :: "toml \<Rightarrow> string option" where
  "de_string (TStr s) = Some s" | "de_string _ = None"

fun de_bool :: "toml \<Rightarrow> bool option" where
  "de_bool (TBool b) = Some b" | "de_bool _ = None"

fun de_uint :: "nat \<Rightarrow> toml \<Rightarrow> nat option" where
  "de_uint bound (TInt i) = (if 0 \<le> i \<and> i < int bound then Some (nat i) else None)"
| "de_uint bound _ = None"

fun de_f32 :: "toml \<Rightarrow> f32 option" where
  "de_f32 (TFloat x) = Some x"
| "de_f32 (TInt i) = Some (f32_round (of_int i))"
| "de_f32 _ = None"

fun de_strings :: "toml \<Rightarrow> string list option" where
  "de_strings (TArr xs) = those (map de_string xs)" | "de_strings _ = None"

fun de_table :: "(table \<Rightarrow> 'a option) \<Rightarrow> toml \<Rightarrow> 'a option" where
  "de_table d (TTable t) = d t" | "de_table d _ = None"

definition de_sock_addr :: "toml \<Rightarrow> sock_addr option" where
  "de_sock_addr v = (case de_string v of None \<Rightarrow> None | Some s \<Rightarrow> parse_sock_addr s)"

text \<open>The enums, in lower case (\<open>rename_all = "lowercase"\<close>).\<close>

definition de_enum :: "(string \<times> 'a) list \<Rightarrow> toml \<Rightarrow> 'a option" where
  "de_enum names v = (case de_string v of None \<Rightarrow> None | Some s \<Rightarrow> map_of names s)"

definition padding_names :: "(string \<times> padding_policy) list" where
  "padding_names = [(''off'', PaddingOff), (''bucketed'', PaddingBucketed), (''full'', PaddingFull)]"

definition mode_names :: "(string \<times> traffic_mode) list" where
  "mode_names = [(''cbr'', ModeCbr), (''adaptive'', ModeAdaptive)]"

definition profile_names :: "(string \<times> traffic_profile) list" where
  "profile_names =
     [(''stealth'', ProfStealth), (''balanced'', ProfBalanced), (''throughput'', ProfThroughput),
      (''off'', ProfOff), (''custom'', ProfCustom)]"

definition de_identity :: "table \<Rightarrow> identity_config option" where
  "de_identity t =
     Option.bind (required t ''ed25519_seed_hex'' de_string) (\<lambda>seed.
     Option.bind (required t ''peer_ed25519_pub_hex'' de_string) (\<lambda>peer.
     Option.bind (maybe t ''mldsa_secret_hex'' de_string) (\<lambda>sk.
     Option.bind (maybe t ''peer_mldsa_pub_hex'' de_string) (\<lambda>pk.
     Some \<lparr> ic_seed_hex = seed, ic_peer_pub_hex = peer, ic_mldsa_secret_hex = sk, ic_peer_mldsa_pub_hex = pk \<rparr>))))"

definition default_bind :: sock_addr where
  "default_bind = \<lparr> sa_ip = V4 [0, 0, 0, 0], sa_port = 51820 \<rparr>"

definition de_network :: "table \<Rightarrow> network_config option" where
  "de_network t =
     Option.bind (or_default t ''bind_addr'' de_sock_addr default_bind) (\<lambda>b.
     Option.bind (maybe t ''server_addr'' de_sock_addr) (\<lambda>srv.
     Some \<lparr> nc_bind_addr = b, nc_server_addr = srv \<rparr>))"

definition de_tun :: "table \<Rightarrow> tun_config option" where
  "de_tun t =
     Option.bind (or_default t ''name'' de_string ''chameleon0'') (\<lambda>name.
     Option.bind (or_default t ''address'' de_string ''10.99.0.1'') (\<lambda>address.
     Option.bind (or_default t ''netmask'' de_string ''255.255.255.0'') (\<lambda>netmask.
     Option.bind (or_default t ''mtu'' (de_uint (2 ^ 16)) 1200) (\<lambda>mtu.
     Option.bind (or_default t ''route_all'' de_bool False) (\<lambda>route_all.
     Option.bind (maybe t ''peer_address'' de_string) (\<lambda>peer.
     Option.bind (or_default t ''kill_switch'' de_bool False) (\<lambda>ks.
     Option.bind (or_default t ''dns'' de_strings []) (\<lambda>dns.
     Some \<lparr> tn_name = name, tn_address = address, tn_netmask = netmask, tn_mtu = of_nat mtu,
            tn_route_all = route_all, tn_peer_address = peer, tn_kill_switch = ks, tn_dns = dns \<rparr>))))))))"

definition de_engine :: "table \<Rightarrow> engine_config option" where
  "de_engine t =
     Option.bind (or_default t ''batch_linger_us'' (de_uint (2 ^ 64)) 200) (\<lambda>linger.
     Option.bind (or_default t ''workers'' (de_uint (2 ^ 64)) 0) (\<lambda>workers.
     Option.bind (or_default t ''gso'' de_bool False) (\<lambda>gso.
     Some \<lparr> ec_batch_linger_us = of_nat linger, ec_workers = workers, ec_gso = gso \<rparr>)))"

definition de_obfuscation :: "table \<Rightarrow> obfuscation_config option" where
  "de_obfuscation t =
     Option.bind (or_default t ''enabled'' de_bool True) (\<lambda>enabled.
     Option.bind (or_default t ''padding'' (de_enum padding_names) PaddingBucketed) (\<lambda>padding.
     Option.bind (or_default t ''handshake'' de_bool True) (\<lambda>handshake.
     Option.bind (maybe t ''psk_hex'' de_string) (\<lambda>psk.
     Some \<lparr> oc_enabled = enabled, oc_padding = padding, oc_handshake = handshake, oc_psk_hex = psk \<rparr>))))"

definition de_traffic :: "table \<Rightarrow> traffic_config option" where
  "de_traffic t =
     Option.bind (or_default t ''profile'' (de_enum profile_names) ProfOff) (\<lambda>profile.
     Option.bind (or_default t ''enabled'' de_bool True) (\<lambda>enabled.
     Option.bind (or_default t ''mode'' (de_enum mode_names) ModeAdaptive) (\<lambda>mode.
     Option.bind (or_default t ''rate_pps'' (de_uint (2 ^ 32)) 256) (\<lambda>rate.
     Option.bind (or_default t ''burst'' (de_uint (2 ^ 16)) 2) (\<lambda>burst.
     Option.bind (or_default t ''cooldown_ms'' (de_uint (2 ^ 64)) 500) (\<lambda>cooldown.
     Option.bind (or_default t ''cover_budget_packets'' (de_uint (2 ^ 32)) 64) (\<lambda>budget.
     Option.bind (or_default t ''cover_ratio'' de_f32 (Fin (1 / 4))) (\<lambda>ratio.
     Option.bind (or_default t ''follow_client_profile'' de_bool True) (\<lambda>follow.
     Some \<lparr> tc_profile = profile, tc_enabled = enabled, tc_mode = mode, tc_rate_pps = of_nat rate,
            tc_burst = of_nat burst, tc_cooldown_ms = of_nat cooldown, tc_cover_budget = of_nat budget,
            tc_cover_ratio = ratio, tc_follow_client = follow \<rparr>)))))))))"

definition de_app :: "table \<Rightarrow> app_config option" where
  "de_app t =
     Option.bind (required t ''identity'' (de_table de_identity)) (\<lambda>identity.
     Option.bind (required t ''network'' (de_table de_network)) (\<lambda>network.
     Option.bind (required t ''tun'' (de_table de_tun)) (\<lambda>tun.
     Option.bind (or_default t ''engine'' (de_table de_engine) engine_default) (\<lambda>engine.
     Option.bind (or_default t ''obfuscation'' (de_table de_obfuscation) obfuscation_default) (\<lambda>obfuscation.
     Option.bind (or_default t ''traffic'' (de_table de_traffic) traffic_default) (\<lambda>traffic.
     Some \<lparr> ac_identity = identity, ac_network = network, ac_tun = tun, ac_engine = engine,
            ac_obfuscation = obfuscation, ac_traffic = traffic \<rparr>))))))"

section \<open>Loading\<close>

definition from_toml_str :: "toml_lib \<Rightarrow> string \<Rightarrow> app_config result" where
  "from_toml_str T raw =
     (case (case tl_parse T raw of
              Inl e \<Rightarrow> Inl e
            | Inr t \<Rightarrow> (case de_app t of None \<Rightarrow> Inl (tl_misfit T raw) | Some cfg \<Rightarrow> Inr cfg)) of
        Inl e \<Rightarrow> Err (config_err (''TOML parse error: '' @ e))
      | Inr cfg \<Rightarrow> rbind (validate cfg) (\<lambda>_. Ok cfg))"

text \<open>\<open>load\<close>: the path is printed with \<open>Debug\<close>, in double quotes.\<close>

definition config_load :: "toml_lib \<Rightarrow> string \<Rightarrow> string + string \<Rightarrow> app_config result" where
  "config_load T path contents =
     (case contents of
        Inl e \<Rightarrow> Err (config_err (''cannot read '' @ [CHR 0x22] @ path @ [CHR 0x22] @ '': '' @ e))
      | Inr raw \<Rightarrow> from_toml_str T raw)"

definition dns_servers :: "tun_config \<Rightarrow> ip_addr list" where
  "dns_servers t = List.map_filter parse_ip (tn_dns t)"

section \<open>What the parser promises\<close>

text \<open>
  Documents of the shape the set-up generates: comments, blank lines, \<open>[section]\<close> headers and \<open>key = value\<close>
  lines, the key padded with blanks. \<open>tables\<close> is what TOML says they mean.
\<close>

datatype doc_line =
    Comment string
  | Blank
  | Section string
  | Entry string nat toml

fun value_text :: "toml \<Rightarrow> string" where
  "value_text (TStr s) = [CHR 0x22] @ s @ [CHR 0x22]"
| "value_text (TBool b) = (if b then ''true'' else ''false'')"
| "value_text (TInt i) = show_nat (nat i)"
| "value_text _ = []"

fun line_text :: "doc_line \<Rightarrow> string" where
  "line_text (Comment c) = CHR ''#'' # c"
| "line_text Blank = []"
| "line_text (Section s) = ''['' @ s @ '']''"
| "line_text (Entry k n v) = k @ replicate n (CHR '' '') @ ''= '' @ value_text v"

definition doc_text :: "doc_line list \<Rightarrow> string" where
  "doc_text ls = concat (map (\<lambda>l. line_text l @ [CHR 0x0A]) ls)"

definition close_section :: "(string \<times> table) option \<Rightarrow> table" where
  "close_section cur = (case cur of None \<Rightarrow> [] | Some (s, es) \<Rightarrow> [(s, TTable es)])"

fun tables :: "(string \<times> table) option \<Rightarrow> doc_line list \<Rightarrow> table" where
  "tables cur [] = close_section cur"
| "tables cur (Section s # ls) = close_section cur @ tables (Some (s, [])) ls"
| "tables cur (Entry k n v # ls) =
     (case cur of
        None \<Rightarrow> (k, v) # tables None ls
      | Some (s, es) \<Rightarrow> tables (Some (s, es @ [(k, v)])) ls)"
| "tables cur (l # ls) = tables cur ls"

definition bare_char :: "char \<Rightarrow> bool" where
  "bare_char c \<longleftrightarrow>
     (let n = of_char c :: nat in (48 \<le> n \<and> n \<le> 57) \<or> (65 \<le> n \<and> n \<le> 90) \<or> (97 \<le> n \<and> n \<le> 122) \<or> n = 95 \<or> n = 45)"

definition bare_key :: "string \<Rightarrow> bool" where
  "bare_key k \<longleftrightarrow> k \<noteq> [] \<and> (\<forall>c\<in>set k. bare_char c)"

text \<open>Plain text needs no escape in a basic string: no quote, no backslash, no control character.\<close>

definition plain_char :: "char \<Rightarrow> bool" where
  "plain_char c \<longleftrightarrow> (let n = of_char c :: nat in 32 \<le> n \<and> n \<noteq> 34 \<and> n \<noteq> 92 \<and> n \<noteq> 127)"

fun value_ok :: "toml \<Rightarrow> bool" where
  "value_ok (TStr s) = (\<forall>c\<in>set s. plain_char c)"
| "value_ok (TBool b) = True"
| "value_ok (TInt i) = (0 \<le> i \<and> i < 2 ^ 63)"
| "value_ok _ = False"

fun line_ok :: "doc_line \<Rightarrow> bool" where
  "line_ok (Comment c) = (\<forall>x\<in>set c. 32 \<le> (of_char x :: nat) \<and> (of_char x :: nat) \<noteq> 127)"
| "line_ok Blank = True"
| "line_ok (Section s) = bare_key s"
| "line_ok (Entry k n v) = (bare_key k \<and> value_ok v)"

text \<open>No key twice in a table, no section twice.\<close>

definition doc_ok :: "doc_line list \<Rightarrow> bool" where
  "doc_ok ls \<longleftrightarrow>
     (\<forall>l\<in>set ls. line_ok l) \<and> distinct (map fst (tables None ls)) \<and>
     (\<forall>(k, v)\<in>set (tables None ls). case v of TTable es \<Rightarrow> distinct (map fst es) | _ \<Rightarrow> True)"

definition toml_ok :: "toml_lib \<Rightarrow> bool" where
  "toml_ok T \<longleftrightarrow> (\<forall>ls. doc_ok ls \<longrightarrow> tl_parse T (doc_text ls) = Inr (tables None ls))"

section \<open>A parser for such documents\<close>

definition read_value :: "string \<Rightarrow> toml" where
  "read_value v =
     (case v of
        [] \<Rightarrow> TStr []
      | c # rest \<Rightarrow>
          if c = CHR 0x22 then TStr (butlast rest)
          else if v = ''true'' then TBool True
          else if v = ''false'' then TBool False
          else TInt (case digits_val 10 0 v of Some n \<Rightarrow> int n | None \<Rightarrow> 0))"

definition read_line :: "string \<Rightarrow> doc_line" where
  "read_line l =
     (case l of
        [] \<Rightarrow> Blank
      | c # rest \<Rightarrow>
          if c = CHR ''#'' then Comment rest
          else if c = CHR ''['' then Section (butlast rest)
          else Entry (takeWhile bare_char l) 0 (read_value (drop 2 (dropWhile (\<lambda>c. c \<noteq> CHR ''='') l))))"

definition line_parser :: toml_lib where
  "line_parser =
     \<lparr> tl_parse = (\<lambda>s. Inr (tables None (map read_line (butlast (split_on (CHR 0x0A) s))))),
       tl_misfit = (\<lambda>s. ''invalid type'') \<rparr>"

fun unpad :: "doc_line \<Rightarrow> doc_line" where
  "unpad (Entry k n v) = Entry k 0 v"
| "unpad l = l"

lemma tables_unpad: "tables cur (map unpad ls) = tables cur ls"
  by (induction cur ls rule: tables.induct) (auto split: option.splits)

lemma read_value_text: "value_ok v \<Longrightarrow> read_value (value_text v) = v"
proof (cases v)
  case (TInt i)
  assume "value_ok v"
  obtain c s where cs: "show_nat (nat i) = c # s" using show_nat_nonempty by (cases "show_nat (nat i)") auto
  then have "dec_char c" using show_nat_dec [of c "nat i"] by simp
  then have "c \<noteq> CHR 0x22" "c \<noteq> CHR ''t''" "c \<noteq> CHR ''f''" by (auto simp: dec_char_def)
  with cs \<open>value_ok v\<close> TInt digits_val_show_nat [of "nat i"] show ?thesis by (simp add: read_value_def)
qed (auto simp: read_value_def)

lemma bare_not: "\<not> bare_char (CHR '' '')" "\<not> bare_char (CHR ''='')" "\<not> bare_char (CHR ''#'')" "\<not> bare_char (CHR ''['')"
  "\<not> bare_char (CHR 0x0A)"
  by (simp_all add: bare_char_def)

lemma read_line_text: "line_ok l \<Longrightarrow> read_line (line_text l) = unpad l"
proof (cases l)
  case (Entry k n v)
  assume ok: "line_ok l"
  then obtain c s where k: "k = c # s" "bare_char c" using Entry by (cases k) (auto simp: bare_key_def)
  have bare: "\<forall>x\<in>set k. bare_char x" using ok Entry by (simp add: bare_key_def)
  have t: "takeWhile bare_char (k @ replicate n (CHR '' '') @ ''= '' @ value_text v) = k"
    using bare by (cases n) (auto simp: takeWhile_append2 bare_not)
  have "\<forall>x\<in>set (k @ replicate n (CHR '' '')). x \<noteq> CHR ''=''" using bare bare_not(2) by auto
  then have "dropWhile (\<lambda>c. c \<noteq> CHR ''='') ((k @ replicate n (CHR '' '')) @ ''= '' @ value_text v) = ''= '' @ value_text v"
    by (subst dropWhile_append2) auto
  then have d: "drop 2 (dropWhile (\<lambda>c. c \<noteq> CHR ''='') (k @ replicate n (CHR '' '') @ ''= '' @ value_text v)) = value_text v"
    by simp
  have "c \<noteq> CHR ''#''" "c \<noteq> CHR ''[''" using k(2) bare_not by auto
  moreover have "read_line (line_text l) =
      (if c = CHR ''#'' then Comment (s @ replicate n (CHR '' '') @ ''= '' @ value_text v)
       else if c = CHR ''['' then Section (butlast (s @ replicate n (CHR '' '') @ ''= '' @ value_text v))
       else Entry (takeWhile bare_char (k @ replicate n (CHR '' '') @ ''= '' @ value_text v)) 0
              (read_value (drop 2 (dropWhile (\<lambda>c. c \<noteq> CHR ''='') (k @ replicate n (CHR '' '') @ ''= '' @ value_text v)))))"
    by (simp only: read_line_def Entry line_text.simps k(1) append_Cons list.case)
  ultimately show ?thesis using ok Entry by (simp only: t d read_value_text) (simp add: read_value_text)
qed (auto simp: read_line_def)

lemma line_text_one_line: "line_ok l \<Longrightarrow> CHR 0x0A \<notin> set (line_text l)"
proof (cases l)
  case (Entry k n v)
  assume "line_ok l"
  then show ?thesis
    using Entry bare_not(5) no_addr [of "CHR 0x0A"]
    by (cases v) (auto simp: bare_key_def plain_char_def)
qed (auto simp: bare_key_def bare_not)

lemma split_on_newlines:
  "\<forall>l\<in>set ls. c \<notin> set l \<Longrightarrow> split_on c (concat (map (\<lambda>l. l @ [c]) ls)) = ls @ [[]]"
  by (induction ls) (simp_all add: split_on_append)

lemma line_parser_ok: "toml_ok line_parser"
proof -
  have "tl_parse line_parser (doc_text ls) = Inr (tables None ls)" if ok: "\<forall>l\<in>set ls. line_ok l" for ls
  proof -
    have "split_on (CHR 0x0A) (concat (map (\<lambda>l. l @ [CHR 0x0A]) (map line_text ls))) = map line_text ls @ [[]]"
      by (rule split_on_newlines) (use ok line_text_one_line in auto)
    then have "split_on (CHR 0x0A) (doc_text ls) = map line_text ls @ [[]]" by (simp add: doc_text_def o_def)
    moreover have "map read_line (map line_text ls) = map unpad ls" using ok read_line_text by simp
    ultimately show ?thesis by (simp add: line_parser_def tables_unpad del: map_map)
  qed
  then show ?thesis by (simp add: toml_ok_def doc_ok_def)
qed

text \<open>An absent section and an empty one mean the same: the \<open>Default\<close> of a section agrees with the
  defaults of its fields.\<close>

lemma section_defaults:
  "de_engine [] = Some engine_default" "de_obfuscation [] = Some obfuscation_default" "de_traffic [] = Some traffic_default"
  by (simp_all add: de_engine_def de_obfuscation_def de_traffic_def or_default_def maybe_def engine_default_def
      obfuscation_default_def traffic_default_def)

lemma from_toml_str_valid: "from_toml_str T raw = Ok cfg \<Longrightarrow> validate cfg = Ok ()"
  by (auto simp: from_toml_str_def rbind_eq_Ok split: sum.splits option.splits)

end
