(* ===== verification/Auth_Config.thy ===== *)
theory Auth_Config
  imports Toml Hsobf
begin

text \<open>
  What the configuration fixes of the security level (\<open>src/client.rs\<close>): the peer authenticator, the handshake
  obfuscation key, and the warnings for a configuration that leaves some of it off.
\<close>

section \<open>Definitions\<close>

definition build_auth :: "crypto_lib \<Rightarrow> app_config \<Rightarrow> authenticator result" where
  "build_auth C cfg =
     (let i = ac_identity cfg
      in rbind (seed_bytes i) (\<lambda>seed.
         rbind (peer_pub_bytes i) (\<lambda>peer_pub.
         rbind (ed25519_new C seed peer_pub) (\<lambda>ed.
         rbind (mldsa_secret_bytes i) (\<lambda>sk.
         rbind (peer_mldsa_pub_bytes i) (\<lambda>pk.
         case (sk, pk) of
           (Some s, Some p) \<Rightarrow> rbind (mldsa_from_keys C s p) (\<lambda>mldsa. Ok (HybridAuth [ed, mldsa]))
         | _ \<Rightarrow> Ok ed))))))"

definition hs_obf_key :: "crypto_lib \<Rightarrow> app_config \<Rightarrow> bytes option result" where
  "hs_obf_key C cfg =
     (if \<not> oc_handshake (ac_obfuscation cfg) then Ok None
      else rbind (seed_bytes (ac_identity cfg)) (\<lambda>seed.
           rbind (peer_pub_bytes (ac_identity cfg)) (\<lambda>peer_pub.
           rbind (psk_bytes (ac_obfuscation cfg)) (\<lambda>psk.
           Ok (Some (derive_hs_obf_key C (c_ed_public C seed) peer_pub psk))))))"

definition WARN_CLASSICAL :: string where
  "WARN_CLASSICAL = ''No ML-DSA keys: peer auth is Ed25519-only (CLASSICAL, not '' @
     ''post-quantum). Set mldsa_* on BOTH sides for hybrid PQ auth.''"

definition WARN_NO_OBF :: string where
  "WARN_NO_OBF = ''obfuscation.enabled = false: the data path is UNOBFUSCATED and '' @
     ''control frames are unauthenticated '' @ [CHR 0xE2, CHR 0x80, CHR 0x94] @
     '' for debugging on a trusted network only.''"

definition WARN_NO_HS_OBF :: string where
  "WARN_NO_HS_OBF = ''obfuscation.handshake = false: the handshake envelope is not disguised '' @
     ''(a DPI adversary can recognise it).''"

definition WARN_NO_PSK :: string where
  "WARN_NO_PSK = ''obfuscation.psk_hex not set: the handshake-obfuscation key is '' @
     ''pubkey-derived (weaker; no DoS gating against anyone who knows the '' @
     ''pubkeys). Set psk_hex on BOTH sides.''"

definition WARN_NO_PACING :: string where
  "WARN_NO_PACING = ''traffic profile '' @ [CHR 0x22] @ ''off'' @ [CHR 0x22] @ '': no timing/cover traffic, so burst and idle '' @
     ''patterns stay visible (a deliberate speed-vs-concealment choice).''"

definition security_warnings :: "app_config \<Rightarrow> string list" where
  "security_warnings cfg =
     (let oc = ac_obfuscation cfg
      in (if \<not> has_mldsa (ac_identity cfg) then [WARN_CLASSICAL] else []) @
         (if \<not> oc_enabled oc then [WARN_NO_OBF]
          else if \<not> oc_handshake oc then [WARN_NO_HS_OBF]
          else if oc_psk_hex oc = None then [WARN_NO_PSK] else []) @
         (if \<not> et_enabled (effective (ac_traffic cfg)) then [WARN_NO_PACING] else []))"

section \<open>Lemmas\<close>

lemma transpose_opt_Some: "transpose_opt x f = Ok v \<Longrightarrow> (v = None) = (x = None)"
  by (auto simp: transpose_opt_def rbind_eq_Ok split: option.splits)

lemma build_auth_hybrid:
  assumes "build_auth C cfg = Ok a" "has_mldsa (ac_identity cfg)"
  obtains seed peer sk pk where "seed_bytes (ac_identity cfg) = Ok seed" "peer_pub_bytes (ac_identity cfg) = Ok peer"
    "mldsa_secret_bytes (ac_identity cfg) = Ok (Some sk)" "peer_mldsa_pub_bytes (ac_identity cfg) = Ok (Some pk)"
    "a = HybridAuth [Ed25519Auth seed peer, MlDsaAuth sk pk]"
proof -
  obtain seed peer ed sk pk where *: "seed_bytes (ac_identity cfg) = Ok seed" "peer_pub_bytes (ac_identity cfg) = Ok peer"
    "ed25519_new C seed peer = Ok ed" "mldsa_secret_bytes (ac_identity cfg) = Ok sk" "peer_mldsa_pub_bytes (ac_identity cfg) = Ok pk"
    and a: "(case (sk, pk) of (Some s, Some p) \<Rightarrow> rbind (mldsa_from_keys C s p) (\<lambda>mldsa. Ok (HybridAuth [ed, mldsa])) | _ \<Rightarrow> Ok ed) = Ok a"
    using assms(1) by (auto simp: build_auth_def Let_def rbind_eq_Ok)
  have "sk \<noteq> None" "pk \<noteq> None"
    using *(4,5) assms(2) transpose_opt_Some by (auto simp: mldsa_secret_bytes_def peer_mldsa_pub_bytes_def has_mldsa_def)
  then obtain s p where sp: "sk = Some s" "pk = Some p" by auto
  then have "a = HybridAuth [ed, MlDsaAuth s p]"
    using a by (auto simp: rbind_eq_Ok mldsa_from_keys_def split: if_splits)
  moreover have "ed = Ed25519Auth seed peer" using *(3) by (simp add: ed25519_new_def split: if_splits)
  ultimately show thesis using that * sp by blast
qed

lemma no_warnings:
  "security_warnings cfg = [] \<longleftrightarrow>
     has_mldsa (ac_identity cfg) \<and> oc_enabled (ac_obfuscation cfg) \<and> oc_handshake (ac_obfuscation cfg) \<and>
     oc_psk_hex (ac_obfuscation cfg) \<noteq> None \<and> et_enabled (effective (ac_traffic cfg))"
  by (auto simp: security_warnings_def Let_def)

text \<open>C24: A configuration without warnings runs at the full security level. Of a validated configuration it says: whatever
  authenticator is built needs both an Ed25519 and an ML-DSA signature, the handshake is obfuscated under a
  key derived from a pre-shared secret of at least 16 bytes, the data path is obfuscated, and pacing is on with at least
  one packet per slot.
\<close>

theorem no_warnings_full_security:
  assumes valid: "validate cfg = Ok ()" and quiet: "security_warnings cfg = []" and auth: "build_auth C cfg = Ok a"
  shows "(\<exists>seed peer sk pk. a = HybridAuth [Ed25519Auth seed peer, MlDsaAuth sk pk]) \<and>
         (\<exists>own peer psk. hs_obf_key C cfg = Ok (Some (derive_hs_obf_key C own peer (Some psk))) \<and> 16 \<le> length psk) \<and>
         oc_enabled (ac_obfuscation cfg) \<and>
         (let eff = effective (ac_traffic cfg)
          in et_enabled eff \<and> 1 \<le> unat (et_rate_pps eff) \<and> 1 \<le> unat (et_burst eff))"
proof -
  have q: "has_mldsa (ac_identity cfg)" "oc_handshake (ac_obfuscation cfg)"
    "oc_psk_hex (ac_obfuscation cfg) \<noteq> None" "oc_enabled (ac_obfuscation cfg)"
    "et_enabled (effective (ac_traffic cfg))"
    using quiet by (simp_all add: no_warnings)
  obtain seed peer sk pk where a: "seed_bytes (ac_identity cfg) = Ok seed" "peer_pub_bytes (ac_identity cfg) = Ok peer"
    "a = HybridAuth [Ed25519Auth seed peer, MlDsaAuth sk pk]"
    by (rule build_auth_hybrid [OF auth q(1)])
  obtain psk where psk: "psk_bytes (ac_obfuscation cfg) = Ok psk" "\<forall>p. psk = Some p \<longrightarrow> 16 \<le> length p"
    using valid by (auto simp: validate_iff Let_def)
  moreover have "psk \<noteq> None" using psk(1) q(3) transpose_opt_Some by (auto simp: psk_bytes_def)
  ultimately obtain p where p: "psk = Some p" "16 \<le> length p" by auto
  have "hs_obf_key C cfg = Ok (Some (derive_hs_obf_key C (c_ed_public C seed) peer (Some p)))"
    using q(2) a psk p by (simp add: hs_obf_key_def)
  moreover have "1 \<le> unat (et_rate_pps (effective (ac_traffic cfg)))" "1 \<le> unat (et_burst (effective (ac_traffic cfg)))"
    using valid q(5) by (auto simp: validate_iff Let_def)
  ultimately show ?thesis using a(3) p(2) q by (auto simp: Let_def)
qed

definition full_config :: app_config where
  "full_config = (demo_config (traffic_default\<lparr> tc_profile := ProfBalanced \<rparr>) 200)
     \<lparr> ac_identity := \<lparr> ic_seed_hex = to_hex (replicate 32 7), ic_peer_pub_hex = to_hex (replicate 32 9),
         ic_mldsa_secret_hex = Some (to_hex (replicate 32 7)), ic_peer_mldsa_pub_hex = Some (to_hex (replicate 32 9)) \<rparr>,
       ac_obfuscation := obfuscation_default\<lparr> oc_psk_hex := Some (to_hex (replicate 16 5)) \<rparr> \<rparr>"

lemma hex_to_vec_hex [simp]: "hex_to_vec (to_hex bs) field = Ok bs"
  using trim_padded [of "[]" "[]" "to_hex bs"] to_hex_no_space
  by (auto simp: hex_to_vec_def Let_def hex_pairs_to_hex)

lemma full_config_fields:
  "seed_bytes (ac_identity full_config) = Ok (replicate 32 7)"
  "peer_pub_bytes (ac_identity full_config) = Ok (replicate 32 9)"
  "mldsa_secret_bytes (ac_identity full_config) = Ok (Some (replicate 32 7))"
  "peer_mldsa_pub_bytes (ac_identity full_config) = Ok (Some (replicate 32 9))"
  "psk_bytes (ac_obfuscation full_config) = Ok (Some (replicate 16 5))"
  by (simp_all add: full_config_def seed_bytes_def peer_pub_bytes_def mldsa_secret_bytes_def peer_mldsa_pub_bytes_def
      psk_bytes_def transpose_opt_def)

lemma full_config_valid: "validate full_config = Ok ()"
  using full_config_fields
  by (simp add: validate_iff Let_def) (simp add: full_config_def demo_config_def obfuscation_default_def effective_def traffic_default_def)

theorem no_warnings_full_security_witness:
  "\<exists>seed peer sk pk. build_auth toy_crypto full_config = Ok (HybridAuth [Ed25519Auth seed peer, MlDsaAuth sk pk])"
proof -
  have "security_warnings full_config = []"
    by (simp add: no_warnings) (simp add: full_config_def demo_config_def has_mldsa_def obfuscation_default_def effective_def)
  moreover obtain a where a: "build_auth toy_crypto full_config = Ok a"
    using full_config_fields
    by (simp add: build_auth_def Let_def ed25519_new_def mldsa_from_keys_def toy_crypto_def)
  ultimately show ?thesis using no_warnings_full_security [OF full_config_valid _ a] a by auto
qed

end
