(* ===== verification/Os.thy ===== *)
theory Os
  imports Net_Addr
begin

text \<open>
  The operating system as the set-up code sees it. External programs (\<open>ip\<close>, \<open>nft\<close>, \<open>netsh\<close>, PowerShell,
  \<open>systemctl\<close>) are not part of the repository: a \<open>runner\<close> is a parameter that takes the argument vector
  and the standard input and returns the output, or why the program could not be started, with the
  new state of the world. What the code relies on is stated where it is needed, as a hypothesis on the
  runner. The file system holds regular files and symbolic links by path (\<open>std::fs\<close>); a call may fail,
  and \<open>fs_write\<close> may fail before it opened the file or after it truncated it.
\<close>

record cmd_out =
  co_ok :: bool
  co_stdout :: string
  co_stderr :: string

type_synonym command = "string list"

text \<open>Why a program gave no output: not started, its standard input broke, waiting for it failed.\<close>

datatype run_fault = NoSpawn string | StdinBroke string | WaitFailed string

fun fault_text :: "run_fault \<Rightarrow> string" where
  "fault_text (NoSpawn e) = e"
| "fault_text (StdinBroke e) = e"
| "fault_text (WaitFailed e) = e"

type_synonym 'w runner = "command \<Rightarrow> string \<Rightarrow> 'w \<Rightarrow> (run_fault + cmd_out) \<times> 'w"

fun ran_ok :: "run_fault + cmd_out \<Rightarrow> bool" where
  "ran_ok (Inl e) = False"
| "ran_ok (Inr out) = co_ok out"

definition done_with :: "string \<Rightarrow> run_fault + cmd_out" where
  "done_with out = Inr \<lparr> co_ok = True, co_stdout = out, co_stderr = [] \<rparr>"

definition failed_with :: "string \<Rightarrow> run_fault + cmd_out" where
  "failed_with err = Inr \<lparr> co_ok = False, co_stdout = [], co_stderr = err \<rparr>"

lemma ran_ok_results [simp]: "ran_ok (done_with out)" "\<not> ran_ok (failed_with err)"
  by (simp_all add: done_with_def failed_with_def)

text \<open>\<open>.output().map(|o| o.status.success()).unwrap_or(false)\<close> and \<open>.output().ok()\<close> with its text.\<close>

definition run_succeeds :: "'w runner \<Rightarrow> command \<Rightarrow> 'w \<Rightarrow> bool \<times> 'w" where
  "run_succeeds run cmd w = (case run cmd [] w of (Inl e, w') \<Rightarrow> (False, w') | (Inr out, w') \<Rightarrow> (co_ok out, w'))"

definition run_stdout :: "'w runner \<Rightarrow> command \<Rightarrow> 'w \<Rightarrow> string option \<times> 'w" where
  "run_stdout run cmd w = (case run cmd [] w of (Inl e, w') \<Rightarrow> (None, w') | (Inr out, w') \<Rightarrow> (Some (co_stdout out), w'))"

lemma run_stdout_world: "snd (run_stdout run cmd w) = snd (run cmd [] w)"
  by (simp add: run_stdout_def split: prod.splits sum.splits)

lemma run_succeeds_world: "snd (run_succeeds run cmd w) = snd (run cmd [] w)"
  by (simp add: run_succeeds_def split: prod.splits sum.splits)

lemma run_succeeds_ok: "fst (run_succeeds run cmd w) = ran_ok (fst (run cmd [] w))"
  by (simp add: run_succeeds_def split: prod.splits sum.splits)

text \<open>Scanning words: the word after the first occurrence of \<open>key\<close>.\<close>

fun word_after :: "string \<Rightarrow> string list \<Rightarrow> string option" where
  "word_after key [] = None"
| "word_after key (t # ts) = (if t = key then (case ts of [] \<Rightarrow> None | x # _ \<Rightarrow> Some x) else word_after key ts)"

datatype platform = Linux | Windows

text \<open>A quote and a double quote.\<close>

definition SQ :: string where
  "SQ = [CHR 0x27]"

definition DQ :: string where
  "DQ = [CHR 0x22]"

definition powershell :: "string \<Rightarrow> command" where
  "powershell script = [''powershell'', ''-NoProfile'', ''-NonInteractive'', ''-Command'', script]"

text \<open>The name check of the modules that embed the tunnel's name in a script.\<close>

definition unsafe_tun_name :: "string \<Rightarrow> bool" where
  "unsafe_tun_name tun \<longleftrightarrow>
     (\<exists>c\<in>set tun. c = CHR 0x22 \<or> c = CHR 0x27 \<or> c = CHR 0x0A \<or> c = CHR 0x0D \<or> c = CHR 0x5C)"

section \<open>Files\<close>

datatype fs_node = File bytes | Symlink string

type_synonym fs = "string \<Rightarrow> fs_node option"

datatype fs_fault = Fails string | Breaks string nat

definition fs_remove :: "string \<Rightarrow> fs_fault option \<Rightarrow> fs \<Rightarrow> (string + unit) \<times> fs" where
  "fs_remove path fault f =
     (case fault of
        Some (Fails e) \<Rightarrow> (Inl e, f)
      | Some (Breaks e n) \<Rightarrow> (Inl e, f)
      | None \<Rightarrow> (case f path of None \<Rightarrow> (Inl ''No such file or directory'', f) | Some x \<Rightarrow> (Inr (), f(path := None))))"

text \<open>\<open>create_symlink\<close> refuses an existing path.\<close>

definition fs_symlink :: "string \<Rightarrow> string \<Rightarrow> fs_fault option \<Rightarrow> fs \<Rightarrow> (string + unit) \<times> fs" where
  "fs_symlink target path fault f =
     (case fault of
        Some (Fails e) \<Rightarrow> (Inl e, f)
      | Some (Breaks e n) \<Rightarrow> (Inl e, f)
      | None \<Rightarrow> (case f path of Some x \<Rightarrow> (Inl ''File exists'', f) | None \<Rightarrow> (Inr (), f(path \<mapsto> Symlink target))))"

text \<open>Opening for writing follows symbolic links, at most as many as the system allows; \<open>None\<close> is a loop.\<close>

fun fs_resolve :: "nat \<Rightarrow> fs \<Rightarrow> string \<Rightarrow> string option" where
  "fs_resolve 0 f path = None"
| "fs_resolve (Suc n) f path = (case f path of Some (Symlink target) \<Rightarrow> fs_resolve n f target | _ \<Rightarrow> Some path)"

definition MAX_LINKS :: nat where
  "MAX_LINKS = 40"

definition fs_write :: "string \<Rightarrow> bytes \<Rightarrow> fs_fault option \<Rightarrow> fs \<Rightarrow> (string + unit) \<times> fs" where
  "fs_write path contents fault f =
     (case fs_resolve MAX_LINKS f path of
        None \<Rightarrow> (Inl ''Too many levels of symbolic links'', f)
      | Some p \<Rightarrow>
          (case fault of
             Some (Fails e) \<Rightarrow> (Inl e, f)
           | Some (Breaks e n) \<Rightarrow> (Inl e, f(p \<mapsto> File (take n contents)))
           | None \<Rightarrow> (Inr (), f(p \<mapsto> File contents))))"

definition fs_read :: "string \<Rightarrow> fs_fault option \<Rightarrow> fs \<Rightarrow> string + bytes" where
  "fs_read path fault f =
     (case fault of
        Some (Fails e) \<Rightarrow> Inl e
      | Some (Breaks e n) \<Rightarrow> Inl e
      | None \<Rightarrow>
          (case (case fs_resolve MAX_LINKS f path of None \<Rightarrow> None | Some p \<Rightarrow> f p) of
             Some (File contents) \<Rightarrow> Inr contents
           | _ \<Rightarrow> Inl ''No such file or directory''))"

end
