(* ===== verification/Net_Run.thy ===== *)
theory Net_Run
  imports Net "HOL-Library.Multiset"
begin

text \<open>
  Whole runs of the two handshake drivers of \<open>src/net.rs\<close> against each other: what one side sends
  is what the other receives, in any order within a message. The initiator's first Init is
  answered by a cookie challenge, its second by the Response, and its Confirm ends the responder.
\<close>

section \<open>Lemmas\<close>

text \<open>The datagrams of a message as they reach a driver, with the times they arrive at.\<close>

definition recvs :: "sock_addr \<Rightarrow> (instant \<times> bytes) list \<Rightarrow> recv_event list" where
  "recvs src = map (\<lambda>(now, d). Recv now src d)"

definition arrivals :: "int \<Rightarrow> sock_addr \<Rightarrow> (instant \<times> bytes) list \<Rightarrow> responder_event list" where
  "arrivals t src = map (\<lambda>(now, d). RE_Recv now t src d [])"

lemma skip_index_image:
  "(\<lambda>j. if j < a then j else Suc j) ` {0..<a + b} = {0..<Suc (a + b)} - {a}" (is "?f ` ?A = ?B")
proof (intro equalityI subsetI)
  fix i assume i: "i \<in> ?B"
  show "i \<in> ?f ` ?A"
    by (rule image_eqI [of _ _ "if i < a then i else i - 1"]) (use i in auto)
qed auto

lemma mset_eq_indices:
  "mset xs = mset ys \<Longrightarrow> \<exists>js. distinct js \<and> set js = {0..<length ys} \<and> xs = map ((!) ys) js"
proof (induction xs arbitrary: ys)
  case (Cons x xs)
  then have "x \<in> set ys" by (metis list.set_intros(1) mset_eq_setD)
  then obtain us vs where ys: "ys = us @ x # vs" by (meson split_list)
  with Cons.prems have "mset xs = mset (us @ vs)" by simp
  then obtain js where js: "distinct js" "set js = {0..<length (us @ vs)}" "xs = map ((!) (us @ vs)) js"
    using Cons.IH by blast
  let ?f = "\<lambda>j. if j < length us then j else Suc j"
  have inj: "inj_on ?f A" for A by (auto simp: inj_on_def)
  have "set (map ?f js) = {0..<length ys} - {length us}"
    using skip_index_image [of "length us" "length vs"] js(2) by (simp add: ys)
  moreover have "xs = map ((!) ys) (map ?f js)"
    using js(3) by (auto simp: ys nth_append)
  moreover have "distinct (map ?f js)" unfolding distinct_map using js(1) inj by blast
  moreover have "ys ! length us = x" "length us < length ys" by (simp_all add: ys)
  ultimately show ?case
    by (intro exI [of _ "length us # map ?f js"]) (simp add: insert_absorb del: set_map upt_Suc)
qed simp

lemma message_arrives:
  assumes "crypto_ok C" "wire \<noteq> []" "length wire \<le> 8192"
    "build_handshake_datagrams C sid wire hs_obf r = Ok (ds, r')" "mset (map snd a) = mset ds"
  shows "push_handshake_all C hs_obf [] a = (replicate (length a - 1) (Ok None) @ [Ok (Some wire)], [])"
proof -
  from mset_eq_indices [OF assms(5)] obtain js where
    js: "distinct js" "set js = {0..<length ds}" "map snd a = map ((!) ds) js" by blast
  from js(3) have len: "length (map fst a) = length js" by (metis length_map)
  have "a = zip (map fst a) (map ((!) ds) js)" by (simp add: zip_map_fst_snd flip: js(3))
  with datagrams_any_order [OF assms(1-4) js(1,2) len] len show ?thesis by simp
qed

text \<open>A driver that waits for a message gets it with its last datagram.\<close>

lemma initiator_recv_message:
  "push_handshake_all C hs_obf R a = (replicate n (Ok None) @ [Ok (Some w)], R') \<Longrightarrow>
    initiator_recv C peer hs_obf R (recvs peer a) = AO_Msg w"
proof (induction a arbitrary: R n)
  case (Cons x a)
  obtain now d where x: "x = (now, d)" by fastforce
  obtain y R1 where y: "push_handshake C R now d hs_obf = (y, R1)" by fastforce
  obtain ys R2 where ys: "push_handshake_all C hs_obf R1 a = (ys, R2)" by fastforce
  from Cons.prems have "y # ys = replicate n (Ok None) @ [Ok (Some w)]" "R2 = R'"
    by (simp_all add: x y ys)
  then show ?case
    using Cons.IH [of R1 "n - 1"] y ys by (cases n) (auto simp: x recvs_def)
qed simp

lemma listen_message:
  "push_handshake_all C hs_obf R a = (replicate n (Ok None) @ [Ok (Some w)], R') \<Longrightarrow>
    foldl (responder_step C auth pref hs_obf sid secret) (RP_Listen R, sent, r) (arrivals t src a) =
    (let (ph, ds, r') = responder_init C auth pref hs_obf sid secret R' t src w [] r in (ph, sent @ ds, r'))"
proof (induction a arbitrary: R n)
  case (Cons x a)
  obtain now d where x: "x = (now, d)" by fastforce
  obtain y R1 where y: "push_handshake C R now d hs_obf = (y, R1)" by fastforce
  obtain ys R2 where ys: "push_handshake_all C hs_obf R1 a = (ys, R2)" by fastforce
  from Cons.prems have *: "y # ys = replicate n (Ok None) @ [Ok (Some w)]" "R2 = R'"
    by (simp_all add: x y ys)
  show ?case
  proof (cases n)
    case 0
    then have "a = []" using * ys by (cases a) (auto split: prod.splits)
    with 0 * y ys show ?thesis by (auto simp: x arrivals_def)
  next
    case (Suc m)
    with Cons.IH [of R1 m] * y ys show ?thesis by (simp add: x arrivals_def)
  qed
qed simp

lemma confirm_message:
  "push_handshake_all C hs_obf R a = (replicate n (Ok None) @ [Ok (Some w)], R') \<Longrightarrow>
    hs_confirm C hs w auth = Ok (HS_Established s) \<Longrightarrow>
    foldl (responder_step C auth pref hs_obf sid secret) (RP_Confirm hs src R, sent, r) (arrivals t src a) =
    (RP_Done s src, sent, r)"
proof (induction a arbitrary: R n)
  case (Cons x a)
  obtain now d where x: "x = (now, d)" by fastforce
  obtain y R1 where y: "push_handshake C R now d hs_obf = (y, R1)" by fastforce
  obtain ys R2 where ys: "push_handshake_all C hs_obf R1 a = (ys, R2)" by fastforce
  from Cons.prems have *: "y # ys = replicate n (Ok None) @ [Ok (Some w)]" "R2 = R'"
    by (simp_all add: x y ys)
  show ?case
  proof (cases n)
    case 0
    then have "a = []" using * ys by (cases a) (auto split: prod.splits)
    with 0 * y ys Cons.prems(2) show ?thesis by (auto simp: x arrivals_def)
  next
    case (Suc m)
    with Cons.IH [of R1 m] * y ys Cons.prems(2) show ?thesis by (simp add: x arrivals_def)
  qed
qed simp

lemma decoded_message:
  assumes "hs_decode w = Ok m"
  shows "length w = 8192" "w \<noteq> []" "w ! 1 = ht_as_u8 HT_CookieChallenge \<longleftrightarrow> hm_type m = HT_CookieChallenge"
proof -
  show len: "length w = 8192"
    using assms by (auto simp: hs_decode_def rbind_eq_Ok Let_def hs_consts split: if_splits)
  then show "w \<noteq> []" by auto
  have "ht_from_u8 (w ! 1) = Ok (hm_type m)"
    using assms by (auto simp: hs_decode_def rbind_eq_Ok Let_def split: if_splits)
  then show "w ! 1 = ht_as_u8 HT_CookieChallenge \<longleftrightarrow> hm_type m = HT_CookieChallenge"
    by (auto simp: ht_from_u8_def split: if_splits)
qed

text \<open>Each driver on its own, given the messages that reach it.\<close>

lemma responder_run:
  assumes q: "fill_bytes q 32 = (secret, q1)"
    and m1: "hs_decode w1 = Ok m1" "hm_type m1 = HT_Init" "\<not> cookie_valid C secret src t1 (hm_cookie m1)"
    and ch: "new_cookie_challenge (cookie_issue C secret src t1) q1 = Ok (chm, q2)"
      "hs_encode chm q2 = Ok (wc, q3)" "build_handshake_datagrams C sid wc hs_obf q3 = Ok (ch, q4)"
    and m2: "hs_decode w2 = Ok m2" "hm_type m2 = HT_Init" "cookie_valid C secret src t2 (hm_cookie m2)"
    and rs: "hs_respond C auth pref w2 q4 = Ok (h1, wr, q5)"
      "build_handshake_datagrams C sid wr hs_obf q5 = Ok (rs, q6)"
    and cf: "hs_confirm C h1 w3 auth = Ok (HS_Established s)"
    and a: "push_handshake_all C hs_obf [] a1 = (replicate n1 (Ok None) @ [Ok (Some w1)], [])"
      "push_handshake_all C hs_obf [] a2 = (replicate n2 (Ok None) @ [Ok (Some w2)], [])"
      "push_handshake_all C hs_obf [] a3 = (replicate n3 (Ok None) @ [Ok (Some w3)], [])"
  shows "run_handshake_responder C auth pref hs_obf sid
    (arrivals t1 src a1 @ arrivals t2 src a2 @ arrivals t3 src a3) q = (RP_Done s src, ch @ rs, q6)"
proof -
  have "responder_init C auth pref hs_obf sid secret [] t1 src w1 [] q1 = (RP_Listen [], ch, q4)"
    by (simp add: responder_init_def m1 ch send_handshake_def)
  moreover have "responder_init C auth pref hs_obf sid secret [] t2 src w2 [] q4 = (RP_Confirm h1 src [], rs, q6)"
    by (simp add: responder_init_def m2 rs send_handshake_def)
  ultimately show ?thesis
    by (simp add: run_handshake_responder_def q foldl_append listen_message [OF a(1)]
        listen_message [OF a(2)] confirm_message [OF a(3) cf])
qed

lemma initiator_run:
  assumes st: "hs_start C auth pref r = Ok (h0, w1, r1)"
      "build_handshake_datagrams C sid w1 hs_obf r1 = Ok (ds1, r2)" "hs_decode w1 = Ok m1"
    and ch: "hs_decode wc = Ok chm" "hm_type chm = HT_CookieChallenge"
    and again: "hs_encode (m1\<lparr> hm_cookie := hm_cookie chm \<rparr>) r2 = Ok (w2, r3)"
      "build_handshake_datagrams C sid w2 hs_obf r3 = Ok (ds2, r4)"
    and rs: "hs_decode wr = Ok rm" "hm_type rm = HT_Response"
    and cf: "hs_finalize C h0 wr auth r4 = Ok (HS_Established s, w3, r5)"
      "build_handshake_datagrams C sid w3 hs_obf r5 = Ok (cf, r6)"
    and b: "push_handshake_all C hs_obf [] b1 = (replicate n1 (Ok None) @ [Ok (Some wc)], [])"
      "push_handshake_all C hs_obf [] b2 = (replicate n2 (Ok None) @ [Ok (Some wr)], [])"
  shows "run_handshake_initiator C auth pref peer hs_obf sid
    [\<lparr> ae_faults = [], ae_events = recvs peer b1 \<rparr>, \<lparr> ae_faults = [], ae_events = recvs peer b2 \<rparr>] [] r =
    (Ok s, ds1 @ ds2 @ cf)"
proof -
  have c: "length wc = HANDSHAKE_MSG_LEN \<and> wc ! 1 = ht_as_u8 HT_CookieChallenge"
    using decoded_message [OF ch(1)] ch(2) by (simp add: hs_consts)
  have r: "\<not> (length wr = HANDSHAKE_MSG_LEN \<and> wr ! 1 = ht_as_u8 HT_CookieChallenge)"
    using decoded_message [OF rs(1)] rs(2) by simp
  have "initiator_attempts C peer hs_obf sid w1 HS_MAX_ATTEMPTS ds1
      [\<lparr> ae_faults = [], ae_events = recvs peer b1 \<rparr>, \<lparr> ae_faults = [], ae_events = recvs peer b2 \<rparr>] r2 =
      (Ok (Some wr, r4), ds1 @ ds2)"
    using c r by (auto simp: HS_MAX_ATTEMPTS_def eval_nat_numeral initiator_recv_message [OF b(1)]
        initiator_recv_message [OF b(2)] st(3) ch(1) again Let_def)
  then show ?thesis
    by (simp add: run_handshake_initiator_def st(1,2) cf send_handshake_def)
qed

text \<open>Both drivers against each other.\<close>

lemma network_run:
  assumes "crypto_ok C" "x_contributory C" "trusts C ri ii" "trusts C ii ri"
    "auth_sig_len C ii \<le> 6923" "hs_obf = None \<or> (\<exists>k. hs_obf = Some k \<and> length k = 32)"
    and cookie: "\<not> cookie_valid C (fst (fill_bytes q 32)) src t1 (replicate 16 0)"
    and time: "0 \<le> t1" "t1 \<le> t2" "t2 \<le> t1 + 120"
  shows "\<exists>init1 challenge init2 response confirm si sr q'.
    paired si sr \<and> session_wf si \<and> session_wf sr \<and> s_algo si = negotiate pref_i pref_r \<and>
    (\<forall>a1 a2 a3 b1 b2.
       mset (map snd a1) = mset init1 \<longrightarrow> mset (map snd b1) = mset challenge \<longrightarrow>
       mset (map snd a2) = mset init2 \<longrightarrow> mset (map snd b2) = mset response \<longrightarrow>
       mset (map snd a3) = mset confirm \<longrightarrow>
       run_handshake_initiator C ii pref_i peer hs_obf sid
         [\<lparr> ae_faults = [], ae_events = recvs peer b1 \<rparr>, \<lparr> ae_faults = [], ae_events = recvs peer b2 \<rparr>] [] r =
         (Ok si, init1 @ init2 @ confirm) \<and>
       run_handshake_responder C ri pref_r hs_obf sid'
         (arrivals t1 src a1 @ arrivals t2 src a2 @ arrivals t3 src a3) q =
         (RP_Done sr src, challenge @ response, q'))"
proof -
  note C = assms(1)
  have total: "\<exists>ds p'. build_handshake_datagrams C s w hs_obf p = Ok (ds, p')" if "length w = 8192" for s w p
    by (rule build_handshake_datagrams_total [OF C assms(6), of w s p]) (use that in auto)
  obtain secret q1 where sec: "fill_bytes q 32 = (secret, q1)" by fastforce
  obtain h0 w1 r1 m pk sk x k k' where start: "hs_start C ii pref_i r = Ok (h0, w1, r1)"
    and h0: "h0 = HS_SentInit x sk (absorb (absorb transcript_new (identity_binding C ii)) (transcript_bytes m))"
    and m: "hs_decode w1 = Ok m" "hm_type m = HT_Init" "hm_x m = c_x_public C x" "mlkem_pub m = pk"
      "hm_aead m = aead_as_u8 pref_i" and key: "c_kem_keypair C k = ((pk, sk), k')"
    and wf: "hm_wf m" "length (hm_sig m) \<le> 6923" "hm_cookie m = replicate 16 0" "length w1 = 8192"
    by (rule hs_start_Ok [OF C assms(5)])
  obtain init1 r2 where init1: "build_handshake_datagrams C sid w1 hs_obf r1 = Ok (init1, r2)"
    using total wf(4) by blast
  have clen: "length (cookie_issue C secret src t1) = 16"
    using C by (simp add: cookie_issue_def compute_cookie_def crypto)
  obtain chm q2 where chm: "new_cookie_challenge (cookie_issue C secret src t1) q1 = Ok (chm, q2)"
    by (auto simp: new_cookie_challenge_def fill_bytes_def)
  note cwf = new_cookie_challenge_wf [OF clen chm]
  obtain wc q3 where wc: "hs_encode chm q2 = Ok (wc, q3)"
    using hs_encode_Ok_iff [of chm q2] cwf by (cases "hs_encode chm q2") auto
  have dwc: "hs_decode wc = Ok chm" using hs_decode_encode [OF _ wc] cwf by simp
  obtain challenge q4 where challenge: "build_handshake_datagrams C sid' wc hs_obf q3 = Ok (challenge, q4)"
    using total hs_encode_length [OF wc] by blast
  let ?m = "m\<lparr> hm_cookie := hm_cookie chm \<rparr>"
  have wf': "hm_wf ?m" using wf(1) cwf clen by (simp add: hm_wf_def)
  obtain w2 r3 where w2: "hs_encode ?m r2 = Ok (w2, r3)"
    using hs_encode_Ok_iff [OF wf', of r2] wf(2) by (cases "hs_encode ?m r2") auto
  have dw2: "hs_decode w2 = Ok ?m" by (rule hs_decode_encode [OF wf' w2])
  obtain init2 r4 where init2: "build_handshake_datagrams C sid w2 hs_obf r3 = Ok (init2, r4)"
    using total hs_encode_length [OF w2] by blast
  have pub: "mlkem_pub ?m = pk" using m(4) by (simp add: mlkem_pub_def)
  have upd: "h0 = HS_SentInit x sk (absorb (absorb transcript_new (identity_binding C ii)) (transcript_bytes ?m))"
    "hm_type ?m = HT_Init" "hm_x ?m = c_x_public C x" "hm_aead ?m = aead_as_u8 pref_i"
    using h0 m by simp_all
  from honest_answer [OF assms(1-5) upd(1) dw2 upd(2,3) pub upd(4) key, of pref_r q4]
  obtain h1 wr q5 si sr where respond: "hs_respond C ri pref_r w2 q4 = Ok (h1, wr, q5)"
    and final: "\<And>p. \<exists>w3 r5. hs_finalize C h0 wr ii p = Ok (HS_Established si, w3, r5) \<and>
       hs_confirm C h1 w3 ri = Ok (HS_Established sr)"
    and pair: "paired si sr" "session_wf si" "session_wf sr" "s_algo si = negotiate pref_i pref_r"
    by blast
  from final obtain w3 r5 where finalize: "hs_finalize C h0 wr ii r4 = Ok (HS_Established si, w3, r5)"
    and confirm: "hs_confirm C h1 w3 ri = Ok (HS_Established sr)" by blast
  obtain rm where rm: "hs_decode wr = Ok rm" "hm_type rm = HT_Response"
    by (rule hs_finalize_OkD [OF finalize])
  obtain response q6 where response: "build_handshake_datagrams C sid' wr hs_obf q5 = Ok (response, q6)"
    using total decoded_message(1) [OF rm(1)] by blast
  obtain conf r6 where conf: "build_handshake_datagrams C sid w3 hs_obf r5 = Ok (conf, r6)"
    using total finalize_wire_length [OF finalize] by blast
  have valid: "cookie_valid C secret src t2 (hm_cookie ?m)"
    using cookie_bucket_later [OF time] cwf clen by (auto simp: cookie_valid_iff [OF C] cookie_issue_def)
  have new: "\<not> cookie_valid C secret src t1 (hm_cookie m)" using cookie by (simp add: sec wf(3))
  have w3: "length w3 = 8192" by (rule finalize_wire_length [OF finalize])
  have ini: "run_handshake_initiator C ii pref_i peer hs_obf sid
      [\<lparr> ae_faults = [], ae_events = recvs peer b1 \<rparr>, \<lparr> ae_faults = [], ae_events = recvs peer b2 \<rparr>] [] r =
      (Ok si, init1 @ init2 @ conf)"
    if "mset (map snd b1) = mset challenge" "mset (map snd b2) = mset response" for b1 b2
    using cwf decoded_message [OF dwc] decoded_message [OF rm(1)]
    by (intro initiator_run [OF start init1 m(1) dwc _ w2 init2 rm finalize conf
          message_arrives [OF C _ _ challenge that(1)] message_arrives [OF C _ _ response that(2)]]) auto
  have res: "run_handshake_responder C ri pref_r hs_obf sid'
      (arrivals t1 src a1 @ arrivals t2 src a2 @ arrivals t3 src a3) q = (RP_Done sr src, challenge @ response, q6)"
    if "mset (map snd a1) = mset init1" "mset (map snd a2) = mset init2" "mset (map snd a3) = mset conf" for a1 a2 a3
    using decoded_message [OF m(1)] decoded_message [OF dw2] w3 m(2)
    by (intro responder_run [OF sec m(1,2) new chm wc challenge dw2 _ valid respond response confirm
          message_arrives [OF C _ _ init1 that(1)] message_arrives [OF C _ _ init2 that(2)]
          message_arrives [OF C _ _ conf that(3)]]) auto
  show ?thesis
    by (intro exI [of _ init1] exI [of _ challenge] exI [of _ init2] exI [of _ response]
        exI [of _ conf] exI [of _ si] exI [of _ sr] exI [of _ q6] conjI pair allI impI ini res)
qed

text \<open>A concrete source address, for which the toy cookie is not the one of a first Init.\<close>

definition demo_src :: sock_addr where
  "demo_src = \<lparr> sa_ip = V4 [10, 0, 0, 1], sa_port = 5 \<rparr>"

lemma demo_cookie: "\<not> cookie_valid toy_crypto secret demo_src t (replicate 16 0)"
proof -
  have "compute_cookie toy_crypto secret demo_src b ! 0 = 10" for b
    by (simp add: compute_cookie_def toy_crypto_def pad_to_def cookie_input_def demo_src_def)
  moreover have "replicate 16 (0 :: byte) ! 0 = 0" and word_ten: "(0 :: byte) \<noteq> 10" by simp_all
  ultimately have "replicate 16 0 \<noteq> compute_cookie toy_crypto secret demo_src b" for b
    using word_ten by metis
  then show ?thesis by (simp add: cookie_valid_iff [OF toy_crypto_ok])
qed

lemma demo_network_run:
  obtains init1 challenge init2 response confirm si sr q' where
    "paired si sr"
    "run_handshake_initiator toy_crypto (demo_auth 1 2) Aegis256X2 demo_src None 1
       [\<lparr> ae_faults = [], ae_events = recvs demo_src (map (Pair 0) challenge) \<rparr>,
        \<lparr> ae_faults = [], ae_events = recvs demo_src (map (Pair 0) response) \<rparr>] [] (\<lambda>_. 5) =
       (Ok si, init1 @ init2 @ confirm)"
    "run_handshake_responder toy_crypto (demo_auth 2 1) Aegis256X2 None 2
       (arrivals 1000 demo_src (map (Pair 0) init1) @ arrivals 1000 demo_src (map (Pair 0) init2) @
        arrivals 1000 demo_src (map (Pair 0) confirm)) (\<lambda>_. 6) =
       (RP_Done sr demo_src, challenge @ response, q')"
proof -
  have time: "(0 :: int) \<le> 1000" "(1000 :: int) \<le> 1000" "(1000 :: int) \<le> 1000 + 120" by simp_all
  have len: "auth_sig_len toy_crypto (demo_auth 1 2) \<le> 6923" by (simp add: demo_auth_len)
  have pushed: "mset (map snd (map (Pair (0 :: instant)) ds)) = mset ds" for ds :: "bytes list"
    by (simp add: multiset.map_comp comp_def)
  from network_run [where hs_obf = None and ?t1.0 = 1000 and ?t2.0 = 1000 and ?t3.0 = 1000 and pref_i = Aegis256X2 and
      pref_r = Aegis256X2 and peer = demo_src and sid = 1 and r = "\<lambda>_. 5" and sid' = 2 and q = "\<lambda>_. 6",
      OF toy_crypto_ok toy_contributory demo_trusts demo_trusts len disjI1 [OF refl] demo_cookie time]
  obtain init1 challenge init2 response confirm si sr q' where "paired si sr" and
    run: "\<And>a1 a2 a3 b1 b2.
       mset (map snd a1) = mset init1 \<Longrightarrow> mset (map snd b1) = mset challenge \<Longrightarrow>
       mset (map snd a2) = mset init2 \<Longrightarrow> mset (map snd b2) = mset response \<Longrightarrow>
       mset (map snd a3) = mset confirm \<Longrightarrow>
       run_handshake_initiator toy_crypto (demo_auth 1 2) Aegis256X2 demo_src None 1
         [\<lparr> ae_faults = [], ae_events = recvs demo_src b1 \<rparr>, \<lparr> ae_faults = [], ae_events = recvs demo_src b2 \<rparr>] [] (\<lambda>_. 5) =
         (Ok si, init1 @ init2 @ confirm) \<and>
       run_handshake_responder toy_crypto (demo_auth 2 1) Aegis256X2 None 2
         (arrivals 1000 demo_src a1 @ arrivals 1000 demo_src a2 @ arrivals 1000 demo_src a3) (\<lambda>_. 6) =
         (RP_Done sr demo_src, challenge @ response, q')"
    by blast
  then show thesis using that run [OF pushed pushed pushed pushed pushed] by blast
qed

section \<open>Properties\<close>

text \<open>Over any sequence of datagrams, ticks and timeouts, the listening responder returns a session
  only if its peer echoed a cookie issued to that very source address, before any expensive
  key agreement, and then proved its identity in a Confirm for that handshake.\<close>

theorem responder_returns_authenticated_peer:
  assumes "fst (run_handshake_responder C auth pref hs_obf sid evs r) = RP_Done s peer"
  shows "\<exists>hs w w1 m t q wire q'. hs_decode w1 = Ok m \<and> hm_type m = HT_Init \<and>
    cookie_valid C (fst (fill_bytes r 32)) peer t (hm_cookie m) \<and>
    hs_respond C auth pref w1 q = Ok (hs, wire, q') \<and> hs_confirm C hs w auth = Ok (HS_Established s)"
proof -
  obtain secret r1 where r: "fill_bytes r 32 = (secret, r1)" by fastforce
  have "responder_inv C auth pref secret (fst (run_handshake_responder C auth pref hs_obf sid evs r))"
    using responder_run_inv [of C auth pref secret "(RP_Listen [], [], r1)" hs_obf sid evs]
    by (simp add: run_handshake_responder_def r) (simp add: responder_inv_def)
  with assms obtain hs w where "half_open C auth pref secret hs peer"
    "hs_confirm C hs w auth = Ok (HS_Established s)"
    by (auto simp: responder_inv_def)
  then show ?thesis unfolding half_open_def r fst_conv by blast
qed

theorem responder_returns_authenticated_peer_witness:
  "\<exists>evs s hs w w1 m t q wire q'.
    fst (run_handshake_responder toy_crypto (demo_auth 2 1) Aegis256X2 None 2 evs (\<lambda>_. 6)) = RP_Done s demo_src \<and>
    hs_decode w1 = Ok m \<and> cookie_valid toy_crypto (fst (fill_bytes (\<lambda>_. 6) 32)) demo_src t (hm_cookie m) \<and>
    hs_respond toy_crypto (demo_auth 2 1) Aegis256X2 w1 q = Ok (hs, wire, q') \<and>
    hs_confirm toy_crypto hs w (demo_auth 2 1) = Ok (HS_Established s)"
proof -
  obtain evs s where "fst (run_handshake_responder toy_crypto (demo_auth 2 1) Aegis256X2 None 2 evs (\<lambda>_. 6)) = RP_Done s demo_src"
    using demo_network_run by (metis fst_conv)
  with responder_returns_authenticated_peer [OF this] show ?thesis by blast
qed

text \<open>C10: the initial handshake completes through both drivers: when the first Init carries no valid cookie,
  the initiator is challenged, resends its Init with the cookie and gets the Response; if the
  datagrams of every message arrive, in any order within the message and at any times, and the
  second Init reaches the responder within 120 seconds of the challenge, both drivers return, with
  paired sessions and the negotiated cipher, the responder's with the initiator's address.\<close>

theorem initial_handshake_completes:
  assumes "crypto_ok C" "x_contributory C" "trusts C ri ii" "trusts C ii ri"
    "auth_sig_len C ii \<le> 6923" "hs_obf = None \<or> (\<exists>k. hs_obf = Some k \<and> length k = 32)"
    "\<not> cookie_valid C (fst (fill_bytes q 32)) src t1 (replicate 16 0)"
    "0 \<le> t1" "t1 \<le> t2" "t2 \<le> t1 + 120"
  shows "\<exists>init1 challenge init2 response confirm si sr q'.
    paired si sr \<and> session_wf si \<and> session_wf sr \<and> s_algo si = negotiate pref_i pref_r \<and>
    (\<forall>a1 a2 a3 b1 b2.
       mset (map snd a1) = mset init1 \<longrightarrow> mset (map snd b1) = mset challenge \<longrightarrow>
       mset (map snd a2) = mset init2 \<longrightarrow> mset (map snd b2) = mset response \<longrightarrow>
       mset (map snd a3) = mset confirm \<longrightarrow>
       run_handshake_initiator C ii pref_i peer hs_obf sid
         [\<lparr> ae_faults = [], ae_events = recvs peer b1 \<rparr>, \<lparr> ae_faults = [], ae_events = recvs peer b2 \<rparr>] [] r =
         (Ok si, init1 @ init2 @ confirm) \<and>
       run_handshake_responder C ri pref_r hs_obf sid'
         (arrivals t1 src a1 @ arrivals t2 src a2 @ arrivals t3 src a3) q =
         (RP_Done sr src, challenge @ response, q'))"
  by (rule network_run [OF assms])

theorem initial_handshake_completes_witness:
  "\<exists>init1 challenge init2 response confirm si sr q'. paired si sr \<and>
    (\<forall>a1. mset (map snd a1) = mset init1 \<longrightarrow>
      run_handshake_responder toy_crypto (demo_auth 2 1) Aegis256X2 None 2
        (arrivals 1000 demo_src a1 @ arrivals 1100 demo_src (map (Pair 0) init2) @
         arrivals 1000 demo_src (map (Pair 0) confirm)) (\<lambda>_. 6) =
        (RP_Done sr demo_src, challenge @ response, q'))"
proof -
  have pushed: "mset (map snd (map (Pair (0 :: instant)) ds)) = mset ds" for ds :: "bytes list"
    by (simp add: multiset.map_comp comp_def)
  have time: "(0 :: int) \<le> 1000" "(1000 :: int) \<le> 1100" "(1100 :: int) \<le> 1000 + 120" by simp_all
  have len: "auth_sig_len toy_crypto (demo_auth 1 2) \<le> 6923" by (simp add: demo_auth_len)
  from initial_handshake_completes [where hs_obf = None and ?t1.0 = 1000 and ?t2.0 = 1100 and ?t3.0 = 1000 and
      pref_i = Aegis256X2 and pref_r = Aegis256X2 and peer = demo_src and sid = 1 and r = "\<lambda>_. 5" and
      sid' = 2 and q = "\<lambda>_. 6",
      OF toy_crypto_ok toy_contributory demo_trusts demo_trusts len disjI1 [OF refl] demo_cookie time]
  obtain init1 challenge init2 response confirm si sr q' where "paired si sr" and
    run: "\<And>a1 a2 a3 b1 b2.
       mset (map snd a1) = mset init1 \<Longrightarrow> mset (map snd b1) = mset challenge \<Longrightarrow>
       mset (map snd a2) = mset init2 \<Longrightarrow> mset (map snd b2) = mset response \<Longrightarrow>
       mset (map snd a3) = mset confirm \<Longrightarrow>
       run_handshake_initiator toy_crypto (demo_auth 1 2) Aegis256X2 demo_src None 1
         [\<lparr> ae_faults = [], ae_events = recvs demo_src b1 \<rparr>, \<lparr> ae_faults = [], ae_events = recvs demo_src b2 \<rparr>] [] (\<lambda>_. 5) =
         (Ok si, init1 @ init2 @ confirm) \<and>
       run_handshake_responder toy_crypto (demo_auth 2 1) Aegis256X2 None 2
         (arrivals 1000 demo_src a1 @ arrivals 1100 demo_src a2 @ arrivals 1000 demo_src a3) (\<lambda>_. 6) =
         (RP_Done sr demo_src, challenge @ response, q')"
    by blast
  then show ?thesis
    using run [OF _ pushed pushed pushed pushed] by blast
qed

end
