(* ===== verification/Setup.thy ===== *)
theory Setup
  imports Auth_Config Os Net_Run
begin

text \<open>
  Guided set-up (\<open>src/setup.rs\<close>): a matched pair of configurations, server and client, with fresh keys wired
  crosswise and one shared obfuscation secret, as the text of two TOML files. \<open>hex\<close> is \<open>to_hex\<close> of \<open>Config\<close>.
\<close>

section \<open>Definitions\<close>

record pair_params =
  pp_server_addr :: sock_addr
  pp_bind_addr :: sock_addr
  pp_tun_net :: bytes
  pp_mtu :: u16
  pp_full_tunnel :: bool
  pp_kill_switch :: bool
  pp_profile :: string

record key_mat =
  km_ed_seed :: string
  km_ed_pub :: string
  km_mldsa_sk :: string
  km_mldsa_pub :: string

definition parse_tun_net :: "string \<Rightarrow> bytes result" where
  "parse_tun_net s =
     (case those (map (parse_uint 256) (split_on (CHR ''.'') s)) of
        Some ns \<Rightarrow>
          if length ns = 3 then Ok (map of_nat ns)
          else Err (HandshakeErr ''init'' (''--tun-net '' @ SQ @ s @ SQ @ '' must be a /24 base like 10.99.0''))
      | None \<Rightarrow> Err (HandshakeErr ''init'' (''--tun-net '' @ SQ @ s @ SQ @ '' must be a /24 base like 10.99.0'')))"

definition gen_node :: "crypto_lib \<Rightarrow> rng \<Rightarrow> key_mat \<times> rng" where
  "gen_node C r =
     (let (seed, r1) = fill_bytes r 32;
          ed_pub = c_ed_public C seed;
          ((mldsa_pub, mldsa_sk), r2) = c_mldsa_keypair C r1
      in (\<lparr> km_ed_seed = to_hex seed, km_ed_pub = to_hex ed_pub, km_mldsa_sk = to_hex mldsa_sk,
            km_mldsa_pub = to_hex mldsa_pub \<rparr>, r2))"

definition gen_psk_hex :: "rng \<Rightarrow> string \<times> rng" where
  "gen_psk_hex r = (let (psk, r') = fill_bytes r 32 in (to_hex psk, r'))"

definition ln :: "string \<Rightarrow> string" where
  "ln s = s @ [CHR 0x0A]"

definition quoted :: "string \<Rightarrow> string" where
  "quoted s = [CHR 0x22] @ s @ [CHR 0x22]"

definition show_bool :: "bool \<Rightarrow> string" where
  "show_bool b = (if b then ''true'' else ''false'')"

text \<open>The em dash of the first comment, in UTF-8.\<close>

definition DASH :: string where
  "DASH = [CHR 0xE2, CHR 0x80, CHR 0x94]"

definition tun_ip :: "bytes \<Rightarrow> string \<Rightarrow> string" where
  "tun_ip net host =
     show_nat (unat (net ! 0)) @ ''.'' @ show_nat (unat (net ! 1)) @ ''.'' @ show_nat (unat (net ! 2)) @ ''.'' @ host"

definition build_pair :: "pair_params \<Rightarrow> key_mat \<Rightarrow> key_mat \<Rightarrow> string \<Rightarrow> string \<times> string" where
  "build_pair p server client psk =
     (let server_tun = tun_ip (pp_tun_net p) ''1'';
          client_tun = tun_ip (pp_tun_net p) ''2'';
          mtu = show_nat (unat (pp_mtu p));
          profile = pp_profile p;
          server_toml =
            ln (''# Chameleon-PQ SERVER config '' @ DASH @ '' generated by `chameleon-pq init`.'') @
            ln ''# SECRET: holds this node's private keys. Do not share or commit.'' @
            ln [] @
            ln ''[identity]'' @
            ln (''ed25519_seed_hex     = '' @ quoted (km_ed_seed server)) @
            ln (''mldsa_secret_hex     = '' @ quoted (km_mldsa_sk server)) @
            ln (''peer_ed25519_pub_hex = '' @ quoted (km_ed_pub client)) @
            ln (''peer_mldsa_pub_hex   = '' @ quoted (km_mldsa_pub client)) @
            ln [] @
            ln ''[network]'' @
            ln (''bind_addr = '' @ quoted (show_sock_addr (pp_bind_addr p))) @
            ln [] @
            ln ''[tun]'' @
            ln (''name    = '' @ quoted ''chameleon0'') @
            ln (''address = '' @ quoted server_tun) @
            ln (''netmask = '' @ quoted ''255.255.255.0'') @
            ln (''mtu     = '' @ mtu) @
            ln [] @
            ln ''[obfuscation]'' @
            ln ''enabled   = true'' @
            ln ''handshake = true'' @
            ln (''psk_hex   = '' @ quoted psk) @
            ln [] @
            ln ''[traffic]'' @
            ln (''profile = '' @ quoted profile);
          client_tun_block =
            ln ''[tun]'' @
            ln (''name         = '' @ quoted ''chameleon0'') @
            ln (''address      = '' @ quoted client_tun) @
            ln (''netmask      = '' @ quoted ''255.255.255.0'') @
            ln (''mtu          = '' @ mtu) @
            ln (''route_all    = '' @ show_bool (pp_full_tunnel p)) @
            ln (''peer_address = '' @ quoted server_tun) @
            (if pp_full_tunnel p then ln (''kill_switch  = '' @ show_bool (pp_kill_switch p)) else []);
          client_toml =
            ln (''# Chameleon-PQ CLIENT config '' @ DASH @ '' generated by `chameleon-pq init`.'') @
            ln ''# SECRET: holds this node's private keys. Do not share or commit.'' @
            ln [] @
            ln ''[identity]'' @
            ln (''ed25519_seed_hex     = '' @ quoted (km_ed_seed client)) @
            ln (''mldsa_secret_hex     = '' @ quoted (km_mldsa_sk client)) @
            ln (''peer_ed25519_pub_hex = '' @ quoted (km_ed_pub server)) @
            ln (''peer_mldsa_pub_hex   = '' @ quoted (km_mldsa_pub server)) @
            ln [] @
            ln ''[network]'' @
            ln (''server_addr = '' @ quoted (show_sock_addr (pp_server_addr p))) @
            ln [] @
            client_tun_block @
            ln [] @
            ln ''[obfuscation]'' @
            ln ''enabled   = true'' @
            ln ''handshake = true'' @
            ln (''psk_hex   = '' @ quoted psk) @
            ln [] @
            ln ''[traffic]'' @
            ln (''profile = '' @ quoted profile)
      in (server_toml, client_toml))"

definition init_pair :: "crypto_lib \<Rightarrow> pair_params \<Rightarrow> rng \<Rightarrow> (string \<times> string) \<times> rng" where
  "init_pair C p r =
     (let (server, r1) = gen_node C r;
          (client, r2) = gen_node C r1;
          (psk, r3) = gen_psk_hex r2
      in (build_pair p server client psk, r3))"

section \<open>The documents\<close>

definition identity_doc :: "key_mat \<Rightarrow> key_mat \<Rightarrow> doc_line list" where
  "identity_doc me peer =
     [Section ''identity'', Entry ''ed25519_seed_hex'' 5 (TStr (km_ed_seed me)), Entry ''mldsa_secret_hex'' 5 (TStr (km_mldsa_sk me)),
      Entry ''peer_ed25519_pub_hex'' 1 (TStr (km_ed_pub peer)), Entry ''peer_mldsa_pub_hex'' 3 (TStr (km_mldsa_pub peer)), Blank]"

definition rest_doc :: "string \<Rightarrow> string \<Rightarrow> doc_line list" where
  "rest_doc psk profile =
     [Blank, Section ''obfuscation'', Entry ''enabled'' 3 (TBool True), Entry ''handshake'' 1 (TBool True),
      Entry ''psk_hex'' 3 (TStr psk), Blank, Section ''traffic'', Entry ''profile'' 1 (TStr profile)]"

definition server_doc :: "pair_params \<Rightarrow> key_mat \<Rightarrow> key_mat \<Rightarrow> string \<Rightarrow> doc_line list" where
  "server_doc p server client psk =
     [Comment ('' Chameleon-PQ SERVER config '' @ DASH @ '' generated by `chameleon-pq init`.''),
      Comment '' SECRET: holds this node's private keys. Do not share or commit.'', Blank] @
     identity_doc server client @
     [Section ''network'', Entry ''bind_addr'' 1 (TStr (show_sock_addr (pp_bind_addr p))), Blank,
      Section ''tun'', Entry ''name'' 4 (TStr ''chameleon0''), Entry ''address'' 1 (TStr (tun_ip (pp_tun_net p) ''1'')),
      Entry ''netmask'' 1 (TStr ''255.255.255.0''), Entry ''mtu'' 5 (TInt (uint (pp_mtu p)))] @
     rest_doc psk (pp_profile p)"

definition client_doc :: "pair_params \<Rightarrow> key_mat \<Rightarrow> key_mat \<Rightarrow> string \<Rightarrow> doc_line list" where
  "client_doc p server client psk =
     [Comment ('' Chameleon-PQ CLIENT config '' @ DASH @ '' generated by `chameleon-pq init`.''),
      Comment '' SECRET: holds this node's private keys. Do not share or commit.'', Blank] @
     identity_doc client server @
     [Section ''network'', Entry ''server_addr'' 1 (TStr (show_sock_addr (pp_server_addr p))), Blank,
      Section ''tun'', Entry ''name'' 9 (TStr ''chameleon0''), Entry ''address'' 6 (TStr (tun_ip (pp_tun_net p) ''2'')),
      Entry ''netmask'' 6 (TStr ''255.255.255.0''), Entry ''mtu'' 10 (TInt (uint (pp_mtu p))),
      Entry ''route_all'' 4 (TBool (pp_full_tunnel p)), Entry ''peer_address'' 1 (TStr (tun_ip (pp_tun_net p) ''1''))] @
     (if pp_full_tunnel p then [Entry ''kill_switch'' 2 (TBool (pp_kill_switch p))] else []) @
     rest_doc psk (pp_profile p)"

lemma nat_uint [simp]: "nat (uint x) = unat x"
  by simp

lemma build_pair_docs:
  "build_pair p server client psk = (doc_text (server_doc p server client psk), doc_text (client_doc p server client psk))"
  by (simp add: build_pair_def Let_def doc_text_def server_doc_def client_doc_def identity_doc_def rest_doc_def
      ln_def quoted_def show_bool_def DASH_def eval_nat_numeral)

lemma addr_char_plain: "addr_char c \<Longrightarrow> plain_char c"
  by (auto simp: addr_char_def dec_char_def plain_char_def Let_def)

lemma hex_digit_addr: "n < 16 \<Longrightarrow> addr_char (hex_digit n)"
  using hex_digit_unat [of n] by (cases "n < 10") (auto simp: hex_digit_def addr_char_def dec_char_def word_less_nat_alt)

lemma dec_char_plain: "dec_char c \<Longrightarrow> plain_char c"
  by (rule addr_char_plain) (rule addr_char_dec)

definition plain :: "string \<Rightarrow> bool" where
  "plain s \<longleftrightarrow> (\<forall>c\<in>set s. plain_char c)"

lemma plain_append: "plain (s @ t) \<longleftrightarrow> plain s \<and> plain t"
  by (auto simp: plain_def)

lemma plain_show_nat: "plain (show_nat n)"
  by (auto simp: plain_def dest: show_nat_dec intro: dec_char_plain)

lemma plain_literals: "plain ''.''" "plain '':''" "plain ''chameleon0''" "plain ''255.255.255.0''" "plain ''1''" "plain ''2''"
  by code_simp+

lemma to_hex_plain: "plain (to_hex bs)"
proof (induction bs)
  case (Cons b bs)
  then show ?case
    using addr_char_plain [OF hex_digit_addr, OF nibbles_less(1), of b] addr_char_plain [OF hex_digit_addr, OF nibbles_less(2), of b]
    by (simp add: plain_def)
qed (simp add: plain_def)

lemma show_sock_addr_plain:
  assumes "is_v4 (sa_ip a)"
  shows "plain (show_sock_addr a)"
proof -
  obtain bs where bs: "sa_ip a = V4 bs" using assms by (cases "sa_ip a") auto
  have "plain (show_v4 bs)" by (auto simp: plain_def dest: show_v4_addr intro: addr_char_plain)
  then show ?thesis by (simp only: show_sock_addr_def bs ip_addr.case plain_append plain_show_nat plain_literals simp_thms)
qed

lemma tun_ip_plain: "plain h \<Longrightarrow> plain (tun_ip net h)"
  by (simp only: tun_ip_def plain_append plain_show_nat plain_literals simp_thms)

definition key_mat_plain :: "key_mat \<Rightarrow> bool" where
  "key_mat_plain k \<longleftrightarrow> plain (km_ed_seed k) \<and> plain (km_ed_pub k) \<and> plain (km_mldsa_sk k) \<and> plain (km_mldsa_pub k)"

definition identity_table :: "key_mat \<Rightarrow> key_mat \<Rightarrow> table" where
  "identity_table me peer =
     [(''ed25519_seed_hex'', TStr (km_ed_seed me)), (''mldsa_secret_hex'', TStr (km_mldsa_sk me)),
      (''peer_ed25519_pub_hex'', TStr (km_ed_pub peer)), (''peer_mldsa_pub_hex'', TStr (km_mldsa_pub peer))]"

definition rest_tables :: "string \<Rightarrow> string \<Rightarrow> table" where
  "rest_tables psk profile =
     [(''obfuscation'', TTable [(''enabled'', TBool True), (''handshake'', TBool True), (''psk_hex'', TStr psk)]),
      (''traffic'', TTable [(''profile'', TStr profile)])]"

definition server_table :: "pair_params \<Rightarrow> key_mat \<Rightarrow> key_mat \<Rightarrow> string \<Rightarrow> table" where
  "server_table p server client psk =
     [(''identity'', TTable (identity_table server client)),
      (''network'', TTable [(''bind_addr'', TStr (show_sock_addr (pp_bind_addr p)))]),
      (''tun'', TTable [(''name'', TStr ''chameleon0''), (''address'', TStr (tun_ip (pp_tun_net p) ''1'')),
         (''netmask'', TStr ''255.255.255.0''), (''mtu'', TInt (uint (pp_mtu p)))])] @ rest_tables psk (pp_profile p)"

definition client_table :: "pair_params \<Rightarrow> key_mat \<Rightarrow> key_mat \<Rightarrow> string \<Rightarrow> table" where
  "client_table p server client psk =
     [(''identity'', TTable (identity_table client server)),
      (''network'', TTable [(''server_addr'', TStr (show_sock_addr (pp_server_addr p)))]),
      (''tun'', TTable ([(''name'', TStr ''chameleon0''), (''address'', TStr (tun_ip (pp_tun_net p) ''2'')),
         (''netmask'', TStr ''255.255.255.0''), (''mtu'', TInt (uint (pp_mtu p))),
         (''route_all'', TBool (pp_full_tunnel p)), (''peer_address'', TStr (tun_ip (pp_tun_net p) ''1''))] @
         (if pp_full_tunnel p then [(''kill_switch'', TBool (pp_kill_switch p))] else [])))] @ rest_tables psk (pp_profile p)"

lemma doc_tables:
  "tables None (server_doc p server client psk) = server_table p server client psk"
  "tables None (client_doc p server client psk) = client_table p server client psk"
  by (simp_all add: server_doc_def client_doc_def identity_doc_def rest_doc_def server_table_def client_table_def
      identity_table_def rest_tables_def close_section_def)

lemma literal_lines:
  "bare_key ''identity''" "bare_key ''network''" "bare_key ''tun''" "bare_key ''obfuscation''" "bare_key ''traffic''"
  "bare_key ''ed25519_seed_hex''" "bare_key ''mldsa_secret_hex''" "bare_key ''peer_ed25519_pub_hex''"
  "bare_key ''peer_mldsa_pub_hex''" "bare_key ''bind_addr''" "bare_key ''server_addr''" "bare_key ''name''"
  "bare_key ''address''" "bare_key ''netmask''" "bare_key ''mtu''" "bare_key ''route_all''" "bare_key ''peer_address''"
  "bare_key ''kill_switch''" "bare_key ''enabled''" "bare_key ''handshake''" "bare_key ''psk_hex''" "bare_key ''profile''"
  "line_ok (Comment ('' Chameleon-PQ SERVER config '' @ DASH @ '' generated by `chameleon-pq init`.''))"
  "line_ok (Comment ('' Chameleon-PQ CLIENT config '' @ DASH @ '' generated by `chameleon-pq init`.''))"
  "line_ok (Comment '' SECRET: holds this node's private keys. Do not share or commit.'')"
  by code_simp+

lemma uint_mtu: "uint (m :: u16) < 2 ^ 63" "0 \<le> uint (m :: u16)"
  using uint_bounded [of m] by simp_all

lemma doc_line_ok:
  assumes "key_mat_plain server" "key_mat_plain client" "plain psk" "plain (pp_profile p)"
    "is_v4 (sa_ip (pp_bind_addr p))" "is_v4 (sa_ip (pp_server_addr p))"
  shows "\<forall>l\<in>set (server_doc p server client psk). line_ok l" "\<forall>l\<in>set (client_doc p server client psk). line_ok l"
proof -
  have tun: "plain (tun_ip (pp_tun_net p) ''1'')" "plain (tun_ip (pp_tun_net p) ''2'')"
    by (rule tun_ip_plain, rule plain_literals)+
  note addr = show_sock_addr_plain [OF assms(5)] show_sock_addr_plain [OF assms(6)]
  have str: "value_ok (TStr s) = plain s" for s by (simp add: plain_def)
  show "\<forall>l\<in>set (server_doc p server client psk). line_ok l" "\<forall>l\<in>set (client_doc p server client psk). line_ok l"
    using assms uint_mtu literal_lines tun addr plain_literals str
    by (simp_all only: server_doc_def client_doc_def identity_doc_def rest_doc_def key_mat_plain_def set_append list.set
        ball_Un ball_simps line_ok.simps(2,3,4) value_ok.simps(2,3) simp_thms split: if_split)
qed

lemma docs_ok:
  assumes "key_mat_plain server" "key_mat_plain client" "plain psk" "plain (pp_profile p)"
    "is_v4 (sa_ip (pp_bind_addr p))" "is_v4 (sa_ip (pp_server_addr p))"
  shows "doc_ok (server_doc p server client psk)" "doc_ok (client_doc p server client psk)"
  using doc_line_ok [OF assms] unfolding doc_ok_def doc_tables
  by (simp_all add: server_table_def client_table_def identity_table_def rest_tables_def)

section \<open>What the two files configure\<close>

definition pair_config :: "key_mat \<Rightarrow> key_mat \<Rightarrow> network_config \<Rightarrow> tun_config \<Rightarrow> string \<Rightarrow> traffic_profile \<Rightarrow> app_config" where
  "pair_config me peer net tun psk prof =
     \<lparr> ac_identity = \<lparr> ic_seed_hex = km_ed_seed me, ic_peer_pub_hex = km_ed_pub peer,
         ic_mldsa_secret_hex = Some (km_mldsa_sk me), ic_peer_mldsa_pub_hex = Some (km_mldsa_pub peer) \<rparr>,
       ac_network = net, ac_tun = tun, ac_engine = engine_default,
       ac_obfuscation = \<lparr> oc_enabled = True, oc_padding = PaddingBucketed, oc_handshake = True, oc_psk_hex = Some psk \<rparr>,
       ac_traffic = traffic_default\<lparr> tc_profile := prof \<rparr> \<rparr>"

definition server_config :: "pair_params \<Rightarrow> key_mat \<Rightarrow> key_mat \<Rightarrow> string \<Rightarrow> traffic_profile \<Rightarrow> app_config" where
  "server_config p server client =
     pair_config server client \<lparr> nc_bind_addr = pp_bind_addr p, nc_server_addr = None \<rparr>
       \<lparr> tn_name = ''chameleon0'', tn_address = tun_ip (pp_tun_net p) ''1'', tn_netmask = ''255.255.255.0'',
         tn_mtu = pp_mtu p, tn_route_all = False, tn_peer_address = None, tn_kill_switch = False, tn_dns = [] \<rparr>"

definition client_config :: "pair_params \<Rightarrow> key_mat \<Rightarrow> key_mat \<Rightarrow> string \<Rightarrow> traffic_profile \<Rightarrow> app_config" where
  "client_config p server client =
     pair_config client server \<lparr> nc_bind_addr = default_bind, nc_server_addr = Some (pp_server_addr p) \<rparr>
       \<lparr> tn_name = ''chameleon0'', tn_address = tun_ip (pp_tun_net p) ''2'', tn_netmask = ''255.255.255.0'',
         tn_mtu = pp_mtu p, tn_route_all = pp_full_tunnel p, tn_peer_address = Some (tun_ip (pp_tun_net p) ''1''),
         tn_kill_switch = pp_full_tunnel p \<and> pp_kill_switch p, tn_dns = [] \<rparr>"

lemma de_identity_table:
  "de_identity (identity_table me peer) =
     Some \<lparr> ic_seed_hex = km_ed_seed me, ic_peer_pub_hex = km_ed_pub peer,
            ic_mldsa_secret_hex = Some (km_mldsa_sk me), ic_peer_mldsa_pub_hex = Some (km_mldsa_pub peer) \<rparr>"
  by (simp add: de_identity_def identity_table_def required_def maybe_def)

lemma de_obfuscation_table:
  "de_obfuscation [(''enabled'', TBool True), (''handshake'', TBool True), (''psk_hex'', TStr psk)] =
     Some \<lparr> oc_enabled = True, oc_padding = PaddingBucketed, oc_handshake = True, oc_psk_hex = Some psk \<rparr>"
  by (simp add: de_obfuscation_def or_default_def maybe_def)

lemma de_traffic_table:
  "map_of profile_names profile = Some prof \<Longrightarrow>
     de_traffic [(''profile'', TStr profile)] = Some (traffic_default\<lparr> tc_profile := prof \<rparr>)"
  by (simp add: de_traffic_def or_default_def de_enum_def traffic_default_def)

lemma de_network_tables:
  "is_v4 (sa_ip a) \<Longrightarrow> de_network [(''bind_addr'', TStr (show_sock_addr a))] = Some \<lparr> nc_bind_addr = a, nc_server_addr = None \<rparr>"
  "is_v4 (sa_ip a) \<Longrightarrow> de_network [(''server_addr'', TStr (show_sock_addr a))] =
     Some \<lparr> nc_bind_addr = default_bind, nc_server_addr = Some a \<rparr>"
  by (simp_all add: de_network_def or_default_def maybe_def de_sock_addr_def parse_sock_addr_show)

lemma de_mtu: "de_uint (2 ^ 16) (TInt (uint (m :: u16))) = Some (unat m)"
  using uint_bounded [of m] by simp

lemma de_tun_server:
  "de_tun [(''name'', TStr n), (''address'', TStr a), (''netmask'', TStr k), (''mtu'', TInt (uint m))] =
     Some \<lparr> tn_name = n, tn_address = a, tn_netmask = k, tn_mtu = m, tn_route_all = False, tn_peer_address = None,
            tn_kill_switch = False, tn_dns = [] \<rparr>"
  using de_mtu [of m] by (simp add: de_tun_def or_default_def maybe_def)

lemma de_tun_client:
  "de_tun ([(''name'', TStr n), (''address'', TStr a), (''netmask'', TStr k), (''mtu'', TInt (uint m)),
      (''route_all'', TBool f), (''peer_address'', TStr g)] @ (if f then [(''kill_switch'', TBool ks)] else [])) =
     Some \<lparr> tn_name = n, tn_address = a, tn_netmask = k, tn_mtu = m, tn_route_all = f, tn_peer_address = Some g,
            tn_kill_switch = f \<and> ks, tn_dns = [] \<rparr>"
  using de_mtu [of m] by (simp add: de_tun_def or_default_def maybe_def)

lemma de_app_tables:
  assumes "map_of profile_names (pp_profile p) = Some prof"
  shows "is_v4 (sa_ip (pp_bind_addr p)) \<Longrightarrow> de_app (server_table p server client psk) = Some (server_config p server client psk prof)"
    and "is_v4 (sa_ip (pp_server_addr p)) \<Longrightarrow> de_app (client_table p server client psk) = Some (client_config p server client psk prof)"
  by (simp_all add: de_app_def required_def or_default_def server_table_def client_table_def rest_tables_def
      de_identity_table de_obfuscation_table de_traffic_table [OF assms] de_network_tables de_tun_server de_tun_client
      server_config_def client_config_def pair_config_def
      del: append.simps(2) append_Cons if_split)

lemma profile_plain: "map_of profile_names s = Some prof \<Longrightarrow> plain s"
proof -
  have "plain ''stealth''" "plain ''balanced''" "plain ''throughput''" "plain ''off''" "plain ''custom''" by code_simp+
  then show "map_of profile_names s = Some prof \<Longrightarrow> plain s"
    by (auto simp: profile_names_def split: if_splits)
qed

section \<open>The keys\<close>

text \<open>\<open>node_keys k seed pk sk\<close>: the identity \<open>k\<close> is the hexadecimal of a seed and of an ML-DSA key pair.\<close>

definition node_keys :: "crypto_lib \<Rightarrow> key_mat \<Rightarrow> bytes \<Rightarrow> bytes \<Rightarrow> bytes \<Rightarrow> bool" where
  "node_keys C k seed pk sk \<longleftrightarrow>
     length seed = 32 \<and> (\<exists>q q'. c_mldsa_keypair C q = ((pk, sk), q')) \<and>
     k = \<lparr> km_ed_seed = to_hex seed, km_ed_pub = to_hex (c_ed_public C seed), km_mldsa_sk = to_hex sk, km_mldsa_pub = to_hex pk \<rparr>"

lemma gen_node_keys:
  assumes "gen_node C r = (k, r')"
  shows "\<exists>seed pk sk. node_keys C k seed pk sk"
proof -
  obtain seed r1 where seed: "fill_bytes r 32 = (seed, r1)" by fastforce
  then have "length seed = 32" by (auto simp: fill_bytes_def)
  moreover obtain pk sk r2 where "c_mldsa_keypair C r1 = ((pk, sk), r2)" by (metis prod.collapse)
  ultimately have "node_keys C k seed pk sk"
    using assms seed by (simp add: gen_node_def Let_def node_keys_def) blast
  then show ?thesis by blast
qed

lemma node_keys_plain: "node_keys C k seed pk sk \<Longrightarrow> key_mat_plain k"
  by (simp add: node_keys_def key_mat_plain_def to_hex_plain)

lemma pair_config_reads:
  assumes "crypto_ok C" "node_keys C me seed pk sk" "node_keys C peer seed' pk' sk'" "length psk = 32"
  shows "seed_bytes (ac_identity (pair_config me peer net tun (to_hex psk) prof)) = Ok seed"
    "peer_pub_bytes (ac_identity (pair_config me peer net tun (to_hex psk) prof)) = Ok (c_ed_public C seed')"
    "mldsa_secret_bytes (ac_identity (pair_config me peer net tun (to_hex psk) prof)) = Ok (Some sk)"
    "peer_mldsa_pub_bytes (ac_identity (pair_config me peer net tun (to_hex psk) prof)) = Ok (Some pk')"
    "psk_bytes (ac_obfuscation (pair_config me peer net tun (to_hex psk) prof)) = Ok (Some psk)"
  using assms by (simp_all add: pair_config_def node_keys_def seed_bytes_def peer_pub_bytes_def mldsa_secret_bytes_def
      peer_mldsa_pub_bytes_def psk_bytes_def transpose_opt_def crypto)

lemma pair_config_valid:
  assumes "crypto_ok C" "node_keys C me seed pk sk" "node_keys C peer seed' pk' sk'" "length psk = 32"
    "576 \<le> unat (tn_mtu tun)" "unat (tn_mtu tun) \<le> 1232" "tn_kill_switch tun \<longrightarrow> tn_route_all tun" "tn_dns tun = []"
  shows "validate (pair_config me peer net tun (to_hex psk) prof) = Ok ()"
proof -
  have "1 \<le> unat (et_rate_pps (effective (traffic_default\<lparr> tc_profile := prof \<rparr>)))"
    "1 \<le> unat (et_burst (effective (traffic_default\<lparr> tc_profile := prof \<rparr>)))"
    by (cases prof; simp add: effective_def traffic_default_def)+
  moreover note reads = pair_config_reads [OF assms(1-4), of net tun prof]
  ultimately show ?thesis
    unfolding validate_iff Let_def reads using assms(4-8)
    by (simp add: pair_config_def)
qed

lemma pair_config_auth:
  assumes "crypto_ok C" "node_keys C me seed pk sk" "node_keys C peer seed' pk' sk'" "length psk = 32"
  shows "build_auth C (pair_config me peer net tun (to_hex psk) prof) =
           Ok (HybridAuth [Ed25519Auth seed (c_ed_public C seed'), MlDsaAuth sk pk'])"
    and "hs_obf_key C (pair_config me peer net tun (to_hex psk) prof) =
           Ok (Some (derive_hs_obf_key C (c_ed_public C seed) (c_ed_public C seed') (Some psk)))"
proof -
  note reads = pair_config_reads [OF assms, of net tun prof]
  have "length seed = 32" "c_mldsa_sk_ok C sk" "c_mldsa_pk_ok C pk'"
    using assms(2,3) mldsa_keypair_ok [OF assms(1)] by (auto simp: node_keys_def)
  then show "build_auth C (pair_config me peer net tun (to_hex psk) prof) =
      Ok (HybridAuth [Ed25519Auth seed (c_ed_public C seed'), MlDsaAuth sk pk'])"
    by (simp add: build_auth_def Let_def reads ed25519_new_def mldsa_from_keys_def crypto assms(1))
  have "oc_handshake (ac_obfuscation (pair_config me peer net tun (to_hex psk) prof))" by (simp add: pair_config_def)
  then show "hs_obf_key C (pair_config me peer net tun (to_hex psk) prof) =
      Ok (Some (derive_hs_obf_key C (c_ed_public C seed) (c_ed_public C seed') (Some psk)))"
    by (simp add: hs_obf_key_def reads)
qed

definition params_ok :: "pair_params \<Rightarrow> bool" where
  "params_ok p \<longleftrightarrow> is_v4 (sa_ip (pp_server_addr p)) \<and> is_v4 (sa_ip (pp_bind_addr p)) \<and>
     576 \<le> unat (pp_mtu p) \<and> unat (pp_mtu p) \<le> 1232 \<and> pp_profile p \<in> fst ` set profile_names"

text \<open>The configurations and authenticators a generated pair yields.\<close>

lemma init_pair_ok:
  assumes C: "crypto_ok C" and T: "toml_ok T" and p: "params_ok p" and run: "init_pair C p r = ((srv, cli), r')"
  obtains server client psk prof auth_s auth_c key where
    "from_toml_str T srv = Ok (server_config p server client psk prof)"
    "from_toml_str T cli = Ok (client_config p server client psk prof)"
    "map_of profile_names (pp_profile p) = Some prof"
    "build_auth C (server_config p server client psk prof) = Ok auth_s"
    "build_auth C (client_config p server client psk prof) = Ok auth_c"
    "trusts C auth_s auth_c" "trusts C auth_c auth_s" "auth_sig_len C auth_c = 64 + c_mldsa_sig_len C"
    "hs_obf_key C (server_config p server client psk prof) = Ok (Some key)"
    "hs_obf_key C (client_config p server client psk prof) = Ok (Some key)" "length key = 32"
proof -
  obtain server r1 client r2 psk where g: "gen_node C r = (server, r1)" "gen_node C r1 = (client, r2)"
    "fst (gen_psk_hex r2) = to_hex psk" "length psk = 32" and b: "build_pair p server client (to_hex psk) = (srv, cli)"
  proof -
    obtain server r1 where 1: "gen_node C r = (server, r1)" by fastforce
    obtain client r2 where 2: "gen_node C r1 = (client, r2)" by fastforce
    obtain psk r3 where 3: "fill_bytes r2 32 = (psk, r3)" by fastforce
    then have "length psk = 32" by (auto simp: fill_bytes_def)
    then show thesis using that [of server r1 client r2 psk] 1 2 3 run by (simp add: init_pair_def gen_psk_hex_def Let_def)
  qed
  obtain seed pk sk where ks: "node_keys C server seed pk sk" using gen_node_keys [OF g(1)] by blast
  obtain seed' pk' sk' where kc: "node_keys C client seed' pk' sk'" using gen_node_keys [OF g(2)] by blast
  obtain prof where prof: "map_of profile_names (pp_profile p) = Some prof"
    using p by (auto simp: params_ok_def map_of_eq_None_iff [symmetric] simp del: map_of_eq_None_iff) (metis map_of_eq_None_iff option.exhaust image_eqI fst_conv)
  let ?s = "server_config p server client (to_hex psk) prof" and ?c = "client_config p server client (to_hex psk) prof"
  have v4: "is_v4 (sa_ip (pp_bind_addr p))" "is_v4 (sa_ip (pp_server_addr p))" using p by (simp_all add: params_ok_def)
  note docs = docs_ok [OF node_keys_plain [OF ks] node_keys_plain [OF kc] to_hex_plain profile_plain [OF prof] v4]
  have parse: "tl_parse T srv = Inr (server_table p server client (to_hex psk))"
    "tl_parse T cli = Inr (client_table p server client (to_hex psk))"
    using T docs b unfolding toml_ok_def build_pair_docs doc_tables [symmetric] by blast+
  have valid: "validate ?s = Ok ()" "validate ?c = Ok ()"
    unfolding server_config_def client_config_def
    using p by (auto intro!: pair_config_valid [OF C ks kc g(4)] pair_config_valid [OF C kc ks g(4)] simp: params_ok_def)
  have cfgs: "from_toml_str T srv = Ok ?s" "from_toml_str T cli = Ok ?c"
    using parse valid de_app_tables [OF prof] v4 by (simp_all add: from_toml_str_def)
  let ?auth_s = "HybridAuth [Ed25519Auth seed (c_ed_public C seed'), MlDsaAuth sk pk']"
  let ?auth_c = "HybridAuth [Ed25519Auth seed' (c_ed_public C seed), MlDsaAuth sk' pk]"
  let ?key = "derive_hs_obf_key C (c_ed_public C seed) (c_ed_public C seed') (Some psk)"
  have auths: "build_auth C ?s = Ok ?auth_s" "build_auth C ?c = Ok ?auth_c"
    unfolding server_config_def client_config_def
    by (rule pair_config_auth(1) [OF C ks kc g(4)], rule pair_config_auth(1) [OF C kc ks g(4)])
  have keys: "hs_obf_key C ?s = Ok (Some ?key)" "hs_obf_key C ?c = Ok (Some ?key)"
    unfolding server_config_def client_config_def
    by (simp_all add: pair_config_auth(2) [OF C ks kc g(4)] pair_config_auth(2) [OF C kc ks g(4)] derive_hs_obf_key_def)
  have "trusts C ?auth_s ?auth_c" "trusts C ?auth_c ?auth_s" using ks kc by (auto simp: node_keys_def)
  moreover have "length ?key = 32" using C by (simp add: derive_hs_obf_key_def crypto)
  ultimately show thesis by (intro that [OF cfgs prof auths _ _ _ keys]) (simp_all add: ED25519_SIG_LEN_def)
qed

section \<open>Properties\<close>

text \<open>C16: A generated pair is cross-wired. For addresses, an MTU and a profile in range, both files parse and validate; each
  side's authenticator holds the other's public keys, Ed25519 and ML-DSA; both derive the same handshake obfuscation key;
  the server listens where it was told, the client connects to the server and routes through its tunnel address, and the
  kill switch is on only in a full tunnel. The only warning either side gives is that an unpaced profile was chosen.
\<close>

theorem init_pair_cross_wired:
  assumes "crypto_ok C" and "toml_ok T" and "params_ok p" and "init_pair C p r = ((srv, cli), r')"
  shows "\<exists>s c auth_s auth_c key.
     from_toml_str T srv = Ok s \<and> from_toml_str T cli = Ok c \<and>
     build_auth C s = Ok auth_s \<and> build_auth C c = Ok auth_c \<and> trusts C auth_s auth_c \<and> trusts C auth_c auth_s \<and>
     hs_obf_key C s = Ok (Some key) \<and> hs_obf_key C c = Ok (Some key) \<and>
     nc_bind_addr (ac_network s) = pp_bind_addr p \<and> nc_server_addr (ac_network c) = Some (pp_server_addr p) \<and>
     tn_peer_address (ac_tun c) = Some (tn_address (ac_tun s)) \<and>
     tn_route_all (ac_tun c) = pp_full_tunnel p \<and> tn_kill_switch (ac_tun c) = (pp_full_tunnel p \<and> pp_kill_switch p) \<and>
     (\<forall>cfg\<in>{s, c}. security_warnings cfg = (if pp_profile p = ''off'' then [WARN_NO_PACING] else []))"
proof -
  obtain server client psk prof auth_s auth_c key where *:
    "from_toml_str T srv = Ok (server_config p server client psk prof)"
    "from_toml_str T cli = Ok (client_config p server client psk prof)"
    "map_of profile_names (pp_profile p) = Some prof"
    "build_auth C (server_config p server client psk prof) = Ok auth_s"
    "build_auth C (client_config p server client psk prof) = Ok auth_c"
    "trusts C auth_s auth_c" "trusts C auth_c auth_s" "auth_sig_len C auth_c = 64 + c_mldsa_sig_len C"
    "hs_obf_key C (server_config p server client psk prof) = Ok (Some key)"
    "hs_obf_key C (client_config p server client psk prof) = Ok (Some key)" "length key = 32"
    by (rule init_pair_ok [OF assms])
  have off: "prof = ProfOff \<longleftrightarrow> pp_profile p = ''off''"
    using *(3) by (auto simp: profile_names_def split: if_splits)
  have enabled: "et_enabled (effective (traffic_default\<lparr> tc_profile := prof \<rparr>)) \<longleftrightarrow> prof \<noteq> ProfOff"
    by (cases prof) (simp_all add: effective_def traffic_default_def)
  have "security_warnings (pair_config me peer net tun psk prof) = (if prof = ProfOff then [WARN_NO_PACING] else [])"
    for me peer net tun
    using enabled by (simp add: security_warnings_def Let_def pair_config_def has_mldsa_def)
  then have warn: "\<forall>cfg\<in>{server_config p server client psk prof, client_config p server client psk prof}.
      security_warnings cfg = (if pp_profile p = ''off'' then [WARN_NO_PACING] else [])"
    by (simp add: server_config_def client_config_def off)
  show ?thesis
    by (rule exI [of _ "server_config p server client psk prof"], rule exI [of _ "client_config p server client psk prof"],
        rule exI [of _ auth_s], rule exI [of _ auth_c], rule exI [of _ key])
      (use * warn in \<open>simp add: server_config_def client_config_def pair_config_def\<close>)
qed

text \<open>C11: A generated pair connects. When server and client load the two generated files, build their authenticators and obfuscation
  key from them and run the first handshake against each other, both drivers return, with paired sessions: each message may
  arrive in any order of its datagrams, the second Init within 120 seconds of the cookie challenge.
\<close>

theorem init_pair_connects:
  assumes C: "crypto_ok C" "x_contributory C" and T: "toml_ok T" and p: "params_ok p"
    and run: "init_pair C p r0 = ((srv, cli), r0')" and sig: "c_mldsa_sig_len C \<le> 6859"
    and cookie: "\<not> cookie_valid C (fst (fill_bytes q 32)) src t1 (replicate 16 0)"
    and time: "0 \<le> t1" "t1 \<le> t2" "t2 \<le> t1 + 120"
  shows "\<exists>s c auth_s auth_c key init1 challenge init2 response confirm si sr q'.
     from_toml_str T srv = Ok s \<and> from_toml_str T cli = Ok c \<and>
     build_auth C s = Ok auth_s \<and> build_auth C c = Ok auth_c \<and> hs_obf_key C s = Ok key \<and> hs_obf_key C c = Ok key \<and>
     paired si sr \<and>
     (\<forall>a1 a2 a3 b1 b2.
        mset (map snd a1) = mset init1 \<longrightarrow> mset (map snd b1) = mset challenge \<longrightarrow>
        mset (map snd a2) = mset init2 \<longrightarrow> mset (map snd b2) = mset response \<longrightarrow> mset (map snd a3) = mset confirm \<longrightarrow>
        run_handshake_initiator C auth_c pref_i peer key sid
          [\<lparr> ae_faults = [], ae_events = recvs peer b1 \<rparr>, \<lparr> ae_faults = [], ae_events = recvs peer b2 \<rparr>] [] r =
          (Ok si, init1 @ init2 @ confirm) \<and>
        run_handshake_responder C auth_s pref_r key sid'
          (arrivals t1 src a1 @ arrivals t2 src a2 @ arrivals t3 src a3) q = (RP_Done sr src, challenge @ response, q'))"
proof -
  obtain server client psk prof auth_s auth_c key where *:
    "from_toml_str T srv = Ok (server_config p server client psk prof)"
    "from_toml_str T cli = Ok (client_config p server client psk prof)"
    "map_of profile_names (pp_profile p) = Some prof"
    "build_auth C (server_config p server client psk prof) = Ok auth_s"
    "build_auth C (client_config p server client psk prof) = Ok auth_c"
    "trusts C auth_s auth_c" "trusts C auth_c auth_s" "auth_sig_len C auth_c = 64 + c_mldsa_sig_len C"
    "hs_obf_key C (server_config p server client psk prof) = Ok (Some key)"
    "hs_obf_key C (client_config p server client psk prof) = Ok (Some key)" "length key = 32"
    by (rule init_pair_ok [OF C(1) T p run])
  have len: "auth_sig_len C auth_c \<le> 6923" using *(8) sig by simp
  have hs: "Some key = None \<or> (\<exists>k. Some key = Some k \<and> length k = 32)" using *(11) by simp
  show ?thesis
    using network_run [OF C *(6,7) len hs cookie time, of pref_i pref_r peer sid r sid' t3] *(1,2,4,5,9,10) by blast
qed

text \<open>A full-tunnel pair over the toy primitives.\<close>

definition demo_params :: pair_params where
  "demo_params =
     \<lparr> pp_server_addr = \<lparr> sa_ip = V4 [203, 0, 113, 5], sa_port = 51820 \<rparr>,
       pp_bind_addr = \<lparr> sa_ip = V4 [0, 0, 0, 0], sa_port = 51820 \<rparr>, pp_tun_net = [10, 99, 0], pp_mtu = 1200,
       pp_full_tunnel = True, pp_kill_switch = True, pp_profile = ''off'' \<rparr>"

lemma demo_params_ok: "params_ok demo_params"
  by (simp add: params_ok_def demo_params_def profile_names_def)

theorem init_pair_cross_wired_witness:
  "let (srv, cli) = fst (init_pair toy_crypto demo_params (\<lambda>n. of_nat n))
   in \<exists>s c. from_toml_str line_parser srv = Ok s \<and> from_toml_str line_parser cli = Ok c \<and>
        tn_kill_switch (ac_tun c) \<and> security_warnings c = [WARN_NO_PACING]"
proof -
  obtain srv cli r' where run: "init_pair toy_crypto demo_params (\<lambda>n. of_nat n) = ((srv, cli), r')"
    by (metis prod.collapse)
  from init_pair_cross_wired [OF toy_crypto_ok line_parser_ok demo_params_ok run] show ?thesis
    by (auto simp: run) (auto simp: demo_params_def)
qed

theorem init_pair_connects_witness:
  "\<exists>srv cli s c auth_s auth_c key a1 a2 a3 b1 b2 si sr.
     fst (init_pair toy_crypto demo_params (\<lambda>n. of_nat n)) = (srv, cli) \<and>
     from_toml_str line_parser srv = Ok s \<and> from_toml_str line_parser cli = Ok c \<and>
     build_auth toy_crypto s = Ok auth_s \<and> build_auth toy_crypto c = Ok auth_c \<and> hs_obf_key toy_crypto s = Ok key \<and>
     fst (run_handshake_initiator toy_crypto auth_c Aegis256X2 demo_src key 1 [a1, a2] [] (\<lambda>_. 5)) = Ok si \<and>
     fst (run_handshake_responder toy_crypto auth_s Aegis256X2 key 2 (b1 @ b2 @ a3) (\<lambda>_. 6)) = RP_Done sr demo_src \<and>
     paired si sr"
proof -
  obtain srv cli r' where run: "init_pair toy_crypto demo_params (\<lambda>n. of_nat n) = ((srv, cli), r')"
    by (metis prod.collapse)
  have sig: "c_mldsa_sig_len toy_crypto \<le> 6859" by (simp add: toy_crypto_def)
  have time: "(0 :: int) \<le> 1000" "(1000 :: int) \<le> 1000" "(1000 :: int) \<le> 1000 + 120" by simp_all
  have pushed: "mset (map snd (map (Pair (0 :: instant)) ds)) = mset ds" for ds :: "bytes list"
    by (simp add: multiset.map_comp comp_def)
  from init_pair_connects [OF toy_crypto_ok toy_contributory line_parser_ok demo_params_ok run sig demo_cookie time,
      where pref_i = Aegis256X2 and pref_r = Aegis256X2 and peer = demo_src and sid = 1 and r = "\<lambda>_. 5" and sid' = 2 and
        q = "\<lambda>_. 6" and ?t3.0 = 1000]
  obtain s c auth_s auth_c key init1 challenge init2 response confirm si sr q' where
    cfg: "from_toml_str line_parser srv = Ok s" "from_toml_str line_parser cli = Ok c"
      "build_auth toy_crypto s = Ok auth_s" "build_auth toy_crypto c = Ok auth_c" "hs_obf_key toy_crypto s = Ok key" "paired si sr"
    and runs: "\<And>a1 a2 a3 b1 b2.
        mset (map snd a1) = mset init1 \<Longrightarrow> mset (map snd b1) = mset challenge \<Longrightarrow>
        mset (map snd a2) = mset init2 \<Longrightarrow> mset (map snd b2) = mset response \<Longrightarrow> mset (map snd a3) = mset confirm \<Longrightarrow>
        run_handshake_initiator toy_crypto auth_c Aegis256X2 demo_src key 1
          [\<lparr> ae_faults = [], ae_events = recvs demo_src b1 \<rparr>, \<lparr> ae_faults = [], ae_events = recvs demo_src b2 \<rparr>] [] (\<lambda>_. 5) =
          (Ok si, init1 @ init2 @ confirm) \<and>
        run_handshake_responder toy_crypto auth_s Aegis256X2 key 2
          (arrivals 1000 demo_src a1 @ arrivals 1000 demo_src a2 @ arrivals 1000 demo_src a3) (\<lambda>_. 6) =
          (RP_Done sr demo_src, challenge @ response, q')"
    by blast
  note both = runs [OF pushed pushed pushed pushed pushed]
  have "fst (init_pair toy_crypto demo_params (\<lambda>n. of_nat n)) = (srv, cli)" by (simp add: run)
  moreover have "fst (run_handshake_initiator toy_crypto auth_c Aegis256X2 demo_src key 1
      [\<lparr> ae_faults = [], ae_events = recvs demo_src (map (Pair 0) challenge) \<rparr>,
       \<lparr> ae_faults = [], ae_events = recvs demo_src (map (Pair 0) response) \<rparr>] [] (\<lambda>_. 5)) = Ok si"
    by (simp only: both fst_conv)
  moreover have "fst (run_handshake_responder toy_crypto auth_s Aegis256X2 key 2
      (arrivals 1000 demo_src (map (Pair 0) init1) @ arrivals 1000 demo_src (map (Pair 0) init2) @
       arrivals 1000 demo_src (map (Pair 0) confirm)) (\<lambda>_. 6)) = RP_Done sr demo_src"
    by (simp only: both fst_conv)
  ultimately show ?thesis using cfg by meson
qed

end
