(* ===== verification/Host.thy ===== *)
theory Host
  imports Setup
begin

text \<open>
  The host as the installer and the command line see it: files with their permission bits and their group, the
  terminal, and whatever else the programs they run act on. Each call of \<open>std::fs\<close> may fail: \<open>ho_faults\<close> says how the
  next calls end, and how much of the data a write that fails has written. \<open>anyhow\<close> errors are the chain of their
  causes, the outermost first; \<open>act\<close> is a computation with \<open>?\<close>.
\<close>

section \<open>State\<close>

datatype disk_node = Regular string u32 nat | Directory u32 nat

type_synonym disk = "string \<Rightarrow> disk_node option"

text \<open>\<open>ho_fw_changed\<close> is the cell the firewalld steps of one run share.\<close>

record 'k host =
  ho_disk :: disk
  ho_faults :: "(string \<times> nat) option list"
  ho_input :: "string option list"
  ho_tty :: bool
  ho_umask :: u32
  ho_fw_changed :: bool
  ho_sys :: 'k

text \<open>A message, an error of the library, or a message that ends in the text of one.\<close>

datatype cause = Msg string | Lib chameleon_error | MsgOf string chameleon_error

type_synonym 'a anyhow = "cause list + 'a"
type_synonym ('k, 'a) act = "'k host \<Rightarrow> 'a anyhow \<times> 'k host"

definition ret :: "'a \<Rightarrow> ('k, 'a) act" where
  "ret x h = (Inr x, h)"

definition bail :: "string \<Rightarrow> ('k, 'a) act" where
  "bail msg h = (Inl [Msg msg], h)"

definition andthen :: "('k, 'a) act \<Rightarrow> ('a \<Rightarrow> ('k, 'b) act) \<Rightarrow> ('k, 'b) act" where
  "andthen m f h = (case m h of (Inl e, h') \<Rightarrow> (Inl e, h') | (Inr x, h') \<Rightarrow> f x h')"

definition and_do :: "('k, 'a) act \<Rightarrow> ('k, 'b) act \<Rightarrow> ('k, 'b) act" where
  "and_do m n = andthen m (\<lambda>_. n)"

definition with_context :: "string \<Rightarrow> ('k, 'a) act \<Rightarrow> ('k, 'a) act" where
  "with_context msg m h = (case m h of (Inl e, h') \<Rightarrow> (Inl (Msg msg # e), h') | (Inr x, h') \<Rightarrow> (Inr x, h'))"

text \<open>\<open>.ok()\<close>, \<open>unwrap_or\<close> and \<open>if let\<close> on a result.\<close>

definition attempt :: "('k, 'a) act \<Rightarrow> 'k host \<Rightarrow> 'a option \<times> 'k host" where
  "attempt m h = (case m h of (Inl e, h') \<Rightarrow> (None, h') | (Inr x, h') \<Rightarrow> (Some x, h'))"

definition holds :: "('k, bool) act \<Rightarrow> 'k host \<Rightarrow> bool \<times> 'k host" where
  "holds m h = (case m h of (Inl e, h') \<Rightarrow> (False, h') | (Inr b, h') \<Rightarrow> (b, h'))"

definition lift_result :: "'a result \<Rightarrow> ('k, 'a) act" where
  "lift_result r h = (case r of Err e \<Rightarrow> (Inl [Lib e], h) | Ok x \<Rightarrow> (Inr x, h))"

definition lift_named :: "string \<Rightarrow> 'a result \<Rightarrow> ('k, 'a) act" where
  "lift_named msg r h = (case r of Err e \<Rightarrow> (Inl [MsgOf msg e], h) | Ok x \<Rightarrow> (Inr x, h))"

section \<open>Paths\<close>

definition path_join :: "string \<Rightarrow> string \<Rightarrow> string" where
  "path_join dir name = (if dir = [] \<or> last dir = CHR ''/'' then dir @ name else dir @ ''/'' @ name)"

definition file_name :: "string \<Rightarrow> string" where
  "file_name p = rev (takeWhile (\<lambda>c. c \<noteq> CHR ''/'') (rev p))"

text \<open>What is before the last slash, with the slash.\<close>

definition dir_part :: "string \<Rightarrow> string" where
  "dir_part p = rev (dropWhile (\<lambda>c. c \<noteq> CHR ''/'') (rev p))"

definition path_parent :: "string \<Rightarrow> string" where
  "path_parent p = (let d = dir_part p in if d = [] \<or> d = ''/'' then d else butlast d)"

text \<open>A leading dot does not start an extension.\<close>

definition file_stem :: "string \<Rightarrow> string" where
  "file_stem n =
     (let r = dropWhile (\<lambda>c. c \<noteq> CHR ''.'') (rev n)
      in if r = [] \<or> tl r = [] then n else rev (tl r))"

definition with_extension :: "string \<Rightarrow> string \<Rightarrow> string" where
  "with_extension p ext = dir_part p @ file_stem (file_name p) @ ''.'' @ ext"

text \<open>The paths above a path, the outermost first.\<close>

definition ancestors :: "string \<Rightarrow> string list" where
  "ancestors p = map (\<lambda>i. take i p) (filter (\<lambda>i. p ! i = CHR ''/'' \<and> 0 < i) [0..<length p])"

section \<open>Files\<close>

text \<open>The mode of a new file, without the bits of the umask.\<close>

definition masked_mode :: "u32 \<Rightarrow> u32 \<Rightarrow> u32" where
  "masked_mode mode um = (let allowed = NOT um in mode AND allowed)"

definition fs_op :: "(disk \<Rightarrow> string + 'a \<times> disk) \<Rightarrow> ('k, 'a) act" where
  "fs_op f h =
     (let fault = (case ho_faults h of [] \<Rightarrow> None | x # _ \<Rightarrow> x); h1 = h\<lparr> ho_faults := tl (ho_faults h) \<rparr>
      in case fault of
          Some (e, n) \<Rightarrow> (Inl [Msg e], h1)
        | None \<Rightarrow> (case f (ho_disk h) of Inl e \<Rightarrow> (Inl [Msg e], h1) | Inr (x, d) \<Rightarrow> (Inr x, h1\<lparr> ho_disk := d \<rparr>)))"

definition NOT_FOUND :: string where
  "NOT_FOUND = ''No such file or directory''"

definition path_exists :: "string \<Rightarrow> 'k host \<Rightarrow> bool" where
  "path_exists p h = (ho_disk h p \<noteq> None)"

definition read_to_string :: "string \<Rightarrow> ('k, string) act" where
  "read_to_string p = fs_op (\<lambda>d. case d p of
     None \<Rightarrow> Inl NOT_FOUND | Some (Regular c m g) \<Rightarrow> Inr (c, d) | Some (Directory m g) \<Rightarrow> Inl ''Is a directory'')"

definition metadata :: "string \<Rightarrow> ('k, disk_node) act" where
  "metadata p = fs_op (\<lambda>d. case d p of None \<Rightarrow> Inl NOT_FOUND | Some x \<Rightarrow> Inr (x, d))"

definition remove_file :: "string \<Rightarrow> ('k, unit) act" where
  "remove_file p = fs_op (\<lambda>d. case d p of
     None \<Rightarrow> Inl NOT_FOUND | Some (Regular c m g) \<Rightarrow> Inr ((), d(p := None)) | Some (Directory m g) \<Rightarrow> Inl ''Is a directory'')"

definition parent_ok :: "string \<Rightarrow> disk \<Rightarrow> bool" where
  "parent_ok p d \<longleftrightarrow> path_parent p = [] \<or> (case d (path_parent p) of Some (Directory m g) \<Rightarrow> True | _ \<Rightarrow> False)"

text \<open>\<open>OpenOptions\<close>: \<open>create_new\<close> refuses an existing file; \<open>create\<close> with \<open>truncate\<close> empties it and keeps its mode.\<close>

definition open_new :: "string \<Rightarrow> u32 \<Rightarrow> ('k, unit) act" where
  "open_new p mode h = fs_op (\<lambda>d.
     if d p \<noteq> None then Inl ''File exists''
     else if \<not> parent_ok p d then Inl NOT_FOUND
     else Inr ((), d(p \<mapsto> Regular [] (masked_mode mode (ho_umask h)) 0))) h"

definition open_truncate :: "string \<Rightarrow> u32 \<Rightarrow> ('k, unit) act" where
  "open_truncate p mode h = fs_op (\<lambda>d.
     case d p of
       Some (Regular c m g) \<Rightarrow> Inr ((), d(p \<mapsto> Regular [] m g))
     | Some (Directory m g) \<Rightarrow> Inl ''Is a directory''
     | None \<Rightarrow> if parent_ok p d then Inr ((), d(p \<mapsto> Regular [] (masked_mode mode (ho_umask h)) 0)) else Inl NOT_FOUND) h"

definition set_contents :: "string \<Rightarrow> string \<Rightarrow> disk \<Rightarrow> disk" where
  "set_contents p c d = (case d p of Some (Regular c' m g) \<Rightarrow> d(p \<mapsto> Regular c m g) | _ \<Rightarrow> d)"

definition write_all :: "string \<Rightarrow> string \<Rightarrow> ('k, unit) act" where
  "write_all p c h =
     (case ho_faults h of
        Some (e, n) # fs \<Rightarrow> (Inl [Msg e], h\<lparr> ho_faults := fs, ho_disk := set_contents p (take n c) (ho_disk h) \<rparr>)
      | fs \<Rightarrow> (Inr (), h\<lparr> ho_faults := tl fs, ho_disk := set_contents p c (ho_disk h) \<rparr>))"

definition sync_all :: "('k, unit) act" where
  "sync_all = fs_op (\<lambda>d. Inr ((), d))"

fun with_group :: "nat \<Rightarrow> disk_node \<Rightarrow> disk_node" where
  "with_group g (Regular c m g') = Regular c m g"
| "with_group g (Directory m g') = Directory m g"

fun with_mode :: "u32 \<Rightarrow> disk_node \<Rightarrow> disk_node" where
  "with_mode m (Regular c m' g) = Regular c m g"
| "with_mode m (Directory m' g) = Directory m g"

definition chown_root :: "string \<Rightarrow> nat \<Rightarrow> ('k, unit) act" where
  "chown_root p gid = fs_op (\<lambda>d. case d p of None \<Rightarrow> Inl NOT_FOUND | Some x \<Rightarrow> Inr ((), d(p \<mapsto> with_group gid x)))"

definition set_permissions :: "string \<Rightarrow> u32 \<Rightarrow> ('k, unit) act" where
  "set_permissions p mode = fs_op (\<lambda>d. case d p of None \<Rightarrow> Inl NOT_FOUND | Some x \<Rightarrow> Inr ((), d(p \<mapsto> with_mode mode x)))"

definition fs_rename :: "string \<Rightarrow> string \<Rightarrow> ('k, unit) act" where
  "fs_rename a b = fs_op (\<lambda>d.
     case d a of
       None \<Rightarrow> Inl NOT_FOUND
     | Some x \<Rightarrow> (case d b of Some (Directory m g) \<Rightarrow> Inl ''Is a directory'' | _ \<Rightarrow> Inr ((), d(a := None, b \<mapsto> x))))"

definition fs_copy :: "string \<Rightarrow> string \<Rightarrow> ('k, unit) act" where
  "fs_copy a b = fs_op (\<lambda>d.
     case d a of
       Some (Regular c m g) \<Rightarrow>
         (case d b of
            Some (Directory m' g') \<Rightarrow> Inl ''Is a directory''
          | Some (Regular c' m' g') \<Rightarrow> Inr ((), d(b \<mapsto> Regular c m g'))
          | None \<Rightarrow> if parent_ok b d then Inr ((), d(b \<mapsto> Regular c m 0)) else Inl NOT_FOUND)
     | _ \<Rightarrow> Inl NOT_FOUND)"

text \<open>\<open>0o777\<close> for the directories \<open>create_dir_all\<close> makes.\<close>

definition create_dir :: "u32 \<Rightarrow> string \<Rightarrow> string + disk \<Rightarrow> string + disk" where
  "create_dir um p acc =
     (case acc of
        Inl e \<Rightarrow> Inl e
      | Inr d \<Rightarrow> (case d p of
            Some (Directory m g) \<Rightarrow> Inr d
          | Some (Regular c m g) \<Rightarrow> Inl ''File exists''
          | None \<Rightarrow> Inr (d(p \<mapsto> Directory (masked_mode 511 um) 0))))"

definition create_dir_all :: "string \<Rightarrow> ('k, unit) act" where
  "create_dir_all p h = fs_op (\<lambda>d.
     if p = [] then Inr ((), d)
     else case fold (create_dir (ho_umask h)) (ancestors p @ [p]) (Inr d) of Inl e \<Rightarrow> Inl e | Inr d' \<Rightarrow> Inr ((), d')) h"

section \<open>Programs and prompts\<close>

text \<open>\<open>capture\<close>, \<open>succeeds\<close> and \<open>run_cmd\<close> of \<open>sysconf.rs\<close>; a command is the program and its arguments.\<close>

definition capture :: "'k host runner \<Rightarrow> command \<Rightarrow> ('k, string) act" where
  "capture run cmd h =
     (case run cmd [] h of
        (Inl e, h') \<Rightarrow> (Inl [Msg (''cannot run '' @ hd cmd), Msg (fault_text e)], h')
      | (Inr out, h') \<Rightarrow>
          if co_ok out then (Inr (co_stdout out), h')
          else (Inl [Msg (hd cmd @ '' '' @ join '' '' (tl cmd) @ '' failed: '' @ trim (co_stderr out))], h'))"

definition succeeds :: "'k host runner \<Rightarrow> command \<Rightarrow> 'k host \<Rightarrow> bool \<times> 'k host" where
  "succeeds run cmd h = run_succeeds run cmd h"

definition exec_cmd :: "'k host runner \<Rightarrow> command \<Rightarrow> ('k, unit) act" where
  "exec_cmd run cmd = andthen (capture run cmd) (\<lambda>_. ret ())"

text \<open>A line of the terminal; at its end the line is empty.\<close>

definition next_line :: "('k, string) act" where
  "next_line h =
     (case ho_input h of
        [] \<Rightarrow> (Inr [], h)
      | None # rest \<Rightarrow> (Inl [Msg ''stream did not contain valid UTF-8''], h\<lparr> ho_input := rest \<rparr>)
      | Some l # rest \<Rightarrow> (Inr l, h\<lparr> ho_input := rest \<rparr>))"

definition ask_line :: "('k, string) act" where
  "ask_line = andthen next_line (\<lambda>l. ret (trim l))"

definition yes_answer :: "bool \<Rightarrow> string \<Rightarrow> bool" where
  "yes_answer default_yes l = (let a = to_lower l in if a = [] then default_yes else a \<in> {''y'', ''yes'', ''j'', ''ja''})"

definition confirm :: "bool \<Rightarrow> ('k, bool) act" where
  "confirm default_yes h =
     (if \<not> ho_tty h then bail (''not a terminal '' @ DASH @ '' re-run with --yes to apply without asking'') h
      else andthen ask_line (\<lambda>l. ret (yes_answer default_yes l)) h)"

section \<open>Lemmas\<close>

lemma andthen_eq_Ok: "andthen m f h = (Inr y, h') \<longleftrightarrow> (\<exists>x h1. m h = (Inr x, h1) \<and> f x h1 = (Inr y, h'))"
  by (auto simp: andthen_def split: prod.splits sum.splits)

lemma andthen_eq_Err: "andthen m f h = (Inl e, h') \<longleftrightarrow> m h = (Inl e, h') \<or> (\<exists>x h1. m h = (Inr x, h1) \<and> f x h1 = (Inl e, h'))"
  by (auto simp: andthen_def split: prod.splits sum.splits)

lemma andthen_assoc: "andthen (andthen m f) g = andthen m (\<lambda>x. andthen (f x) g)"
  by (auto simp: andthen_def fun_eq_iff split: prod.splits sum.splits)

text \<open>\<open>quiet m\<close>: \<open>m\<close> leaves the files and what the programs act on as they are.\<close>

definition same_state :: "'k host \<Rightarrow> 'k host \<Rightarrow> bool" where
  "same_state h h' \<longleftrightarrow> ho_disk h' = ho_disk h \<and> ho_sys h' = ho_sys h \<and> ho_umask h' = ho_umask h \<and> ho_tty h' = ho_tty h \<and>
     (ho_faults h = [] \<longrightarrow> ho_faults h' = [])"

definition quiet :: "('k host \<Rightarrow> 'b \<times> 'k host) \<Rightarrow> bool" where
  "quiet m \<longleftrightarrow> (\<forall>h. same_state h (snd (m h)))"

lemma same_state_refl [simp]: "same_state h h"
  by (simp add: same_state_def)

lemma same_state_trans [trans]: "same_state h h1 \<Longrightarrow> same_state h1 h2 \<Longrightarrow> same_state h h2"
  by (simp add: same_state_def)

named_theorems quiet_intro \<open>computations that leave the host as it is\<close>

lemma quietD: "quiet m \<Longrightarrow> m h = (x, h') \<Longrightarrow> same_state h h'"
  by (metis quiet_def snd_conv)

lemma quiet_andthen [quiet_intro]: "quiet m \<Longrightarrow> (\<And>x. quiet (f x)) \<Longrightarrow> quiet (andthen m f)"
  by (auto simp: quiet_def andthen_def split: prod.splits sum.splits) (metis same_state_trans snd_conv)+

lemma quiet_and_do [quiet_intro]: "quiet m \<Longrightarrow> quiet n \<Longrightarrow> quiet (and_do m n)"
  by (simp add: and_do_def quiet_andthen)

lemma quiet_ret [quiet_intro]: "quiet (ret x)" "quiet (bail msg)"
  by (simp_all add: quiet_def ret_def bail_def)

lemma quiet_with_context [quiet_intro]: "quiet m \<Longrightarrow> quiet (with_context msg m)"
  by (auto simp: quiet_def with_context_def split: prod.splits sum.splits) (metis snd_conv)+

lemma quiet_lift [quiet_intro]: "quiet (lift_result r)" "quiet (lift_named msg r)"
  by (auto simp: quiet_def lift_result_def lift_named_def split: sum.splits)

lemma quiet_attempt [quiet_intro]: "quiet m \<Longrightarrow> quiet (attempt m)"
  by (auto simp: quiet_def attempt_def split: prod.splits sum.splits) (metis snd_conv)+

lemma quiet_holds [quiet_intro]: "quiet m \<Longrightarrow> quiet (holds m)"
  by (auto simp: quiet_def holds_def split: prod.splits sum.splits) (metis snd_conv)+

lemma quiet_reads [quiet_intro]: "quiet (read_to_string p)" "quiet (metadata p)"
  by (auto simp: quiet_def read_to_string_def metadata_def fs_op_def Let_def same_state_def
      split: option.splits sum.splits disk_node.splits list.splits)

lemma quiet_next_line [quiet_intro]: "quiet next_line"
  by (auto simp: quiet_def next_line_def same_state_def split: list.splits option.splits)

lemma quiet_ask_line [quiet_intro]: "quiet ask_line"
  unfolding ask_line_def by (intro quiet_intro)

text \<open>What \<open>let (x, h1) = m h in f x h1\<close> is.\<close>

lemma quiet_let [quiet_intro]: "quiet m \<Longrightarrow> (\<And>x. quiet (f x)) \<Longrightarrow> quiet (\<lambda>h. case m h of (x, h1) \<Rightarrow> f x h1)"
  by (auto simp: quiet_def split: prod.splits) (metis same_state_trans snd_conv)

lemma quiet_Pair [quiet_intro]: "quiet (Pair x)" "quiet (\<lambda>h. (f h, h))"
  by (simp_all add: quiet_def)

lemma quiet_if_const [quiet_intro]: "quiet m \<Longrightarrow> quiet n \<Longrightarrow> quiet (if b then m else n)"
  "quiet m \<Longrightarrow> quiet n \<Longrightarrow> quiet (\<lambda>h. if b then m h else n h)"
  by (cases b; simp)+

lemma quiet_if: "quiet m \<Longrightarrow> quiet n \<Longrightarrow> quiet (\<lambda>h. if b h then m h else n h)"
  by (simp add: quiet_def)

lemma quiet_confirm [quiet_intro]: "quiet (confirm d)"
  unfolding confirm_def by (intro quiet_if quiet_intro)

lemma quiet_capture: "(\<And>h. same_state h (snd (run cmd [] h))) \<Longrightarrow> quiet (capture run cmd)"
  by (auto simp: quiet_def capture_def split: prod.splits sum.splits) (metis snd_conv)+

lemma quiet_succeeds: "(\<And>h. same_state h (snd (run cmd [] h))) \<Longrightarrow> quiet (succeeds run cmd)"
  by (simp add: quiet_def succeeds_def run_succeeds_world)

text \<open>What a call on the file system does: it fails and changes nothing, or the disk is what the operation says.\<close>

lemma fs_op_Inl: "fs_op f h = (Inl e, h') \<Longrightarrow> same_state h h'"
  by (auto simp: fs_op_def same_state_def Let_def split: option.splits sum.splits list.splits)

lemma open_new_Ok: "open_new p m h = (Inr x, h') \<Longrightarrow> ho_disk h' = (ho_disk h)(p \<mapsto> Regular [] (masked_mode m (ho_umask h)) 0)"
  by (auto simp: open_new_def fs_op_def Let_def split: option.splits sum.splits list.splits if_splits)

lemma write_all_Ok: "write_all p c h = (Inr x, h') \<Longrightarrow> ho_disk h' = set_contents p c (ho_disk h)"
  by (auto simp: write_all_def split: list.splits option.splits)

lemma sync_all_Ok: "sync_all h = (Inr x, h') \<Longrightarrow> ho_disk h' = ho_disk h"
  by (auto simp: sync_all_def fs_op_def Let_def split: option.splits list.splits)

lemma chown_root_Ok: "chown_root p g h = (Inr x, h') \<Longrightarrow> \<exists>n. ho_disk h p = Some n \<and> ho_disk h' = (ho_disk h)(p \<mapsto> with_group g n)"
  by (auto simp: chown_root_def fs_op_def Let_def split: option.splits sum.splits list.splits)

lemma set_permissions_Ok:
  "set_permissions p m h = (Inr x, h') \<Longrightarrow> \<exists>n. ho_disk h p = Some n \<and> ho_disk h' = (ho_disk h)(p \<mapsto> with_mode m n)"
  by (auto simp: set_permissions_def fs_op_def Let_def split: option.splits sum.splits list.splits)

lemma fs_rename_Ok:
  "fs_rename a b h = (Inr x, h') \<Longrightarrow> \<exists>n. ho_disk h a = Some n \<and> ho_disk h' = (ho_disk h)(a := None, b \<mapsto> n)"
  by (auto simp: fs_rename_def fs_op_def Let_def split: option.splits sum.splits list.splits disk_node.splits)

lemma fs_copy_Ok:
  "fs_copy a b h = (Inr x, h') \<Longrightarrow>
     \<exists>c m g g'. ho_disk h a = Some (Regular c m g) \<and> ho_disk h' = (ho_disk h)(b \<mapsto> Regular c m g')"
  by (auto simp: fs_copy_def fs_op_def Let_def split: option.splits sum.splits list.splits disk_node.splits if_splits)

lemma fs_op_works:
  "ho_faults h = [] \<Longrightarrow> f (ho_disk h) = Inr (x, d) \<Longrightarrow> fs_op f h = (Inr x, h\<lparr> ho_disk := d \<rparr>)"
  by (simp add: fs_op_def)

end
