(* ===== verification/Sysconf.thy ===== *)
theory Sysconf
  imports Host
begin

text \<open>
  The guided server installation (\<open>src/sysconf.rs\<close>): a plan of steps, each of which first asks whether its end state
  already holds, is confirmed by the user, and then applied. The programs it runs are a runner on the host. Printed
  text is not modelled, except where it is part of an error.
\<close>

section \<open>Constants and data\<close>

definition SERVICE_USER :: string where
  "SERVICE_USER = ''chameleon-pq''"

definition DEFAULT_CONFIG_DIR :: string where
  "DEFAULT_CONFIG_DIR = ''/etc/chameleon-pq''"

definition TUN_NAME :: string where
  "TUN_NAME = ''chameleon0''"

definition NFT_TABLE :: string where
  "NFT_TABLE = ''chameleon_pq''"

definition MAIN_UNIT :: string where
  "MAIN_UNIT = ''chameleon-pq.service''"

definition NFT_UNIT :: string where
  "NFT_UNIT = ''chameleon-pq-nft.service''"

definition UNIT_DIR_LOCAL :: string where
  "UNIT_DIR_LOCAL = ''/etc/systemd/system''"

record setup_args =
  sg_server_addr :: "sock_addr option"
  sg_bind :: sock_addr
  sg_tun_net :: string
  sg_mtu :: u16
  sg_split_tunnel :: bool
  sg_kill_switch :: bool
  sg_profile :: string
  sg_config_dir :: string
  sg_client_out :: string
  sg_yes :: bool
  sg_dry_run :: bool
  sg_force :: bool
  sg_no_firewall :: bool

datatype firewall = Firewalld | Ufw | Nft

record server_facts =
  sf_port :: u16
  sf_tun_cidr :: string

record 'k step =
  sp_title :: string
  sp_done :: "'k host \<Rightarrow> bool \<times> 'k host"
  sp_apply :: "('k, unit) act"

text \<open>What the process knows of itself: the path of its binary, its identifier, the clock, the unit files it embeds.\<close>

record setup_env =
  se_exe :: "string anyhow"
  se_pid :: nat
  se_clock :: int
  se_unit_main :: string
  se_unit_nft :: string

section \<open>Pure helpers\<close>

definition leading_ones :: "u32 \<Rightarrow> nat" where
  "leading_ones w = length (takeWhile (\<lambda>i. bit w i) (rev [0..<32]))"

definition trailing_zeros :: "u32 \<Rightarrow> nat" where
  "trailing_zeros w = length (takeWhile (\<lambda>i. \<not> bit w i) [0..<32])"

definition cidr_of :: "string \<Rightarrow> string \<Rightarrow> ('k, string) act" where
  "cidr_of addr netmask =
     (case parse_v4 addr of
        None \<Rightarrow> with_context (''bad tun address '' @ addr) (bail ''invalid IPv4 address syntax'')
      | Some a \<Rightarrow>
          (case parse_v4 netmask of
             None \<Rightarrow> with_context (''bad netmask '' @ netmask) (bail ''invalid IPv4 address syntax'')
           | Some m \<Rightarrow>
               let ai = v4_u32 a; mi = v4_u32 m
               in if leading_ones mi + trailing_zeros mi \<noteq> 32 then bail (''netmask '' @ netmask @ '' is not a contiguous mask'')
                  else ret (show_v4 (u32_v4 (ai AND mi)) @ ''/'' @ show_nat (leading_ones mi))))"

definition render_nft :: "string \<Rightarrow> bool \<Rightarrow> string" where
  "render_nft tun_cidr with_nat =
     ln (''# Managed by `chameleon-pq setup` '' @ DASH @ '' safe to re-run, only touches table inet '' @ NFT_TABLE @ ''.'') @
     ln (''add table inet '' @ NFT_TABLE) @
     ln (''delete table inet '' @ NFT_TABLE) @
     ln (''table inet '' @ NFT_TABLE @ '' {'') @
     ln ''    chain mss {'' @
     ln ''        type filter hook forward priority mangle; policy accept;'' @
     ln (''        tcp flags & (syn | rst) == syn oifname '' @ quoted TUN_NAME @ '' tcp option maxseg size set rt mtu'') @
     ln (''        tcp flags & (syn | rst) == syn iifname '' @ quoted TUN_NAME @ '' tcp option maxseg size set rt mtu'') @
     ln ''    }'' @
     (if with_nat
      then ln ''    chain postrouting {'' @
           ln ''        type nat hook postrouting priority srcnat; policy accept;'' @
           ln (''        ip saddr '' @ tun_cidr @ '' oifname != '' @ quoted TUN_NAME @ '' oifname != '' @ quoted ''lo'' @ '' masquerade'') @
           ln ''    }''
      else []) @
     ln ''}''"

definition parse_route_get :: "string \<Rightarrow> string option \<times> bytes option" where
  "parse_route_get out =
     (let toks = split_whitespace out
      in (word_after ''dev'' toks, Option.bind (word_after ''src'' toks) parse_v4))"

definition EXEC_PREFIX :: string where
  "EXEC_PREFIX = ''ExecStart=/usr/bin/chameleon-pq ''"

definition render_unit :: "string \<Rightarrow> string \<Rightarrow> string" where
  "render_unit template exe =
     join [CHR 0x0A] (map (\<lambda>l. if starts_with l EXEC_PREFIX then replace_first ''/usr/bin/chameleon-pq'' exe l else l)
       (lines template)) @ [CHR 0x0A]"

text \<open>\<open>Path::starts_with\<close> compares whole components; the binary's path is canonical.\<close>

definition exe_hidden_from_service :: "string \<Rightarrow> bool" where
  "exe_hidden_from_service exe =
     list_ex (\<lambda>p. exe = p \<or> starts_with exe (p @ ''/'')) [''/home'', ''/root'', ''/tmp'', ''/var/tmp'', ''/run/user'']"

section \<open>System helpers\<close>

definition detect_egress :: "'k host runner \<Rightarrow> 'k host \<Rightarrow> (string option \<times> bytes option) \<times> 'k host" where
  "detect_egress run h =
     (case attempt (capture run [''ip'', ''-4'', ''-o'', ''route'', ''get'', ''1.1.1.1'']) h of
        (Some out, h') \<Rightarrow> (parse_route_get out, h') | (None, h') \<Rightarrow> ((None, None), h'))"

definition detect_firewall :: "'k host runner \<Rightarrow> 'k host \<Rightarrow> firewall \<times> 'k host" where
  "detect_firewall run h =
     (let (up, h1) = succeeds run [''firewall-cmd'', ''--state''] h
      in if up then (Firewalld, h1)
         else let (out, h2) = attempt (capture run [''ufw'', ''status'']) h1
              in (case out of
                    Some s \<Rightarrow> if starts_with (dropWhile is_space s) ''Status: active'' then Ufw else Nft
                  | None \<Rightarrow> Nft, h2))"

fun route_clash :: "'k host runner \<Rightarrow> string \<Rightarrow> string list \<Rightarrow> 'k host \<Rightarrow> string option \<times> 'k host" where
  "route_clash run tun_net [] h = (None, h)"
| "route_clash run tun_net (what # rest) h =
     (let (out, h1) = attempt (capture run [''ip'', ''-4'', ''-o'', what, ''show'']) h;
          found = Option.bind out (\<lambda>s. find (\<lambda>l. list_ex (\<lambda>t. starts_with t (tun_net @ ''.'')) (split_whitespace l) \<and>
                                                   \<not> contains l TUN_NAME) (lines s))
      in case found of Some l \<Rightarrow> (Some (trim l), h1) | None \<Rightarrow> route_clash run tun_net rest h1)"

definition unix_ts :: "int \<Rightarrow> nat" where
  "unix_ts clock = (if clock < 0 then 0 else nat clock)"

definition parse_id :: "string \<Rightarrow> ('k, nat) act" where
  "parse_id s = (case parse_uint (2 ^ 32) (trim s) of Some n \<Rightarrow> ret n | None \<Rightarrow> bail ''invalid digit found in string'')"

definition service_ids :: "'k host runner \<Rightarrow> ('k, nat \<times> nat) act" where
  "service_ids run =
     andthen (andthen (capture run [''id'', ''-u'', SERVICE_USER]) parse_id) (\<lambda>uid.
     andthen (andthen (capture run [''id'', ''-g'', SERVICE_USER]) parse_id) (\<lambda>gid. ret (uid, gid)))"

definition set_mode_owner :: "'k host runner \<Rightarrow> string \<Rightarrow> u32 \<Rightarrow> ('k, unit) act" where
  "set_mode_owner run path mode =
     andthen (with_context ''service account missing'' (service_ids run)) (\<lambda>(uid, gid).
     and_do (chown_root path gid) (set_permissions path mode))"

definition write_file :: "'k host runner \<Rightarrow> nat \<Rightarrow> string \<Rightarrow> string \<Rightarrow> u32 \<Rightarrow> bool \<Rightarrow> ('k, unit) act" where
  "write_file run pid path contents mode group_service h =
     (let tmp = with_extension path (''tmp-'' @ show_nat pid);
          h1 = snd (attempt (remove_file tmp) h)
      in and_do (with_context (''cannot create '' @ tmp) (open_new tmp mode))
         (and_do (write_all tmp contents)
         (and_do sync_all
         (and_do
            (if group_service
             then andthen (with_context ''service account missing'' (service_ids run)) (\<lambda>(uid, gid). chown_root tmp gid)
             else ret ())
         (fs_rename tmp path)))) h1)"

section \<open>Prompts\<close>

definition ask_server_addr :: "bytes option \<Rightarrow> u16 \<Rightarrow> ('k, sock_addr) act" where
  "ask_server_addr detected port =
     andthen ask_line (\<lambda>line.
       if line = [] then
         (case detected of
            Some ip \<Rightarrow> ret \<lparr> sa_ip = V4 ip, sa_port = port \<rparr> | None \<Rightarrow> bail ''a server address is required'')
       else case parse_sock_addr line of
           Some a \<Rightarrow> ret a | None \<Rightarrow> bail ''not a valid ip:port (a numeric IP, not a hostname)'')"

definition ask_tun_net :: "string \<Rightarrow> ('k, string) act" where
  "ask_tun_net dflt = andthen ask_line (\<lambda>line. ret (if line = [] then dflt else line))"

section \<open>Steps\<close>

definition step_user :: "'k host runner \<Rightarrow> 'k step" where
  "step_user run =
     \<lparr> sp_title = ''Service account '' @ SQ @ SERVICE_USER @ SQ,
       sp_done = succeeds run [''id'', ''-u'', SERVICE_USER],
       sp_apply = exec_cmd run [''useradd'', ''--system'', ''--user-group'', ''--no-create-home'', ''--home-dir'', ''/nonexistent'',
         ''--shell'', ''/usr/sbin/nologin'', SERVICE_USER] \<rparr>"

text \<open>Modes: \<open>0o750\<close> is 488, \<open>0o640\<close> 416, \<open>0o644\<close> 420, \<open>0o600\<close> 384, \<open>0o777\<close> 511.\<close>

definition step_config_dir :: "'k host runner \<Rightarrow> string \<Rightarrow> 'k step" where
  "step_config_dir run dir =
     \<lparr> sp_title = ''Config directory '' @ dir,
       sp_done = holds (andthen (metadata dir) (\<lambda>m. ret (case m of Directory mode g \<Rightarrow> mode AND 511 = 488 | Regular c mode g \<Rightarrow> False))),
       sp_apply = and_do (create_dir_all dir) (set_mode_owner run dir 488) \<rparr>"

definition step_identity :: "'k host runner \<Rightarrow> setup_env \<Rightarrow> string \<Rightarrow> string \<Rightarrow> string \<Rightarrow> string \<Rightarrow> bool \<Rightarrow> 'k step" where
  "step_identity run env sp server_toml cp client_toml force =
     \<lparr> sp_title = ''Generate server config '' @ sp @ '' and the matching client config'',
       sp_done = Pair False,
       sp_apply = (\<lambda>h.
         if path_exists cp h \<and> \<not> force then bail (cp @ '' already exists '' @ DASH @ '' pass --force to overwrite'') h
         else and_do (if path_parent cp = [] then ret ()
                      else with_context (''cannot create '' @ path_parent cp) (create_dir_all (path_parent cp)))
              (and_do (write_file run (se_pid env) cp client_toml 384 False)
              (and_do (\<lambda>h. if path_exists sp h
                           then (let bak = with_extension sp (''toml.bak-'' @ show_nat (unix_ts (se_clock env)))
                                 in and_do (fs_copy sp bak) (set_mode_owner run bak 416)) h
                           else ret () h)
                (write_file run (se_pid env) sp server_toml 416 True))) h) \<rparr>"

definition SYSCTL_FILE :: string where
  "SYSCTL_FILE = ''/etc/sysctl.d/99-chameleon-pq.conf''"

definition SYSCTL_BODY :: string where
  "SYSCTL_BODY = ln ''# Chameleon-PQ full-tunnel server: forward tunnel traffic to the internet.'' @ ln ''net.ipv4.ip_forward = 1''"

definition IP_FORWARD :: string where
  "IP_FORWARD = ''/proc/sys/net/ipv4/ip_forward''"

definition and_also :: "('k host \<Rightarrow> bool \<times> 'k host) \<Rightarrow> ('k host \<Rightarrow> bool \<times> 'k host) \<Rightarrow> 'k host \<Rightarrow> bool \<times> 'k host" where
  "and_also p q h = (case p h of (True, h1) \<Rightarrow> q h1 | (False, h1) \<Rightarrow> (False, h1))"

definition file_is :: "string \<Rightarrow> string \<Rightarrow> 'k host \<Rightarrow> bool \<times> 'k host" where
  "file_is path body = holds (andthen (read_to_string path) (\<lambda>c. ret (c = body)))"

definition step_sysctl :: "'k host runner \<Rightarrow> setup_env \<Rightarrow> 'k step" where
  "step_sysctl run env =
     \<lparr> sp_title = ''Enable IPv4 forwarding (persistent)'',
       sp_done = and_also (file_is SYSCTL_FILE SYSCTL_BODY)
         (holds (andthen (read_to_string IP_FORWARD) (\<lambda>v. ret (trim v = ''1'')))),
       sp_apply = and_do (write_file run (se_pid env) SYSCTL_FILE SYSCTL_BODY 420 False)
         (exec_cmd run [''sysctl'', ''-w'', ''net.ipv4.ip_forward=1'']) \<rparr>"

definition fw_step :: "'k host runner \<Rightarrow> string \<Rightarrow> string list \<Rightarrow> string list \<Rightarrow> 'k step" where
  "fw_step run title add query =
     \<lparr> sp_title = title,
       sp_done = succeeds run (''firewall-cmd'' # query),
       sp_apply = and_do (exec_cmd run (''firewall-cmd'' # add)) (\<lambda>h. (Inr (), h\<lparr> ho_fw_changed := True \<rparr>)) \<rparr>"

definition non_empty :: "string option \<Rightarrow> string option" where
  "non_empty s = (case s of Some x \<Rightarrow> if x = [] then None else Some x | None \<Rightarrow> None)"

definition firewall_zone :: "'k host runner \<Rightarrow> string option \<Rightarrow> 'k host \<Rightarrow> string \<times> 'k host" where
  "firewall_zone run egress_dev h =
     (let (z, h1) = (case egress_dev of
              Some d \<Rightarrow> attempt (capture run [''firewall-cmd'', ''--get-zone-of-interface'', d]) h | None \<Rightarrow> (None, h))
      in case non_empty (map_option trim z) of
          Some zone \<Rightarrow> (zone, h1)
        | None \<Rightarrow> let (dflt, h2) = attempt (capture run [''firewall-cmd'', ''--get-default-zone'']) h1
                 in (case map_option trim dflt of Some zone \<Rightarrow> zone | None \<Rightarrow> ''public'', h2))"

definition firewalld_steps :: "'k host runner \<Rightarrow> server_facts \<Rightarrow> string \<Rightarrow> 'k step list" where
  "firewalld_steps run facts zone =
     (let port = show_nat (unat (sf_port facts)); pspec = port @ ''/udp''; perm = [''--permanent'', ''--zone='' @ zone]
      in [fw_step run (''firewalld: open UDP '' @ port @ '' in zone '' @ SQ @ zone @ SQ)
            (perm @ [''--add-port='' @ pspec]) (perm @ [''--query-port='' @ pspec]),
          fw_step run (''firewalld: masquerade (NAT) in zone '' @ SQ @ zone @ SQ)
            (perm @ [''--add-masquerade'']) (perm @ [''--query-masquerade'']),
          fw_step run (''firewalld: trust the tunnel interface '' @ TUN_NAME)
            [''--permanent'', ''--zone=trusted'', ''--add-interface='' @ TUN_NAME]
            [''--permanent'', ''--zone=trusted'', ''--query-interface='' @ TUN_NAME],
          \<lparr> sp_title = ''firewalld: reload'', sp_done = (\<lambda>h. (\<not> ho_fw_changed h, h)),
            sp_apply = exec_cmd run [''firewall-cmd'', ''--reload''] \<rparr>])"

definition ufw_steps :: "'k host runner \<Rightarrow> server_facts \<Rightarrow> string option \<Rightarrow> 'k step list" where
  "ufw_steps run facts egress_dev =
     (let port = show_nat (unat (sf_port facts)); pspec = port @ ''/udp'';
          route = [''route'', ''allow'', ''in'', ''on'', TUN_NAME] @ (case egress_dev of Some d \<Rightarrow> [''out'', ''on'', d] | None \<Rightarrow> []);
          dev = (case egress_dev of Some d \<Rightarrow> d | None \<Rightarrow> [])
      in [\<lparr> sp_title = ''ufw: allow UDP '' @ port,
            sp_done = holds (andthen (capture run [''ufw'', ''status''])
              (\<lambda>s. ret (list_ex (\<lambda>l. starts_with l pspec \<and> contains l ''ALLOW'') (lines s)))),
            sp_apply = exec_cmd run [''ufw'', ''allow'', pspec] \<rparr>,
          \<lparr> sp_title = ''ufw: allow forwarding from '' @ TUN_NAME,
            sp_done = holds (andthen (capture run [''ufw'', ''status'', ''verbose''])
              (\<lambda>s. ret (contains s TUN_NAME \<and> (dev = [] \<or> contains s dev)))),
            sp_apply = exec_cmd run (''ufw'' # route) \<rparr>])"

definition steps_firewall :: "'k host runner \<Rightarrow> firewall \<Rightarrow> server_facts \<Rightarrow> string option \<Rightarrow> 'k host \<Rightarrow> 'k step list \<times> 'k host" where
  "steps_firewall run fw facts egress_dev h =
     (case fw of
        Firewalld \<Rightarrow> let (zone, h') = firewall_zone run egress_dev (h\<lparr> ho_fw_changed := False \<rparr>) in (firewalld_steps run facts zone, h')
      | Ufw \<Rightarrow> (ufw_steps run facts egress_dev, h)
      | Nft \<Rightarrow> ([], h))"

definition nft_path :: "string \<Rightarrow> string" where
  "nft_path config_dir = path_join config_dir ''chameleon-pq.nft''"

definition step_nft_file :: "'k host runner \<Rightarrow> setup_env \<Rightarrow> string \<Rightarrow> server_facts \<Rightarrow> bool \<Rightarrow> 'k step" where
  "step_nft_file run env config_dir facts with_nat =
     (let body = render_nft (sf_tun_cidr facts) with_nat
      in \<lparr> sp_title = ''nftables rules '' @ nft_path config_dir,
           sp_done = file_is (nft_path config_dir) body,
           sp_apply = write_file run (se_pid env) (nft_path config_dir) body 420 False \<rparr>)"

definition step_services :: "'k host runner \<Rightarrow> bool \<Rightarrow> 'k step" where
  "step_services run restart =
     \<lparr> sp_title = ''Enable and start the services'',
       sp_done = and_also (Pair (\<not> restart))
         (and_also (succeeds run [''systemctl'', ''is-active'', ''--quiet'', MAIN_UNIT])
         (and_also (succeeds run [''systemctl'', ''is-enabled'', ''--quiet'', MAIN_UNIT])
         (succeeds run [''systemctl'', ''is-active'', ''--quiet'', NFT_UNIT]))),
       sp_apply = and_do (exec_cmd run [''systemctl'', ''daemon-reload''])
         (and_do (exec_cmd run [''systemctl'', ''enable'', NFT_UNIT, MAIN_UNIT])
         (exec_cmd run [''systemctl'', ''restart'', NFT_UNIT, MAIN_UNIT])) \<rparr>"

definition units_packaged :: "'k host \<Rightarrow> bool" where
  "units_packaged h = list_ex (\<lambda>d. path_exists (path_join d MAIN_UNIT) h) [''/usr/lib/systemd/system'', ''/lib/systemd/system'']"

definition step_units :: "'k host runner \<Rightarrow> setup_env \<Rightarrow> bool \<Rightarrow> 'k step anyhow" where
  "step_units run env dry_run =
     (case se_exe env of
        Inl e \<Rightarrow> Inl (Msg ''cannot determine the path of this binary'' # e)
      | Inr exe \<Rightarrow>
          if exe_hidden_from_service exe \<and> \<not> dry_run
          then Inl [Msg (exe @ '' is not reachable from the sandboxed service (it hides /home, /root and /tmp).'' @ [CHR 0x0A] @
                 ''Install it first, e.g.:  sudo install -m 0755 '' @ exe @ '' /usr/local/bin/chameleon-pq'' @ [CHR 0x0A] @
                 ''then run /usr/local/bin/chameleon-pq setup'')]
          else
            (let main_body = render_unit (se_unit_main env) exe; nft_body = se_unit_nft env;
                 mp = path_join UNIT_DIR_LOCAL MAIN_UNIT; np = path_join UNIT_DIR_LOCAL NFT_UNIT
             in Inr \<lparr> sp_title = ''Install the systemd units into '' @ UNIT_DIR_LOCAL,
                      sp_done = and_also (file_is mp main_body) (file_is np nft_body),
                      sp_apply = and_do (write_file run (se_pid env) mp main_body 420 False)
                        (and_do (write_file run (se_pid env) np nft_body 420 False)
                        (\<lambda>h. (Inr (), snd (exec_cmd run [''restorecon'', ''-F'', exe] h)))) \<rparr>))"

section \<open>The run\<close>

definition server_cfg_path :: "setup_args \<Rightarrow> string" where
  "server_cfg_path args = path_join (sg_config_dir args) ''server-config.toml''"

definition client_cfg_path :: "setup_args \<Rightarrow> string" where
  "client_cfg_path args = path_join (sg_client_out args) ''chameleon-pq-client.toml''"

text \<open>The files to write, if they are generated, and what they mean for the system rules.\<close>

record gathered =
  ga_pair :: "(string \<times> string) option"
  ga_facts :: server_facts

definition load_config :: "toml_lib \<Rightarrow> string \<Rightarrow> ('k, app_config) act" where
  "load_config T path h =
     (case read_to_string path h of
        (Inl e, h') \<Rightarrow> lift_result (config_load T path (Inl (case e of Msg m # _ \<Rightarrow> m | _ \<Rightarrow> []))) h'
      | (Inr c, h') \<Rightarrow> lift_result (config_load T path (Inr c)) h')"

definition gather_kept :: "toml_lib \<Rightarrow> setup_args \<Rightarrow> ('k, gathered) act" where
  "gather_kept T args =
     andthen (with_context (''existing '' @ server_cfg_path args @ '' is invalid'') (load_config T (server_cfg_path args))) (\<lambda>cfg.
     andthen (cidr_of (tn_address (ac_tun cfg)) (tn_netmask (ac_tun cfg))) (\<lambda>cidr.
     ret \<lparr> ga_pair = None, ga_facts = \<lparr> sf_port = sa_port (nc_bind_addr (ac_network cfg)), sf_tun_cidr = cidr \<rparr> \<rparr>))"

definition pair_params_of :: "setup_args \<Rightarrow> sock_addr \<Rightarrow> bytes \<Rightarrow> pair_params" where
  "pair_params_of args server_addr net =
     \<lparr> pp_server_addr = server_addr, pp_bind_addr = sg_bind args, pp_tun_net = net, pp_mtu = sg_mtu args,
       pp_full_tunnel = (\<not> sg_split_tunnel args), pp_kill_switch = sg_kill_switch args, pp_profile = sg_profile args \<rparr>"

definition gather_new ::
  "'k host runner \<Rightarrow> crypto_lib \<Rightarrow> toml_lib \<Rightarrow> setup_args \<Rightarrow> bytes option \<Rightarrow> rng \<Rightarrow> bool \<Rightarrow> ('k, gathered) act" where
  "gather_new run C T args egress_src r interactive =
     andthen (case sg_server_addr args of
         Some a \<Rightarrow> ret a
       | None \<Rightarrow> if interactive then ask_server_addr egress_src (sa_port (sg_bind args))
                 else bail ''--server-addr <public-ip:port> is required in non-interactive mode'') (\<lambda>server_addr.
     andthen (if interactive \<and> sg_tun_net args = ''10.99.0'' then ask_tun_net (sg_tun_net args) else ret (sg_tun_net args)) (\<lambda>tun_net.
     andthen (lift_result (parse_tun_net tun_net)) (\<lambda>net h.
       let (clash, h1) = route_clash run tun_net [''route'', ''addr''] h
       in and_do (if clash \<noteq> None \<and> interactive
                  then andthen (confirm False) (\<lambda>go. if go then ret () else bail (''aborted '' @ DASH @ '' re-run with --tun-net <other /24 base>''))
                  else ret ())
          (let (srv, cli) = fst (init_pair C (pair_params_of args server_addr net) r)
           in and_do (lift_named ''generated server config invalid: '' (from_toml_str T srv))
              (and_do (lift_named ''generated client config invalid: '' (from_toml_str T cli))
              (ret \<lparr> ga_pair = Some (srv, cli),
                     ga_facts = \<lparr> sf_port = sa_port (sg_bind args), sf_tun_cidr = tun_ip net ''0/24'' \<rparr> \<rparr>))) h1)))"

definition setup_plan ::
  "'k host runner \<Rightarrow> setup_env \<Rightarrow> setup_args \<Rightarrow> string option \<Rightarrow> firewall option \<Rightarrow> gathered \<Rightarrow> ('k, 'k step list) act" where
  "setup_plan run env args egress_dev fw g h =
     (let (fw_steps, h1) = (case fw of Some f \<Rightarrow> steps_firewall run f (ga_facts g) egress_dev h | None \<Rightarrow> ([], h));
          pre = [step_user run, step_config_dir run (sg_config_dir args)] @
                (case ga_pair g of Some (s, c) \<Rightarrow> [step_identity run env (server_cfg_path args) s (client_cfg_path args) c (sg_force args)] | None \<Rightarrow> []) @
                [step_sysctl run env] @ fw_steps @
                [step_nft_file run env (sg_config_dir args) (ga_facts g) (fw = Some Nft \<or> fw = Some Ufw)];
          last_step = step_services run (ga_pair g \<noteq> None)
      in if units_packaged h1 then (Inr (pre @ [last_step]), h1)
         else (case step_units run env (sg_dry_run args) of
             Inl e \<Rightarrow> (Inl e, h1) | Inr u \<Rightarrow> (Inr (pre @ [u, last_step]), h1)))"

fun run_steps :: "setup_args \<Rightarrow> 'k step list \<Rightarrow> ('k, unit) act" where
  "run_steps args [] h = (Inr (), h)"
| "run_steps args (s # rest) h =
     (let (finished, h1) = sp_done s h
      in if finished \<or> sg_dry_run args then run_steps args rest h1
         else andthen (if sg_yes args then ret True else confirm True) (\<lambda>go.
                if go then and_do (with_context (''step failed: '' @ sp_title s) (sp_apply s)) (run_steps args rest)
                else run_steps args rest) h1)"

text \<open>The result says whether the socket was seen listening.\<close>

definition verify_and_report :: "'k host runner \<Rightarrow> server_facts \<Rightarrow> ('k, bool) act" where
  "verify_and_report run facts h =
     (let (active, h1) = succeeds run [''systemctl'', ''is-active'', ''--quiet'', MAIN_UNIT] h;
          (listening, h2) = holds (andthen (capture run [''ss'', ''-H'', ''-ulnp''])
            (\<lambda>s. ret (contains s ('':'' @ show_nat (unat (sf_port facts)))))) h1
      in if active then ret listening h2
         else bail (''service did not start '' @ DASH @ '' see the log above'')
           (snd (attempt (capture run [''journalctl'', ''-u'', MAIN_UNIT, ''-n'', ''15'', ''--no-pager'']) h2)))"

definition check_args :: "'k host runner \<Rightarrow> setup_args \<Rightarrow> ('k, unit) act" where
  "check_args run args =
     and_do (if sg_dry_run args then ret ()
             else andthen (capture run [''id'', ''-u'']) (\<lambda>out.
               if trim out \<noteq> ''0'' then bail (''setup changes system configuration '' @ DASH @ '' run it as root (sudo chameleon-pq setup)'')
               else ret ()))
     (if \<not> sg_dry_run args \<and> sg_config_dir args \<noteq> DEFAULT_CONFIG_DIR
      then bail (''--config-dir other than '' @ DEFAULT_CONFIG_DIR @ '' is only for --dry-run: the systemd units read their files from there'')
      else if unat (sa_port (sg_bind args)) < 1024
      then bail (''--bind port '' @ show_nat (unat (sa_port (sg_bind args))) @ '' is privileged; the service runs unprivileged. Use a port >= 1024 '' @
             ''(or grant CAP_NET_BIND_SERVICE in the unit yourself)'')
      else ret ())"

definition install_server ::
  "'k host runner \<Rightarrow> crypto_lib \<Rightarrow> toml_lib \<Rightarrow> setup_env \<Rightarrow> setup_args \<Rightarrow> rng \<Rightarrow> bool \<Rightarrow> string option \<Rightarrow> bytes option \<Rightarrow>
    firewall option \<Rightarrow> ('k, bool) act" where
  "install_server run C T env args r interactive egress_dev egress_src fw h =
     (let keep_existing = (path_exists (server_cfg_path args) h \<and> \<not> sg_force args)
      in (if \<not> keep_existing \<and> path_exists (client_cfg_path args) h \<and> \<not> sg_force args
          then bail (client_cfg_path args @ '' already exists '' @ DASH @ '' pass --force to overwrite it, or pick another --client-out'')
          else andthen (if keep_existing then gather_kept T args else gather_new run C T args egress_src r interactive) (\<lambda>g.
               andthen (setup_plan run env args egress_dev fw g) (\<lambda>steps.
               and_do (run_steps args steps)
               (if sg_dry_run args then ret False else verify_and_report run (ga_facts g))))) h)"

definition setup_run ::
  "'k host runner \<Rightarrow> crypto_lib \<Rightarrow> toml_lib \<Rightarrow> setup_env \<Rightarrow> setup_args \<Rightarrow> rng \<Rightarrow> ('k, bool) act" where
  "setup_run run C T env args r =
     and_do (check_args run args) (\<lambda>h.
       let ((egress_dev, egress_src), h1) = detect_egress run h;
           (fw, h2) = (if sg_no_firewall args then (None, h1) else (case detect_firewall run h1 of (f, h') \<Rightarrow> (Some f, h')))
       in install_server run C T env args r (ho_tty h \<and> \<not> sg_yes args) egress_dev egress_src fw h2)"

section \<open>Queries\<close>

text \<open>The commands of \<open>src/sysconf.rs\<close> that only ask; \<open>queries_quiet\<close> is what their manuals promise (the cell of this process is out of their reach).\<close>

definition is_query :: "command \<Rightarrow> bool" where
  "is_query cmd \<longleftrightarrow>
     cmd \<in> set [[''id'', ''-u''], [''id'', ''-u'', SERVICE_USER], [''id'', ''-g'', SERVICE_USER],
       [''ip'', ''-4'', ''-o'', ''route'', ''get'', ''1.1.1.1''],
       [''systemctl'', ''is-active'', ''--quiet'', MAIN_UNIT], [''systemctl'', ''is-enabled'', ''--quiet'', MAIN_UNIT],
       [''systemctl'', ''is-active'', ''--quiet'', NFT_UNIT],
       [''ufw'', ''status''], [''ufw'', ''status'', ''verbose''],
       [''firewall-cmd'', ''--state''], [''firewall-cmd'', ''--get-default-zone''],
       [''ss'', ''-H'', ''-ulnp''], [''journalctl'', ''-u'', MAIN_UNIT, ''-n'', ''15'', ''--no-pager'']] \<or>
     (case cmd of
        [''ip'', ''-4'', ''-o'', what, ''show''] \<Rightarrow> True
      | [''firewall-cmd'', ''--get-zone-of-interface'', dev] \<Rightarrow> True
      | [''firewall-cmd'', ''--permanent'', zone, query] \<Rightarrow> starts_with query ''--query-''
      | _ \<Rightarrow> False)"

definition queries_quiet :: "'k host runner \<Rightarrow> bool" where
  "queries_quiet run \<longleftrightarrow> (\<forall>cmd h. is_query cmd \<longrightarrow> same_state h (snd (run cmd [] h)) \<and> ho_fw_changed (snd (run cmd [] h)) = ho_fw_changed h)"

lemma quiet_query:
  "queries_quiet run \<Longrightarrow> is_query cmd \<Longrightarrow> quiet (capture run cmd)"
  "queries_quiet run \<Longrightarrow> is_query cmd \<Longrightarrow> quiet (succeeds run cmd)"
  by (auto simp: queries_quiet_def intro: quiet_capture quiet_succeeds)

lemma quiet_and_also [quiet_intro]: "quiet p \<Longrightarrow> quiet q \<Longrightarrow> quiet (and_also p q)"
  by (auto simp: quiet_def and_also_def split: prod.splits bool.splits) (metis same_state_trans snd_conv)+

lemma quiet_file_is [quiet_intro]: "quiet (file_is p c)"
  unfolding file_is_def by (intro quiet_intro)

lemma quiet_parse_id [quiet_intro]: "quiet (parse_id s)"
  unfolding parse_id_def by (auto intro: quiet_intro split: option.splits)

lemma quiet_service_ids: "queries_quiet run \<Longrightarrow> quiet (service_ids run)"
  unfolding service_ids_def by (intro quiet_intro quiet_query) (simp_all add: is_query_def)

lemma quiet_done:
  assumes "queries_quiet run"
  shows "quiet (sp_done (step_user run))" "quiet (sp_done (step_config_dir run dir))"
    "quiet (sp_done (step_identity run env sp s cp c force))" "quiet (sp_done (step_sysctl run env))"
    "quiet (sp_done (step_nft_file run env dir facts wn))" "quiet (sp_done (step_services run restart))"
    "\<And>s. s \<in> set (firewalld_steps run facts zone) \<Longrightarrow> quiet (sp_done s)"
    "\<And>s. s \<in> set (ufw_steps run facts dev) \<Longrightarrow> quiet (sp_done s)"
    "\<And>s. step_units run env dry = Inr s \<Longrightarrow> quiet (sp_done s)"
  by (auto simp: step_user_def step_config_dir_def step_identity_def step_sysctl_def step_nft_file_def step_services_def
      firewalld_steps_def fw_step_def ufw_steps_def step_units_def Let_def is_query_def
      intro!: quiet_intro quiet_query [OF assms] split: sum.splits if_splits)

lemma quiet_detect:
  assumes "queries_quiet run"
  shows "quiet (detect_egress run)" "quiet (detect_firewall run)" "quiet (route_clash run net whats)"
    "quiet (firewall_zone run dev)"
proof -
  note q = quiet_query [OF assms]
  have "detect_egress run = (\<lambda>h. case attempt (capture run [''ip'', ''-4'', ''-o'', ''route'', ''get'', ''1.1.1.1'']) h of
      (x, h1) \<Rightarrow> (case x of Some out \<Rightarrow> parse_route_get out | None \<Rightarrow> (None, None), h1))"
    by (auto simp: fun_eq_iff detect_egress_def split: prod.splits option.splits)
  then show "quiet (detect_egress run)" by (auto simp: is_query_def intro!: quiet_intro q)
  show "quiet (detect_firewall run)"
    unfolding detect_firewall_def Let_def
    by (intro quiet_let quiet_if_const quiet_Pair quiet_intro q) (simp_all add: is_query_def)
  show "quiet (route_clash run net whats)"
  proof (induction whats)
    case Nil
    show ?case by (simp add: quiet_def)
  next
    case (Cons what rest)
    have "quiet (attempt (capture run [''ip'', ''-4'', ''-o'', what, ''show'']))"
      by (intro quiet_intro q) (simp add: is_query_def)
    moreover have "quiet (\<lambda>h1. case clash of Some l \<Rightarrow> (Some (trim l), h1) | None \<Rightarrow> route_clash run net rest h1)" for clash
      using Cons by (cases clash) (auto intro: quiet_Pair)
    ultimately show ?case
      unfolding route_clash.simps Let_def by (intro quiet_let)
  qed
  have "quiet (\<lambda>h. case dev of Some d \<Rightarrow> attempt (capture run [''firewall-cmd'', ''--get-zone-of-interface'', d]) h | None \<Rightarrow> (None, h))"
    by (cases dev) (auto simp: is_query_def intro!: quiet_intro q)
  then show "quiet (firewall_zone run dev)"
    unfolding firewall_zone_def Let_def
  proof (rule quiet_let)
    fix z
    have "quiet (attempt (capture run [''firewall-cmd'', ''--get-default-zone'']))"
      by (intro quiet_intro q) (simp add: is_query_def)
    then show "quiet (\<lambda>h1. case non_empty (map_option trim z) of
        None \<Rightarrow> (case attempt (capture run [''firewall-cmd'', ''--get-default-zone'']) h1 of
            (dflt, h2) \<Rightarrow> (case map_option trim dflt of None \<Rightarrow> ''public'' | Some zone \<Rightarrow> zone, h2))
      | Some zone \<Rightarrow> (zone, h1))"
      by (cases "non_empty (map_option trim z)") (auto intro: quiet_let quiet_Pair)
  qed
qed

section \<open>A dry run\<close>

lemma quiet_cidr_of: "quiet (cidr_of a m)"
  unfolding cidr_of_def Let_def by (auto intro!: quiet_intro split: option.splits)

lemma quiet_load_config: "quiet (load_config T path)"
proof -
  have "load_config T path = (\<lambda>h. case read_to_string path h of (x, h1) \<Rightarrow> lift_result (config_load T path
      (case x of Inl e \<Rightarrow> Inl (case e of Msg m # _ \<Rightarrow> m | _ \<Rightarrow> []) | Inr c \<Rightarrow> Inr c)) h1)"
    by (auto simp: fun_eq_iff load_config_def split: prod.splits sum.splits)
  then show ?thesis by (rule ssubst) (intro quiet_intro)
qed

lemma quiet_gather_kept: "quiet (gather_kept T args)"
  unfolding gather_kept_def by (intro quiet_intro quiet_load_config quiet_cidr_of)

lemma quiet_gather_new:
  assumes "queries_quiet run"
  shows "quiet (gather_new run C T args src r interactive)"
proof -
  have addr: "quiet (ask_server_addr d p)" for d p
    unfolding ask_server_addr_def by (auto intro!: quiet_intro split: option.splits)
  have net: "quiet (ask_tun_net d)" for d
    unfolding ask_tun_net_def by (intro quiet_intro)
  show ?thesis
    unfolding gather_new_def Let_def
    by (intro quiet_intro quiet_detect [OF assms] addr net)
      (auto intro!: quiet_intro addr net quiet_detect [OF assms] split: option.splits prod.splits)
qed

lemma plan_firewall:
  assumes q: "queries_quiet run"
    and fs: "(case fw of Some f \<Rightarrow> steps_firewall run f facts dev h | None \<Rightarrow> ([], h)) = (fs, h1)"
  shows "same_state h h1" "\<forall>s\<in>set fs. quiet (sp_done s)"
proof -
  have "same_state h (h\<lparr> ho_fw_changed := False \<rparr>)" by (simp add: same_state_def)
  moreover have "same_state (h\<lparr> ho_fw_changed := False \<rparr>) (snd (firewall_zone run dev (h\<lparr> ho_fw_changed := False \<rparr>)))"
    using quiet_detect(4) [OF q] by (simp add: quiet_def)
  ultimately show "same_state h h1"
    using fs by (auto simp: steps_firewall_def split: option.splits firewall.splits prod.splits intro: same_state_trans)
  show "\<forall>s\<in>set fs. quiet (sp_done s)"
    using fs quiet_done(7,8) [OF q]
    by (auto simp: steps_firewall_def split: option.splits firewall.splits prod.splits)
qed

lemma setup_plan_same:
  assumes q: "queries_quiet run" and plan: "setup_plan run env args dev fw g h = (x, h')"
  shows "same_state h h'"
proof -
  obtain fs h1 where fs: "(case fw of Some f \<Rightarrow> steps_firewall run f (ga_facts g) dev h | None \<Rightarrow> ([], h)) = (fs, h1)"
    by (metis surj_pair)
  have "h' = h1" using plan by (auto simp: setup_plan_def fs Let_def split: if_splits sum.splits)
  then show ?thesis using plan_firewall(1) [OF q fs] by simp
qed

lemma setup_plan_quiet:
  assumes q: "queries_quiet run" and plan: "setup_plan run env args dev fw g h = (Inr steps, h')"
  shows "same_state h h'" "\<forall>s\<in>set steps. quiet (sp_done s)"
proof -
  show "same_state h h'" by (rule setup_plan_same [OF assms])
  obtain fs h1 where fs: "(case fw of Some f \<Rightarrow> steps_firewall run f (ga_facts g) dev h | None \<Rightarrow> ([], h)) = (fs, h1)"
    by (metis surj_pair)
  note quiets = quiet_done [OF q] plan_firewall(2) [OF q fs]
  show "\<forall>s\<in>set steps. quiet (sp_done s)"
    using plan quiets by (auto simp: setup_plan_def fs Let_def split: if_splits sum.splits option.splits)
qed

lemma dry_steps:
  "sg_dry_run args \<Longrightarrow> \<forall>s\<in>set steps. quiet (sp_done s) \<Longrightarrow> same_state h (snd (run_steps args steps h))"
proof (induction steps arbitrary: h)
  case (Cons s steps)
  obtain b h1 where d: "sp_done s h = (b, h1)" by fastforce
  then have "same_state h h1" using Cons.prems(2) quietD by fastforce
  moreover have "same_state h1 (snd (run_steps args steps h1))" using Cons by simp
  ultimately show ?case using Cons.prems(1) d by (auto intro: same_state_trans)
qed simp

lemma dry_install_quiet:
  assumes q: "queries_quiet run" and dry: "sg_dry_run args"
  shows "quiet (install_server run C T env args r interactive dev src fw)"
proof -
  let ?steps = "\<lambda>g steps. and_do (run_steps args steps) (if sg_dry_run args then ret False else verify_and_report run (ga_facts g))"
  have plan: "quiet (andthen (setup_plan run env args dev fw g) (?steps g))" for g
    unfolding quiet_def
  proof
    fix h0
    obtain x h1 where x: "setup_plan run env args dev fw g h0 = (x, h1)" by fastforce
    show "same_state h0 (snd (andthen (setup_plan run env args dev fw g) (?steps g) h0))"
    proof (cases x)
      case (Inl e)
      then show ?thesis using x setup_plan_same [OF q x] by (simp add: andthen_def)
    next
      case (Inr steps)
      note p = setup_plan_quiet [OF q x [unfolded Inr]]
      have "quiet (and_do (run_steps args steps) (ret False))"
        using dry_steps [OF dry p(2)] by (intro quiet_intro) (simp add: quiet_def)
      then have "same_state h1 (snd (?steps g steps h1))" using dry by (simp add: quiet_def)
      with setup_plan_same [OF q x] have "same_state h0 (snd (?steps g steps h1))" by (rule same_state_trans)
      then show ?thesis using x Inr by (simp add: andthen_def)
    qed
  qed
  have "quiet (if k then gather_kept T args else gather_new run C T args src r interactive)" for k
    using quiet_gather_kept quiet_gather_new [OF q] by (cases k) simp_all
  then have "quiet (if b then bail m else andthen (if k then gather_kept T args else gather_new run C T args src r interactive)
      (\<lambda>g. andthen (setup_plan run env args dev fw g) (?steps g)))" for b k m
    by (rule quiet_if_const(1) [OF quiet_ret(2) quiet_andthen [OF _ plan]])
  then show ?thesis unfolding install_server_def Let_def quiet_def by blast
qed

lemma dry_setup_quiet:
  assumes q: "queries_quiet run" and dry: "sg_dry_run args"
  shows "quiet (setup_run run C T env args r)"
  unfolding setup_run_def
proof (rule quiet_and_do)
  show "quiet (check_args run args)"
    using dry unfolding check_args_def by (auto intro!: quiet_intro)
  have "quiet (\<lambda>h. case detect_firewall run h of (f, h') \<Rightarrow> (Some f, h'))"
    by (rule quiet_let [OF quiet_detect(2) [OF q] quiet_Pair(1)])
  then have detect: "quiet (\<lambda>h. if sg_no_firewall args then (None, h) else (case detect_firewall run h of (f, h') \<Rightarrow> (Some f, h')))"
    by (cases "sg_no_firewall args") (simp_all add: quiet_def)
  have fw: "quiet (\<lambda>h. case if sg_no_firewall args then (None, h) else (case detect_firewall run h of (f, h') \<Rightarrow> (Some f, h')) of
      (fw, h2) \<Rightarrow> install_server run C T env args r i dev src fw h2)" for i dev src
    by (rule quiet_let [OF detect dry_install_quiet [OF assms]])
  show "quiet (\<lambda>h. let ((egress_dev, egress_src), h1) = detect_egress run h;
           (fw, h2) = (if sg_no_firewall args then (None, h1) else (case detect_firewall run h1 of (f, h') \<Rightarrow> (Some f, h')))
       in install_server run C T env args r (ho_tty h \<and> \<not> sg_yes args) egress_dev egress_src fw h2)"
    unfolding quiet_def
  proof
    fix h0
    obtain dev src h1 where e: "detect_egress run h0 = ((dev, src), h1)" by (metis surj_pair)
    have "same_state h0 h1" using quietD [OF quiet_detect(1) [OF q] e] .
    moreover note fw [unfolded quiet_def, rule_format, of h1 "ho_tty h0 \<and> \<not> sg_yes args" dev src]
    ultimately show "same_state h0 (snd (let ((egress_dev, egress_src), h1) = detect_egress run h0;
           (fw, h2) = (if sg_no_firewall args then (None, h1) else (case detect_firewall run h1 of (f, h') \<Rightarrow> (Some f, h')))
       in install_server run C T env args r (ho_tty h0 \<and> \<not> sg_yes args) egress_dev egress_src fw h2))"
      unfolding e Let_def prod.case by (rule same_state_trans)
  qed
qed

text \<open>C35: A dry run changes nothing. Whatever the host, the arguments and the answers typed, if the programs that only ask
  change nothing, then \<open>setup --dry-run\<close> leaves every file and everything programs act on as it was, also when it
  ends with an error.\<close>

theorem dry_run_changes_nothing:
  assumes "queries_quiet run" and "sg_dry_run args" and "setup_run run C T env args r h = (res, h')"
  shows "ho_disk h' = ho_disk h \<and> ho_sys h' = ho_sys h"
  using quietD [OF dry_setup_quiet [OF assms(1,2)] assms(3)] by (simp add: same_state_def)

text \<open>A host that logs what programs change, as root, with or without firewalld.\<close>

definition log_runner :: "bool \<Rightarrow> command list host runner" where
  "log_runner fwd cmd inp h =
     (if is_query cmd
      then (if hd cmd = ''id'' then done_with ''0''
            else if hd cmd = ''ip'' then done_with ''1.1.1.1 via 198.51.100.1 dev eth0 src 198.51.100.7 uid 0''
            else if hd cmd = ''ufw'' \<or> hd cmd = ''firewall-cmd'' \<and> \<not> fwd then failed_with ''not running''
            else done_with [], h)
      else (done_with [], h\<lparr> ho_sys := ho_sys h @ [cmd] \<rparr>))"

lemma log_runner_quiet: "queries_quiet (log_runner fwd)"
  by (simp add: queries_quiet_def log_runner_def)

definition demo_args :: setup_args where
  "demo_args = \<lparr> sg_server_addr = Some \<lparr> sa_ip = V4 [203, 0, 113, 5], sa_port = 51820 \<rparr>,
     sg_bind = \<lparr> sa_ip = V4 [0, 0, 0, 0], sa_port = 51820 \<rparr>, sg_tun_net = ''10.99.0'', sg_mtu = 1200, sg_split_tunnel = False,
     sg_kill_switch = False, sg_profile = ''off'', sg_config_dir = DEFAULT_CONFIG_DIR, sg_client_out = ''/root'', sg_yes = True,
     sg_dry_run = False, sg_force = False, sg_no_firewall = False \<rparr>"

definition demo_env :: setup_env where
  "demo_env = \<lparr> se_exe = Inr ''/usr/bin/chameleon-pq'', se_pid = 7, se_clock = 9, se_unit_main = [], se_unit_nft = [] \<rparr>"

definition demo_box :: "disk \<Rightarrow> command list host" where
  "demo_box d = \<lparr> ho_disk = d, ho_faults = [], ho_input = [], ho_tty = False, ho_umask = 18, ho_fw_changed = False, ho_sys = [] \<rparr>"

theorem dry_run_changes_nothing_witness:
  "let h' = snd (setup_run (log_runner True) toy_crypto line_parser demo_env (demo_args\<lparr> sg_dry_run := True \<rparr>) (\<lambda>_. 3) (demo_box Map.empty))
   in ho_disk h' = Map.empty \<and> ho_sys h' = []"
proof -
  obtain res h' where run: "setup_run (log_runner True) toy_crypto line_parser demo_env (demo_args\<lparr> sg_dry_run := True \<rparr>) (\<lambda>_. 3)
      (demo_box Map.empty) = (res, h')" by fastforce
  have "sg_dry_run (demo_args\<lparr> sg_dry_run := True \<rparr>)" by simp
  from dry_run_changes_nothing [OF log_runner_quiet this run] show ?thesis
    unfolding Let_def run snd_conv by (simp add: demo_box_def)
qed

section \<open>Writing files\<close>

lemma file_name_dir: "CHR ''/'' \<notin> set s \<Longrightarrow> file_name (dir_part p @ s) = s"
proof -
  assume s: "CHR ''/'' \<notin> set s"
  let ?P = "\<lambda>c. c \<noteq> CHR ''/''" and ?d = "dropWhile (\<lambda>c. c \<noteq> CHR ''/'') (rev p)"
  have "takeWhile ?P ?d = []"
  proof (cases ?d)
    case (Cons c cs)
    then show ?thesis using dropWhile_eq_Cons_conv [of ?P "rev p" c cs] by auto
  qed (simp only: takeWhile.simps)
  moreover have "takeWhile ?P (rev s @ ?d) = rev s @ takeWhile ?P ?d"
    using s by (intro takeWhile_append2) auto
  ultimately show ?thesis by (simp add: file_name_def dir_part_def)
qed

lemma path_join_dir: "\<exists>p. path_join dir n = dir_part p @ n"
proof (cases "dir = []")
  case True
  then show ?thesis by (intro exI [of _ "[]"]) (simp add: path_join_def dir_part_def)
next
  case False
  then obtain xs c where d: "dir = xs @ [c]" by (metis rev_exhaust)
  then show ?thesis
    by (intro exI [of _ "path_join dir []"]) (auto simp: path_join_def dir_part_def)
qed

lemma file_name_join [simp]: "CHR ''/'' \<notin> set n \<Longrightarrow> file_name (path_join dir n) = n"
  using path_join_dir [of dir n] file_name_dir by metis

lemma file_name_extension:
  "CHR ''/'' \<notin> set n \<Longrightarrow> CHR ''/'' \<notin> set ext \<Longrightarrow> CHR ''/'' \<notin> set (file_stem n) \<Longrightarrow>
     file_name (with_extension (path_join dir n) ext) = file_stem n @ ''.'' @ ext"
  by (simp add: with_extension_def file_name_dir)

lemma show_nat_no_slash: "CHR ''/'' \<notin> set (show_nat n)"
  by (auto simp: dec_char_def dest: show_nat_dec)

text \<open>\<open>touches P m\<close>: \<open>m\<close> changes no file outside \<open>P\<close>.\<close>

definition touches :: "string set \<Rightarrow> ('k host \<Rightarrow> 'b \<times> 'k host) \<Rightarrow> bool" where
  "touches P m \<longleftrightarrow>
     (\<forall>h x h'. m h = (x, h') \<longrightarrow> (\<forall>p. p \<notin> P \<longrightarrow> ho_disk h' p = ho_disk h p) \<and> ho_sys h' = ho_sys h \<and> ho_umask h' = ho_umask h)"

named_theorems touch_intro \<open>computations that change few files\<close>

lemma touchesD:
  "touches P m \<Longrightarrow> m h = (x, h') \<Longrightarrow> (\<forall>p. p \<notin> P \<longrightarrow> ho_disk h' p = ho_disk h p) \<and> ho_sys h' = ho_sys h \<and> ho_umask h' = ho_umask h"
  by (simp add: touches_def)

lemma touches_quiet: "quiet m \<Longrightarrow> touches P m"
  by (auto simp: touches_def same_state_def dest!: quietD)

lemma touches_andthen [touch_intro]: "touches P m \<Longrightarrow> (\<And>x. touches P (f x)) \<Longrightarrow> touches P (andthen m f)"
  unfolding touches_def andthen_def by (force split: prod.splits sum.splits)

lemma touches_and_do [touch_intro]: "touches P m \<Longrightarrow> touches P n \<Longrightarrow> touches P (and_do m n)"
  by (simp add: and_do_def touches_andthen)

lemma touches_with_context [touch_intro]: "touches P m \<Longrightarrow> touches P (with_context msg m)"
  unfolding touches_def with_context_def by (auto split: prod.splits sum.splits)

lemma touches_attempt [touch_intro]: "touches P m \<Longrightarrow> touches P (attempt m)"
  unfolding touches_def attempt_def by (auto split: prod.splits sum.splits)

lemma touches_fs_op:
  "(\<And>d x d' p. f d = Inr (x, d') \<Longrightarrow> p \<notin> P \<Longrightarrow> d' p = d p) \<Longrightarrow> touches P (fs_op f)"
  by (auto simp: touches_def fs_op_def Let_def split: option.splits sum.splits list.splits)

lemma touches_open_new [touch_intro]: "touches {p} (open_new p m)"
  unfolding touches_def open_new_def using touches_fs_op
  by (auto simp: fs_op_def Let_def split: option.splits sum.splits list.splits if_splits)

lemma touches_write_all [touch_intro]: "touches {p} (write_all p c)"
  by (auto simp: touches_def write_all_def set_contents_def split: list.splits option.splits disk_node.splits)

lemma touches_node_ops [touch_intro]:
  "touches {p} (remove_file p)" "touches {p} sync_all" "touches {p} (chown_root p g)" "touches {p} (set_permissions p m)"
  "touches {p} (fs_copy a p)"
  unfolding remove_file_def sync_all_def chown_root_def set_permissions_def fs_copy_def
  by (auto intro!: touches_fs_op split: option.splits disk_node.splits if_splits)

lemma rename_touches: "touches {a, b} (fs_rename a b)"
  unfolding fs_rename_def by (auto intro!: touches_fs_op split: option.splits disk_node.splits if_splits)

lemma and_do_eq:
  "and_do m n h = (r, h') \<longleftrightarrow> (\<exists>e. m h = (Inl e, h') \<and> r = Inl e) \<or> (\<exists>x h1. m h = (Inr x, h1) \<and> n h1 = (r, h'))"
  by (auto simp: and_do_def andthen_def split: prod.splits sum.splits)

lemma and_do_assoc: "and_do (and_do k m) n = and_do k (and_do m n)"
  by (simp add: and_do_def andthen_assoc)

lemma with_context_Ok: "with_context msg m h = (Inr x, h') \<longleftrightarrow> m h = (Inr x, h')"
  by (auto simp: with_context_def split: prod.splits sum.splits)

definition prepare_file :: "'k host runner \<Rightarrow> string \<Rightarrow> string \<Rightarrow> u32 \<Rightarrow> bool \<Rightarrow> ('k, unit) act" where
  "prepare_file run tmp c mode grp =
     and_do (with_context (''cannot create '' @ tmp) (open_new tmp mode)) (and_do (write_all tmp c) (and_do sync_all
       (if grp then andthen (with_context ''service account missing'' (service_ids run)) (\<lambda>(uid, gid). chown_root tmp gid)
        else ret ())))"

lemma write_file_prepare:
  "with_extension p (''tmp-'' @ show_nat pid) = tmp \<Longrightarrow>
     write_file run pid p c mode grp h =
       and_do (prepare_file run tmp c mode grp) (fs_rename tmp p) (snd (attempt (remove_file tmp) h))"
  unfolding write_file_def Let_def prepare_file_def by (simp only: and_do_assoc)

lemma owner_touches: "queries_quiet run \<Longrightarrow> touches {p} (andthen (with_context msg (service_ids run)) (\<lambda>(uid, gid). chown_root p gid))"
  by (rule touches_andthen [OF touches_quiet [OF quiet_with_context [OF quiet_service_ids]]]) (auto intro: touch_intro split: prod.splits)

lemma prepare_touches: "queries_quiet run \<Longrightarrow> touches {tmp} (prepare_file run tmp c mode grp)"
  unfolding prepare_file_def
  by (cases grp) (simp_all add: owner_touches touches_quiet [OF quiet_ret(1)] touches_and_do touches_with_context
      touches_open_new touches_write_all touches_node_ops(2))

lemma prepare_contents:
  assumes q: "queries_quiet run" and run: "prepare_file run tmp c mode grp h = (Inr x, h')"
  shows "\<exists>g. ho_disk h' tmp = Some (Regular c (masked_mode mode (ho_umask h)) g) \<and> (\<not> grp \<longrightarrow> g = 0)"
proof -
  obtain h1 h2 h3 where o: "open_new tmp mode h = (Inr (), h1)" and w: "write_all tmp c h1 = (Inr (), h2)"
    and s: "sync_all h2 = (Inr (), h3)" and l: "(if grp then andthen (with_context ''service account missing'' (service_ids run))
        (\<lambda>(uid, gid). chown_root tmp gid) else ret ()) h3 = (Inr x, h')"
    using run by (auto simp: prepare_file_def and_do_eq with_context_Ok)
  have "ho_disk h1 tmp = Some (Regular [] (masked_mode mode (ho_umask h)) 0)"
    using open_new_Ok [OF o] by simp
  then have "ho_disk h2 tmp = Some (Regular c (masked_mode mode (ho_umask h)) 0)"
    using write_all_Ok [OF w] by (simp add: set_contents_def)
  moreover have "ho_disk h3 = ho_disk h2" by (rule sync_all_Ok [OF s])
  ultimately have 3: "ho_disk h3 tmp = Some (Regular c (masked_mode mode (ho_umask h)) 0)" by simp
  show ?thesis
  proof (cases grp)
    case False
    then show ?thesis using l 3 by (simp add: ret_def)
  next
    case True
    then obtain ids h4 where i: "with_context ''service account missing'' (service_ids run) h3 = (Inr ids, h4)"
      and ch: "chown_root tmp (snd ids) h4 = (Inr x, h')" using l by (auto simp: andthen_eq_Ok)
    have "ho_disk h4 = ho_disk h3"
      using quietD [OF quiet_with_context [OF quiet_service_ids [OF q]] i] by (simp add: same_state_def)
    then show ?thesis using chown_root_Ok [OF ch] 3 True by auto
  qed
qed

lemma write_file_effect:
  assumes q: "queries_quiet run" and run: "write_file run pid p c mode grp h = (r, h')"
    and tmp: "with_extension p (''tmp-'' @ show_nat pid) = tmp" "tmp \<noteq> p"
  shows "\<forall>x. x \<noteq> p \<longrightarrow> x \<noteq> tmp \<longrightarrow> ho_disk h' x = ho_disk h x" "ho_sys h' = ho_sys h" "ho_umask h' = ho_umask h"
    "case r of Inl e \<Rightarrow> ho_disk h' p = ho_disk h p
     | Inr _ \<Rightarrow> \<exists>g. ho_disk h' p = Some (Regular c (masked_mode mode (ho_umask h)) g) \<and> (\<not> grp \<longrightarrow> g = 0)"
proof -
  obtain y h1 where h1: "attempt (remove_file tmp) h = (y, h1)" by fastforce
  note t1 = touchesD [OF touches_attempt [OF touches_node_ops(1)] h1]
  obtain z h2 where h2: "prepare_file run tmp c mode grp h1 = (z, h2)" by fastforce
  note t2 = touchesD [OF prepare_touches [OF q] h2]
  have ren: "case z of Inl e \<Rightarrow> r = Inl e \<and> h' = h2 | Inr _ \<Rightarrow> fs_rename tmp p h2 = (r, h')"
    using run h1 h2 by (cases z) (auto simp: write_file_prepare [OF tmp(1)] and_do_eq)
  have "(\<forall>x. x \<noteq> p \<longrightarrow> x \<noteq> tmp \<longrightarrow> ho_disk h' x = ho_disk h x) \<and> ho_sys h' = ho_sys h \<and> ho_umask h' = ho_umask h \<and>
    (case r of Inl e \<Rightarrow> ho_disk h' p = ho_disk h p
     | Inr _ \<Rightarrow> \<exists>g. ho_disk h' p = Some (Regular c (masked_mode mode (ho_umask h)) g) \<and> (\<not> grp \<longrightarrow> g = 0))"
  proof (cases r)
    case (Inl e)
    then have "same_state h2 h'"
      using ren fs_op_Inl [of _ h2 e h'] by (auto simp: fs_rename_def split: sum.splits)
    then show ?thesis using Inl t1 t2 tmp(2) by (auto simp: same_state_def)
  next
    case (Inr u)
    then obtain v where z: "z = Inr v" and rn: "fs_rename tmp p h2 = (Inr u, h')" using ren by (cases z) auto
    obtain g where "ho_disk h2 tmp = Some (Regular c (masked_mode mode (ho_umask h1)) g)" "\<not> grp \<longrightarrow> g = 0"
      using prepare_contents [OF q h2 [unfolded z]] by auto
    then show ?thesis
      using fs_rename_Ok [OF rn] touchesD [OF rename_touches rn] Inr t1 t2 tmp(2) by auto
  qed
  then show "\<forall>x. x \<noteq> p \<longrightarrow> x \<noteq> tmp \<longrightarrow> ho_disk h' x = ho_disk h x" "ho_sys h' = ho_sys h" "ho_umask h' = ho_umask h"
    "case r of Inl e \<Rightarrow> ho_disk h' p = ho_disk h p
     | Inr _ \<Rightarrow> \<exists>g. ho_disk h' p = Some (Regular c (masked_mode mode (ho_umask h)) g) \<and> (\<not> grp \<longrightarrow> g = 0)"
    by auto
qed

section \<open>The identity step\<close>

lemma create_dir_cases:
  "create_dir um p (Inr d) = Inr d' \<Longrightarrow> d' = d \<or> (d p = None \<and> (\<exists>m g. d' = d(p \<mapsto> Directory m g)))"
  by (auto simp: create_dir_def split: option.splits disk_node.splits)

lemma create_dirs_effect:
  "fold (create_dir um) ps (Inr d) = Inr d' \<Longrightarrow> d' x = d x \<or> (d x = None \<and> (\<exists>m g. d' x = Some (Directory m g)))"
proof (induction ps arbitrary: d)
  case (Cons p ps)
  have stuck: "fold (create_dir um) ps (Inl e) = Inl e" for e
    by (induction ps) (simp_all add: create_dir_def)
  obtain d1 where d1: "create_dir um p (Inr d) = Inr d1" "fold (create_dir um) ps (Inr d1) = Inr d'"
    using Cons.prems stuck by (cases "create_dir um p (Inr d)") auto
  show ?case using Cons.IH [OF d1(2)] create_dir_cases [OF d1(1)] by (auto split: if_splits)
qed simp

text \<open>A path is as it was, or it was free and is a directory now.\<close>

definition kept :: "string \<Rightarrow> 'k host \<Rightarrow> 'k host \<Rightarrow> bool" where
  "kept p h h' \<longleftrightarrow> ho_disk h' p = ho_disk h p \<or> (ho_disk h p = None \<and> (\<exists>m g. ho_disk h' p = Some (Directory m g)))"

lemma create_dir_all_effect:
  "create_dir_all p h = (r, h') \<Longrightarrow> kept x h h' \<and> ho_sys h' = ho_sys h \<and> ho_umask h' = ho_umask h"
  by (auto simp: create_dir_all_def kept_def fs_op_def Let_def dest: create_dirs_effect [where ps = "ancestors p @ [p]", simplified]
      split: option.splits sum.splits list.splits if_splits)

lemma set_mode_owner_touches: "queries_quiet run \<Longrightarrow> touches {p} (set_mode_owner run p m)"
  unfolding set_mode_owner_def
  by (rule touches_andthen [OF touches_quiet [OF quiet_with_context [OF quiet_service_ids]]]) (auto intro: touch_intro split: prod.splits)

lemma set_mode_owner_Ok:
  assumes q: "queries_quiet run" and run: "set_mode_owner run p m h = (Inr x, h')" and f: "ho_disk h p = Some (Regular c m' g)"
  shows "\<exists>g'. ho_disk h' p = Some (Regular c m g')"
proof -
  obtain ids h1 h2 where i: "with_context ''service account missing'' (service_ids run) h = (Inr ids, h1)"
    and c: "chown_root p (snd ids) h1 = (Inr (), h2)" and s: "set_permissions p m h2 = (Inr x, h')"
    using run by (auto simp: set_mode_owner_def andthen_eq_Ok and_do_def)
  have "ho_disk h1 p = Some (Regular c m' g)"
    using quietD [OF quiet_with_context [OF quiet_service_ids [OF q]] i] f by (simp add: same_state_def)
  then show ?thesis using chown_root_Ok [OF c] set_permissions_Ok [OF s] by auto
qed

lemma setup_file_names:
  "file_name (server_cfg_path args) = ''server-config.toml''"
  "file_name (client_cfg_path args) = ''chameleon-pq-client.toml''"
  "file_name (with_extension (server_cfg_path args) (''tmp-'' @ show_nat n)) = ''server-config.tmp-'' @ show_nat n"
  "file_name (with_extension (client_cfg_path args) (''tmp-'' @ show_nat n)) = ''chameleon-pq-client.tmp-'' @ show_nat n"
  "file_name (with_extension (server_cfg_path args) (''toml.bak-'' @ show_nat n)) = ''server-config.toml.bak-'' @ show_nat n"
  using show_nat_no_slash
  by (simp_all add: server_cfg_path_def client_cfg_path_def file_name_extension file_stem_def)

lemma setup_paths_differ:
  assumes "sp = server_cfg_path args" "cp = client_cfg_path args"
    "ts = with_extension sp (''tmp-'' @ show_nat pid)" "tc = with_extension cp (''tmp-'' @ show_nat pid)"
    "bak = with_extension sp (''toml.bak-'' @ show_nat t)"
  shows "ts \<noteq> sp" "tc \<noteq> cp" "sp \<noteq> cp" "sp \<noteq> tc" "cp \<noteq> ts" "bak \<noteq> sp" "bak \<noteq> cp" "bak \<noteq> ts"
proof -
  have names: "file_name sp = ''server-config.toml''" "file_name cp = ''chameleon-pq-client.toml''"
    "file_name ts = ''server-config.tmp-'' @ show_nat pid" "file_name tc = ''chameleon-pq-client.tmp-'' @ show_nat pid"
    "file_name bak = ''server-config.toml.bak-'' @ show_nat t"
    by (simp_all only: assms setup_file_names)
  have differ: "file_name x \<noteq> file_name y \<Longrightarrow> x \<noteq> y" for x y by blast
  show "ts \<noteq> sp" "tc \<noteq> cp" "sp \<noteq> cp" "sp \<noteq> tc" "cp \<noteq> ts" "bak \<noteq> sp" "bak \<noteq> cp" "bak \<noteq> ts"
    by (rule differ; simp add: names)+
qed

definition backup_server :: "'k host runner \<Rightarrow> string \<Rightarrow> string \<Rightarrow> ('k, unit) act" where
  "backup_server run sp bak h = (if path_exists sp h then and_do (fs_copy sp bak) (set_mode_owner run bak 416) h else ret () h)"

lemma backup_touches: "queries_quiet run \<Longrightarrow> touches {bak} (backup_server run sp bak)"
  using touches_and_do [OF touches_node_ops(5) set_mode_owner_touches, of run bak sp 416]
  by (auto simp: touches_def backup_server_def ret_def split: if_splits)

lemma backup_Ok:
  assumes q: "queries_quiet run" and run: "backup_server run sp bak h = (Inr x, h')" and f: "ho_disk h sp = Some (Regular c m g)"
  shows "\<exists>g'. ho_disk h' bak = Some (Regular c 416 g')"
proof -
  obtain y h1 where 1: "fs_copy sp bak h = (Inr y, h1)" and 2: "set_mode_owner run bak 416 h1 = (Inr x, h')"
    using run f by (auto simp: backup_server_def path_exists_def and_do_eq)
  obtain m' g' where "ho_disk h1 bak = Some (Regular c m' g')" using fs_copy_Ok [OF 1] f by auto
  then show ?thesis by (rule set_mode_owner_Ok [OF q 2])
qed

lemma identity_apply:
  "sp_apply (step_identity run env sp srv cp cli force) h =
     (if path_exists cp h \<and> \<not> force then bail (cp @ '' already exists '' @ DASH @ '' pass --force to overwrite'') h
      else and_do (if path_parent cp = [] then ret () else with_context (''cannot create '' @ path_parent cp) (create_dir_all (path_parent cp)))
        (and_do (write_file run (se_pid env) cp cli 384 False) (and_do (backup_server run sp
           (with_extension sp (''toml.bak-'' @ show_nat (unix_ts (se_clock env)))))
           (write_file run (se_pid env) sp srv 416 True))) h)"
proof -
  have b: "(\<lambda>h. if path_exists sp h then (let bak = with_extension sp (''toml.bak-'' @ show_nat (unix_ts (se_clock env)))
             in and_do (fs_copy sp bak) (set_mode_owner run bak 416)) h else ret () h) =
           backup_server run sp (with_extension sp (''toml.bak-'' @ show_nat (unix_ts (se_clock env))))"
    by (simp add: fun_eq_iff backup_server_def Let_def)
  show ?thesis by (simp only: step_identity_def step.select_convs b)
qed

lemma identity_chain:
  assumes "sp_apply (step_identity run env sp srv cp cli force) h = (r, h')"
  obtains e where "r = Inl e" "h' = h"
  | e where "r = Inl e" "kept sp h h'" "ho_umask h' = ho_umask h"
  | h1 where "kept sp h h1" "ho_umask h1 = ho_umask h"
      "and_do (write_file run (se_pid env) cp cli 384 False) (and_do (backup_server run sp
         (with_extension sp (''toml.bak-'' @ show_nat (unix_ts (se_clock env)))))
         (write_file run (se_pid env) sp srv 416 True)) h1 = (r, h')"
proof -
  let ?dirs = "if path_parent cp = [] then ret () else with_context (''cannot create '' @ path_parent cp) (create_dir_all (path_parent cp))"
  let ?rest = "and_do (write_file run (se_pid env) cp cli 384 False) (and_do (backup_server run sp
         (with_extension sp (''toml.bak-'' @ show_nat (unix_ts (se_clock env)))))
         (write_file run (se_pid env) sp srv 416 True))"
  note apply_eq = identity_apply [of run env sp srv cp cli force h]
  show thesis
  proof (cases "path_exists cp h \<and> \<not> force")
    case True
    then show thesis using assms that(1) unfolding apply_eq by (auto simp: bail_def)
  next
    case False
    have chain: "and_do ?dirs ?rest h = (r, h')"
      using assms unfolding apply_eq if_not_P [OF False] .
    obtain x h1 where x: "?dirs h = (x, h1)" by fastforce
    have k: "kept sp h h1 \<and> ho_umask h1 = ho_umask h"
      using x create_dir_all_effect [of "path_parent cp" h _ h1 sp]
      by (cases "path_parent cp = []") (auto simp: ret_def kept_def with_context_def split: prod.splits sum.splits)
    show thesis
    proof (cases x)
      case (Inl e)
      then show thesis using chain x k that(2) by (auto simp: and_do_eq)
    next
      case (Inr u)
      then have "?rest h1 = (r, h')" using chain x by (auto simp: and_do_eq)
      then show thesis using k that(3) by blast
    qed
  qed
qed

text \<open>C34: A new identity, all or nothing on the server's side. However the step that writes the server configuration and its
  client ends, and wherever a call on the file system or a program fails, an error leaves the existing server
  configuration exactly as it was, contents, mode and group, and on a fresh host leaves no server configuration
  behind; success leaves both new files complete, the server's readable to its group, the client's to root alone, with the
  old server configuration backed up.\<close>

theorem identity_step_all_or_nothing:
  assumes q: "queries_quiet run"
    and run: "sp_apply (step_identity run env (server_cfg_path args) srv (client_cfg_path args) cli force) h = (r, h')"
  shows "case r of
      Inl e \<Rightarrow> kept (server_cfg_path args) h h'
    | Inr _ \<Rightarrow>
        (\<exists>g. ho_disk h' (server_cfg_path args) = Some (Regular srv (masked_mode 416 (ho_umask h)) g)) \<and>
        ho_disk h' (client_cfg_path args) = Some (Regular cli (masked_mode 384 (ho_umask h)) 0) \<and>
        (\<forall>c m g. ho_disk h (server_cfg_path args) = Some (Regular c m g) \<longrightarrow>
          (\<exists>g'. ho_disk h' (with_extension (server_cfg_path args) (''toml.bak-'' @ show_nat (unix_ts (se_clock env)))) =
             Some (Regular c 416 g')))"
proof -
  let ?sp = "server_cfg_path args" and ?cp = "client_cfg_path args"
  define ts where "ts = with_extension ?sp (''tmp-'' @ show_nat (se_pid env))"
  define tc where "tc = with_extension ?cp (''tmp-'' @ show_nat (se_pid env))"
  define bak where "bak = with_extension ?sp (''toml.bak-'' @ show_nat (unix_ts (se_clock env)))"
  note differ = setup_paths_differ [OF refl refl ts_def tc_def bak_def]
  show ?thesis
    using run
  proof (cases rule: identity_chain)
    case (1 e)
    then show ?thesis by (simp add: kept_def)
  next
    case (2 e)
    then show ?thesis by simp
  next
    case (3 h1)
    note chain = 3(3) [folded bak_def]
    obtain x h2 where w1: "write_file run (se_pid env) ?cp cli 384 False h1 = (x, h2)" by fastforce
    note e1 = write_file_effect [OF q w1 tc_def [symmetric] differ(2)]
    have k2: "kept ?sp h h2" using 3(1) e1(1) differ(3,4) by (simp add: kept_def)
    show ?thesis
    proof (cases x)
      case (Inl e)
      then show ?thesis using chain w1 k2 by (auto simp: and_do_eq)
    next
      case x: (Inr u)
      obtain y h3 where b: "backup_server run ?sp bak h2 = (y, h3)" by fastforce
      note e2 = touchesD [OF backup_touches [OF q] b]
      have k3: "kept ?sp h h3" using k2 e2 differ(6) by (auto simp: kept_def)
      show ?thesis
      proof (cases y)
        case (Inl e)
        then show ?thesis using chain w1 x b k3 by (auto simp: and_do_eq)
      next
        case y: (Inr v)
        then have w2: "write_file run (se_pid env) ?sp srv 416 True h3 = (r, h')"
          using chain w1 x b by (auto simp: and_do_eq)
        note e3 = write_file_effect [OF q w2 ts_def [symmetric] differ(1)]
        show ?thesis
        proof (cases r)
          case (Inl e)
          then show ?thesis using e3(4) k3 by (simp add: kept_def)
        next
          case (Inr w)
          have um: "ho_umask h3 = ho_umask h" "ho_umask h1 = ho_umask h" using e2 e1(3) 3(2) by simp_all
          have "\<exists>g. ho_disk h' ?sp = Some (Regular srv (masked_mode 416 (ho_umask h)) g)"
            using e3(4) Inr um by auto
          moreover have "ho_disk h' ?cp = Some (Regular cli (masked_mode 384 (ho_umask h)) 0)"
            using e1(4) x um e2 e3(1) differ(3,5,7) by auto
          moreover have "\<exists>g'. ho_disk h' bak = Some (Regular c 416 g')" if c: "ho_disk h ?sp = Some (Regular c m g)" for c m g
          proof -
            have "ho_disk h2 ?sp = Some (Regular c m g)" using k2 c by (auto simp: kept_def)
            then show ?thesis using backup_Ok [OF q b [unfolded y]] e3(1) differ(6,8) by auto
          qed
          ultimately show ?thesis using Inr by (auto simp: bak_def)
        qed
      qed
    qed
  qed
qed

text \<open>The parser of a \<open>u32\<close>, with the bound compared as an integer, for evaluation.\<close>

definition parse_u32 :: "string \<Rightarrow> nat option" where
  "parse_u32 s =
     (let ds = (case s of [] \<Rightarrow> [] | c # rest \<Rightarrow> if c = CHR ''+'' then rest else s)
      in if ds = [] then None
         else case digits_val 10 0 ds of Some n \<Rightarrow> if int n < 4294967296 then Some n else None | None \<Rightarrow> None)"

lemma parse_u32 [code_unfold]: "parse_uint (2 ^ 32) s = parse_u32 s"
  by (auto simp: parse_uint_def parse_u32_def Let_def split: option.splits)

section \<open>Writing succeeds on a disk that works\<close>

definition regular_or_free :: "string \<Rightarrow> disk \<Rightarrow> bool" where
  "regular_or_free p d \<longleftrightarrow> (case d p of Some (Directory m g) \<Rightarrow> False | _ \<Rightarrow> True)"

lemma dir_part_dir: "CHR ''/'' \<notin> set s \<Longrightarrow> dir_part (dir_part p @ s) = dir_part p"
proof -
  assume s: "CHR ''/'' \<notin> set s"
  have "dropWhile (\<lambda>c. c \<noteq> CHR ''/'') (rev s @ xs) = dropWhile (\<lambda>c. c \<noteq> CHR ''/'') xs" for xs
    using s by (intro dropWhile_append2) auto
  then show ?thesis by (simp add: dir_part_def)
qed

lemma file_stem_no_slash: "CHR ''/'' \<notin> set n \<Longrightarrow> CHR ''/'' \<notin> set (file_stem n)"
  by (auto simp: file_stem_def Let_def dest!: list.set_sel(2) [rotated] set_dropWhileD)

lemma file_name_no_slash: "CHR ''/'' \<notin> set (file_name p)"
  by (auto simp: file_name_def dest: set_takeWhileD)

lemma parent_extension:
  assumes "CHR ''/'' \<notin> set ext"
  shows "path_parent (with_extension p ext) = path_parent p"
  using assms file_stem_no_slash [OF file_name_no_slash, of p]
  by (simp add: path_parent_def with_extension_def dir_part_dir)

lemma write_file_works:
  assumes calm: "ho_faults h = []" and dir: "parent_ok p (ho_disk h)" and free: "regular_or_free p (ho_disk h)"
    and tmp: "with_extension p (''tmp-'' @ show_nat pid) = tmp" "regular_or_free tmp (ho_disk h)" "tmp \<noteq> p"
    and ids: "grp \<Longrightarrow> (\<And>k. service_ids run k = (Inr (uid, gid), k))"
  shows "write_file run pid p c mode grp h =
    (Inr (), h\<lparr> ho_disk := (ho_disk h)(tmp := None, p \<mapsto> Regular c (masked_mode mode (ho_umask h)) (if grp then gid else 0)) \<rparr>)"
proof -
  let ?d = "(ho_disk h)(tmp := None)"
  have parent: "path_parent tmp = path_parent p"
    using tmp(1) parent_extension [of "''tmp-'' @ show_nat pid" p] show_nat_no_slash by auto
  have 1: "snd (attempt (remove_file tmp) h) = h\<lparr> ho_disk := ?d \<rparr>"
    using calm tmp(2)
    by (auto simp: attempt_def remove_file_def fs_op_def regular_or_free_def fun_upd_idem split: option.splits disk_node.splits)
  have ok: "parent_ok tmp ?d"
    using dir tmp(2) by (auto simp: parent_ok_def parent regular_or_free_def split: option.splits disk_node.splits)
  have o: "open_new tmp mode (h\<lparr> ho_disk := ?d \<rparr>) = (Inr (), h\<lparr> ho_disk := ?d(tmp \<mapsto> Regular [] (masked_mode mode (ho_umask h)) 0) \<rparr>)"
    using calm ok by (simp add: open_new_def fs_op_def)
  have ren: "fs_rename tmp p (h\<lparr> ho_faults := [], ho_disk := (ho_disk h)(tmp \<mapsto> x) \<rparr>) =
      (Inr (), h\<lparr> ho_disk := (ho_disk h)(tmp := None, p \<mapsto> x) \<rparr>)" for x
    using calm free tmp(3)
    by (cases h) (auto simp: fs_rename_def fs_op_def regular_or_free_def split: option.splits disk_node.splits)
  have ch: "chown_root tmp gid (h\<lparr> ho_faults := [], ho_disk := (ho_disk h)(tmp \<mapsto> Regular c m 0) \<rparr>) =
      (Inr (), h\<lparr> ho_faults := [], ho_disk := (ho_disk h)(tmp \<mapsto> Regular c m gid) \<rparr>)" for m
    by (simp add: chown_root_def fs_op_def)
  show ?thesis
    using calm ids
    by (cases grp) (simp_all add: write_file_prepare [OF tmp(1)] 1 prepare_file_def and_do_def andthen_def with_context_def o ren ch
        write_all_def sync_all_def set_contents_def fs_op_def [of "\<lambda>d. Inr ((), d)"] ret_def)
qed

lemma log_ids [simp]: "service_ids (log_runner fwd) k = (Inr (0, 0), k)"
proof -
  have "parse_uint 4294967296 (trim ''0'') = Some 0"
    by (simp add: trim_def is_space_def parse_uint_def digit_val_def)
  then show ?thesis
    by (simp add: service_ids_def capture_def log_runner_def is_query_def andthen_def parse_id_def ret_def done_with_def)
qed

text \<open>Over an existing server configuration, on a disk that works and on one that is full when the client's file is written.\<close>

definition demo_installed :: disk where
  "demo_installed = [''/etc/chameleon-pq'' \<mapsto> Directory 488 0, ''/root'' \<mapsto> Directory 448 0,
     ''/etc/chameleon-pq/server-config.toml'' \<mapsto> Regular ''old'' 416 0]"

abbreviation demo_identity :: "(string \<times> nat) option list \<Rightarrow> unit anyhow \<times> command list host" where
  "demo_identity faults \<equiv> sp_apply (step_identity (log_runner False) demo_env (server_cfg_path demo_args) ''srv'' (client_cfg_path demo_args) ''cli'' True)
     ((demo_box demo_installed)\<lparr> ho_faults := faults \<rparr>)"

lemma demo_cfg_paths:
  "server_cfg_path demo_args = ''/etc/chameleon-pq/server-config.toml''" "client_cfg_path demo_args = ''/root/chameleon-pq-client.toml''"
  by (simp_all add: server_cfg_path_def client_cfg_path_def path_join_def demo_args_def DEFAULT_CONFIG_DIR_def)

lemma demo_names:
  "path_parent ''/root/chameleon-pq-client.toml'' = ''/root''" "ancestors ''/root'' = []"
  "with_extension ''/root/chameleon-pq-client.toml'' (''tmp-'' @ show_nat 7) = ''/root/chameleon-pq-client.tmp-7''"
  "with_extension ''/etc/chameleon-pq/server-config.toml'' (''tmp-'' @ show_nat 7) = ''/etc/chameleon-pq/server-config.tmp-7''"
  "with_extension ''/etc/chameleon-pq/server-config.toml'' (''toml.bak-'' @ show_nat 9) = ''/etc/chameleon-pq/server-config.toml.bak-9''"
  "path_parent ''/etc/chameleon-pq/server-config.toml'' = ''/etc/chameleon-pq''"
  "path_parent ''/etc/chameleon-pq/server-config.toml.bak-9'' = ''/etc/chameleon-pq''"
  by code_simp+

lemma demo_identity_works: "fst (demo_identity []) = Inr ()"
proof -
  let ?sp = "''/etc/chameleon-pq/server-config.toml''" and ?cp = "''/root/chameleon-pq-client.toml''"
  let ?run = "log_runner False" and ?bak = "''/etc/chameleon-pq/server-config.toml.bak-9''"
  have box: "(demo_box d)\<lparr> ho_faults := [] \<rparr> = demo_box d" "(demo_box d)\<lparr> ho_disk := e \<rparr> = demo_box e"
    "ho_disk (demo_box d) = d" "ho_faults (demo_box d) = []" for d e by (simp_all add: demo_box_def)
  have dirs: "create_dir_all ''/root'' (demo_box demo_installed) = (Inr (), demo_box demo_installed)"
    by (simp add: create_dir_all_def demo_names fs_op_def create_dir_def demo_installed_def) (simp add: demo_box_def)
  define d1 where "d1 = demo_installed(''/root/chameleon-pq-client.tmp-7'' := None, ?cp \<mapsto> Regular ''cli'' (masked_mode 384 18) 0)"
  have w1: "write_file ?run 7 ?cp ''cli'' 384 False (demo_box demo_installed) = (Inr (), demo_box d1)"
    by (subst write_file_works [OF _ _ _ demo_names(3)])
      (simp_all add: box d1_def parent_ok_def demo_names regular_or_free_def, simp_all add: demo_installed_def demo_box_def)
  obtain d2 where b: "backup_server ?run ?sp ?bak (demo_box d1) = (Inr (), demo_box d2)" and "d2 ''/etc/chameleon-pq'' = Some (Directory 488 0)"
    "d2 ?sp = Some (Regular ''old'' 416 0)" "d2 ''/etc/chameleon-pq/server-config.tmp-7'' = None"
    by (simp add: backup_server_def path_exists_def box d1_def demo_installed_def and_do_def andthen_def fs_copy_def fs_op_def
        set_mode_owner_def with_context_def chown_root_def set_permissions_def parent_ok_def demo_names)
  then have w2: "fst (write_file ?run 7 ?sp ''srv'' 416 True (demo_box d2)) = Inr ()"
    by (subst write_file_works [OF _ _ _ demo_names(4)]) (simp_all add: box parent_ok_def demo_names regular_or_free_def)
  show ?thesis
    unfolding identity_apply demo_cfg_paths
    by (simp add: demo_env_def demo_names demo_names(5) [simplified] unix_ts_def box and_do_def andthen_def with_context_def dirs w1 b w2)
qed

theorem identity_step_all_or_nothing_witness:
  "(let (r, h') = demo_identity [] in r = Inr () \<and>
      (\<exists>g. ho_disk h' (server_cfg_path demo_args) = Some (Regular ''srv'' (masked_mode 416 18) g))) \<and>
   (let (r, h') = demo_identity [Some (''No space left'', 1)] in (\<exists>e. r = Inl e) \<and>
      ho_disk h' (server_cfg_path demo_args) = Some (Regular ''old'' 416 0))"
proof (intro conjI)
  have um: "ho_umask ((demo_box demo_installed)\<lparr> ho_faults := fs \<rparr>) = 18" for fs by (simp add: demo_box_def)
  obtain r h' where run: "demo_identity [] = (r, h')" by fastforce
  with demo_identity_works have "r = Inr ()" by simp
  with identity_step_all_or_nothing [OF log_runner_quiet run] run
  show "let (r, h') = demo_identity [] in r = Inr () \<and>
      (\<exists>g. ho_disk h' (server_cfg_path demo_args) = Some (Regular ''srv'' (masked_mode 416 18) g))"
    by (auto simp: um)
next
  let ?fs = "[Some (''No space left'', 1)]"
  obtain r h' where run: "demo_identity ?fs = (r, h')" by fastforce
  have "isl (fst (demo_identity ?fs))"
    unfolding identity_apply demo_cfg_paths
    by (simp add: demo_names and_do_def andthen_def with_context_def create_dir_all_def fs_op_def)
  with run obtain e where e: "r = Inl e" by (cases r) auto
  have "ho_disk ((demo_box demo_installed)\<lparr> ho_faults := ?fs \<rparr>) (server_cfg_path demo_args) = Some (Regular ''old'' 416 0)"
    by (simp add: demo_box_def demo_installed_def demo_cfg_paths)
  with identity_step_all_or_nothing [OF log_runner_quiet run] e run
  show "let (r, h') = demo_identity ?fs in (\<exists>e. r = Inl e) \<and>
      ho_disk h' (server_cfg_path demo_args) = Some (Regular ''old'' 416 0)"
    by (auto simp: kept_def)
qed

section \<open>What a second run leaves out\<close>

text \<open>The end state of a step holds, whatever is asked meanwhile; \<open>answers_yes\<close>: a query depends only on what programs act on.\<close>

definition in_place :: "'k step \<Rightarrow> 'k host \<Rightarrow> bool" where
  "in_place s h \<longleftrightarrow> (\<forall>h'. same_state h h' \<longrightarrow> fst (sp_done s h'))"

definition answers_yes :: "'k host runner \<Rightarrow> command \<Rightarrow> 'k host \<Rightarrow> bool" where
  "answers_yes run cmd h \<longleftrightarrow> (\<forall>h'. ho_sys h' = ho_sys h \<longrightarrow> ran_ok (fst (run cmd [] h')))"

lemma run_step_done: "fst (sp_done s h) \<Longrightarrow> run_steps args (s # ss) h = run_steps args ss (snd (sp_done s h))"
  by (cases "sp_done s h") (auto simp: Let_def)

lemma and_also_True: "fst (p h) \<Longrightarrow> fst (and_also p q h) = fst (q (snd (p h)))"
  by (cases "p h") (auto simp: and_also_def)

lemma run_steps_in_place:
  "\<forall>s\<in>set pre. quiet (sp_done s) \<and> in_place s h \<Longrightarrow> \<exists>h'. same_state h h' \<and> run_steps args (pre @ ss) h = run_steps args ss h'"
proof (induction pre arbitrary: h)
  case (Cons s pre)
  have d: "fst (sp_done s h)" "same_state h (snd (sp_done s h))"
    using Cons.prems by (auto simp: in_place_def quiet_def)
  have "\<forall>t\<in>set pre. quiet (sp_done t) \<and> in_place t (snd (sp_done s h))"
    using Cons.prems d(2) by (auto simp: in_place_def intro: same_state_trans)
  from Cons.IH [OF this] obtain h' where "same_state (snd (sp_done s h)) h'"
    "run_steps args (pre @ ss) (snd (sp_done s h)) = run_steps args ss h'" by blast
  moreover have "run_steps args ((s # pre) @ ss) h = run_steps args (pre @ ss) (snd (sp_done s h))"
    using run_step_done [OF d(1), of args "pre @ ss"] by simp
  ultimately show ?case using d(2) same_state_trans by metis
next
  case Nil
  show ?case by (rule exI [of _ h]) simp
qed

lemma succeeds_yes:
  assumes "queries_quiet run" "is_query cmd" "answers_yes run cmd h" "ho_sys h' = ho_sys h"
  shows "fst (succeeds run cmd h')" "same_state h' (snd (succeeds run cmd h'))"
  using assms quiet_query(2) [OF assms(1,2)]
  by (simp_all add: answers_yes_def succeeds_def run_succeeds_ok quiet_def)

definition UNIT_QUERIES :: "command list" where
  "UNIT_QUERIES = [[''systemctl'', ''is-active'', ''--quiet'', MAIN_UNIT], [''systemctl'', ''is-enabled'', ''--quiet'', MAIN_UNIT],
     [''systemctl'', ''is-active'', ''--quiet'', NFT_UNIT]]"

lemma services_done:
  assumes q: "queries_quiet run" and up: "\<forall>cmd\<in>set UNIT_QUERIES. answers_yes run cmd h" and sys: "ho_sys h' = ho_sys h"
  shows "run_steps args [step_services run False] h' = (Inr (), snd (sp_done (step_services run False) h'))"
    "same_state h' (snd (sp_done (step_services run False) h'))"
proof -
  show s: "same_state h' (snd (sp_done (step_services run False) h'))"
    using quiet_done(6) [OF q] by (simp add: quiet_def)
  let ?q = "\<lambda>i. succeeds run (UNIT_QUERIES ! i)"
  have query: "is_query (UNIT_QUERIES ! i)" "answers_yes run (UNIT_QUERIES ! i) h" if "i < 3" for i
    using that up by (auto simp: UNIT_QUERIES_def is_query_def less_Suc_eq numeral_3_eq_3)
  have "fst (?q i k)" "ho_sys (snd (?q i k)) = ho_sys h" if "i < 3" "ho_sys k = ho_sys h" for i k
    using succeeds_yes [OF q query(1) [OF that(1)] query(2) [OF that(1)] that(2)] that(2) by (auto simp: same_state_def)
  note yes = this
  have "sp_done (step_services run False) = and_also (Pair True) (and_also (?q 0) (and_also (?q 1) (?q 2)))"
    by (simp add: step_services_def UNIT_QUERIES_def)
  then have "fst (sp_done (step_services run False) h')"
    using sys by (simp add: and_also_True yes)
  then show "run_steps args [step_services run False] h' = (Inr (), snd (sp_done (step_services run False) h'))"
    by (subst run_step_done) simp_all
qed

lemma nft_step_writes:
  assumes calm: "ho_faults h = []" and yes: "sg_yes args" "\<not> sg_dry_run args"
    and disk: "parent_ok p (ho_disk h)" "regular_or_free p (ho_disk h)" "regular_or_free tmp (ho_disk h)" "tmp \<noteq> p"
      "\<nexists>m g. ho_disk h p = Some (Regular body m g)"
    and names: "p = nft_path dir" "with_extension p (''tmp-'' @ show_nat (se_pid env)) = tmp" "body = render_nft (sf_tun_cidr facts) wn"
  shows "run_steps args (step_nft_file run env dir facts wn # ss) h =
    run_steps args ss (h\<lparr> ho_disk := (ho_disk h)(tmp := None, p \<mapsto> Regular body (masked_mode 420 (ho_umask h)) 0) \<rparr>)"
proof -
  have h: "h\<lparr> ho_faults := [] \<rparr> = h" using calm by simp
  have d: "sp_done (step_nft_file run env dir facts wn) h = (False, h)"
    using calm disk(5) h
    by (auto simp: step_nft_file_def Let_def names(1,3) [symmetric] file_is_def holds_def andthen_def read_to_string_def fs_op_def
        ret_def split: option.splits disk_node.splits)
  have w: "sp_apply (step_nft_file run env dir facts wn) h =
      (Inr (), h\<lparr> ho_disk := (ho_disk h)(tmp := None, p \<mapsto> Regular body (masked_mode 420 (ho_umask h)) 0) \<rparr>)"
    using write_file_works [OF calm disk(1,2) names(2) disk(3,4), where grp = False]
    by (simp add: step_nft_file_def Let_def names(1,3) [symmetric])
  show ?thesis
    using yes by (simp add: d ret_def andthen_def and_do_def with_context_def w)
qed

text \<open>C36: a second run may change the firewall rules without loading them. Suppose a run with \<open>--yes\<close>, not a dry run,
  over a kept server configuration, with nftables as the firewall, on a packaged host where the service is active and
  enabled and the unit that loads the rules is active, the account, the directory and IP forwarding are in place and no
  file operation fails; and suppose the rules are to be others than those in the file (the first run was told
  \<open>--no-firewall\<close>, or the network changed). Then it writes the new rules file, reports every step done, and changes
  nothing else: no program that loads the rules is run. Were one of the services not running, the last step would
  restart them, and load the rules with that.\<close>

theorem kept_config_rules_not_loaded:
  assumes q: "queries_quiet run" and calm: "ho_faults h = []" and yes: "sg_yes args" "\<not> sg_dry_run args"
    and kept: "ga_pair g = None" and packaged: "units_packaged h"
    and up: "\<forall>cmd\<in>set UNIT_QUERIES. answers_yes run cmd h"
    and pre: "\<forall>s\<in>set [step_user run, step_config_dir run (sg_config_dir args), step_sysctl run env]. in_place s h"
    and p: "p = nft_path (sg_config_dir args)" "tmp = with_extension p (''tmp-'' @ show_nat (se_pid env))" "tmp \<noteq> p"
    and disk: "parent_ok p (ho_disk h)" "regular_or_free p (ho_disk h)" "regular_or_free tmp (ho_disk h)"
    and rules: "body = render_nft (sf_tun_cidr (ga_facts g)) True" "\<nexists>m g. ho_disk h p = Some (Regular body m g)"
  shows "\<exists>h'. andthen (setup_plan run env args dev (Some Nft) g) (run_steps args) h = (Inr (), h') \<and>
           ho_disk h' = (ho_disk h)(tmp := None, p \<mapsto> Regular body (masked_mode 420 (ho_umask h)) 0) \<and> ho_sys h' = ho_sys h"
proof -
  let ?pre = "[step_user run, step_config_dir run (sg_config_dir args), step_sysctl run env]"
  let ?nft = "step_nft_file run env (sg_config_dir args) (ga_facts g) True"
  have plan: "setup_plan run env args dev (Some Nft) g h = (Inr (?pre @ [?nft, step_services run False]), h)"
    using kept packaged by (simp add: setup_plan_def steps_firewall_def)
  obtain h1 where h1: "same_state h h1" "run_steps args (?pre @ [?nft, step_services run False]) h = run_steps args [?nft, step_services run False] h1"
    using run_steps_in_place [of ?pre h args "[?nft, step_services run False]"] pre quiet_done [OF q] by auto
  let ?h2 = "h1\<lparr> ho_disk := (ho_disk h1)(tmp := None, p \<mapsto> Regular body (masked_mode 420 (ho_umask h1)) 0) \<rparr>"
  have s1: "ho_disk h1 = ho_disk h" "ho_sys h1 = ho_sys h" "ho_umask h1 = ho_umask h" "ho_faults h1 = []"
    using h1(1) calm by (simp_all add: same_state_def)
  have nft: "run_steps args [?nft, step_services run False] h1 = run_steps args [step_services run False] ?h2"
    using disk rules(2) p(3) by (intro nft_step_writes [OF s1(4) yes _ _ _ _ _ p(1) p(2) [symmetric] rules(1)]) (simp_all add: s1)
  have sys2: "ho_sys ?h2 = ho_sys h" by (simp add: s1)
  note last = services_done [OF q up sys2]
  have "andthen (setup_plan run env args dev (Some Nft) g) (run_steps args) h = (Inr (), snd (sp_done (step_services run False) ?h2))"
    by (simp only: andthen_def plan prod.case sum.case h1(2) nft last(1))
  then show ?thesis
    using last(2) s1 by (intro exI [of _ "snd (sp_done (step_services run False) ?h2)"]) (simp add: same_state_def)
qed

lemma query_cell:
  assumes "queries_quiet run" "is_query cmd"
  shows "ho_fw_changed (snd (attempt (capture run cmd) h)) = ho_fw_changed h"
    "ho_fw_changed (snd (succeeds run cmd h)) = ho_fw_changed h"
  using assms by (auto simp: attempt_def capture_def succeeds_def run_succeeds_world queries_quiet_def split: prod.splits sum.splits)
    (metis snd_conv)+

lemma zone_cell: "queries_quiet run \<Longrightarrow> ho_fw_changed (snd (firewall_zone run dev h)) = ho_fw_changed h"
proof -
  assume q: "queries_quiet run"
  have z: "ho_fw_changed (snd (attempt (capture run [''firewall-cmd'', ''--get-zone-of-interface'', d]) k)) = ho_fw_changed k"
    and dflt: "ho_fw_changed (snd (attempt (capture run [''firewall-cmd'', ''--get-default-zone'']) k)) = ho_fw_changed k" for d k
    by (rule query_cell [OF q]; simp add: is_query_def)+
  show ?thesis
    using z dflt by (cases dev) (auto simp: firewall_zone_def Let_def split: prod.splits option.splits; metis snd_conv)+
qed

lemma fw_steps_done:
  assumes q: "queries_quiet run" and q': "is_query (''firewall-cmd'' # query)" "answers_yes run (''firewall-cmd'' # query) h"
    and k: "ho_sys k = ho_sys h" "ho_disk k = ho_disk h" "\<not> ho_fw_changed k"
  shows "\<exists>k'. run_steps args (fw_step run title add query # ss) k = run_steps args ss k' \<and>
           ho_sys k' = ho_sys h \<and> ho_disk k' = ho_disk h \<and> \<not> ho_fw_changed k'"
proof -
  have d: "sp_done (fw_step run title add query) = succeeds run (''firewall-cmd'' # query)" by (simp add: fw_step_def)
  have "run_steps args (fw_step run title add query # ss) k = run_steps args ss (snd (succeeds run (''firewall-cmd'' # query) k))"
    using run_step_done [of "fw_step run title add query" k args ss] succeeds_yes(1) [OF q q' k(1)] by (simp only: d)
  then show ?thesis
    using succeeds_yes(2) [OF q q' k(1)] query_cell(2) [OF q q'(1), of k] k by (auto simp: same_state_def)
qed

text \<open>A missed reload of firewalld is never made up for. Once the three permanent rules are in place, a run neither
  adds nor reloads anything, whether or not the firewall that is running ever got them: after a run that was stopped
  between adding them and the reload, running \<open>setup\<close> again does not repair it.\<close>

theorem firewalld_reload_not_repeated:
  assumes q: "queries_quiet run" and steps: "steps_firewall run Firewalld facts dev h = (steps, h1)"
    and there: "\<forall>cmd\<in>{[''firewall-cmd'', ''--permanent'', ''--zone='' @ zone, ''--query-port='' @ show_nat (unat (sf_port facts)) @ ''/udp''],
        [''firewall-cmd'', ''--permanent'', ''--zone='' @ zone, ''--query-masquerade''],
        [''firewall-cmd'', ''--permanent'', ''--zone=trusted'', ''--query-interface='' @ TUN_NAME]}. answers_yes run cmd h"
    and zone: "zone = fst (firewall_zone run dev (h\<lparr> ho_fw_changed := False \<rparr>))"
  shows "\<exists>h'. run_steps args steps h1 = (Inr (), h') \<and> ho_sys h' = ho_sys h \<and> ho_disk h' = ho_disk h"
proof -
  let ?h0 = "h\<lparr> ho_fw_changed := False \<rparr>"
  have st: "steps = firewalld_steps run facts zone" "h1 = snd (firewall_zone run dev ?h0)"
    using steps zone by (auto simp: steps_firewall_def Let_def split: prod.splits)
  have "same_state ?h0 h1" using quiet_detect(4) [OF q] st(2) by (simp add: quiet_def)
  then have k: "ho_sys h1 = ho_sys h" "ho_disk h1 = ho_disk h" "\<not> ho_fw_changed h1"
    using zone_cell [OF q, of dev ?h0] st(2) by (simp_all add: same_state_def)
  define q1 where "q1 = [''--permanent'', ''--zone='' @ zone, ''--query-port='' @ show_nat (unat (sf_port facts)) @ ''/udp'']"
  define q2 where "q2 = [''--permanent'', ''--zone='' @ zone, ''--query-masquerade'']"
  define q3 where "q3 = [''--permanent'', ''--zone=trusted'', ''--query-interface='' @ TUN_NAME]"
  have query: "is_query (''firewall-cmd'' # q1)" "is_query (''firewall-cmd'' # q2)" "is_query (''firewall-cmd'' # q3)"
    by (simp_all add: is_query_def q1_def q2_def q3_def)
  have yes: "answers_yes run (''firewall-cmd'' # q1) h" "answers_yes run (''firewall-cmd'' # q2) h" "answers_yes run (''firewall-cmd'' # q3) h"
    using there by (simp_all add: q1_def q2_def q3_def)
  obtain t1 a1 t2 a2 t3 a3 reload where four: "steps = [fw_step run t1 a1 q1, fw_step run t2 a2 q2, fw_step run t3 a3 q3, reload]"
    and reload: "sp_done reload = (\<lambda>h. (\<not> ho_fw_changed h, h))"
    unfolding st(1) firewalld_steps_def Let_def append.simps q1_def q2_def q3_def by (metis step.select_convs(2))
  obtain k1 where 1: "run_steps args steps h1 = run_steps args [fw_step run t2 a2 q2, fw_step run t3 a3 q3, reload] k1"
    and k1: "ho_sys k1 = ho_sys h" "ho_disk k1 = ho_disk h" "\<not> ho_fw_changed k1"
    using fw_steps_done [OF q query(1) yes(1) k] unfolding four by blast
  obtain k2 where 2: "run_steps args [fw_step run t2 a2 q2, fw_step run t3 a3 q3, reload] k1 = run_steps args [fw_step run t3 a3 q3, reload] k2"
    and k2: "ho_sys k2 = ho_sys h" "ho_disk k2 = ho_disk h" "\<not> ho_fw_changed k2"
    using fw_steps_done [OF q query(2) yes(2) k1] by blast
  obtain k3 where 3: "run_steps args [fw_step run t3 a3 q3, reload] k2 = run_steps args [reload] k3"
    and k3: "ho_sys k3 = ho_sys h" "ho_disk k3 = ho_disk h" "\<not> ho_fw_changed k3"
    using fw_steps_done [OF q query(3) yes(3) k2] by blast
  have "run_steps args [reload] k3 = (Inr (), k3)"
    using run_step_done [of reload k3 args "[]"] reload k3(3) by simp
  then show ?thesis using 1 2 3 k3 by (intro exI [of _ k3]) simp
qed

text \<open>A host installed with \<open>--no-firewall\<close>: the rules file has no masquerading, the services run.\<close>

definition demo_rules :: gathered where
  "demo_rules = \<lparr> ga_pair = None, ga_facts = \<lparr> sf_port = 51820, sf_tun_cidr = ''10.99.0.0/24'' \<rparr> \<rparr>"

definition demo_served :: disk where
  "demo_served = demo_installed(''/usr/lib/systemd/system/chameleon-pq.service'' \<mapsto> Regular [] 420 0,
     ''/etc/sysctl.d/99-chameleon-pq.conf'' \<mapsto> Regular SYSCTL_BODY 420 0, IP_FORWARD \<mapsto> Regular (ln ''1'') 420 0,
     ''/etc/chameleon-pq/chameleon-pq.nft'' \<mapsto> Regular (render_nft ''10.99.0.0/24'' False) 420 0)"

lemma log_yes: "is_query cmd \<Longrightarrow> hd cmd \<noteq> ''ufw'' \<Longrightarrow> hd cmd \<noteq> ''firewall-cmd'' \<or> fwd \<Longrightarrow> answers_yes (log_runner fwd) cmd h"
  by (auto simp: answers_yes_def log_runner_def)

lemma rules_differ: "render_nft cidr True \<noteq> render_nft cidr False"
  by (simp add: render_nft_def ln_def)

theorem kept_config_rules_not_loaded_witness:
  "\<exists>h'. andthen (setup_plan (log_runner False) demo_env demo_args None (Some Nft) demo_rules) (run_steps demo_args) (demo_box demo_served) = (Inr (), h') \<and>
     ho_disk h' ''/etc/chameleon-pq/chameleon-pq.nft'' = Some (Regular (render_nft ''10.99.0.0/24'' True) (masked_mode 420 18) 0) \<and>
     ho_sys h' = []"
proof -
  let ?h = "demo_box demo_served" and ?run = "log_runner False" and ?p = "''/etc/chameleon-pq/chameleon-pq.nft''"
  have names: "nft_path (sg_config_dir demo_args) = ?p" "with_extension ?p (''tmp-'' @ show_nat 7) = ''/etc/chameleon-pq/chameleon-pq.tmp-7''"
    "path_parent ?p = ''/etc/chameleon-pq''"
    by code_simp+
  have disk: "demo_served ''/etc/chameleon-pq'' = Some (Directory 488 0)"
    "demo_served ''/usr/lib/systemd/system/chameleon-pq.service'' = Some (Regular [] 420 0)"
    "demo_served SYSCTL_FILE = Some (Regular SYSCTL_BODY 420 0)" "demo_served IP_FORWARD = Some (Regular (ln ''1'') 420 0)"
    "demo_served ?p = Some (Regular (render_nft ''10.99.0.0/24'' False) 420 0)"
    "demo_served ''/etc/chameleon-pq/chameleon-pq.tmp-7'' = None"
    by (simp_all add: demo_served_def demo_installed_def SYSCTL_FILE_def IP_FORWARD_def)
  have d: "ho_disk ?h = demo_served" "ho_faults ?h = []" "ho_umask ?h = 18" "ho_sys ?h = []" by (simp_all add: demo_box_def)
  have one: "trim (ln ''1'') = ''1''" by (simp add: ln_def trim_def is_space_def)
  have same: "ho_disk h' = demo_served \<and> ho_faults h' = []" if "same_state ?h h'" for h'
    using that d by (simp add: same_state_def)
  have pre: "\<forall>s\<in>set [step_user ?run, step_config_dir ?run (sg_config_dir demo_args), step_sysctl ?run demo_env]. in_place s ?h"
    using same disk one log_ids
    by (auto simp: in_place_def step_user_def step_config_dir_def step_sysctl_def succeeds_def run_succeeds_ok log_runner_def is_query_def
        demo_args_def DEFAULT_CONFIG_DIR_def holds_def andthen_def metadata_def fs_op_def ret_def and_also_def file_is_def read_to_string_def)
  have up: "\<forall>cmd\<in>set UNIT_QUERIES. answers_yes ?run cmd ?h"
    by (auto simp: UNIT_QUERIES_def is_query_def intro!: log_yes)
  have args: "sg_yes demo_args" "\<not> sg_dry_run demo_args" "ga_pair demo_rules = None" "se_pid demo_env = 7"
    "sf_tun_cidr (ga_facts demo_rules) = ''10.99.0.0/24''"
    by (simp_all add: demo_args_def demo_rules_def demo_env_def)
  have packaged: "units_packaged ?h"
    by (simp add: units_packaged_def path_exists_def path_join_def MAIN_UNIT_def d disk)
  obtain h' where "andthen (setup_plan ?run demo_env demo_args None (Some Nft) demo_rules) (run_steps demo_args) ?h = (Inr (), h')"
    and "ho_disk h' = (ho_disk ?h)(''/etc/chameleon-pq/chameleon-pq.tmp-7'' := None,
       ?p \<mapsto> Regular (render_nft ''10.99.0.0/24'' True) (masked_mode 420 (ho_umask ?h)) 0)" and "ho_sys h' = ho_sys ?h"
    using kept_config_rules_not_loaded [OF log_runner_quiet d(2) args(1,2,3) packaged up pre names(1) [symmetric]
        names(2) [symmetric, folded args(4)] _ _ _ _ refl, where dev = None]
      d disk names(3) rules_differ [THEN not_sym] by (auto simp: parent_ok_def regular_or_free_def args)
  then show ?thesis using d by (intro exI [of _ h']) simp
qed

theorem firewalld_reload_not_repeated_witness:
  "\<exists>steps h1 h'. steps_firewall (log_runner True) Firewalld (ga_facts demo_rules) None (demo_box Map.empty) = (steps, h1) \<and>
     length steps = 4 \<and> run_steps demo_args steps h1 = (Inr (), h') \<and> ho_sys h' = []"
proof -
  obtain steps h1 where s: "steps_firewall (log_runner True) Firewalld (ga_facts demo_rules) None (demo_box Map.empty) = (steps, h1)" by fastforce
  define zone where "zone = fst (firewall_zone (log_runner True) None ((demo_box Map.empty)\<lparr> ho_fw_changed := False \<rparr>))"
  have len: "length steps = 4"
    using s by (auto simp: steps_firewall_def Let_def firewalld_steps_def split: prod.splits)
  have "\<forall>cmd\<in>{[''firewall-cmd'', ''--permanent'', ''--zone='' @ zone, ''--query-port='' @ show_nat (unat (sf_port (ga_facts demo_rules))) @ ''/udp''],
        [''firewall-cmd'', ''--permanent'', ''--zone='' @ zone, ''--query-masquerade''],
        [''firewall-cmd'', ''--permanent'', ''--zone=trusted'', ''--query-interface='' @ TUN_NAME]}.
        answers_yes (log_runner True) cmd (demo_box Map.empty)"
    by (auto simp: is_query_def intro!: log_yes)
  from firewalld_reload_not_repeated [OF log_runner_quiet s this zone_def] len s show ?thesis
    by (auto simp: demo_box_def)
qed

section \<open>Networks\<close>

definition prefix_mask :: "nat \<Rightarrow> u32" where
  "prefix_mask p = NOT (mask (32 - p))"

lemma bit_prefix_mask: "bit (prefix_mask p) i \<longleftrightarrow> i < 32 \<and> 32 - p \<le> i"
  by (auto simp: prefix_mask_def bit_simps)

lemma takeWhile_prefix:
  "(\<forall>x\<in>set xs. P x) \<Longrightarrow> ys = [] \<or> \<not> P (hd ys) \<Longrightarrow> takeWhile P (xs @ ys) = xs"
  by (cases ys) (auto simp: takeWhile_append2)

lemma upt_split: "p \<le> 32 \<Longrightarrow> [0..<32] = [0..<32 - p] @ [32 - p..<32]"
  using upt_add_eq_append [of 0 "32 - p" p] by simp

lemma takeWhile_holds: "i < length (takeWhile P xs) \<Longrightarrow> P (xs ! i)"
  by (metis nth_mem set_takeWhileD takeWhile_nth)

lemma leading_ones_prefix:
  assumes "p \<le> 32"
  shows "leading_ones (prefix_mask p) = p"
proof -
  have split: "rev [0..<32] = rev [32 - p..<32] @ rev [0..<32 - p]"
    by (simp only: upt_split [OF assms] rev_append)
  have "hd (rev [0..<32 - p]) = 32 - p - 1" if "p < 32" using that by (simp add: hd_rev)
  then have "takeWhile (bit (prefix_mask p)) (rev [32 - p..<32] @ rev [0..<32 - p]) = rev [32 - p..<32]"
    using assms by (intro takeWhile_prefix) (auto simp: bit_prefix_mask)
  then show ?thesis using assms by (simp add: leading_ones_def split)
qed

lemma trailing_zeros_prefix:
  assumes "p \<le> 32"
  shows "trailing_zeros (prefix_mask p) = 32 - p"
proof -
  have split: "[0..<32] = [0..<32 - p] @ [32 - p..<32]"
    by (rule upt_split [OF assms])
  have "hd [32 - p..<32] = 32 - p" if "0 < p" using that assms by simp
  then have "takeWhile (\<lambda>i. \<not> bit (prefix_mask p) i) ([0..<32 - p] @ [32 - p..<32]) = [0..<32 - p]"
    using assms by (intro takeWhile_prefix) (auto simp: bit_prefix_mask)
  then show ?thesis using split by (simp add: trailing_zeros_def)
qed

lemma contiguous_prefix:
  assumes "leading_ones w + trailing_zeros w = 32"
  shows "w = prefix_mask (leading_ones w)"
proof (rule bit_word_eqI)
  fix i
  assume i: "i < LENGTH(32)"
  have ones: "bit w (31 - j)" if "j < leading_ones w" for j
  proof -
    have "bit w (rev [0..<32] ! j)" using that unfolding leading_ones_def by (rule takeWhile_holds)
    moreover have "j < 32" using that assms by simp
    ultimately show ?thesis by (simp add: rev_nth)
  qed
  have zeros: "\<not> bit w j" if "j < trailing_zeros w" for j
  proof -
    have "\<not> bit w ([0..<32] ! j)" using that unfolding trailing_zeros_def by (rule takeWhile_holds)
    then show ?thesis using that assms by simp
  qed
  show "bit w i = bit (prefix_mask (leading_ones w)) i"
    using ones [of "31 - i"] zeros [of i] assms i by (cases "i < trailing_zeros w") (auto simp: bit_prefix_mask)
qed

text \<open>The tunnel network. For an address and a netmask in dotted notation, \<open>cidr_of\<close> accepts exactly the contiguous masks, \<open>/0\<close> and
  \<open>/32\<close> included, and yields the network of the address with the length of the prefix; every other mask is refused, and
  nothing is changed.\<close>

theorem cidr_of_accepts_prefixes:
  assumes "length a = 4" "length m = 4"
  shows "(\<forall>p\<le>32. v4_u32 m = prefix_mask p \<longrightarrow>
            cidr_of (show_v4 a) (show_v4 m) h = (Inr (show_v4 (u32_v4 (v4_u32 a AND prefix_mask p)) @ ''/'' @ show_nat p), h)) \<and>
         ((\<forall>p\<le>32. v4_u32 m \<noteq> prefix_mask p) \<longrightarrow> (\<exists>msg. cidr_of (show_v4 a) (show_v4 m) h = (Inl [Msg msg], h)))"
proof (intro conjI impI allI)
  fix p
  assume "p \<le> 32" "v4_u32 m = prefix_mask p"
  then show "cidr_of (show_v4 a) (show_v4 m) h = (Inr (show_v4 (u32_v4 (v4_u32 a AND prefix_mask p)) @ ''/'' @ show_nat p), h)"
    using assms by (simp add: cidr_of_def parse_v4_show Let_def leading_ones_prefix trailing_zeros_prefix ret_def)
next
  assume none: "\<forall>p\<le>32. v4_u32 m \<noteq> prefix_mask p"
  have "leading_ones (v4_u32 m) + trailing_zeros (v4_u32 m) \<noteq> 32"
  proof
    assume s: "leading_ones (v4_u32 m) + trailing_zeros (v4_u32 m) = 32"
    then have "leading_ones (v4_u32 m) \<le> 32" by simp
    then show False using none contiguous_prefix [OF s] by blast
  qed
  then show "\<exists>msg. cidr_of (show_v4 a) (show_v4 m) h = (Inl [Msg msg], h)"
    using assms by (simp add: cidr_of_def parse_v4_show Let_def bail_def)
qed

theorem cidr_of_accepts_prefixes_witness:
  "fst (cidr_of (show_v4 [10, 99, 0, 1]) (show_v4 [255, 255, 255, 0]) (demo_box Map.empty)) = Inr ''10.99.0.0/24''"
proof -
  have "v4_u32 [255, 255, 255, 0] = prefix_mask 24" by (simp add: v4_u32_def prefix_mask_def mask_eq_exp_minus_1)
  then have "cidr_of (show_v4 [10, 99, 0, 1]) (show_v4 [255, 255, 255, 0]) (demo_box Map.empty) =
      (Inr (show_v4 (u32_v4 (v4_u32 [10, 99, 0, 1] AND prefix_mask 24)) @ ''/'' @ show_nat 24), demo_box Map.empty)"
    using cidr_of_accepts_prefixes [of "[10, 99, 0, 1]" "[255, 255, 255, 0]" "demo_box Map.empty"] by simp
  moreover have "v4_u32 [10, 99, 0, 1] AND prefix_mask 24 = 174260224"
  proof -
    have "v4_u32 [10, 99, 0, 1] = 174260225" by (simp add: v4_u32_def)
    moreover have "prefix_mask 24 = 4294967040" by (simp add: prefix_mask_def mask_eq_exp_minus_1)
    ultimately show ?thesis by simp
  qed
  moreover have "u32_v4 174260224 = [10, 99, 0, 0]"
  proof -
    have four: "(4 :: nat) = Suc (Suc (Suc (Suc 0)))" by simp
    show ?thesis by (simp only: u32_v4_def four le_bytes.simps) simp
  qed
  moreover have "show_v4 [10, 99, 0, 0] @ ''/'' @ show_nat 24 = ''10.99.0.0/24''"
    by code_simp
  ultimately show ?thesis by simp
qed

end
