(* ===== verification/Route.thy ===== *)
theory Route
  imports Os
begin

text \<open>
  Full-tunnel routing (\<open>src/route.rs\<close>): the endpoint pin, the two half routes through the tunnel, their
  removal, also on drop, and the parsers of what \<open>ip\<close>, \<open>route\<close> and \<open>netsh\<close> print. Both back-ends are
  modelled; \<open>plat\<close> selects one. \<open>FullTunnelRoutes\<close> dropped by an early return removes its routes, so
  the error paths of \<open>install\<close> end in \<open>ft_remove\<close>.
\<close>

datatype route_verb = OpAdd | OpDelete

fun verb :: "route_verb \<Rightarrow> string" where
  "verb OpAdd = ''add''"
| "verb OpDelete = ''delete''"

definition route_run :: "'w runner \<Rightarrow> command \<Rightarrow> route_verb \<Rightarrow> string \<Rightarrow> 'w \<Rightarrow> unit result \<times> 'w" where
  "route_run run cmd op what w =
     (case run cmd [] w of
        (Inl e, w') \<Rightarrow> (Err (RouteErr (''spawning route command failed: '' @ fault_text e)), w')
      | (Inr out, w') \<Rightarrow>
          (if co_ok out then Ok ()
           else Err (RouteErr (''route '' @ verb op @ '' '' @ what @ '' failed: '' @ trim (co_stderr out))), w'))"

section \<open>Parsers\<close>

fun first_gateway :: "string list list \<Rightarrow> bytes option" where
  "first_gateway [] = None"
| "first_gateway (f # fs) =
     (if 3 \<le> length f \<and> f ! 0 = ''0.0.0.0'' \<and> f ! 1 = ''0.0.0.0''
      then (case parse_v4 (f ! 2) of Some gw \<Rightarrow> Some gw | None \<Rightarrow> first_gateway fs)
      else first_gateway fs)"

definition default_gateway :: "platform \<Rightarrow> 'w runner \<Rightarrow> 'w \<Rightarrow> bytes option \<times> 'w" where
  "default_gateway plat run w =
     (case plat of
        Windows \<Rightarrow>
          (case run_stdout run [''route'', ''print'', ''-4'', ''0.0.0.0''] w of
             (None, w') \<Rightarrow> (None, w')
           | (Some text, w') \<Rightarrow> (first_gateway (map split_whitespace (lines text)), w'))
      | Linux \<Rightarrow>
          (case run_stdout run [''ip'', ''route'', ''show'', ''default''] w of
             (None, w') \<Rightarrow> (None, w')
           | (Some text, w') \<Rightarrow>
               (case word_after ''via'' (split_whitespace text) of
                  Some g \<Rightarrow> parse_v4 g | None \<Rightarrow> None, w')))"

fun find_ifindex :: "string \<Rightarrow> string list list \<Rightarrow> nat option" where
  "find_ifindex name [] = None"
| "find_ifindex name (f # fs) =
     (case (if 5 \<le> length f then parse_uint (2 ^ 32) (f ! 0) else None) of
        Some idx \<Rightarrow>
          if to_lower (join '' '' (drop 4 f)) = to_lower name then Some idx else find_ifindex name fs
      | None \<Rightarrow> find_ifindex name fs)"

definition tun_ifindex :: "'w runner \<Rightarrow> string \<Rightarrow> 'w \<Rightarrow> nat option \<times> 'w" where
  "tun_ifindex run name w =
     (case run_stdout run [''netsh'', ''interface'', ''ipv4'', ''show'', ''interfaces''] w of
        (None, w') \<Rightarrow> (None, w')
      | (Some text, w') \<Rightarrow> (find_ifindex name (map split_whitespace (lines text)), w'))"

fun endpoint_is_remote :: "ip_addr \<Rightarrow> bytes \<Rightarrow> bool" where
  "endpoint_is_remote (V4 ep) gw = (take 3 ep \<noteq> take 3 gw)"
| "endpoint_is_remote (V6 ep) gw = False"

definition cidr_to_dst_mask :: "string \<Rightarrow> (string \<times> string) result" where
  "cidr_to_dst_mask cidr =
     (case split_once (CHR ''/'') cidr of
        None \<Rightarrow> Err (RouteErr (''bad CIDR '' @ [CHR 0x27] @ cidr @ [CHR 0x27]))
      | Some (ip, prefix) \<Rightarrow>
          (case parse_uint (2 ^ 32) prefix of
             None \<Rightarrow> Err (RouteErr (''bad prefix in '' @ [CHR 0x27] @ cidr @ [CHR 0x27]))
           | Some p \<Rightarrow>
               if p > 32 then Err (RouteErr (''prefix >32 in '' @ [CHR 0x27] @ cidr @ [CHR 0x27]))
               else Ok (ip, show_v4 (u32_v4 (if p = 0 then 0 else push_bit (32 - p) (-1))))))"

section \<open>Back-ends\<close>

definition route_op ::
  "platform \<Rightarrow> 'w runner \<Rightarrow> route_verb \<Rightarrow> string \<Rightarrow> string \<Rightarrow> string option \<Rightarrow> 'w \<Rightarrow> unit result \<times> 'w" where
  "route_op plat run op cidr gw tun w =
     (case plat of
        Linux \<Rightarrow>
          (case op of
             OpAdd \<Rightarrow> route_run run ([''ip'', ''route'', ''add'', cidr, ''via'', gw] @
                        (case tun of Some name \<Rightarrow> [''dev'', name] | None \<Rightarrow> [])) op cidr w
           | OpDelete \<Rightarrow> route_run run [''ip'', ''route'', ''del'', cidr] op cidr w)
      | Windows \<Rightarrow>
          (case cidr_to_dst_mask cidr of
             Err e \<Rightarrow> (Err e, w)
           | Ok (dst, msk) \<Rightarrow>
               (case op of
                  OpAdd \<Rightarrow>
                    (case tun of
                       None \<Rightarrow> route_run run [''route'', ''add'', dst, ''mask'', msk, gw, ''metric'', ''1''] op cidr w
                     | Some name \<Rightarrow>
                         (case tun_ifindex run name w of
                            (None, w') \<Rightarrow> (Err (RouteErr (''tun '' @ [CHR 0x27] @ name @ [CHR 0x27] @
                                                  '' not ready (no interface index yet)'')), w')
                          | (Some idx, w') \<Rightarrow>
                              route_run run [''route'', ''add'', dst, ''mask'', msk, gw, ''IF'', show_nat idx,
                                             ''metric'', ''1''] op cidr w'))
                | OpDelete \<Rightarrow> route_run run [''route'', ''delete'', dst, ''mask'', msk] op cidr w)))"

section \<open>The routes of a session\<close>

record full_tunnel_routes =
  ft_peer_gw :: bytes
  ft_tun :: string
  ft_endpoint :: "ip_addr option"
  ft_removed :: bool

definition LOW_HALF :: string where
  "LOW_HALF = ''0.0.0.0/1''"

definition HIGH_HALF :: string where
  "HIGH_HALF = ''128.0.0.0/1''"

definition host_route :: "ip_addr \<Rightarrow> string" where
  "host_route ep = show_ip ep @ ''/32''"

definition ft_remove :: "platform \<Rightarrow> 'w runner \<Rightarrow> full_tunnel_routes \<Rightarrow> 'w \<Rightarrow> full_tunnel_routes \<times> 'w" where
  "ft_remove plat run me w =
     (if ft_removed me then (me, w)
      else
        let gw = show_v4 (ft_peer_gw me); tun = Some (ft_tun me);
            (_, w1) = route_op plat run OpDelete LOW_HALF gw tun w;
            (_, w2) = route_op plat run OpDelete HIGH_HALF gw tun w1;
            w3 = (case ft_endpoint me of
                    Some ep \<Rightarrow> snd (route_op plat run OpDelete (host_route ep) gw None w2)
                  | None \<Rightarrow> w2)
        in (me\<lparr> ft_removed := True \<rparr>, w3))"

definition pin_endpoint ::
  "platform \<Rightarrow> 'w runner \<Rightarrow> ip_addr \<Rightarrow> 'w \<Rightarrow> ip_addr option \<times> 'w" where
  "pin_endpoint plat run endpoint w =
     (case default_gateway plat run w of
        (None, w1) \<Rightarrow> (None, w1)
      | (Some gw, w1) \<Rightarrow>
          if endpoint_is_remote endpoint gw
          then (case route_op plat run OpAdd (host_route endpoint) (show_v4 gw) None w1 of
                  (Ok _, w2) \<Rightarrow> (Some endpoint, w2)
                | (Err e, w2) \<Rightarrow> (None, w2))
          else (None, w1))"

definition ft_install ::
  "platform \<Rightarrow> 'w runner \<Rightarrow> bytes \<Rightarrow> ip_addr \<Rightarrow> string \<Rightarrow> 'w \<Rightarrow> full_tunnel_routes result \<times> 'w" where
  "ft_install plat run peer_gw endpoint tun w =
     (let (pinned, w1) = pin_endpoint plat run endpoint w;
          me = \<lparr> ft_peer_gw = peer_gw, ft_tun = tun, ft_endpoint = pinned, ft_removed = False \<rparr>;
          gw = show_v4 peer_gw
      in case route_op plat run OpAdd LOW_HALF gw (Some tun) w1 of
        (Err e, w2) \<Rightarrow> (Err e, snd (ft_remove plat run me w2))
      | (Ok _, w2) \<Rightarrow>
          (case route_op plat run OpAdd HIGH_HALF gw (Some tun) w2 of
             (Ok _, w3) \<Rightarrow> (Ok me, w3)
           | (Err e, w3) \<Rightarrow>
               let (_, w4) = route_op plat run OpDelete LOW_HALF gw (Some tun) w3;
                   w5 = (case pinned of
                           Some ep \<Rightarrow> snd (route_op plat run OpDelete (host_route ep) gw None w4)
                         | None \<Rightarrow> w4)
               in (Err e, snd (ft_remove plat run me w5))))"

definition ft_drop :: "platform \<Rightarrow> 'w runner \<Rightarrow> full_tunnel_routes \<Rightarrow> 'w \<Rightarrow> 'w" where
  "ft_drop plat run me w = snd (ft_remove plat run me w)"


section \<open>What \<open>ip route\<close> promises\<close>

text \<open>
  \<open>tbl w\<close> is the main routing table in the world \<open>w\<close>: prefix to the words after it in \<open>ip route add\<close>.
  \<open>add\<close> refuses a prefix that is there (\<open>EEXIST\<close>) and otherwise adds the route exactly when it
  reports success; \<open>del\<close> removes the prefix; \<open>show\<close> changes nothing.
\<close>

definition ip_ok :: "'w runner \<Rightarrow> ('w \<Rightarrow> string \<Rightarrow> command option) \<Rightarrow> bool" where
  "ip_ok run tbl \<longleftrightarrow>
     (\<forall>w cidr spec.
        (let (r, w') = run ([''ip'', ''route'', ''add'', cidr] @ spec) [] w
         in (ran_ok r \<longrightarrow> tbl w cidr = None) \<and>
            tbl w' = (if ran_ok r then (tbl w)(cidr \<mapsto> spec) else tbl w))) \<and>
     (\<forall>w cidr. tbl (snd (run [''ip'', ''route'', ''del'', cidr] [] w)) = (tbl w)(cidr := None)) \<and>
     (\<forall>w. tbl (snd (run [''ip'', ''route'', ''show'', ''default''] [] w)) = tbl w)"

definition add_spec :: "string \<Rightarrow> string option \<Rightarrow> command" where
  "add_spec gw tun = [''via'', gw] @ (case tun of Some name \<Rightarrow> [''dev'', name] | None \<Rightarrow> [])"

lemma route_run_world: "snd (route_run run cmd op what w) = snd (run cmd [] w)"
  by (simp add: route_run_def split: prod.splits sum.splits)

lemma route_run_ok: "fst (route_run run cmd op what w) = Ok () \<longleftrightarrow> ran_ok (fst (run cmd [] w))"
  by (simp add: route_run_def split: prod.splits sum.splits)

lemma ip_add:
  assumes "ip_ok run tbl"
  shows "ran_ok (fst (run ([''ip'', ''route'', ''add'', cidr] @ spec) [] w)) \<Longrightarrow> tbl w cidr = None"
    and "tbl (snd (run ([''ip'', ''route'', ''add'', cidr] @ spec) [] w)) =
           (if ran_ok (fst (run ([''ip'', ''route'', ''add'', cidr] @ spec) [] w)) then (tbl w)(cidr \<mapsto> spec) else tbl w)"
  using assms unfolding ip_ok_def Let_def case_prod_beta by blast+

lemma add_is_run:
  "route_op Linux run OpAdd cidr gw tun w =
     route_run run ([''ip'', ''route'', ''add'', cidr] @ add_spec gw tun) OpAdd cidr w"
  by (simp add: route_op_def add_spec_def)

lemma add_effect:
  assumes "ip_ok run tbl" and "route_op Linux run OpAdd cidr gw tun w = (r, w')"
  shows "(case r of Ok _ \<Rightarrow> tbl w cidr = None \<and> tbl w' = (tbl w)(cidr \<mapsto> add_spec gw tun) | Err e \<Rightarrow> tbl w' = tbl w)"
proof -
  note run = assms(2)[unfolded add_is_run]
  have w': "w' = snd (run ([''ip'', ''route'', ''add'', cidr] @ add_spec gw tun) [] w)"
    using route_run_world[of run _ OpAdd cidr w] run by (metis snd_conv)
  have r: "r = Ok () \<longleftrightarrow> ran_ok (fst (run ([''ip'', ''route'', ''add'', cidr] @ add_spec gw tun) [] w))"
    using route_run_ok[of run _ OpAdd cidr w] run by (metis fst_conv)
  show ?thesis using ip_add[OF assms(1), of cidr "add_spec gw tun" w] w' r by (cases r) auto
qed

lemma delete_effect:
  "ip_ok run tbl \<Longrightarrow> tbl (snd (route_op Linux run OpDelete cidr gw tun w)) = (tbl w)(cidr := None)"
  by (simp add: route_op_def route_run_world ip_ok_def)

lemma default_gateway_world:
  "snd (default_gateway Linux run w) = snd (run [''ip'', ''route'', ''show'', ''default''] [] w)"
  unfolding run_stdout_world[symmetric] by (simp add: default_gateway_def split: prod.splits option.splits)

lemma default_gateway_effect: "ip_ok run tbl \<Longrightarrow> tbl (snd (default_gateway Linux run w)) = tbl w"
  by (simp add: default_gateway_world ip_ok_def)

lemma pin_effect:
  assumes "ip_ok run tbl" and "pin_endpoint Linux run ep w = (p, w')"
  shows "(p = None \<and> tbl w' = tbl w) \<or>
         (\<exists>gw. p = Some ep \<and> tbl w (host_route ep) = None \<and>
               tbl w' = (tbl w)(host_route ep \<mapsto> add_spec (show_v4 gw) None))"
proof -
  obtain d w1 where d: "default_gateway Linux run w = (d, w1)" by fastforce
  then have t1: "tbl w1 = tbl w" using default_gateway_effect[OF assms(1), of w] by simp
  show ?thesis
  proof (cases d)
    case None
    then show ?thesis using assms(2) d t1 by (simp add: pin_endpoint_def)
  next
    case (Some gw)
    obtain r w2 where r: "route_op Linux run OpAdd (host_route ep) (show_v4 gw) None w1 = (r, w2)" by fastforce
    then show ?thesis using add_effect[OF assms(1) r] assms(2) d Some t1
      by (auto simp: pin_endpoint_def split: if_splits sum.splits)
  qed
qed

lemma halves_differ [simp]: "LOW_HALF \<noteq> HIGH_HALF" "HIGH_HALF \<noteq> LOW_HALF"
  by (simp_all add: LOW_HALF_def HIGH_HALF_def)

lemma remove_world:
  "\<not> ft_removed me \<Longrightarrow>
     snd (ft_remove plat run me w) =
       (let gw = show_v4 (ft_peer_gw me); tun = Some (ft_tun me);
            w2 = snd (route_op plat run OpDelete HIGH_HALF gw tun (snd (route_op plat run OpDelete LOW_HALF gw tun w)))
        in case ft_endpoint me of
             Some ep \<Rightarrow> snd (route_op plat run OpDelete (host_route ep) gw None w2) | None \<Rightarrow> w2)"
  by (simp add: ft_remove_def Let_def split: prod.splits option.splits)

lemma remove_effect:
  assumes "ip_ok run tbl" and "\<not> ft_removed me"
  shows "tbl (snd (ft_remove Linux run me w)) =
           (\<lambda>c. if c = LOW_HALF \<or> c = HIGH_HALF \<or> (\<exists>ep. ft_endpoint me = Some ep \<and> c = host_route ep)
                then None else tbl w c)"
  by (auto simp: remove_world[OF assms(2)] Let_def delete_effect[OF assms(1)] fun_eq_iff split: option.splits)

lemma host_route_differs [simp]:
  "host_route ep \<noteq> LOW_HALF" "host_route ep \<noteq> HIGH_HALF" "LOW_HALF \<noteq> host_route ep" "HIGH_HALF \<noteq> host_route ep"
proof -
  have "last (host_route ep) = CHR ''2''" "last LOW_HALF = CHR ''1''" "last HIGH_HALF = CHR ''1''"
    by (simp_all add: host_route_def LOW_HALF_def HIGH_HALF_def)
  then show "host_route ep \<noteq> LOW_HALF" "host_route ep \<noteq> HIGH_HALF"
    "LOW_HALF \<noteq> host_route ep" "HIGH_HALF \<noteq> host_route ep" by auto
qed

definition with_pin :: "ip_addr \<Rightarrow> bytes option \<Rightarrow> (string \<Rightarrow> command option) \<Rightarrow> string \<Rightarrow> command option" where
  "with_pin ep via t =
     (case via of None \<Rightarrow> t | Some gw \<Rightarrow> t(host_route ep \<mapsto> add_spec (show_v4 gw) None))"

lemma pin_cases:
  assumes "ip_ok run tbl" and "pin_endpoint Linux run ep w = (p, w')"
  obtains via where "p = map_option (\<lambda>_. ep) via" "tbl w' = with_pin ep via (tbl w)"
    "via \<noteq> None \<Longrightarrow> tbl w (host_route ep) = None"
proof -
  consider "p = None" "tbl w' = tbl w"
    | gw where "p = Some ep" "tbl w (host_route ep) = None"
        "tbl w' = (tbl w)(host_route ep \<mapsto> add_spec (show_v4 gw) None)"
    using pin_effect[OF assms] by blast
  then show thesis
  proof cases
    case 1
    then show thesis using that[of None] by (simp add: with_pin_def)
  next
    case (2 gw)
    then show thesis using that[of "Some gw"] by (simp add: with_pin_def)
  qed
qed

lemma drop_effect:
  assumes "ip_ok run tbl" and "\<not> ft_removed me" and "ft_endpoint me = map_option (\<lambda>_. ep) via"
    and "tbl w = t" and "via \<noteq> None \<Longrightarrow> t0 (host_route ep) = None"
    and "\<And>c. c \<noteq> LOW_HALF \<Longrightarrow> c \<noteq> HIGH_HALF \<Longrightarrow> c \<noteq> host_route ep \<or> via = None \<Longrightarrow> t c = t0 c"
  shows "tbl (ft_drop Linux run me w) = t0(LOW_HALF := None, HIGH_HALF := None)"
  using assms(3-6) by (cases via) (auto simp: ft_drop_def remove_effect[OF assms(1,2)] fun_eq_iff)

lemma ft_drop_twice: "snd (ft_remove plat run (fst (ft_remove plat run me w)) v) = v"
  by (simp add: ft_remove_def Let_def split: prod.splits)

lemma install_effect:
  assumes ip: "ip_ok run tbl" and run: "ft_install Linux run peer_gw ep tun w = (r, w')"
  shows "case r of
           Ok me \<Rightarrow>
             tbl w LOW_HALF = None \<and> tbl w HIGH_HALF = None \<and>
             (\<exists>via. ft_endpoint me = map_option (\<lambda>_. ep) via \<and>
                (via \<noteq> None \<longrightarrow> tbl w (host_route ep) = None) \<and>
                tbl w' = (with_pin ep via (tbl w))(LOW_HALF \<mapsto> add_spec (show_v4 peer_gw) (Some tun),
                                                  HIGH_HALF \<mapsto> add_spec (show_v4 peer_gw) (Some tun))) \<and>
             tbl (ft_drop Linux run me w') = tbl w
         | Err e \<Rightarrow> tbl w' = (tbl w)(LOW_HALF := None, HIGH_HALF := None)"
proof -
  let ?spec = "add_spec (show_v4 peer_gw) (Some tun)"
  obtain p w1 where p: "pin_endpoint Linux run ep w = (p, w1)" by fastforce
  obtain via where via: "p = map_option (\<lambda>_. ep) via" "tbl w1 = with_pin ep via (tbl w)"
    "via \<noteq> None \<Longrightarrow> tbl w (host_route ep) = None"
    using pin_cases[OF ip p] by blast
  define me where "me = \<lparr> ft_peer_gw = peer_gw, ft_tun = tun, ft_endpoint = p, ft_removed = False \<rparr>"
  have me: "\<not> ft_removed me" "ft_endpoint me = map_option (\<lambda>_. ep) via" by (simp_all add: me_def via(1))
  note dropped = drop_effect[OF ip me refl]
  obtain rl w2 where low: "route_op Linux run OpAdd LOW_HALF (show_v4 peer_gw) (Some tun) w1 = (rl, w2)" by fastforce
  obtain rh w3 where high: "route_op Linux run OpAdd HIGH_HALF (show_v4 peer_gw) (Some tun) w2 = (rh, w3)" by fastforce
  note eff = add_effect[OF ip low] add_effect[OF ip high]
  note unfold = ft_install_def Let_def p low high me_def[symmetric] ft_drop_def[symmetric]
  show ?thesis
  proof (cases rl)
    case (Inl e)
    have "r = Err e" "w' = ft_drop Linux run me w2" using run Inl by (simp_all add: unfold)
    moreover have "tbl (ft_drop Linux run me w2) = (tbl w)(LOW_HALF := None, HIGH_HALF := None)"
      by (rule dropped) (use eff Inl via in \<open>auto simp: with_pin_def split: option.splits\<close>)
    ultimately show ?thesis by simp
  next
    case (Inr u)
    then have free: "tbl w LOW_HALF = None" and t2: "tbl w2 = (with_pin ep via (tbl w))(LOW_HALF \<mapsto> ?spec)"
      using eff(1) via(2) by (auto simp: with_pin_def split: option.splits)
    show ?thesis
    proof (cases rh)
      case (Inl e)
      define w5 where "w5 = (let w4 = snd (route_op Linux run OpDelete LOW_HALF (show_v4 peer_gw) (Some tun) w3)
        in case p of Some e \<Rightarrow> snd (route_op Linux run OpDelete (host_route e) (show_v4 peer_gw) None w4) | None \<Rightarrow> w4)"
      have w5: "r = Err e" "w' = ft_drop Linux run me w5"
        using run Inr Inl by (simp_all add: unfold w5_def case_prod_beta)
      have t5: "tbl w5 = (\<lambda>c. if c = LOW_HALF \<or> (via \<noteq> None \<and> c = host_route ep) then None else tbl w3 c)"
        by (cases via) (auto simp: w5_def via(1) Let_def delete_effect[OF ip] fun_eq_iff)
      have "tbl (ft_drop Linux run me w5) = (tbl w)(LOW_HALF := None, HIGH_HALF := None)"
        by (rule dropped) (use t5 eff(2) Inl t2 via(2,3) in \<open>auto simp: with_pin_def split: option.splits\<close>)
      then show ?thesis using w5 by simp
    next
      case (Inr v)
      then have high_free: "tbl w HIGH_HALF = None" and
        t3: "tbl w3 = (with_pin ep via (tbl w))(LOW_HALF \<mapsto> ?spec, HIGH_HALF \<mapsto> ?spec)"
        using eff(2) t2 by (auto simp: with_pin_def split: option.splits)
      have "tbl (ft_drop Linux run me w3) = (tbl w)(LOW_HALF := None, HIGH_HALF := None)"
        by (rule dropped) (use t3 via(3) in \<open>auto simp: with_pin_def split: option.splits\<close>)
      moreover have "r = Ok me" "w' = w3" using run \<open>rl = Inr u\<close> Inr by (simp_all add: unfold)
      ultimately show ?thesis using free high_free t3 me via(3) by (auto simp: fun_eq_iff)
    qed
  qed
qed

text \<open>C23: Full-tunnel routes. When \<open>install\<close> succeeds, both half routes were free and are now on the tunnel
  interface via the peer, the endpoint is pinned at most once and only where no such route was, and dropping
  the handle restores the table to what it was; dropping again runs nothing. When it fails, the table is what it was
  less the two half routes: nothing of the attempt stays behind.
\<close>

theorem install_routes_and_drop_restores:
  assumes ip: "ip_ok run tbl" and run: "ft_install Linux run peer_gw ep tun w = (r, w')"
  shows "case r of
           Ok me \<Rightarrow>
             tbl w LOW_HALF = None \<and> tbl w HIGH_HALF = None \<and>
             (\<exists>via. ft_endpoint me = map_option (\<lambda>_. ep) via \<and>
                (via \<noteq> None \<longrightarrow> tbl w (host_route ep) = None) \<and>
                tbl w' = (with_pin ep via (tbl w))(LOW_HALF \<mapsto> add_spec (show_v4 peer_gw) (Some tun),
                                                  HIGH_HALF \<mapsto> add_spec (show_v4 peer_gw) (Some tun))) \<and>
             tbl (ft_drop Linux run me w') = tbl w
         | Err e \<Rightarrow> tbl w' = (tbl w)(LOW_HALF := None, HIGH_HALF := None)"
  by (rule install_effect [OF assms])

text \<open>A runner that keeps a routing table, with a default gateway.\<close>

type_synonym table = "string \<Rightarrow> command option"

fun table_runner :: "table runner" where
  "table_runner cmd inp t =
     (case cmd of
        _ # _ # v # cidr # spec \<Rightarrow>
          if v = ''add'' then (if t cidr = None then (done_with [], t(cidr \<mapsto> spec)) else (failed_with ''File exists'', t))
          else if v = ''del'' then (if t cidr = None then failed_with ''No such process'' else done_with [], t(cidr := None))
          else (done_with ''default via 192.168.1.1 dev eth0'', t)
      | _ \<Rightarrow> (failed_with [], t))"

lemma table_runner_ip_ok: "ip_ok table_runner id"
  by (auto simp: ip_ok_def Let_def fun_eq_iff split: prod.splits if_splits)

abbreviation "demo_server \<equiv> V4 [203, 0, 113, 5]"
abbreviation "demo_peer \<equiv> [10, 8, 0, 1] :: bytes"

text \<open>
  On an empty table the tunnel takes both halves and its endpoint is pinned; where another program already holds
  the low half, the install fails and that program's route is gone.
\<close>

theorem install_routes_and_drop_restores_witness:
  "(let (r, t) = ft_install Linux table_runner demo_peer demo_server ''cham0'' Map.empty
    in \<exists>me. r = Ok me \<and> t LOW_HALF = Some [''via'', ''10.8.0.1'', ''dev'', ''cham0''] \<and>
           t ''203.0.113.5/32'' = Some [''via'', ''192.168.1.1''] \<and> ft_drop Linux table_runner me t = Map.empty) \<and>
   (let (r, t) = ft_install Linux table_runner demo_peer demo_server ''cham0'' [LOW_HALF \<mapsto> [''dev'', ''wg0'']]
    in (\<exists>e. r = Err e) \<and> t LOW_HALF = None)"
proof (intro conjI)
  obtain r t where r: "ft_install Linux table_runner demo_peer demo_server ''cham0'' Map.empty = (r, t)" by fastforce
  have "let (r, t) = ft_install Linux table_runner demo_peer demo_server ''cham0'' Map.empty
        in (case r of Ok _ \<Rightarrow> True | Err _ \<Rightarrow> False) \<and> t LOW_HALF = Some [''via'', ''10.8.0.1'', ''dev'', ''cham0''] \<and>
           t ''203.0.113.5/32'' = Some [''via'', ''192.168.1.1'']"
    by code_simp
  then obtain me where me: "r = Ok me" "t LOW_HALF = Some [''via'', ''10.8.0.1'', ''dev'', ''cham0'']"
    "t ''203.0.113.5/32'' = Some [''via'', ''192.168.1.1'']"
    using r by (cases r) auto
  show "let (r, t) = ft_install Linux table_runner demo_peer demo_server ''cham0'' Map.empty
    in \<exists>me. r = Ok me \<and> t LOW_HALF = Some [''via'', ''10.8.0.1'', ''dev'', ''cham0''] \<and>
           t ''203.0.113.5/32'' = Some [''via'', ''192.168.1.1''] \<and> ft_drop Linux table_runner me t = Map.empty"
    using install_routes_and_drop_restores[OF table_runner_ip_ok r] r me by simp
next
  obtain r t where r: "ft_install Linux table_runner demo_peer demo_server ''cham0'' [LOW_HALF \<mapsto> [''dev'', ''wg0'']] = (r, t)"
    by fastforce
  show "let (r, t) = ft_install Linux table_runner demo_peer demo_server ''cham0'' [LOW_HALF \<mapsto> [''dev'', ''wg0'']]
    in (\<exists>e. r = Err e) \<and> t LOW_HALF = None"
    using install_routes_and_drop_restores[OF table_runner_ip_ok r] r
    by (cases r) (auto simp: id_def)
qed

end
