(* ===== verification/Dns.thy ===== *)
theory Dns
  imports Os
begin

text \<open>
  DNS-leak protection (\<open>src/dns.rs\<close>): on Linux the replacement of \<open>/etc/resolv.conf\<close> and its restoration, on
  Windows the per-adapter override, the capture and restoration of the originals and the refresher that
  covers adapters that come up later. The host is a file system beside the world of the runner.
\<close>

section \<open>resolv.conf\<close>

datatype restore = RestoreFile bytes | RestoreSymlink string | RestoreAbsent

definition RESOLV_CONF :: string where
  "RESOLV_CONF = ''/etc/resolv.conf''"

definition resolv_conf_body :: "ip_addr list \<Rightarrow> string" where
  "resolv_conf_body servers =
     ''# Written by Chameleon-PQ (DNS-leak protection); restored on disconnect.'' @ [CHR 0x0A] @
     concat (map (\<lambda>ip. ''nameserver '' @ show_ip ip @ [CHR 0x0A]) servers)"

text \<open>The file system calls of \<open>apply_resolv_conf\<close> that may fail, each with its fault.\<close>

record apply_faults =
  af_metadata :: bool
  af_read_link :: "string option"
  af_remove :: "fs_fault option"
  af_read :: "fs_fault option"
  af_write :: "fs_fault option"

definition no_faults :: apply_faults where
  "no_faults = \<lparr> af_metadata = False, af_read_link = None, af_remove = None, af_read = None, af_write = None \<rparr>"

definition apply_resolv_conf :: "string \<Rightarrow> ip_addr list \<Rightarrow> apply_faults \<Rightarrow> fs \<Rightarrow> restore result \<times> fs" where
  "apply_resolv_conf path servers fl f =
     (case (case (if af_metadata fl then None else f path) of
              Some (Symlink target) \<Rightarrow>
                (case af_read_link fl of
                   Some e \<Rightarrow> (Err (DnsErr (''read_link '' @ path @ '': '' @ e)), f)
                 | None \<Rightarrow>
                     (case fs_remove path (af_remove fl) f of
                        (Inl e, f1) \<Rightarrow> (Err (DnsErr (''remove '' @ path @ '': '' @ e)), f1)
                      | (Inr _, f1) \<Rightarrow> (Ok (RestoreSymlink target), f1)))
            | Some (File c) \<Rightarrow>
                (case fs_read path (af_read fl) f of
                   Inl e \<Rightarrow> (Err (DnsErr (''read '' @ path @ '': '' @ e)), f)
                 | Inr bytes \<Rightarrow> (Ok (RestoreFile bytes), f))
            | None \<Rightarrow> (Ok RestoreAbsent, f)) of
        (Err e, f1) \<Rightarrow> (Err e, f1)
      | (Ok restore, f1) \<Rightarrow>
          (case fs_write path (ascii (resolv_conf_body servers)) (af_write fl) f1 of
             (Inl e, f2) \<Rightarrow> (Err (DnsErr (''write '' @ path @ '': '' @ e)), f2)
           | (Inr _, f2) \<Rightarrow> (Ok restore, f2)))"

text \<open>Restoration is best effort: \<open>fl1\<close> is the fault of the first call, \<open>fl2\<close> that of the second.\<close>

definition restore_resolv_conf :: "string \<Rightarrow> restore \<Rightarrow> fs_fault option \<Rightarrow> fs_fault option \<Rightarrow> fs \<Rightarrow> fs" where
  "restore_resolv_conf path restore fl1 fl2 f =
     (case restore of
        RestoreFile bytes \<Rightarrow> snd (fs_write path bytes fl1 f)
      | RestoreSymlink target \<Rightarrow> snd (fs_symlink target path fl2 (snd (fs_remove path fl1 f)))
      | RestoreAbsent \<Rightarrow> snd (fs_remove path fl1 f))"

section \<open>Windows scripts\<close>

definition DNSCLIENT_POLICY_KEY :: string where
  "DNSCLIENT_POLICY_KEY = ''HKLM'' @ [CHR 0x5C] @ ''SOFTWARE'' @ [CHR 0x5C] @ ''Policies'' @ [CHR 0x5C] @
     ''Microsoft'' @ [CHR 0x5C] @ ''Windows NT'' @ [CHR 0x5C] @ ''DNSClient''"

definition SILENT :: string where
  "SILENT = ''$ErrorActionPreference='' @ SQ @ ''SilentlyContinue'' @ SQ @ [CHR 0x0A]"

definition SET_ALL_SCRIPT :: string where
  "SET_ALL_SCRIPT =
     SILENT @
     ''Get-NetAdapter | Where-Object { $_.Status -eq 'Up' -and $_.Name -ne '__TUN__' } | ForEach-Object {'' @ [CHR 0x0A] @
     ''  $i = $_.ifIndex'' @ [CHR 0x0A] @
     ''  $o = (Get-DnsClientServerAddress -InterfaceIndex $i -AddressFamily IPv4).ServerAddresses -join '' @ SQ @ '','' @ SQ @ [CHR 0x0A] @
     ''  Write-Output ('' @ DQ @ ''{0}|{1}'' @ DQ @ '' -f $i, $o)'' @ [CHR 0x0A] @
     ''  Set-DnsClientServerAddress -InterfaceIndex $i -ServerAddresses (__LIST__)'' @ [CHR 0x0A] @
     ''}''"

definition LIST_UP_SCRIPT :: string where
  "LIST_UP_SCRIPT =
     SILENT @
     ''Get-NetAdapter | Where-Object { $_.Status -eq 'Up' -and $_.Name -ne '__TUN__' } | ForEach-Object { $_.ifIndex }''"

definition ps_server_list :: "ip_addr list \<Rightarrow> string" where
  "ps_server_list servers = join '','' (map (\<lambda>s. SQ @ show_ip s @ SQ) servers)"

text \<open>A line \<open>ifIndex|a,b\<close>, as the capture script prints it; \<open>None\<close> for a malformed one.\<close>

definition parse_saved_line :: "string \<Rightarrow> (nat \<times> ip_addr list) option" where
  "parse_saved_line line =
     (case split_once (CHR ''|'') line of
        None \<Rightarrow> None
      | Some (idx, rest) \<Rightarrow>
          (case parse_uint (2 ^ 32) (trim idx) of
             None \<Rightarrow> None
           | Some i \<Rightarrow> Some (i, List.map_filter (\<lambda>s. parse_ip (trim s)) (split_on (CHR '','') rest))))"

definition parse_saved :: "string \<Rightarrow> (nat \<times> ip_addr list) list" where
  "parse_saved stdout = List.map_filter parse_saved_line (lines stdout)"

definition set_all_script :: "ip_addr list \<Rightarrow> string \<Rightarrow> string" where
  "set_all_script servers tun =
     replace_all ''__LIST__'' (ps_server_list servers) (replace_all ''__TUN__'' tun SET_ALL_SCRIPT)"

definition list_up_script :: "string \<Rightarrow> string" where
  "list_up_script tun = replace_all ''__TUN__'' tun LIST_UP_SCRIPT"

definition cover_script :: "nat \<Rightarrow> ip_addr list \<Rightarrow> string" where
  "cover_script idx servers =
     SILENT @
     ''$o = (Get-DnsClientServerAddress -InterfaceIndex '' @ show_nat idx @ '' -AddressFamily IPv4).ServerAddresses -join '' @ SQ @ '','' @ SQ @ [CHR 0x0A] @
     ''Write-Output $o'' @ [CHR 0x0A] @
     ''Set-DnsClientServerAddress -InterfaceIndex '' @ show_nat idx @ '' -ServerAddresses ('' @ ps_server_list servers @ '')'' @ [CHR 0x0A]"

definition restore_line :: "nat \<times> ip_addr list \<Rightarrow> string" where
  "restore_line a =
     (case a of (idx, orig) \<Rightarrow>
        if orig = []
        then ''Set-DnsClientServerAddress -InterfaceIndex '' @ show_nat idx @ '' -ResetServerAddresses'' @ [CHR 0x0A]
        else ''Set-DnsClientServerAddress -InterfaceIndex '' @ show_nat idx @ '' -ServerAddresses ('' @ ps_server_list orig @ '')'' @ [CHR 0x0A])"

definition restore_script :: "(nat \<times> ip_addr list) list \<Rightarrow> string" where
  "restore_script saved = SILENT @ concat (map restore_line saved)"

section \<open>Windows operations\<close>

definition run_cmd :: "'w runner \<Rightarrow> command \<Rightarrow> 'w \<Rightarrow> unit result \<times> 'w" where
  "run_cmd run cmd w =
     (case run cmd [] w of
        (Inl e, w') \<Rightarrow> (Err (DnsErr (''spawning '' @ hd cmd @ '' failed: '' @ fault_text e)), w')
      | (Inr out, w') \<Rightarrow>
          (if co_ok out then Ok () else Err (DnsErr (hd cmd @ '' failed: '' @ trim (co_stderr out))), w'))"

definition dns_powershell :: "'w runner \<Rightarrow> string \<Rightarrow> 'w \<Rightarrow> string result \<times> 'w" where
  "dns_powershell run script w =
     (case run (powershell script) [] w of
        (Inl e, w') \<Rightarrow> (Err (DnsErr (''spawning PowerShell failed: '' @ fault_text e)), w')
      | (Inr out, w') \<Rightarrow> (Ok (co_stdout out), w'))"

fun add_resolvers :: "'w runner \<Rightarrow> string \<Rightarrow> nat \<Rightarrow> ip_addr list \<Rightarrow> 'w \<Rightarrow> 'w" where
  "add_resolvers run tun i [] w = w"
| "add_resolvers run tun i (s # ss) w =
     add_resolvers run tun (Suc i) ss
       (snd (run_cmd run [''netsh'', ''interface'', ''ipv4'', ''add'', ''dnsservers'', ''name='' @ tun,
                          ''address='' @ show_ip s, ''index='' @ show_nat (Suc i), ''validate=no''] w))"

definition REG_ADD :: command where
  "REG_ADD = [''reg'', ''add'', DNSCLIENT_POLICY_KEY, ''/v'', ''DisableSmartNameResolution'',
              ''/t'', ''REG_DWORD'', ''/d'', ''1'', ''/f'']"

definition REG_DELETE :: command where
  "REG_DELETE = [''reg'', ''delete'', DNSCLIENT_POLICY_KEY, ''/v'', ''DisableSmartNameResolution'', ''/f'']"

definition FLUSH :: command where
  "FLUSH = [''ipconfig'', ''/flushdns'']"

definition win_install :: "'w runner \<Rightarrow> ip_addr list \<Rightarrow> string \<Rightarrow> 'w \<Rightarrow> (nat \<times> ip_addr list) list result \<times> 'w" where
  "win_install run servers tun w =
     (let (_, w1) = run_cmd run [''netsh'', ''interface'', ''ipv4'', ''set'', ''dnsservers'', ''name='' @ tun, ''source=static'',
                                 ''address='' @ show_ip (hd servers), ''register=primary'', ''validate=no''] w;
          w2 = add_resolvers run tun 1 (tl servers) w1
      in case dns_powershell run (set_all_script servers tun) w2 of
           (Err e, w3) \<Rightarrow> (Err e, w3)
         | (Ok out, w3) \<Rightarrow>
             (let (_, w4) = run_cmd run REG_ADD w3; (_, w5) = run_cmd run FLUSH w4
              in (Ok (parse_saved out), w5)))"

definition win_restore :: "'w runner \<Rightarrow> (nat \<times> ip_addr list) list \<Rightarrow> 'w \<Rightarrow> 'w" where
  "win_restore run saved w =
     (let (_, w1) = dns_powershell run (restore_script saved) w;
          (_, w2) = run_cmd run REG_DELETE w1;
          (_, w3) = run_cmd run FLUSH w2
      in w3)"

section \<open>The refresher\<close>

definition parse_cover :: "string \<Rightarrow> ip_addr list" where
  "parse_cover out = List.map_filter (\<lambda>s. parse_ip (trim s)) (filter (\<lambda>s. s \<noteq> []) (split_on (CHR '','') (trim out)))"

definition cover_adapter :: "'w runner \<Rightarrow> nat \<Rightarrow> ip_addr list \<Rightarrow> 'w \<Rightarrow> ip_addr list option \<times> 'w" where
  "cover_adapter run idx servers w =
     (case dns_powershell run (cover_script idx servers) w of
        (Err e, w') \<Rightarrow> (None, w')
      | (Ok out, w') \<Rightarrow> (Some (parse_cover out), w'))"

text \<open>The first step of a pass lists the adapters that are up, the others handle one each; \<open>saved\<close> is shared with the guard.\<close>

definition list_up :: "'w runner \<Rightarrow> string \<Rightarrow> 'w \<Rightarrow> nat list \<times> 'w" where
  "list_up run tun w =
     (case dns_powershell run (list_up_script tun) w of
        (Err e, w') \<Rightarrow> ([], w')
      | (Ok out, w') \<Rightarrow> (List.map_filter (\<lambda>l. parse_uint (2 ^ 32) (trim l)) (lines out), w'))"

definition cover_new ::
  "'w runner \<Rightarrow> ip_addr list \<Rightarrow> nat \<Rightarrow> (nat \<times> ip_addr list) list \<times> 'w \<Rightarrow> (nat \<times> ip_addr list) list \<times> 'w" where
  "cover_new run servers idx s =
     (case s of (saved, w) \<Rightarrow>
        if idx \<in> fst ` set saved then (saved, w)
        else case cover_adapter run idx servers w of
            (Some orig, w') \<Rightarrow> (saved @ [(idx, orig)], w')
          | (None, w') \<Rightarrow> (saved, w'))"

definition refresh_tick ::
  "'w runner \<Rightarrow> string \<Rightarrow> ip_addr list \<Rightarrow> (nat \<times> ip_addr list) list \<times> 'w \<Rightarrow> (nat \<times> ip_addr list) list \<times> 'w" where
  "refresh_tick run tun servers s =
     (case s of (saved, w) \<Rightarrow> (let (up, w1) = list_up run tun w in fold (cover_new run servers) up (saved, w1)))"

section \<open>The guard\<close>

datatype dns_restore = LinuxRestore restore | WindowsRestore "(nat \<times> ip_addr list) list"

text \<open>The check of the arguments, then the back-end. On Windows the refresher starts with the captured originals.\<close>

definition dns_install ::
  "platform \<Rightarrow> 'w runner \<Rightarrow> apply_faults \<Rightarrow> ip_addr list \<Rightarrow> string \<Rightarrow> fs \<times> 'w \<Rightarrow> dns_restore result \<times> fs \<times> 'w" where
  "dns_install plat run fl servers tun h =
     (case h of (f, w) \<Rightarrow>
        if servers = [] then (Err (DnsErr ''no DNS servers configured''), h)
        else if unsafe_tun_name tun then (Err (DnsErr (''refusing unsafe tun name '' @ SQ @ tun @ SQ)), h)
        else case plat of
            Linux \<Rightarrow>
              (case apply_resolv_conf RESOLV_CONF servers fl f of
                 (Err e, f') \<Rightarrow> (Err e, f', w)
               | (Ok r, f') \<Rightarrow> (Ok (LinuxRestore r), f', w))
          | Windows \<Rightarrow>
              (case win_install run servers tun w of
                 (Err e, w') \<Rightarrow> (Err e, f, w')
               | (Ok saved, w') \<Rightarrow> (Ok (WindowsRestore saved), f, w')))"

definition dns_drop :: "'w runner \<Rightarrow> fs_fault option \<Rightarrow> fs_fault option \<Rightarrow> dns_restore \<Rightarrow> fs \<times> 'w \<Rightarrow> fs \<times> 'w" where
  "dns_drop run fl1 fl2 g h =
     (case h of (f, w) \<Rightarrow>
        case g of
          LinuxRestore r \<Rightarrow> (restore_resolv_conf RESOLV_CONF r fl1 fl2 f, w)
        | WindowsRestore saved \<Rightarrow> (f, win_restore run saved w))"

section \<open>resolv.conf is put back\<close>

lemma fs_resolve_here:
  "(\<And>t. f path \<noteq> Some (Symlink t)) \<Longrightarrow> fs_resolve MAX_LINKS f path = Some path"
  using fs_resolve.simps(2)[of 39 f path] by (auto simp: MAX_LINKS_def split: option.splits fs_node.splits)

lemma fs_write_here:
  "(\<And>t. f path \<noteq> Some (Symlink t)) \<Longrightarrow>
     fs_write path c fault f =
       (case fault of
          Some (Fails e) \<Rightarrow> (Inl e, f)
        | Some (Breaks e n) \<Rightarrow> (Inl e, f(path \<mapsto> File (take n c)))
        | None \<Rightarrow> (Inr (), f(path \<mapsto> File c)))"
  by (simp add: fs_write_def fs_resolve_here)

lemma fs_remove_result:
  "fs_remove path fault f = (r, f') \<Longrightarrow> f path \<noteq> None \<Longrightarrow>
     (case r of Inl e \<Rightarrow> f' = f | Inr _ \<Rightarrow> f' = f(path := None))"
  by (auto simp: fs_remove_def split: option.splits fs_fault.splits)

lemma apply_effect:
  assumes stat: "\<not> af_metadata fl" and run: "apply_resolv_conf path servers fl f = (r, f')"
  shows "case r of
           Ok res \<Rightarrow>
             f' = f(path \<mapsto> File (ascii (resolv_conf_body servers))) \<and>
             (\<forall>c. restore_resolv_conf path res None None (f'(path \<mapsto> File c)) = f)
         | Err e \<Rightarrow>
             f' = f \<or>
             (case af_write fl of
                None \<Rightarrow> False
              | Some (Fails _) \<Rightarrow> f' = f(path := (case f path of Some (Symlink t) \<Rightarrow> None | node \<Rightarrow> node))
              | Some (Breaks _ n) \<Rightarrow> f' = f(path \<mapsto> File (take n (ascii (resolv_conf_body servers)))))"
proof -
  consider "f path = None" | c where "f path = Some (File c)" | t where "f path = Some (Symlink t)"
    by (metis fs_node.exhaust option.exhaust)
  then show ?thesis
  proof cases
    case absent: 1
    then have "f(path := None) = f" by (rule fun_upd_idem)
    then show ?thesis using absent stat run
      by (auto simp: apply_resolv_conf_def fs_write_here restore_resolv_conf_def fs_remove_def
          split: option.splits fs_fault.splits)
  next
    case regular: (2 c)
    then have "\<And>t. f path \<noteq> Some (Symlink t)" "fs_read path None f = Inr c" "f(path \<mapsto> File c) = f"
      by (simp_all add: fs_read_def fs_resolve_here fun_upd_idem)
    then show ?thesis using regular stat run
      by (cases "af_read fl")
        (auto simp: apply_resolv_conf_def fs_write_here restore_resolv_conf_def fs_read_def
          split: option.splits fs_fault.splits)
  next
    case link: (3 t)
    obtain q f1 where q: "fs_remove path (af_remove fl) f = (q, f1)" by fastforce
    have f1: "case q of Inl e \<Rightarrow> f1 = f | Inr _ \<Rightarrow> f1 = f(path := None)"
      using fs_remove_result[OF q] link by simp
    have "f(path \<mapsto> Symlink t) = f" using link by (rule fun_upd_idem)
    then show ?thesis using link stat run q f1
      by (cases q)
        (auto simp: apply_resolv_conf_def fs_write_here restore_resolv_conf_def fs_remove_def fs_symlink_def
          split: option.splits fs_fault.splits)
  qed
qed


text \<open>The stub of systemd-resolved: replaced and put back; lost when the write fails.\<close>

definition stub_fs :: fs where
  "stub_fs = [RESOLV_CONF \<mapsto> Symlink ''stub-resolv.conf'', ''stub-resolv.conf'' \<mapsto> File [1, 2]]"


section \<open>What PowerShell promises\<close>

text \<open>
  \<open>up w\<close> are the adapters that are up, the tunnel apart, \<open>dns w i\<close> the IPv4 resolvers of adapter \<open>i\<close> (none: by
  DHCP). The scripts print and set what they name; a shell that does not start changes nothing. The
  set of adapters may change at every step.
\<close>

definition saved_line :: "nat \<times> ip_addr list \<Rightarrow> string" where
  "saved_line a = (case a of (i, orig) \<Rightarrow> show_nat i @ ''|'' @ join '','' (map show_ip orig))"

definition prints :: "run_fault + cmd_out \<Rightarrow> string \<Rightarrow> bool" where
  "prints q text = (case q of Inl _ \<Rightarrow> False | Inr out \<Rightarrow> co_stdout out = text)"

definition win_dns_ok ::
  "'w runner \<Rightarrow> ('w \<Rightarrow> nat \<Rightarrow> ip_addr list) \<Rightarrow> ('w \<Rightarrow> nat list) \<Rightarrow> ip_addr list \<Rightarrow> string \<Rightarrow> bool" where
  "win_dns_ok run dns up servers tun \<longleftrightarrow>
     (\<forall>w. distinct (up w) \<and> (\<forall>i\<in>set (up w). i < 2 ^ 32)) \<and>
     (\<forall>w. let (q, w') = run (powershell (set_all_script servers tun)) [] w
          in prints q (concat (map (\<lambda>i. saved_line (i, dns w i) @ CRLF) (up w))) \<and>
                dns w' = (\<lambda>i. if i \<in> set (up w) then servers else dns w i) \<or>
             (\<exists>e. q = Inl e) \<and> dns w' = dns w) \<and>
     (\<forall>w. let (q, w') = run (powershell (list_up_script tun)) [] w
          in (prints q (concat (map (\<lambda>i. show_nat i @ CRLF) (up w))) \<or> (\<exists>e. q = Inl e)) \<and> dns w' = dns w) \<and>
     (\<forall>w i. let (q, w') = run (powershell (cover_script i servers)) [] w
            in prints q (join '','' (map show_ip (dns w i)) @ CRLF) \<and> dns w' = (dns w)(i := servers) \<or>
               (\<exists>e. q = Inl e) \<and> dns w' = dns w) \<and>
     (\<forall>w saved. (\<forall>(i, orig)\<in>set saved. \<forall>a\<in>set orig. is_v4 a) \<longrightarrow>
        dns (snd (run (powershell (restore_script saved)) [] w)) = fold (\<lambda>(i, orig) d. d(i := orig)) saved (dns w)) \<and>
     (\<forall>w cmd. hd cmd \<in> {''netsh'', ''reg'', ''ipconfig''} \<longrightarrow> dns (snd (run cmd [] w)) = dns w)"

section \<open>Reading what the scripts print\<close>

lemma map_filter_map_Some: "(\<And>x. x \<in> set xs \<Longrightarrow> f (g x) = Some x) \<Longrightarrow> List.map_filter f (map g xs) = xs"
  by (induction xs) (auto simp: List.map_filter_simps)

lemma split_addresses:
  "split_on (CHR '','') (join '','' (map show_ip as)) = (if as = [] then [[]] else map show_ip as)"
  using no_addr by (cases "as = []") (auto simp: split_on_join)

lemma trim_show_ip [simp]: "trim (show_ip a) = show_ip a"
  by (rule trim_id) (rule no_space)

lemma trim_show_nat [simp]: "trim (show_nat n) = show_nat n"
  by (rule trim_id) (rule no_space)

lemma trim_nil [simp]: "trim [] = []"
  by (simp add: trim_def)

lemma parse_ip_nil [simp]: "parse_ip [] = None"
proof -
  have "read_groups 8 0 [] = ([], False, [])"
    using read_groups.simps(2)[of 7 0 "[]"] by (simp add: after_sep_def read_number_def read_v4_unfold)
  then show ?thesis by (simp add: parse_ip_def read_v4_unfold read_v6_def after_sep_def read_number_def read_char_def)
qed

lemma parse_saved_line_text:
  assumes "i < 2 ^ 32" "\<forall>a\<in>set orig. is_v4 a"
  shows "parse_saved_line (saved_line (i, orig)) = Some (i, orig)"
proof -
  have "CHR ''|'' \<notin> set (show_nat i)" using no_addr by simp
  then have s: "split_once (CHR ''|'') (saved_line (i, orig)) = Some (show_nat i, join '','' (map show_ip orig))"
    by (simp add: saved_line_def split_once_append)
  have "List.map_filter (\<lambda>s. parse_ip (trim s)) (map show_ip orig) = orig"
    by (rule map_filter_map_Some) (use assms(2) parse_ip_show in auto)
  moreover have "List.map_filter (\<lambda>s. parse_ip (trim s)) (split_on (CHR '','') (join '','' (map show_ip orig))) = orig"
    using \<open>List.map_filter _ _ = orig\<close> by (cases "orig = []") (simp_all add: split_addresses List.map_filter_simps)
  ultimately show ?thesis using s parse_uint_show[OF assms(1)] by (simp add: parse_saved_line_def)
qed

lemma saved_line_one_line: "CHR 0x0A \<notin> set (saved_line a)"
  using no_addr by (cases a) (auto simp: saved_line_def dest!: set_join)

text \<open>
  Capture of the originals. What the capture script prints for a list of adapters, one line each, is read back as that
  list: every index with its resolvers, in order, an adapter without resolvers included.
\<close>

lemma parse_saved_text:
  assumes "\<forall>(i, orig)\<in>set saved. i < 2 ^ 32 \<and> (\<forall>a\<in>set orig. is_v4 a)"
  shows "parse_saved (concat (map (\<lambda>a. saved_line a @ CRLF) saved)) = saved"
proof -
  have "lines (concat (map (\<lambda>l. l @ CRLF) (map saved_line saved))) = map saved_line saved"
    by (rule lines_crlf) (simp add: saved_line_one_line)
  then have "lines (concat (map (\<lambda>a. saved_line a @ CRLF) saved)) = map saved_line saved"
    by (simp add: o_def)
  moreover have "List.map_filter parse_saved_line (map saved_line saved) = saved"
    by (rule map_filter_map_Some) (use assms parse_saved_line_text in auto)
  ultimately show ?thesis by (simp add: parse_saved_def)
qed

lemma trim_crlf [simp]: "trim CRLF = []"
  by (simp add: trim_def CRLF_def is_space_def)

lemma parse_cover_text:
  assumes "\<forall>a\<in>set orig. is_v4 a"
  shows "parse_cover (join '','' (map show_ip orig) @ CRLF) = orig"
proof -
  have "\<forall>c\<in>set (join '','' (map show_ip orig)). \<not> is_space c"
    using no_space(1) by (auto dest!: set_join simp: is_space_def)
  then have t: "trim (join '','' (map show_ip orig) @ CRLF) = join '','' (map show_ip orig)"
    by (rule trim_append_space) (simp add: CRLF_def is_space_def)
  have "show_ip a \<noteq> []" if "is_v4 a" for a
    using parse_ip_show[OF that] by (metis option.distinct(1) parse_ip_nil)
  then have "filter (\<lambda>s. s \<noteq> []) (map show_ip orig) = map show_ip orig"
    using assms by (auto simp: filter_id_conv)
  moreover have "List.map_filter (\<lambda>s. parse_ip (trim s)) (map show_ip orig) = orig"
    by (rule map_filter_map_Some) (use assms parse_ip_show in auto)
  ultimately show ?thesis
    by (cases "orig = []") (simp_all add: parse_cover_def t split_addresses List.map_filter_simps)
qed

section \<open>Every original is put back\<close>

lemma run_cmd_world: "snd (run_cmd run cmd w) = snd (run cmd [] w)"
  by (simp add: run_cmd_def split: prod.splits sum.splits)

lemma dns_powershell_world: "snd (dns_powershell run script w) = snd (run (powershell script) [] w)"
  by (simp add: dns_powershell_def split: prod.splits sum.splits)

lemma win_dns_okD:
  assumes "win_dns_ok run dns up servers tun"
  shows "prints (fst (run (powershell (set_all_script servers tun)) [] w))
           (concat (map (\<lambda>i. saved_line (i, dns w i) @ CRLF) (up w))) \<and>
         dns (snd (run (powershell (set_all_script servers tun)) [] w)) = (\<lambda>i. if i \<in> set (up w) then servers else dns w i) \<or>
         (\<exists>e. fst (run (powershell (set_all_script servers tun)) [] w) = Inl e) \<and>
         dns (snd (run (powershell (set_all_script servers tun)) [] w)) = dns w"
    and "prints (fst (run (powershell (list_up_script tun)) [] w)) (concat (map (\<lambda>i. show_nat i @ CRLF) (up w))) \<or>
         (\<exists>e. fst (run (powershell (list_up_script tun)) [] w) = Inl e)"
    and "dns (snd (run (powershell (list_up_script tun)) [] w)) = dns w"
    and "prints (fst (run (powershell (cover_script i servers)) [] w)) (join '','' (map show_ip (dns w i)) @ CRLF) \<and>
         dns (snd (run (powershell (cover_script i servers)) [] w)) = (dns w)(i := servers) \<or>
         (\<exists>e. fst (run (powershell (cover_script i servers)) [] w) = Inl e) \<and>
         dns (snd (run (powershell (cover_script i servers)) [] w)) = dns w"
    and "(\<forall>(i, orig)\<in>set saved. \<forall>a\<in>set orig. is_v4 a) \<Longrightarrow>
         dns (snd (run (powershell (restore_script saved)) [] w)) = fold (\<lambda>(i, orig) d. d(i := orig)) saved (dns w)"
    and "hd cmd \<in> {''netsh'', ''reg'', ''ipconfig''} \<Longrightarrow> dns (snd (run cmd [] w)) = dns w"
    and "distinct (up w)" "\<forall>i\<in>set (up w). i < 2 ^ 32"
  using assms unfolding win_dns_ok_def Let_def case_prod_unfold by blast+

lemma other_commands:
  "win_dns_ok run dns up servers tun \<Longrightarrow> hd cmd \<in> {''netsh'', ''reg'', ''ipconfig''} \<Longrightarrow>
     dns (snd (run_cmd run cmd w)) = dns w"
  unfolding run_cmd_world by (rule win_dns_okD(6))

lemma add_resolvers_dns: "win_dns_ok run dns up servers tun \<Longrightarrow> dns (add_resolvers run name i ss w) = dns w"
  by (induction run name i ss w rule: add_resolvers.induct) (simp_all add: other_commands)

text \<open>What holds while the override is on: the saved adapters, and no others, have the tunnel's resolvers.\<close>

definition covered ::
  "('w \<Rightarrow> nat \<Rightarrow> ip_addr list) \<Rightarrow> ip_addr list \<Rightarrow> (nat \<Rightarrow> ip_addr list) \<Rightarrow> (nat \<times> ip_addr list) list \<times> 'w \<Rightarrow> bool" where
  "covered dns servers d0 s \<longleftrightarrow>
     (case s of (saved, w) \<Rightarrow>
        distinct (map fst saved) \<and> (\<forall>(i, orig)\<in>set saved. orig = d0 i) \<and>
        dns w = (\<lambda>i. if i \<in> fst ` set saved then servers else d0 i))"

lemma set_all_result:
  assumes ok: "win_dns_ok run dns up servers tun" and v4: "\<forall>i. \<forall>a\<in>set (dns w i). is_v4 a"
    and run: "dns_powershell run (set_all_script servers tun) w = (r, w')"
  shows "case r of Ok out \<Rightarrow> covered dns servers (dns w) (parse_saved out, w') | Err e \<Rightarrow> dns w' = dns w"
proof -
  obtain q v where q: "run (powershell (set_all_script servers tun)) [] w = (q, v)" by fastforce
  note up = win_dns_okD(7,8)[OF ok, of w]
  have c: "prints q (concat (map (\<lambda>i. saved_line (i, dns w i) @ CRLF) (up w))) \<and>
           dns v = (\<lambda>i. if i \<in> set (up w) then servers else dns w i) \<or> (\<exists>e. q = Inl e) \<and> dns v = dns w"
    using win_dns_okD(1)[OF ok, of w] by (simp only: q fst_conv snd_conv)
  have "parse_saved (concat (map (\<lambda>a. saved_line a @ CRLF) (map (\<lambda>i. (i, dns w i)) (up w)))) =
      map (\<lambda>i. (i, dns w i)) (up w)"
    by (rule parse_saved_text) (use up v4 in auto)
  then show ?thesis using c run q up(1)
    by (auto simp: dns_powershell_def covered_def prints_def o_def image_image split: sum.splits)
qed

lemma cover_new_covered:
  assumes ok: "win_dns_ok run dns up servers tun" and v4: "\<forall>i. \<forall>a\<in>set (d0 i). is_v4 a"
    and c: "covered dns servers d0 s"
  shows "covered dns servers d0 (cover_new run servers idx s) \<and> (\<exists>new. fst (cover_new run servers idx s) = fst s @ new)"
proof (cases "idx \<in> fst ` set (fst s)")
  case True
  then show ?thesis using c by (cases s) (simp add: cover_new_def)
next
  case False
  obtain saved w where s: "s = (saved, w)" by fastforce
  obtain q v where q: "run (powershell (cover_script idx servers)) [] w = (q, v)" by fastforce
  have d: "dns w idx = d0 idx" using c False by (simp add: covered_def s)
  have "prints q (join '','' (map show_ip (dns w idx)) @ CRLF) \<and> dns v = (dns w)(idx := servers) \<or>
        (\<exists>e. q = Inl e) \<and> dns v = dns w"
    using win_dns_okD(4)[OF ok, of idx w] by (simp only: q fst_conv snd_conv)
  then show ?thesis using c False q d v4
    by (auto simp: s cover_new_def cover_adapter_def dns_powershell_def covered_def prints_def parse_cover_text fun_eq_iff
        split: sum.splits)
qed

lemma fold_cover_covered:
  assumes "win_dns_ok run dns up servers tun" and "\<forall>i. \<forall>a\<in>set (d0 i). is_v4 a" and "covered dns servers d0 s"
  shows "covered dns servers d0 (fold (cover_new run servers) idxs s) \<and>
         (\<exists>new. fst (fold (cover_new run servers) idxs s) = fst s @ new)"
  using assms(3)
proof (induction idxs arbitrary: s)
  case (Cons i idxs)
  note step = cover_new_covered[OF assms(1,2) Cons.prems, of i]
  then have "covered dns servers d0 (cover_new run servers i s)" by simp
  from Cons.IH[OF this] step show ?case by fastforce
qed simp

lemma list_up_world: "snd (list_up run tun w) = snd (run (powershell (list_up_script tun)) [] w)"
  unfolding dns_powershell_world[symmetric] by (simp add: list_up_def split: prod.splits sum.splits)

lemma list_up_dns: "win_dns_ok run dns up servers tun \<Longrightarrow> dns (snd (list_up run tun w)) = dns w"
  unfolding list_up_world by (rule win_dns_okD(3))

lemma refresh_tick_covered:
  assumes ok: "win_dns_ok run dns up servers tun" and v4: "\<forall>i. \<forall>a\<in>set (d0 i). is_v4 a"
    and c: "covered dns servers d0 s"
  shows "covered dns servers d0 (refresh_tick run tun servers s) \<and> (\<exists>new. fst (refresh_tick run tun servers s) = fst s @ new)"
proof -
  obtain saved w where s: "s = (saved, w)" by fastforce
  obtain idxs w1 where l: "list_up run tun w = (idxs, w1)" by fastforce
  then have "dns w1 = dns w" using list_up_dns[OF ok, of w] by simp
  then have "covered dns servers d0 (saved, w1)" using c by (simp add: covered_def s)
  from fold_cover_covered[OF ok v4 this, of idxs] show ?thesis by (simp add: refresh_tick_def s l)
qed

lemma ticks_covered:
  assumes "win_dns_ok run dns up servers tun" and "\<forall>i. \<forall>a\<in>set (d0 i). is_v4 a" and "covered dns servers d0 s"
  shows "covered dns servers d0 ((refresh_tick run tun servers ^^ n) s) \<and>
         (\<exists>new. fst ((refresh_tick run tun servers ^^ n) s) = fst s @ new)"
proof (induction n)
  case (Suc n)
  then show ?case using refresh_tick_covered[OF assms(1,2)] by fastforce
qed (use assms(3) in simp)

lemma fold_originals:
  "distinct (map fst saved) \<Longrightarrow> \<forall>(i, orig)\<in>set saved. orig = d0 i \<Longrightarrow>
     fold (\<lambda>(i, orig) d. d(i := orig)) saved d = (\<lambda>i. if i \<in> fst ` set saved then d0 i else d i)"
  by (induction saved arbitrary: d) (auto simp: fun_eq_iff split: prod.splits)

lemma win_restore_dns:
  assumes "win_dns_ok run dns up servers tun" and "covered dns servers d0 (saved, w)" and "\<forall>i. \<forall>a\<in>set (d0 i). is_v4 a"
  shows "dns (win_restore run saved w) = d0"
proof -
  have "dns (win_restore run saved w) = dns (snd (run (powershell (restore_script saved)) [] w))"
    using other_commands[OF assms(1), of REG_DELETE] other_commands[OF assms(1), of FLUSH]
    by (simp add: win_restore_def Let_def REG_DELETE_def FLUSH_def dns_powershell_world[symmetric] case_prod_beta)
  also have "\<dots> = fold (\<lambda>(i, orig) d. d(i := orig)) saved (dns w)"
    by (rule win_dns_okD(5)[OF assms(1)]) (use assms(2,3) in \<open>auto simp: covered_def\<close>)
  also have "\<dots> = d0"
    using assms(2) fold_originals[of saved d0 "dns w"] by (auto simp: covered_def fun_eq_iff)
  finally show ?thesis .
qed

lemma win_install_covered:
  assumes ok: "win_dns_ok run dns up servers tun" and v4: "\<forall>i. \<forall>a\<in>set (dns w i). is_v4 a"
    and run: "win_install run servers tun w = (r, w')"
  shows "case r of Ok saved \<Rightarrow> covered dns servers (dns w) (saved, w') | Err e \<Rightarrow> dns w' = dns w"
proof -
  define w2 where "w2 = add_resolvers run tun 1 (tl servers)
    (snd (run_cmd run [''netsh'', ''interface'', ''ipv4'', ''set'', ''dnsservers'', ''name='' @ tun, ''source=static'',
       ''address='' @ show_ip (hd servers), ''register=primary'', ''validate=no''] w))"
  have d2: "dns w2 = dns w" by (simp add: w2_def add_resolvers_dns[OF ok] other_commands[OF ok])
  obtain q w3 where q: "dns_powershell run (set_all_script servers tun) w2 = (q, w3)" by fastforce
  have c: "case q of Ok out \<Rightarrow> covered dns servers (dns w) (parse_saved out, w3) | Err e \<Rightarrow> dns w3 = dns w"
    using set_all_result[OF ok _ q] v4 unfolding d2 by blast
  note tails = other_commands[OF ok, of REG_ADD] other_commands[OF ok, of FLUSH]
  have inst: "win_install run servers tun w =
      (case q of Inl e \<Rightarrow> (Err e, w3)
       | Inr out \<Rightarrow> (Ok (parse_saved out), snd (run_cmd run FLUSH (snd (run_cmd run REG_ADD w3)))))"
    using q by (simp add: win_install_def Let_def case_prod_beta w2_def[symmetric, simplified] split: sum.splits)
  show ?thesis
  proof (cases q)
    case (Inl e)
    then show ?thesis using run c inst by auto
  next
    case (Inr out)
    then have "r = Ok (parse_saved out)" "w' = snd (run_cmd run FLUSH (snd (run_cmd run REG_ADD w3)))"
      using run inst by auto
    then show ?thesis using c Inr tails by (simp add: covered_def REG_ADD_def FLUSH_def)
  qed
qed

text \<open>C21: DNS on Windows. After a successful install and any number of passes of the refresher, whatever adapters came up
  meanwhile, an adapter has the tunnel's resolvers exactly when its original is saved, each once; earlier entries
  are never overwritten; and dropping the guard gives every adapter the resolvers it had before the install. A failed
  install changes no adapter.
\<close>

theorem windows_dns_restored:
  assumes ok: "win_dns_ok run dns up servers tun" and v4: "\<forall>i. \<forall>a\<in>set (dns w i). is_v4 a"
    and run: "dns_install Windows run fl servers tun (f, w) = (r, f', w')"
  shows "f' = f \<and>
         (case r of
            Ok g \<Rightarrow>
              (\<exists>saved. g = WindowsRestore saved \<and>
                 (\<forall>n. let (saved', v) = (refresh_tick run tun servers ^^ n) (saved, w')
                      in distinct (map fst saved') \<and> (\<exists>new. saved' = saved @ new) \<and>
                         (\<forall>i. dns v i = (if i \<in> fst ` set saved' then servers else dns w i)) \<and>
                         dns (snd (dns_drop run fl1 fl2 (WindowsRestore saved') (f', v))) = dns w))
          | Err e \<Rightarrow> dns w' = dns w)"
proof (cases "servers = [] \<or> unsafe_tun_name tun")
  case True
  then show ?thesis using run by (auto simp: dns_install_def split: if_splits)
next
  case False
  obtain q v where q: "win_install run servers tun w = (q, v)" by fastforce
  note c = win_install_covered[OF ok v4 q]
  show ?thesis
  proof (cases q)
    case (Inl e)
    then show ?thesis using run q c False by (auto simp: dns_install_def)
  next
    case (Inr saved)
    then have r: "r = Ok (WindowsRestore saved)" "f' = f" "w' = v" using run q False by (auto simp: dns_install_def)
    have "let (saved', v) = (refresh_tick run tun servers ^^ n) (saved, w')
          in distinct (map fst saved') \<and> (\<exists>new. saved' = saved @ new) \<and>
             (\<forall>i. dns v i = (if i \<in> fst ` set saved' then servers else dns w i)) \<and>
             dns (snd (dns_drop run fl1 fl2 (WindowsRestore saved') (f', v))) = dns w" for n
    proof -
      have "covered dns servers (dns w) (saved, w')" using c Inr r by simp
      note ticks = ticks_covered[OF ok v4 this, of n]
      obtain saved' u where t: "(refresh_tick run tun servers ^^ n) (saved, w') = (saved', u)" by fastforce
      then have "covered dns servers (dns w) (saved', u)" "\<exists>new. saved' = saved @ new" using ticks by auto
      moreover from this have "dns (win_restore run saved' u) = dns w" by (intro win_restore_dns[OF ok _ v4])
      ultimately show ?thesis by (simp add: t dns_drop_def) (simp add: covered_def)
    qed
    then show ?thesis using r by simp
  qed
qed

text \<open>
  The drop only sets a flag that the thread reads between passes: a pass that has handled \<open>k\<close> adapters goes on
  after the originals are restored.
\<close>

definition drop_during_tick ::
  "'w runner \<Rightarrow> string \<Rightarrow> ip_addr list \<Rightarrow> nat \<Rightarrow> (nat \<times> ip_addr list) list \<times> 'w \<Rightarrow> (nat \<times> ip_addr list) list \<times> 'w" where
  "drop_during_tick run tun servers k s =
     (case s of (saved, w) \<Rightarrow>
        (let (idxs, w1) = list_up run tun w;
             (saved1, w2) = fold (cover_new run servers) (take k idxs) (saved, w1);
             w3 = win_restore run saved1 w2
         in fold (cover_new run servers) (drop k idxs) (saved1, w3)))"

definition starts :: "'w runner \<Rightarrow> bool" where
  "starts run \<longleftrightarrow> (\<forall>script w. \<exists>out. fst (run (powershell script) [] w) = Inr out)"

lemma list_up_up:
  assumes ok: "win_dns_ok run dns up servers tun" and "starts run"
  shows "fst (list_up run tun w) = up w"
proof -
  obtain out where out: "fst (run (powershell (list_up_script tun)) [] w) = Inr out"
    using assms(2) unfolding starts_def by blast
  then have printed: "co_stdout out = concat (map (\<lambda>l. l @ CRLF) (map show_nat (up w)))"
    using win_dns_okD(2)[OF ok, of w] by (simp add: prints_def o_def)
  have "lines (co_stdout out) = map show_nat (up w)"
    unfolding printed by (rule lines_crlf) (use no_addr in auto)
  moreover have "List.map_filter (\<lambda>l. parse_uint (2 ^ 32) (trim l)) (map show_nat (up w)) = up w"
    by (rule map_filter_map_Some) (simp only: trim_show_nat parse_uint_show win_dns_okD(8)[OF ok, rule_format])
  ultimately show ?thesis using out
    by (cases "run (powershell (list_up_script tun)) [] w") (simp add: list_up_def dns_powershell_def)
qed

lemma cover_new_sets:
  assumes ok: "win_dns_ok run dns up servers tun" and "starts run" and "i \<notin> fst ` set (fst s)"
  shows "dns (snd (cover_new run servers i s)) i = servers"
proof -
  obtain saved w where s: "s = (saved, w)" by fastforce
  obtain out where "fst (run (powershell (cover_script i servers)) [] w) = Inr out"
    using assms(2) unfolding starts_def by blast
  then show ?thesis using win_dns_okD(4)[OF ok, of i w] assms(3)
    by (cases "run (powershell (cover_script i servers)) [] w")
      (simp add: s cover_new_def cover_adapter_def dns_powershell_def)
qed

lemma cover_new_keeps:
  assumes ok: "win_dns_ok run dns up servers tun" and "dns (snd s) i = servers"
  shows "dns (snd (cover_new run servers j s)) i = servers"
proof -
  obtain saved w where s: "s = (saved, w)" by fastforce
  show ?thesis using win_dns_okD(4)[OF ok, of j w] assms(2)
    by (cases "run (powershell (cover_script j servers)) [] w")
      (auto simp: s cover_new_def cover_adapter_def dns_powershell_def split: sum.splits)
qed

lemma fold_cover_sets:
  assumes ok: "win_dns_ok run dns up servers tun" and st: "starts run"
  shows "i \<in> set idxs \<Longrightarrow> i \<notin> fst ` set (fst s) \<Longrightarrow> dns (snd (fold (cover_new run servers) idxs s)) i = servers"
proof (induction idxs arbitrary: s)
  case (Cons j idxs)
  have keeps: "dns (snd (fold (cover_new run servers) js t)) i = servers" if "dns (snd t) i = servers" for js t
    using that by (induction js arbitrary: t) (simp_all add: cover_new_keeps[OF ok])
  show ?case
  proof (cases "i = j")
    case True
    then show ?thesis using keeps[OF cover_new_sets[OF ok st Cons.prems(2)]] by simp
  next
    case False
    have "i \<notin> fst ` set (fst (cover_new run servers j s))"
      using Cons.prems(2) False by (auto simp: cover_new_def split: prod.splits option.splits)
    then show ?thesis using Cons.IH Cons.prems(1) False by simp
  qed
qed simp

text \<open>Drop against the refresher. When the guard is dropped while a pass of the refresher is under way, every adapter that
  this pass has still to cover, and that was not covered before, ends with the tunnel's resolvers although
  the originals were restored: the stop flag does not keep the pass from overtaking the restore.
\<close>

theorem drop_during_refresh_leaves_override:
  assumes ok: "win_dns_ok run dns up servers tun" and st: "starts run"
    and late: "i \<in> set (drop k (up w))" and new: "i \<notin> fst ` set saved"
  shows "dns (snd (drop_during_tick run tun servers k (saved, w))) i = servers"
proof -
  obtain w1 where l: "list_up run tun w = (up w, w1)"
    using list_up_up[OF ok st, of w] by (metis prod.collapse)
  obtain saved1 w2 where t: "fold (cover_new run servers) (take k (up w)) (saved, w1) = (saved1, w2)" by fastforce
  have fst_cover: "fst ` set (fst (cover_new run servers j s)) \<subseteq> insert j (fst ` set (fst s))" for j s
    by (auto simp: cover_new_def split: prod.splits option.splits)
  have fst_fold: "fst ` set (fst (fold (cover_new run servers) js s)) \<subseteq> set js \<union> fst ` set (fst s)" for js s
  proof (induction js arbitrary: s)
    case (Cons j js)
    have "fst ` set (fst (fold (cover_new run servers) (j # js) s))
        \<subseteq> set js \<union> fst ` set (fst (cover_new run servers j s))"
      using Cons.IH[of "cover_new run servers j s"] by (simp only: fold_simps)
    also have "\<dots> \<subseteq> set js \<union> insert j (fst ` set (fst s))" by (intro Un_mono fst_cover subset_refl)
    finally show ?case by (simp only: list.set Un_insert_left Un_insert_right)
  qed simp
  have "i \<notin> set (take k (up w))"
    using late win_dns_okD(7)[OF ok, of w] set_take_disj_set_drop_if_distinct[of "up w" k k] by auto
  then have "i \<notin> fst ` set saved1" using fst_fold[of "take k (up w)" "(saved, w1)"] t new by auto
  then show ?thesis using fold_cover_sets[OF ok st late, of "(saved1, win_restore run saved1 w2)"]
    by (simp add: drop_during_tick_def l t)
qed

section \<open>A host\<close>

text \<open>
  A runner that keeps the resolvers of the adapters and the adapters that are up, and reads the scripts;
  \<open>Z\<close> and \<open>T\<close> are the servers and the tunnel.
\<close>

definition SET_DNS :: string where
  "SET_DNS = ''Set-DnsClientServerAddress -InterfaceIndex ''"

definition GET_DNS :: string where
  "GET_DNS = ''$o = (Get-DnsClientServerAddress -InterfaceIndex ''"

definition read_index :: "string \<Rightarrow> nat" where
  "read_index s = (case digits_val 10 0 (takeWhile dec_char s) of Some i \<Rightarrow> i | None \<Rightarrow> 0)"

definition read_restore_line :: "string \<Rightarrow> nat \<times> ip_addr list" where
  "read_restore_line l =
     (let r = drop (length SET_DNS) l; rest = dropWhile dec_char r
      in (read_index r,
          if starts_with rest '' -Reset'' then []
          else List.map_filter (\<lambda>a. parse_ip (tl (butlast a)))
                 (split_on (CHR '','') (butlast (drop (length '' -ServerAddresses ('') rest)))))"

definition adapters :: "(nat \<Rightarrow> ip_addr list) \<times> nat list \<Rightarrow> nat list" where
  "adapters w = remdups (filter (\<lambda>i. i < 2 ^ 32) (snd w))"

definition host_runner :: "ip_addr list \<Rightarrow> string \<Rightarrow> ((nat \<Rightarrow> ip_addr list) \<times> nat list) runner" where
  "host_runner Z T cmd inp w =
     (let d = fst w; up = adapters w
      in if length cmd \<noteq> 5 \<or> hd cmd \<noteq> ''powershell'' then (done_with [], w)
        else let script = cmd ! 4
          in if script = set_all_script Z T
             then (done_with (concat (map (\<lambda>i. saved_line (i, d i) @ CRLF) up)), (\<lambda>i. if i \<in> set up then Z else d i), snd w)
             else if script = list_up_script T then (done_with (concat (map (\<lambda>i. show_nat i @ CRLF) up)), w)
             else if starts_with script (SILENT @ GET_DNS)
             then let i = read_index (drop (length (SILENT @ GET_DNS)) script)
                  in (done_with (join '','' (map show_ip (d i)) @ CRLF), d(i := Z), snd w)
             else (done_with [],
                   fold (\<lambda>(i, orig) d. d(i := orig))
                     (map read_restore_line (butlast (split_on (CHR 0x0A) (drop (length SILENT) script)))) d, snd w))"

lemma read_index_show:
  assumes "rest = [] \<or> \<not> dec_char (hd rest)"
  shows "read_index (show_nat i @ rest) = i"
proof -
  have "takeWhile dec_char (show_nat i @ rest) = show_nat i"
    using assms show_nat_dec[of _ i] by (cases rest) (auto simp: takeWhile_append2)
  then show ?thesis by (simp add: read_index_def digits_val_show_nat)
qed

lemma dropWhile_show: "rest = [] \<or> \<not> dec_char (hd rest) \<Longrightarrow> dropWhile dec_char (show_nat i @ rest) = rest"
  using show_nat_dec[of _ i] by (cases rest) (auto simp: dropWhile_append2 dropWhile_all)

lemma read_restore_line_text:
  assumes "\<forall>a\<in>set orig. is_v4 a"
  shows "read_restore_line (butlast (restore_line (i, orig))) = (i, orig)"
proof (cases "orig = []")
  case True
  have "butlast (restore_line (i, orig)) = SET_DNS @ show_nat i @ '' -ResetServerAddresses''"
    by (simp add: restore_line_def True SET_DNS_def butlast_append)
  then show ?thesis
    using True by (simp add: read_restore_line_def read_index_show dropWhile_show dec_char_def)
next
  case False
  have b: "butlast (restore_line (i, orig)) = SET_DNS @ show_nat i @ '' -ServerAddresses ('' @ ps_server_list orig @ '')''"
    using False by (simp add: restore_line_def SET_DNS_def butlast_append)
  have "split_on (CHR '','') (ps_server_list orig) = map (\<lambda>s. SQ @ show_ip s @ SQ) orig"
    unfolding ps_server_list_def by (rule split_on_join) (use False no_addr in \<open>auto simp: SQ_def\<close>)
  moreover have "List.map_filter (\<lambda>a. parse_ip (tl (butlast a))) (map (\<lambda>s. SQ @ show_ip s @ SQ) orig) = orig"
    by (rule map_filter_map_Some) (use assms parse_ip_show in \<open>auto simp: SQ_def butlast_append\<close>)
  ultimately show ?thesis
    unfolding b using False by (simp add: read_restore_line_def read_index_show dropWhile_show dec_char_def butlast_append)
qed

lemma ps_server_list_chars: "CHR 0x0A \<notin> set (ps_server_list servers)"
  using no_addr by (auto simp: ps_server_list_def SQ_def dest!: set_join)

lemma restore_line_text: "CHR 0x0A \<notin> set (butlast (restore_line a)) \<and> butlast (restore_line a) @ [CHR 0x0A] = restore_line a"
  using ps_server_list_chars no_addr[of "CHR 0x0A"] by (cases a) (auto simp: restore_line_def butlast_append)

lemma read_restore_script:
  assumes "\<forall>(i, orig)\<in>set saved. \<forall>a\<in>set orig. is_v4 a"
  shows "map read_restore_line (butlast (split_on (CHR 0x0A) (drop (length SILENT) (restore_script saved)))) = saved"
proof -
  have "split_on (CHR 0x0A) (concat (map restore_line saved)) = map (\<lambda>a. butlast (restore_line a)) saved @ [[]]"
  proof (induction saved)
    case (Cons a saved)
    then show ?case
      using restore_line_text[of a] split_on_append[of "CHR 0x0A" "butlast (restore_line a)" "concat (map restore_line saved)"]
      by (metis append.simps(1,2) append_assoc concat.simps(2) list.map(2))
  qed simp
  moreover have "map (read_restore_line \<circ> (\<lambda>a. butlast (restore_line a))) saved = saved"
    by (rule map_idI) (use assms read_restore_line_text in auto)
  ultimately show ?thesis by (simp add: restore_script_def)
qed

lemma restore_script_starts:
  "\<not> starts_with (restore_script saved) (SILENT @ [CHR ''$''])" "\<not> starts_with (restore_script saved) (SILENT @ [CHR ''G''])"
  by (cases saved; auto simp: starts_with_iff restore_script_def restore_line_def split: prod.splits)+

lemma starts_with_take: "starts_with s (p @ q) \<Longrightarrow> starts_with s p"
  by (auto simp: starts_with_iff)

definition demo_resolvers :: "ip_addr list" where
  "demo_resolvers = [V4 [10, 8, 0, 1]]"

definition demo_host :: "((nat \<Rightarrow> ip_addr list) \<times> nat list) runner" where
  "demo_host = host_runner demo_resolvers ''cham0''"

lemma demo_scripts:
  "starts_with (set_all_script demo_resolvers ''cham0'') (SILENT @ [CHR ''G''])"
  "starts_with (list_up_script ''cham0'') (SILENT @ [CHR ''G''])"
  "list_up_script ''cham0'' \<noteq> set_all_script demo_resolvers ''cham0''"
  by code_simp+

lemma cover_script_starts: "\<exists>rest. cover_script i servers = (SILENT @ GET_DNS) @ show_nat i @ CHR '' '' # rest"
  by (simp add: cover_script_def GET_DNS_def)

lemma starts_with_both: "starts_with s (p @ [c]) \<Longrightarrow> starts_with s (p @ [d]) \<Longrightarrow> c = d"
  by (auto simp: starts_with_iff)

lemma host_set_all:
  "demo_host (powershell (set_all_script demo_resolvers ''cham0'')) [] w =
     (done_with (concat (map (\<lambda>i. saved_line (i, fst w i) @ CRLF) (adapters w))),
      (\<lambda>i. if i \<in> set (adapters w) then demo_resolvers else fst w i), snd w)"
  by (simp add: demo_host_def host_runner_def powershell_def Let_def)

lemma host_list_up:
  "demo_host (powershell (list_up_script ''cham0'')) [] w =
     (done_with (concat (map (\<lambda>i. show_nat i @ CRLF) (adapters w))), w)"
  using demo_scripts(3) by (simp add: demo_host_def host_runner_def powershell_def Let_def)

lemma host_cover:
  "demo_host (powershell (cover_script i demo_resolvers)) [] w =
     (done_with (join '','' (map show_ip (fst w i)) @ CRLF), (fst w)(i := demo_resolvers), snd w)"
proof -
  let ?s = "cover_script i demo_resolvers"
  obtain rest where r: "?s = (SILENT @ GET_DNS) @ show_nat i @ CHR '' '' # rest" using cover_script_starts by blast
  then have st: "starts_with ?s (SILENT @ GET_DNS)" by (metis starts_with_append)
  then have "starts_with ?s (SILENT @ [CHR ''$''])" by (auto simp: starts_with_iff GET_DNS_def)
  then have "?s \<noteq> set_all_script demo_resolvers ''cham0''" "?s \<noteq> list_up_script ''cham0''"
    using demo_scripts(1,2) starts_with_both by fastforce+
  moreover have "read_index (drop (length (SILENT @ GET_DNS)) ?s) = i"
    unfolding r by (simp add: read_index_show dec_char_def)
  ultimately show ?thesis using st by (simp add: demo_host_def host_runner_def powershell_def Let_def)
qed

lemma host_restore:
  assumes "\<forall>(i, orig)\<in>set saved. \<forall>a\<in>set orig. is_v4 a"
  shows "fst (snd (demo_host (powershell (restore_script saved)) [] w)) = fold (\<lambda>(i, orig) d. d(i := orig)) saved (fst w)"
proof -
  have "restore_script saved \<noteq> set_all_script demo_resolvers ''cham0''" "restore_script saved \<noteq> list_up_script ''cham0''"
    using demo_scripts(1,2) restore_script_starts(2)[of saved] by auto
  moreover have "\<not> starts_with (restore_script saved) (SILENT @ GET_DNS)"
    using restore_script_starts(1)[of saved] by (auto simp: starts_with_iff GET_DNS_def)
  ultimately show ?thesis
    using read_restore_script[OF assms] by (simp add: demo_host_def host_runner_def powershell_def Let_def)
qed

lemma demo_host_ok: "win_dns_ok demo_host fst adapters demo_resolvers ''cham0''"
proof -
  have "fst (snd (demo_host cmd [] w)) = fst w" if "hd cmd \<in> {''netsh'', ''reg'', ''ipconfig''}" for cmd w
    using that by (auto simp: demo_host_def host_runner_def Let_def)
  moreover have "distinct (adapters w)" "\<forall>i\<in>set (adapters w). i < 2 ^ 32" for w
    by (simp_all add: adapters_def)
  ultimately show ?thesis
    unfolding win_dns_ok_def Let_def case_prod_unfold
    by (simp only: host_set_all host_list_up host_cover fst_conv snd_conv
        prints_def done_with_def sum.case cmd_out.simps simp_thms) (use host_restore in \<open>auto simp: case_prod_unfold\<close>)
qed

text \<open>
  Two adapters, one with a resolver and one on DHCP: both are overridden, a third that comes up is covered, and all
  three get back what they had.
\<close>

definition demo_adapters :: "(nat \<Rightarrow> ip_addr list) \<times> nat list" where
  "demo_adapters = ((\<lambda>i. if i = 5 then [V4 [217, 237, 150, 101]] else []), [5, 13])"

lemma demo_v4: "\<forall>i. \<forall>a\<in>set (fst demo_adapters i). is_v4 a"
  by (simp add: demo_adapters_def)

theorem windows_dns_restored_witness:
  "(let (r, f, w) = dns_install Windows demo_host no_faults demo_resolvers ''cham0'' (Map.empty, demo_adapters)
    in \<exists>saved. r = Ok (WindowsRestore saved) \<and>
         (let (saved', v) = refresh_tick demo_host ''cham0'' demo_resolvers (saved, w)
          in distinct (map fst saved') \<and>
             fst (snd (dns_drop demo_host None None (WindowsRestore saved') (f, v))) = fst demo_adapters))"
proof -
  obtain r f w where r: "dns_install Windows demo_host no_faults demo_resolvers ''cham0'' (Map.empty, demo_adapters) = (r, f, w)"
    by (metis prod.collapse)
  have "is_ok (fst (dns_install Windows demo_host no_faults demo_resolvers ''cham0'' (Map.empty, demo_adapters)))"
    by (simp add: dns_install_def demo_resolvers_def unsafe_tun_name_def win_install_def Let_def case_prod_beta
        dns_powershell_def host_set_all[unfolded demo_resolvers_def] done_with_def split: sum.splits)
  then obtain g where g: "r = Ok g" using r by (cases r) auto
  note T = windows_dns_restored[OF demo_host_ok demo_v4 r, of None None]
  then obtain saved where saved: "g = WindowsRestore saved"
    and ticks: "\<And>n. let (saved', v) = (refresh_tick demo_host ''cham0'' demo_resolvers ^^ n) (saved, w)
       in distinct (map fst saved') \<and> (\<exists>new. saved' = saved @ new) \<and>
          (\<forall>i. fst v i = (if i \<in> fst ` set saved' then demo_resolvers else fst demo_adapters i)) \<and>
          fst (snd (dns_drop demo_host None None (WindowsRestore saved') (f, v))) = fst demo_adapters"
    using g by auto
  then show ?thesis using r g ticks[of 1] by (auto simp: split: prod.splits)
qed

text \<open>An adapter that comes up while the guard is dropped keeps the tunnel's resolver.\<close>

theorem drop_during_refresh_leaves_override_witness:
  "fst (snd (drop_during_tick demo_host ''cham0'' demo_resolvers 1 ([(5, [])], (\<lambda>i. []), [5, 7]))) 7 = demo_resolvers"
proof (rule drop_during_refresh_leaves_override[OF demo_host_ok])
  show "starts demo_host"
    by (auto simp: starts_def demo_host_def host_runner_def Let_def done_with_def powershell_def)
  show "7 \<in> set (drop 1 (adapters ((\<lambda>i. []), [5, 7])))" by (simp add: adapters_def)
  show "7 \<notin> fst ` set [(5 :: nat, [] :: ip_addr list)]" by simp
qed

end
