(* ===== verification/Client.thy ===== *)
theory Client
  imports Auth_Config Route Dns Tunnel Net_Run
begin

text \<open>
  The client core (\<open>src/client.rs\<close>): \<open>connect\<close> does the handshake, starts the tunnel loops in the background, installs
  the full-tunnel routes with retries and the DNS override, and returns a handle that tells the status, re-profiles
  the pacer and closes the tunnel. The host is its file system and the world of the runner; the background
  task is the node of \<open>Tunnel\<close>, which takes its own steps between the calls. \<open>disconnect\<close> also models the \<open>take\<close> of the
  routes and the DNS guard, whose drop restores the host.
\<close>

section \<open>Routes with retries\<close>

definition ROUTE_ATTEMPTS :: nat where
  "ROUTE_ATTEMPTS = 8"

text \<open>The attempts that are left; the pause of 600 ms after a failed one is not modelled.\<close>

fun route_attempts ::
  "platform \<Rightarrow> 'w runner \<Rightarrow> bytes \<Rightarrow> ip_addr \<Rightarrow> string \<Rightarrow> nat \<Rightarrow> 'w \<Rightarrow> full_tunnel_routes option \<times> 'w" where
  "route_attempts plat run gw ep tun 0 w = (None, w)"
| "route_attempts plat run gw ep tun (Suc n) w =
     (case ft_install plat run gw ep tun w of
        (Ok r, w') \<Rightarrow> (Some r, w')
      | (Err e, w') \<Rightarrow> route_attempts plat run gw ep tun n w')"

definition client_routes ::
  "platform \<Rightarrow> 'w runner \<Rightarrow> tun_config \<Rightarrow> sock_addr \<Rightarrow> 'w \<Rightarrow> full_tunnel_routes option \<times> 'w" where
  "client_routes plat run t server w =
     (if tn_route_all t
      then case Option.bind (tn_peer_address t) parse_v4 of
          Some gw \<Rightarrow> route_attempts plat run gw (sa_ip server) (tn_name t) ROUTE_ATTEMPTS w
        | None \<Rightarrow> (None, w)
      else (None, w))"

definition client_dns ::
  "platform \<Rightarrow> 'w runner \<Rightarrow> tun_config \<Rightarrow> apply_faults \<Rightarrow> fs \<times> 'w \<Rightarrow> dns_restore option \<times> fs \<times> 'w" where
  "client_dns plat run t fl h =
     (if tn_route_all t \<and> tn_dns t \<noteq> []
      then let servers = dns_servers t
           in if servers = [] then (None, h)
              else case dns_install plat run fl servers (tn_name t) h of
                  (Ok g, h') \<Rightarrow> (Some g, h')
                | (Err e, h') \<Rightarrow> (None, h')
      else (None, h))"

section \<open>The client\<close>

text \<open>\<open>cl_task\<close> is the handle of the background task: \<open>None\<close> once it was taken, else whether it was aborted.\<close>

record client =
  cl_conf :: tunnel_conf
  cl_node :: node
  cl_task :: "bool option"
  cl_peer :: sock_addr
  cl_session_id :: u32
  cl_started_epoch :: u64
  cl_pad :: pad_policy
  cl_obf :: bool
  cl_routes :: "full_tunnel_routes option"
  cl_dns :: "dns_restore option"

text \<open>What a connect meets: the bind, the network of the handshake, the counters and clocks, the faults of the DNS override.\<close>

record connect_env =
  ce_bind :: "string option"
  ce_attempts :: "attempt_env list"
  ce_faults :: "string option list"
  ce_counter :: u32
  ce_now :: instant
  ce_epoch :: int
  ce_max_gso :: nat
  ce_dns :: apply_faults

definition client_connect ::
  "platform \<Rightarrow> 'w runner \<Rightarrow> crypto_lib \<Rightarrow> aead_algo \<Rightarrow> app_config \<Rightarrow> sock_addr \<Rightarrow> authenticator \<Rightarrow> connect_env \<Rightarrow>
    fs \<times> 'w \<Rightarrow> rng \<Rightarrow> client result \<times> fs \<times> 'w" where
  "client_connect plat run C pref cfg server auth env h r =
     (let (sid, next_id) = next_session_id (ce_counter env)
      in case rbind (case ce_bind env of Some e \<Rightarrow> Err (Io e) | None \<Rightarrow> Ok ()) (\<lambda>_.
           rbind (hs_obf_key C cfg) (\<lambda>hs_obf.
           rbind (fst (run_handshake_initiator C auth pref server hs_obf sid (ce_attempts env) (ce_faults env) r))
             (\<lambda>s. Ok (hs_obf, s)))) of
        Err e \<Rightarrow> (Err e, h)
      | Ok (hs_obf, s) \<Rightarrow>
          let pad = pad_policy_from (oc_padding (ac_obfuscation cfg));
              obf = oc_enabled (ac_obfuscation cfg);
              K = \<lparr> cf_lib = C, cf_params = from_config cfg, cf_auth = auth, cf_pref = pref, cf_hs_obf = hs_obf,
                    cf_max_gso = ce_max_gso env \<rparr>;
              epoch = now_secs (ce_epoch env);
              n = tunnel_start K (engine_new (sm_new s (ce_now env)) obf pad) server next_id (effective (ac_traffic cfg)) epoch;
              (routes, w1) = client_routes plat run (ac_tun cfg) server (snd h);
              (dns, h2) = client_dns plat run (ac_tun cfg) (ce_dns env) (fst h, w1)
          in (Ok \<lparr> cl_conf = K, cl_node = n, cl_task = Some False, cl_peer = server, cl_session_id = s_id s,
                   cl_started_epoch = epoch, cl_pad = pad, cl_obf = obf, cl_routes = routes, cl_dns = dns \<rparr>, h2))"

record status =
  st_connected :: bool
  st_peer :: sock_addr
  st_session_id :: u32
  st_tx_bytes :: u64
  st_rx_bytes :: u64
  st_last_recv_epoch :: u64
  st_uptime_secs :: u64

definition task_running :: "client \<Rightarrow> bool" where
  "task_running c = (case cl_task c of Some aborted \<Rightarrow> \<not> aborted \<and> n_up (cl_node c) | None \<Rightarrow> False)"

definition client_status :: "client \<Rightarrow> int \<Rightarrow> status" where
  "client_status c now =
     (let t = n_tun (cl_node c)
      in \<lparr> st_connected = (t_connected t \<and> task_running c), st_peer = cl_peer c, st_session_id = cl_session_id c,
           st_tx_bytes = t_tx_bytes t, st_rx_bytes = t_rx_bytes t, st_last_recv_epoch = t_last_recv_epoch t,
           st_uptime_secs = sat_sub (now_secs now) (cl_started_epoch c) \<rparr>)"

text \<open>The watch channel takes a value only while the loops hold its receiver.\<close>

definition set_traffic :: "effective_traffic \<Rightarrow> client \<Rightarrow> client" where
  "set_traffic eff c =
     (if task_running c
      then c\<lparr> cl_node := (cl_node c)\<lparr> n_tun := (n_tun (cl_node c))\<lparr> t_watch := eff \<rparr> \<rparr> \<rparr> else c)"

definition drop_routes :: "platform \<Rightarrow> 'w runner \<Rightarrow> full_tunnel_routes option \<Rightarrow> fs \<times> 'w \<Rightarrow> fs \<times> 'w" where
  "drop_routes plat run r h = (case r of None \<Rightarrow> h | Some me \<Rightarrow> (fst h, ft_drop plat run me (snd h)))"

definition drop_dns :: "'w runner \<Rightarrow> fs_fault option \<Rightarrow> fs_fault option \<Rightarrow> dns_restore option \<Rightarrow> fs \<times> 'w \<Rightarrow> fs \<times> 'w" where
  "drop_dns run fl1 fl2 g h = (case g of None \<Rightarrow> h | Some d \<Rightarrow> dns_drop run fl1 fl2 d h)"

text \<open>\<open>disconnect\<close>: the authenticated Close (only over an obfuscated data path), the abort of the task, the
  release of the routes and the DNS override, each taken so that it is released once.\<close>

definition send_close :: "client \<Rightarrow> rng \<Rightarrow> client \<times> rng" where
  "send_close c r =
     (if cl_obf c
      then let t = n_tun (cl_node c);
               (x, m, r') = sm_seal_obf (cf_lib (cl_conf c)) (e_sessions (t_engine t)) (ft_as_u8 FT_Close) [] (cl_pad c) r;
               t' = with_sessions m t
           in (c\<lparr> cl_node := (cl_node c)\<lparr> n_tun := (case x of Ok wire \<Rightarrow> send_to (cl_peer c) wire t' | Err e \<Rightarrow> t') \<rparr> \<rparr>, r')
      else (c, r))"

definition client_disconnect ::
  "platform \<Rightarrow> 'w runner \<Rightarrow> fs_fault option \<Rightarrow> fs_fault option \<Rightarrow> client \<Rightarrow> fs \<times> 'w \<Rightarrow> rng \<Rightarrow> client \<times> fs \<times> 'w" where
  "client_disconnect plat run fl1 fl2 c h r =
     (let c1 = fst (send_close c r);
          c2 = c1\<lparr> cl_task := map_option (\<lambda>_. True) (cl_task c1),
                   cl_node := (cl_node c1)\<lparr> n_tun := (n_tun (cl_node c1))\<lparr> t_connected := False \<rparr> \<rparr> \<rparr>;
          h1 = drop_routes plat run (cl_routes c2) h;
          h2 = drop_dns run fl1 fl2 (cl_dns c2) h1
      in (c2\<lparr> cl_routes := None, cl_dns := None \<rparr>, h2))"

definition client_disconnect_and_wait ::
  "platform \<Rightarrow> 'w runner \<Rightarrow> fs_fault option \<Rightarrow> fs_fault option \<Rightarrow> client \<Rightarrow> fs \<times> 'w \<Rightarrow> rng \<Rightarrow> client \<times> fs \<times> 'w" where
  "client_disconnect_and_wait plat run fl1 fl2 c h r =
     (let (c1, h1) = client_disconnect plat run fl1 fl2 c h r in (c1\<lparr> cl_task := None \<rparr>, h1))"

text \<open>A \<open>Client\<close> that is dropped gives back its routes, then the DNS override; the background task goes on by itself.\<close>

definition client_drop ::
  "platform \<Rightarrow> 'w runner \<Rightarrow> fs_fault option \<Rightarrow> fs_fault option \<Rightarrow> client option \<Rightarrow> fs \<times> 'w \<Rightarrow> fs \<times> 'w" where
  "client_drop plat run fl1 fl2 c h =
     (case c of None \<Rightarrow> h | Some x \<Rightarrow> drop_dns run fl1 fl2 (cl_dns x) (drop_routes plat run (cl_routes x) h))"

section \<open>Lemmas\<close>

definition no_halves :: "(string \<Rightarrow> command option) \<Rightarrow> string \<Rightarrow> command option" where
  "no_halves t = t(LOW_HALF := None, HIGH_HALF := None)"

lemma no_halves_idem [simp]: "no_halves (no_halves t) = no_halves t"
  by (simp add: no_halves_def fun_eq_iff)

lemma install_halves:
  assumes "ip_ok run tbl" "ft_install Linux run gw ep tun w = (r, w')"
  shows "case r of Ok me \<Rightarrow> tbl (ft_drop Linux run me w') = no_halves (tbl w) | Err e \<Rightarrow> tbl w' = no_halves (tbl w)"
  using install_effect [OF assms] by (cases r) (auto simp: no_halves_def fun_upd_idem_iff)

lemma route_attempts_effect:
  assumes ip: "ip_ok run tbl"
  shows "route_attempts Linux run gw ep tun n w = (res, w') \<Longrightarrow> 0 < n \<Longrightarrow>
     (case res of Some me \<Rightarrow> tbl (ft_drop Linux run me w') = no_halves (tbl w) | None \<Rightarrow> tbl w' = no_halves (tbl w))"
proof (induction n arbitrary: w)
  case (Suc n)
  obtain r w1 where r: "ft_install Linux run gw ep tun w = (r, w1)" by fastforce
  note eff = install_halves [OF ip r]
  show ?case
  proof (cases r)
    case (Inr me)
    then show ?thesis using Suc.prems r eff by auto
  next
    case (Inl e)
    then have rest: "route_attempts Linux run gw ep tun n w1 = (res, w')" and t: "tbl w1 = no_halves (tbl w)"
      using Suc.prems r eff by auto
    show ?thesis
    proof (cases "n = 0")
      case True
      then show ?thesis using rest t by simp
    next
      case False
      then show ?thesis using Suc.IH [OF rest, unfolded t] by (cases res) simp_all
    qed
  qed
qed simp

text \<open>\<open>routed t\<close>: the configuration makes \<open>connect\<close> try the full-tunnel routes.\<close>

definition routed :: "tun_config \<Rightarrow> bool" where
  "routed t \<longleftrightarrow> tn_route_all t \<and> Option.bind (tn_peer_address t) parse_v4 \<noteq> None"

lemma client_routes_effect:
  assumes "ip_ok run tbl" "client_routes Linux run t server w = (res, w')"
  shows "tbl (snd (drop_routes Linux run res (f, w'))) = (if routed t then no_halves (tbl w) else tbl w) \<and>
         fst (drop_routes Linux run res (f, w')) = f"
  using assms(2) route_attempts_effect [OF assms(1), where n = ROUTE_ATTEMPTS]
  by (fastforce simp: client_routes_def routed_def drop_routes_def ROUTE_ATTEMPTS_def split: if_splits option.splits)

lemma client_dns_effect:
  assumes "\<not> af_metadata fl" "af_write fl = None" "client_dns Linux run t fl (f, w) = (g, f', w')"
  shows "w' = w \<and> drop_dns run None None g (f', v) = (f, v)"
proof (cases "tn_route_all t \<and> tn_dns t \<noteq> [] \<and> dns_servers t \<noteq> [] \<and> \<not> unsafe_tun_name (tn_name t)")
  case False
  then show ?thesis using assms(3) by (auto simp: client_dns_def dns_install_def drop_dns_def Let_def split: if_splits)
next
  case True
  obtain r f1 where r: "apply_resolv_conf RESOLV_CONF (dns_servers t) fl f = (r, f1)" by fastforce
  note eff = apply_effect [OF assms(1) r]
  show ?thesis
  proof (cases r)
    case (Inl e)
    then have "f1 = f" using eff assms(2) by simp
    then show ?thesis using assms(3) True r Inl by (auto simp: client_dns_def dns_install_def drop_dns_def)
  next
    case (Inr res)
    then have "f1 = f(RESOLV_CONF \<mapsto> File (ascii (resolv_conf_body (dns_servers t))))"
      and "\<And>c. restore_resolv_conf RESOLV_CONF res None None (f1(RESOLV_CONF \<mapsto> File c)) = f"
      using eff by auto
    then have "restore_resolv_conf RESOLV_CONF res None None f1 = f" by (metis fun_upd_upd)
    then show ?thesis using assms(3) True r Inr by (auto simp: client_dns_def dns_install_def drop_dns_def dns_drop_def)
  qed
qed

lemma drop_routes_fst: "fst (drop_routes plat run res h) = fst h"
  by (simp add: drop_routes_def split: option.splits)

lemma send_close_fields [simp]:
  "cl_routes (fst (send_close c r)) = cl_routes c" "cl_dns (fst (send_close c r)) = cl_dns c"
  "cl_task (fst (send_close c r)) = cl_task c"
  by (simp_all add: send_close_def Let_def split: prod.splits)

lemma disconnect_host:
  "snd (client_disconnect plat run fl1 fl2 c h r) = drop_dns run fl1 fl2 (cl_dns c) (drop_routes plat run (cl_routes c) h)"
  by (simp add: client_disconnect_def Let_def)

lemma disconnect_fields:
  assumes "fst (client_disconnect plat run fl1 fl2 c h r) = c'"
  shows "cl_routes c' = None" "cl_dns c' = None" "\<not> st_connected (client_status c' now)" "\<not> task_running c'"
  using assms by (auto simp: client_disconnect_def Let_def client_status_def task_running_def split: option.splits)

lemma connect_cases:
  assumes "client_connect plat run C pref cfg server auth env h r = (res, h')"
  obtains e where "res = Err e" "h' = h"
  | c hs_obf s w1 routes dns where "res = Ok c"
      "client_routes plat run (ac_tun cfg) server (snd h) = (routes, w1)"
      "client_dns plat run (ac_tun cfg) (ce_dns env) (fst h, w1) = (dns, h')"
      "cl_routes c = routes" "cl_dns c = dns" "cl_task c = Some False" "cl_peer c = server"
      "hs_obf_key C cfg = Ok hs_obf"
      "fst (run_handshake_initiator C auth pref server hs_obf (ce_counter env) (ce_attempts env) (ce_faults env) r) = Ok s"
      "cl_session_id c = s_id s" "cl_obf c = oc_enabled (ac_obfuscation cfg)"
      "cl_started_epoch c = now_secs (ce_epoch env)"
      "cl_node c = tunnel_start (cl_conf c)
         (engine_new (sm_new s (ce_now env)) (oc_enabled (ac_obfuscation cfg)) (pad_policy_from (oc_padding (ac_obfuscation cfg))))
         server (ce_counter env + 1) (effective (ac_traffic cfg)) (now_secs (ce_epoch env))"
      "cf_params (cl_conf c) = from_config cfg" "cf_auth (cl_conf c) = auth" "cf_hs_obf (cl_conf c) = hs_obf"
      "cf_lib (cl_conf c) = C"
  using assms
  by (auto simp: client_connect_def next_session_id_def Let_def rbind_eq_Ok rbind_eq_Err split: prod.splits sum.splits option.splits)

text \<open>What a second disconnect does to the client: it seals and sends another Close.\<close>

lemma close_again:
  assumes "fst (client_disconnect plat run fl1 fl2 c h r) = c'"
  shows "client_disconnect plat run fl3 fl4 c' k r' = (fst (send_close c' r'), k)"
    "\<not> cl_obf c \<Longrightarrow> send_close c' r' = (c', r')"
proof -
  let ?d = "fst (send_close c' r')"
  have task: "map_option (\<lambda>_. True) (cl_task c') = cl_task c'" "\<not> t_connected (n_tun (cl_node c'))"
    using assms by (auto simp: client_disconnect_def Let_def option.map_comp comp_def)
  have d: "cl_task ?d = cl_task c'" "cl_routes ?d = None" "cl_dns ?d = None" "\<not> t_connected (n_tun (cl_node ?d))"
    using disconnect_fields(1,2) [OF assms] task(2)
    by (auto simp: send_close_def Let_def with_sessions_def send_to_def split: prod.splits sum.splits)
  have "?d\<lparr> cl_task := map_option (\<lambda>_. True) (cl_task ?d),
      cl_node := (cl_node ?d)\<lparr> n_tun := (n_tun (cl_node ?d))\<lparr> t_connected := False \<rparr> \<rparr>, cl_routes := None, cl_dns := None \<rparr> = ?d"
  proof -
    have "(n_tun (cl_node ?d))\<lparr> t_connected := False \<rparr> = n_tun (cl_node ?d)"
      using d(4) by (cases "n_tun (cl_node ?d)") simp
    then have "(cl_node ?d)\<lparr> n_tun := (n_tun (cl_node ?d))\<lparr> t_connected := False \<rparr> \<rparr> = cl_node ?d" by simp
    then show ?thesis using d task by (cases ?d) simp
  qed
  then show "client_disconnect plat run fl3 fl4 c' k r' = (?d, k)"
    using d by (simp add: client_disconnect_def Let_def drop_routes_def drop_dns_def)
  have "cl_obf (fst (send_close c r)) = cl_obf c" by (simp add: send_close_def Let_def split: prod.splits)
  then have "cl_obf c' = cl_obf c" using assms by (auto simp: client_disconnect_def Let_def)
  then show "\<not> cl_obf c \<Longrightarrow> send_close c' r' = (c', r')" by (simp add: send_close_def)
qed

section \<open>Properties\<close>

text \<open>C15: the host after a session, where \<open>ip\<close> adds and deletes routes as documented. A connect that fails leaves the host as it was. After one that succeeds, in which
  no file fault hit the DNS override (the metadata of \<open>/etc/resolv.conf\<close> can be read, the write succeeds, and the restore
  meets none), whatever the background task did meanwhile, \<open>disconnect\<close> puts \<open>/etc/resolv.conf\<close> back as it was, leaves of
  the tunnel no route, the pinned endpoint included, and reports the client as not connected. The routing table is the one
  before the connect, except that a full-tunnel connect also removes the two half routes another program had installed. A
  second \<open>disconnect\<close> changes nothing on the host; over an obfuscated data path it seals and sends the Close once more,
  without obfuscation it changes the client neither.\<close>

theorem disconnect_restores_host:
  assumes ip: "ip_ok run tbl" and dns: "\<not> af_metadata (ce_dns env)" "af_write (ce_dns env) = None"
    and connect: "client_connect Linux run C pref cfg server auth env (f, w) r = (res, f', w')"
  shows "case res of
           Err e \<Rightarrow> f' = f \<and> w' = w
         | Ok c \<Rightarrow>
             (\<forall>n r'. case client_disconnect Linux run None None (c\<lparr> cl_node := n \<rparr>) (f', w') r' of (c', f'', w'') \<Rightarrow>
                f'' = f \<and>
                tbl w'' = (if routed (ac_tun cfg) then no_halves (tbl w) else tbl w) \<and>
                \<not> st_connected (client_status c' (ce_epoch env)) \<and>
                (\<forall>q. client_disconnect Linux run None None c' (f'', w'') q = (fst (send_close c' q), f'', w'') \<and>
                   (\<not> oc_enabled (ac_obfuscation cfg) \<longrightarrow> fst (send_close c' q) = c')))"
  using connect
proof (cases rule: connect_cases)
  case (1 e)
  then show ?thesis by simp
next
  case (2 c hs_obf s w1 routes dns)
  have d: "w' = w1" "\<And>v. drop_dns run None None dns (f', v) = (f, v)"
    using client_dns_effect [OF dns, of run "ac_tun cfg" f w1 dns f' w'] 2(3) by auto
  have rt: "tbl (snd (drop_routes Linux run routes (f', w1))) =
      (if routed (ac_tun cfg) then no_halves (tbl w) else tbl w)"
    using client_routes_effect [OF ip] 2(2) by auto
  have "case client_disconnect Linux run None None (c\<lparr> cl_node := n \<rparr>) (f', w') r' of (c', f'', w'') \<Rightarrow>
      f'' = f \<and> tbl w'' = (if routed (ac_tun cfg) then no_halves (tbl w) else tbl w) \<and>
      \<not> st_connected (client_status c' (ce_epoch env)) \<and>
      (\<forall>q. client_disconnect Linux run None None c' (f'', w'') q = (fst (send_close c' q), f'', w'') \<and>
         (\<not> oc_enabled (ac_obfuscation cfg) \<longrightarrow> fst (send_close c' q) = c'))" for n r'
  proof -
    let ?c = "c\<lparr> cl_node := n \<rparr>" and ?k = "drop_routes Linux run routes (f', w1)"
    obtain c' f'' w'' where x: "client_disconnect Linux run None None ?c (f', w') r' = (c', f'', w'')" by (metis prod_cases3)
    have "(f'', w'') = drop_dns run None None dns ?k"
      using disconnect_host [of Linux run None None ?c "(f', w')" r'] x 2(4,5) d(1) by simp
    then have "f'' = f" "w'' = snd ?k"
      using d(2) [of "snd ?k"] drop_routes_fst [of Linux run routes "(f', w1)"] by (metis prod.collapse prod.inject fst_conv)+
    moreover have c': "fst (client_disconnect Linux run None None ?c (f', w') r') = c'" using x by simp
    have "client_disconnect Linux run None None c' (f'', w'') q = (fst (send_close c' q), f'', w'')"
      "\<not> oc_enabled (ac_obfuscation cfg) \<longrightarrow> fst (send_close c' q) = c'" for q
      using close_again [OF c'] 2(11) by simp_all
    ultimately show ?thesis
      using rt x disconnect_fields(3) [OF c'] by simp
  qed
  then show ?thesis using 2(1) by simp
qed

text \<open>A full-tunnel client on an empty routing table, with the stub of systemd-resolved.\<close>

definition demo_full_tunnel :: app_config where
  "demo_full_tunnel = (let cfg = demo_config traffic_default 200
     in cfg\<lparr> ac_tun := (ac_tun cfg)\<lparr> tn_route_all := True, tn_peer_address := Some ''10.99.0.1'', tn_dns := [''1.1.1.1''] \<rparr>,
             ac_obfuscation := obfuscation_default\<lparr> oc_handshake := False \<rparr> \<rparr>)"

lemma demo_full_tunnel_installs:
  "fst (client_routes Linux table_runner (ac_tun demo_full_tunnel) demo_src Map.empty) \<noteq> None"
  "snd (client_routes Linux table_runner (ac_tun demo_full_tunnel) demo_src Map.empty) LOW_HALF \<noteq> None"
  "fst (client_dns Linux table_runner (ac_tun demo_full_tunnel) no_faults (stub_fs, w)) \<noteq> None"
  "fst (snd (client_dns Linux table_runner (ac_tun demo_full_tunnel) no_faults (stub_fs, w))) RESOLV_CONF \<noteq> stub_fs RESOLV_CONF"
  by code_simp+

theorem disconnect_restores_host_witness:
  "\<exists>env c f' w'.
     client_connect Linux table_runner toy_crypto Aegis256X2 demo_full_tunnel demo_src (demo_auth 1 2) env (stub_fs, Map.empty)
       (\<lambda>_. 5) = (Ok c, f', w') \<and>
     w' LOW_HALF \<noteq> None \<and> f' RESOLV_CONF \<noteq> stub_fs RESOLV_CONF \<and>
     snd (client_disconnect Linux table_runner None None c (f', w') (\<lambda>_. 0)) = (stub_fs, Map.empty)"
proof -
  obtain as si where hs: "fst (run_handshake_initiator toy_crypto (demo_auth 1 2) Aegis256X2 demo_src None 1 as [] (\<lambda>_. 5)) = Ok si"
    using demo_network_run by (metis fst_conv)
  define env where "env = \<lparr> ce_bind = None, ce_attempts = as, ce_faults = [], ce_counter = 1, ce_now = 0, ce_epoch = 1000,
    ce_max_gso = 1, ce_dns = no_faults \<rparr>"
  obtain res f' w' where run: "client_connect Linux table_runner toy_crypto Aegis256X2 demo_full_tunnel demo_src (demo_auth 1 2)
      env (stub_fs, Map.empty) (\<lambda>_. 5) = (res, f', w')" by (metis prod_cases3)
  have key: "hs_obf_key toy_crypto demo_full_tunnel = Ok None"
    by (simp add: hs_obf_key_def demo_full_tunnel_def Let_def)
  obtain routes w1 where r: "client_routes Linux table_runner (ac_tun demo_full_tunnel) demo_src Map.empty = (routes, w1)" by fastforce
  obtain dns f2 w2 where d: "client_dns Linux table_runner (ac_tun demo_full_tunnel) no_faults (stub_fs, w1) = (dns, f2, w2)"
    by (metis prod_cases3)
  have "is_ok res \<and> f' = f2 \<and> w' = w2"
    using run hs key r d by (auto simp: client_connect_def env_def next_session_id_def Let_def)
  then obtain c where c: "res = Ok c" "f' = f2" "w' = w2" by (cases res) auto
  note restored = disconnect_restores_host [OF table_runner_ip_ok _ _ run]
  have faults: "\<not> af_metadata (ce_dns env)" "af_write (ce_dns env) = None" by (simp_all add: env_def no_faults_def)
  have "no_halves Map.empty = Map.empty" by (simp add: no_halves_def fun_eq_iff)
  obtain c' f3 w3 where x: "client_disconnect Linux table_runner None None (c\<lparr> cl_node := cl_node c \<rparr>) (f', w') (\<lambda>_. 0) = (c', f3, w3)"
    by (metis prod_cases3)
  have "f3 = stub_fs \<and> w3 = Map.empty"
    using restored [OF faults, unfolded c(1) sum.case, rule_format, where n = "cl_node c" and r' = "\<lambda>_. 0", unfolded x prod.case]
      \<open>no_halves Map.empty = Map.empty\<close> by (simp split: if_splits)
  moreover have "w2 = w1"
    using client_dns_effect [OF _ _ d] by (auto simp: no_faults_def)
  moreover have "w1 LOW_HALF \<noteq> None" using demo_full_tunnel_installs(2) by (simp add: r)
  moreover have "f2 RESOLV_CONF \<noteq> stub_fs RESOLV_CONF" using demo_full_tunnel_installs(4) [of w1] by (simp add: d)
  ultimately show ?thesis
    using run c x by (intro exI [of _ env] exI [of _ c] exI [of _ f'] exI [of _ w']) simp
qed

end
