(* ===== verification/Killswitch.thy ===== *)
theory Killswitch
  imports Os
begin

text \<open>
  The kill switch (\<open>src/killswitch.rs\<close>): the nftables rules and the PowerShell script that close every
  way out of the host but the tunnel's own, the checks before they are installed, and the removal. Nothing
  removes the switch on drop; \<open>ks_disengage\<close> and \<open>ks_clear\<close> are the only ways.
\<close>

record kill_switch =
  ks_engaged :: bool
  ks_other_allow_rules :: "nat option"

section \<open>The local subnet\<close>

definition default_route_dev :: "'w runner \<Rightarrow> 'w \<Rightarrow> string option \<times> 'w" where
  "default_route_dev run w =
     (case run_stdout run [''ip'', ''route'', ''show'', ''default''] w of
        (None, w') \<Rightarrow> (None, w')
      | (Some text, w') \<Rightarrow> (word_after ''dev'' (split_whitespace text), w'))"

definition ipv4_network :: "bytes \<Rightarrow> nat \<Rightarrow> bytes" where
  "ipv4_network ip prefix =
     (let msk = (if prefix = 0 then 0 else if 32 \<le> prefix then -1 else push_bit (32 - prefix) (-1)) :: u32
      in u32_v4 (and (v4_u32 ip) msk))"

definition parse_cidr_word :: "string \<Rightarrow> (bytes \<times> nat) option" where
  "parse_cidr_word c =
     (case split_once (CHR ''/'') c of
        None \<Rightarrow> None
      | Some (ip_s, pfx_s) \<Rightarrow>
          (case (parse_v4 ip_s, parse_uint 256 pfx_s) of
             (Some ip, Some pfx) \<Rightarrow> Some (ipv4_network ip pfx, pfx)
           | _ \<Rightarrow> None))"

fun scan_inet :: "string list \<Rightarrow> (bytes \<times> nat) option" where
  "scan_inet [] = None"
| "scan_inet [t] = None"
| "scan_inet (t # c # ts) =
     (if t = ''inet''
      then (case parse_cidr_word c of Some net \<Rightarrow> Some net | None \<Rightarrow> scan_inet ts)
      else scan_inet (c # ts))"

fun first_inet :: "string list list \<Rightarrow> (bytes \<times> nat) option" where
  "first_inet [] = None"
| "first_inet (l # ls) = (case scan_inet l of Some net \<Rightarrow> Some net | None \<Rightarrow> first_inet ls)"

definition iface_ipv4_cidr :: "'w runner \<Rightarrow> string \<Rightarrow> 'w \<Rightarrow> (bytes \<times> nat) option \<times> 'w" where
  "iface_ipv4_cidr run dev w =
     (case run_stdout run [''ip'', ''-o'', ''-f'', ''inet'', ''addr'', ''show'', ''dev'', dev] w of
        (None, w') \<Rightarrow> (None, w')
      | (Some text, w') \<Rightarrow> (first_inet (map split_whitespace (lines text)), w'))"

definition local_subnet :: "'w runner \<Rightarrow> 'w \<Rightarrow> (bytes \<times> nat) option \<times> 'w" where
  "local_subnet run w =
     (case default_route_dev run w of
        (None, w1) \<Rightarrow> (None, w1)
      | (Some dev, w1) \<Rightarrow> iface_ipv4_cidr run dev w1)"

section \<open>nftables\<close>

definition TABS :: string where
  "TABS = [CHR 0x09, CHR 0x09]"

definition build_ruleset :: "sock_addr \<Rightarrow> string \<Rightarrow> (bytes \<times> nat) option \<Rightarrow> string" where
  "build_ruleset server tun lan =
     join [CHR 0x0A]
       ([''add table inet chameleon_ks'',
         ''delete table inet chameleon_ks'',
         ''table inet chameleon_ks {'',
         [CHR 0x09] @ ''chain output {'',
         TABS @ ''type filter hook output priority 0; policy drop;'',
         TABS @ ''oifname '' @ DQ @ ''lo'' @ DQ @ '' accept'',
         TABS @ ''oifname '' @ DQ @ tun @ DQ @ '' accept'',
         TABS @ ''icmpv6 type { nd-neighbor-solicit, nd-neighbor-advert, nd-router-solicit, nd-router-advert, echo-request } accept'',
         TABS @ ''ip6 daddr fe80::/10 accept'',
         TABS @ ''udp sport 68 udp dport 67 accept'']
        @ [case sa_ip server of
             V4 ip \<Rightarrow> TABS @ ''ip daddr '' @ show_v4 ip @ '' accept''
           | V6 ip \<Rightarrow> TABS @ ''ip6 daddr '' @ show_v6 ip @ '' accept'']
        @ (case lan of
             Some (net, prefix) \<Rightarrow> [TABS @ ''ip daddr '' @ show_v4 net @ ''/'' @ show_nat prefix @ '' accept'']
           | None \<Rightarrow> [])
        @ [[CHR 0x09] @ ''}'', ''}''])"

definition nft_apply :: "'w runner \<Rightarrow> string \<Rightarrow> 'w \<Rightarrow> unit result \<times> 'w" where
  "nft_apply run ruleset w =
     (case run [''nft'', ''-f'', ''-''] ruleset w of
        (Inl (NoSpawn e), w') \<Rightarrow> (Err (KillSwitchErr (''spawning nft failed: '' @ e)), w')
      | (Inl (StdinBroke e), w') \<Rightarrow> (Err (KillSwitchErr (''writing nft ruleset failed: '' @ e)), w')
      | (Inl (WaitFailed e), w') \<Rightarrow> (Err (KillSwitchErr (''nft failed: '' @ e)), w')
      | (Inr out, w') \<Rightarrow>
          (if co_ok out then Ok ()
           else Err (KillSwitchErr (''nft rejected the ruleset: '' @ trim (co_stderr out))), w'))"

section \<open>PowerShell\<close>

definition run_powershell :: "'w runner \<Rightarrow> string \<Rightarrow> 'w \<Rightarrow> unit result \<times> 'w" where
  "run_powershell run script w =
     (case run (powershell script) [] w of
        (Inl e, w') \<Rightarrow> (Err (KillSwitchErr (''spawning PowerShell failed: '' @ fault_text e)), w')
      | (Inr out, w') \<Rightarrow>
          (if co_ok out then Ok ()
           else Err (KillSwitchErr (''firewall command failed: '' @ trim (co_stderr out))), w'))"

definition run_powershell_capture :: "'w runner \<Rightarrow> string \<Rightarrow> 'w \<Rightarrow> string result \<times> 'w" where
  "run_powershell_capture run script w =
     (case run (powershell script) [] w of
        (Inl e, w') \<Rightarrow> (Err (KillSwitchErr (''spawning PowerShell failed: '' @ fault_text e)), w')
      | (Inr out, w') \<Rightarrow> (Ok (co_stdout out), w'))"

definition windows_engage_script :: "sock_addr \<Rightarrow> string \<Rightarrow> string" where
  "windows_engage_script server tun =
     ''$ErrorActionPreference='Stop';'' @
     ''Remove-NetFirewallRule -Group 'ChameleonKS' -ErrorAction SilentlyContinue;'' @
     ''New-NetFirewallRule -DisplayName 'Chameleon-KS tun' -Group 'ChameleonKS' '' @
     ''-Direction Outbound -InterfaceAlias '' @ SQ @ tun @ SQ @ '' -Action Allow | Out-Null;'' @
     ''New-NetFirewallRule -DisplayName 'Chameleon-KS server' -Group 'ChameleonKS' '' @
     ''-Direction Outbound -RemoteAddress '' @ SQ @ show_ip (sa_ip server) @ SQ @ '' -Action Allow | Out-Null;'' @
     ''New-NetFirewallRule -DisplayName 'Chameleon-KS lan' -Group 'ChameleonKS' '' @
     ''-Direction Outbound -RemoteAddress LocalSubnet -Action Allow | Out-Null;'' @
     ''New-NetFirewallRule -DisplayName 'Chameleon-KS dhcp' -Group 'ChameleonKS' '' @
     ''-Direction Outbound -Protocol UDP -LocalPort 68 -RemotePort 67 -Action Allow | Out-Null;'' @
     ''Set-NetFirewallProfile -All -DefaultOutboundAction Block''"

definition windows_count_script :: string where
  "windows_count_script =
     ''(Get-NetFirewallRule -Direction Outbound -Enabled True -Action Allow | '' @
     ''Where-Object { $_.Group -ne 'ChameleonKS' }).Count''"

definition windows_teardown_script :: string where
  "windows_teardown_script =
     ''Set-NetFirewallProfile -All -DefaultOutboundAction Allow;'' @
     ''Remove-NetFirewallRule -Group 'ChameleonKS' -ErrorAction SilentlyContinue''"

definition windows_query_script :: string where
  "windows_query_script =
     ''if (Get-NetFirewallRule -Group 'ChameleonKS' -ErrorAction SilentlyContinue) '' @
     ''{ 'ENGAGED' } else { 'off' }''"

section \<open>Operations\<close>

definition engage_backend :: "platform \<Rightarrow> 'w runner \<Rightarrow> sock_addr \<Rightarrow> string \<Rightarrow> 'w \<Rightarrow> unit result \<times> 'w" where
  "engage_backend plat run server tun w =
     (case plat of
        Linux \<Rightarrow> let (lan, w1) = local_subnet run w in nft_apply run (build_ruleset server tun lan) w1
      | Windows \<Rightarrow> run_powershell run (windows_engage_script server tun) w)"

text \<open>\<open>usize\<close> is 64 bits wide on the targets.\<close>

definition other_allow_rules_hint :: "platform \<Rightarrow> 'w runner \<Rightarrow> 'w \<Rightarrow> nat option \<times> 'w" where
  "other_allow_rules_hint plat run w =
     (case plat of
        Linux \<Rightarrow> (None, w)
      | Windows \<Rightarrow>
          (case run_powershell_capture run windows_count_script w of
             (Err e, w') \<Rightarrow> (None, w')
           | (Ok out, w') \<Rightarrow> (parse_uint (2 ^ 64) (trim out), w')))"

definition ks_teardown :: "platform \<Rightarrow> 'w runner \<Rightarrow> 'w \<Rightarrow> 'w" where
  "ks_teardown plat run w =
     (case plat of
        Linux \<Rightarrow> snd (run [''nft'', ''delete'', ''table'', ''inet'', ''chameleon_ks''] [] w)
      | Windows \<Rightarrow> snd (run_powershell run windows_teardown_script w))"

definition ks_is_engaged :: "platform \<Rightarrow> 'w runner \<Rightarrow> 'w \<Rightarrow> bool \<times> 'w" where
  "ks_is_engaged plat run w =
     (case plat of
        Linux \<Rightarrow> run_succeeds run [''nft'', ''list'', ''table'', ''inet'', ''chameleon_ks''] w
      | Windows \<Rightarrow>
          (case run_powershell_capture run windows_query_script w of
             (Err e, w') \<Rightarrow> (False, w')
           | (Ok out, w') \<Rightarrow> (contains out ''ENGAGED'', w')))"

definition ks_engage :: "platform \<Rightarrow> 'w runner \<Rightarrow> sock_addr \<Rightarrow> string \<Rightarrow> 'w \<Rightarrow> kill_switch result \<times> 'w" where
  "ks_engage plat run server tun w =
     (if unsafe_tun_name tun
      then (Err (KillSwitchErr (''refusing unsafe tun name '' @ SQ @ tun @ SQ)), w)
      else case engage_backend plat run server tun w of
          (Err e, w1) \<Rightarrow> (Err e, w1)
        | (Ok _, w1) \<Rightarrow>
            (let (n, w2) = other_allow_rules_hint plat run w1
             in (Ok \<lparr> ks_engaged = True, ks_other_allow_rules = n \<rparr>, w2)))"

definition ks_disengage :: "platform \<Rightarrow> 'w runner \<Rightarrow> kill_switch \<Rightarrow> 'w \<Rightarrow> kill_switch \<times> 'w" where
  "ks_disengage plat run ks w =
     (if \<not> ks_engaged ks then (ks, w) else (ks\<lparr> ks_engaged := False \<rparr>, ks_teardown plat run w))"

definition ks_clear :: "platform \<Rightarrow> 'w runner \<Rightarrow> 'w \<Rightarrow> 'w" where
  "ks_clear plat run w = ks_teardown plat run w"

section \<open>What nftables promises\<close>

text \<open>
  The fragment of the rule language the switch uses: a packet leaves through an interface (a trailing
  asterisk in \<open>oifname\<close> is a wildcard), to an address, perhaps as UDP between two ports or as an ICMPv6 message.
  An address in a rule is the one that prints as it does.
\<close>

record packet =
  p_oif :: string
  p_dst :: ip_addr
  p_udp :: "(nat \<times> nat) option"
  p_icmp6 :: "string option"

datatype nft_rule =
    OifName string
  | NeighbourDiscovery
  | LinkLocal
  | DhcpClient
  | Daddr ip_addr
  | Dnet bytes nat

definition name_matches :: "string \<Rightarrow> string \<Rightarrow> bool" where
  "name_matches pat name =
     (if pat \<noteq> [] \<and> last pat = CHR ''*'' then starts_with name (butlast pat) else name = pat)"

definition nd_types :: "string list" where
  "nd_types = [''nd-neighbor-solicit'', ''nd-neighbor-advert'', ''nd-router-solicit'', ''nd-router-advert'', ''echo-request'']"

fun link_local :: "ip_addr \<Rightarrow> bool" where
  "link_local (V6 bs) = (bs ! 0 = 0xFE \<and> and (bs ! 1) 0xC0 = 0x80)"
| "link_local (V4 bs) = False"

fun in_net :: "bytes \<Rightarrow> nat \<Rightarrow> ip_addr \<Rightarrow> bool" where
  "in_net net pfx (V4 bs) = (ipv4_network bs pfx = net)"
| "in_net net pfx (V6 bs) = False"

fun rule_matches :: "nft_rule \<Rightarrow> packet \<Rightarrow> bool" where
  "rule_matches (OifName n) p = name_matches n (p_oif p)"
| "rule_matches NeighbourDiscovery p = (case p_icmp6 p of Some ty \<Rightarrow> ty \<in> set nd_types | None \<Rightarrow> False)"
| "rule_matches LinkLocal p = link_local (p_dst p)"
| "rule_matches DhcpClient p = (p_udp p = Some (68, 67))"
| "rule_matches (Daddr ip) p = (show_ip (p_dst p) = show_ip ip)"
| "rule_matches (Dnet net pfx) p = in_net net pfx (p_dst p)"

fun rule_text :: "nft_rule \<Rightarrow> string" where
  "rule_text (OifName n) = ''oifname '' @ DQ @ n @ DQ @ '' accept''"
| "rule_text NeighbourDiscovery =
     ''icmpv6 type { nd-neighbor-solicit, nd-neighbor-advert, nd-router-solicit, nd-router-advert, echo-request } accept''"
| "rule_text LinkLocal = ''ip6 daddr fe80::/10 accept''"
| "rule_text DhcpClient = ''udp sport 68 udp dport 67 accept''"
| "rule_text (Daddr ip) = (case ip of V4 bs \<Rightarrow> ''ip daddr '' @ show_v4 bs @ '' accept'' | V6 bs \<Rightarrow> ''ip6 daddr '' @ show_v6 bs @ '' accept'')"
| "rule_text (Dnet net pfx) = ''ip daddr '' @ show_v4 net @ ''/'' @ show_nat pfx @ '' accept''"

fun rule_safe :: "nft_rule \<Rightarrow> bool" where
  "rule_safe (OifName n) = (\<not> unsafe_tun_name n)"
| "rule_safe (Dnet net pfx) = (length net = 4)"
| "rule_safe r = True"

definition nft_text :: "nft_rule list \<Rightarrow> string" where
  "nft_text rs =
     join [CHR 0x0A]
       ([''add table inet chameleon_ks'', ''delete table inet chameleon_ks'', ''table inet chameleon_ks {'',
         [CHR 0x09] @ ''chain output {'', TABS @ ''type filter hook output priority 0; policy drop;'']
        @ map (\<lambda>r. TABS @ rule_text r) rs @ [[CHR 0x09] @ ''}'', ''}''])"

text \<open>
  \<open>flt w\<close> is what the table of the switch lets out in the world \<open>w\<close>, when there is one. Loading a file
  is atomic; rules are accepted in any order, the policy drops the rest; the queries change nothing.
\<close>

definition nft_ok :: "'w runner \<Rightarrow> ('w \<Rightarrow> (packet \<Rightarrow> bool) option) \<Rightarrow> bool" where
  "nft_ok run flt \<longleftrightarrow>
     (\<forall>rs w. (\<forall>r\<in>set rs. rule_safe r) \<longrightarrow>
        (let (q, w') = run [''nft'', ''-f'', ''-''] (nft_text rs) w
         in flt w' = (if ran_ok q then Some (\<lambda>p. \<exists>r\<in>set rs. rule_matches r p) else flt w))) \<and>
     (\<forall>w. flt (snd (run [''nft'', ''delete'', ''table'', ''inet'', ''chameleon_ks''] [] w)) = None) \<and>
     (\<forall>w. let (q, w') = run [''nft'', ''list'', ''table'', ''inet'', ''chameleon_ks''] [] w
          in ran_ok q = (flt w \<noteq> None) \<and> flt w' = flt w) \<and>
     (\<forall>w. flt (snd (run [''ip'', ''route'', ''show'', ''default''] [] w)) = flt w) \<and>
     (\<forall>dev w. flt (snd (run [''ip'', ''-o'', ''-f'', ''inet'', ''addr'', ''show'', ''dev'', dev] [] w)) = flt w)"

text \<open>The weaker promise: \<open>nft\<close> may also fail to delete or to list, for want of privilege or because it does
  not start; a failed load changes nothing, and only an existing table can be listed.\<close>

definition nft_loads :: "'w runner \<Rightarrow> ('w \<Rightarrow> (packet \<Rightarrow> bool) option) \<Rightarrow> bool" where
  "nft_loads run flt \<longleftrightarrow>
     (\<forall>rs w. (\<forall>r\<in>set rs. rule_safe r) \<longrightarrow>
        (let (q, w') = run [''nft'', ''-f'', ''-''] (nft_text rs) w
         in flt w' = (if ran_ok q then Some (\<lambda>p. \<exists>r\<in>set rs. rule_matches r p) else flt w))) \<and>
     (\<forall>w. let (q, w') = run [''nft'', ''delete'', ''table'', ''inet'', ''chameleon_ks''] [] w
          in flt w' = None \<or> \<not> ran_ok q \<and> flt w' = flt w) \<and>
     (\<forall>w. let (q, w') = run [''nft'', ''list'', ''table'', ''inet'', ''chameleon_ks''] [] w
          in (ran_ok q \<longrightarrow> flt w \<noteq> None) \<and> flt w' = flt w) \<and>
     (\<forall>w. flt (snd (run [''ip'', ''route'', ''show'', ''default''] [] w)) = flt w) \<and>
     (\<forall>dev w. flt (snd (run [''ip'', ''-o'', ''-f'', ''inet'', ''addr'', ''show'', ''dev'', dev] [] w)) = flt w)"

lemma nft_ok_loads: "nft_ok run flt \<Longrightarrow> nft_loads run flt"
  unfolding nft_ok_def nft_loads_def Let_def case_prod_beta by blast

definition ks_rules :: "sock_addr \<Rightarrow> string \<Rightarrow> (bytes \<times> nat) option \<Rightarrow> nft_rule list" where
  "ks_rules server tun lan =
     [OifName ''lo'', OifName tun, NeighbourDiscovery, LinkLocal, DhcpClient, Daddr (sa_ip server)] @
     (case lan of Some (net, pfx) \<Rightarrow> [Dnet net pfx] | None \<Rightarrow> [])"

lemma build_ruleset_rules: "build_ruleset server tun lan = nft_text (ks_rules server tun lan)"
  by (cases "sa_ip server"; cases lan) (simp_all add: build_ruleset_def nft_text_def ks_rules_def split: prod.splits)

lemma u32_v4_length [simp]: "length (u32_v4 x) = 4"
  by (simp add: u32_v4_def)

lemma ipv4_network_length [simp]: "length (ipv4_network ip pfx) = 4"
  by (simp add: ipv4_network_def)

lemma scan_inet_length: "scan_inet ts = Some (net, pfx) \<Longrightarrow> length net = 4"
  by (induction ts rule: scan_inet.induct)
    (auto simp: parse_cidr_word_def split: if_splits option.splits prod.splits)

lemma first_inet_length: "first_inet ls = Some (net, pfx) \<Longrightarrow> length net = 4"
  by (induction ls) (auto split: option.splits dest: scan_inet_length)

lemma local_subnet_length: "local_subnet run w = (Some (net, pfx), w') \<Longrightarrow> length net = 4"
  by (auto simp: local_subnet_def iface_ipv4_cidr_def split: prod.splits option.splits dest: first_inet_length)

lemma default_route_dev_world:
  "snd (default_route_dev run w) = snd (run [''ip'', ''route'', ''show'', ''default''] [] w)"
  unfolding run_stdout_world[symmetric] by (simp add: default_route_dev_def split: prod.splits option.splits)

lemma iface_ipv4_cidr_world:
  "snd (iface_ipv4_cidr run dev w) = snd (run [''ip'', ''-o'', ''-f'', ''inet'', ''addr'', ''show'', ''dev'', dev] [] w)"
  unfolding run_stdout_world[symmetric] by (simp add: iface_ipv4_cidr_def split: prod.splits option.splits)

lemma local_subnet_filter: "nft_loads run flt \<Longrightarrow> flt (snd (local_subnet run w)) = flt w"
  using default_route_dev_world[of run w] iface_ipv4_cidr_world[of run]
  by (auto simp: local_subnet_def nft_loads_def split: prod.splits option.splits)

lemma nft_apply_run:
  "snd (nft_apply run text w) = snd (run [''nft'', ''-f'', ''-''] text w)"
  "fst (nft_apply run text w) = Ok () \<longleftrightarrow> ran_ok (fst (run [''nft'', ''-f'', ''-''] text w))"
  by (simp_all add: nft_apply_def split: prod.splits sum.splits run_fault.splits)

lemma nft_load:
  assumes "nft_loads run flt" and "\<forall>r\<in>set rs. rule_safe r" and "nft_apply run (nft_text rs) w = (r, w')"
  shows "flt w' = (case r of Ok _ \<Rightarrow> Some (\<lambda>p. \<exists>r\<in>set rs. rule_matches r p) | Err _ \<Rightarrow> flt w)"
proof -
  have "flt (snd (run [''nft'', ''-f'', ''-''] (nft_text rs) w)) =
      (if ran_ok (fst (run [''nft'', ''-f'', ''-''] (nft_text rs) w))
       then Some (\<lambda>p. \<exists>r\<in>set rs. rule_matches r p) else flt w)"
    using assms(1,2) unfolding nft_loads_def Let_def case_prod_beta by blast
  then show ?thesis using nft_apply_run[of run "nft_text rs" w] assms(3) by (cases r) auto
qed

text \<open>What the rules of the switch let out together. It is wider than the module documents, see
  \<open>documented_egress\<close>.\<close>

definition ks_policy :: "sock_addr \<Rightarrow> string \<Rightarrow> (bytes \<times> nat) option \<Rightarrow> packet \<Rightarrow> bool" where
  "ks_policy server tun lan p \<longleftrightarrow>
     p_oif p = ''lo'' \<or> name_matches tun (p_oif p) \<or> show_ip (p_dst p) = show_ip (sa_ip server) \<or>
     (\<exists>net pfx. lan = Some (net, pfx) \<and> in_net net pfx (p_dst p)) \<or> p_udp p = Some (68, 67) \<or>
     link_local (p_dst p) \<or> (\<exists>ty\<in>set nd_types. p_icmp6 p = Some ty)"

lemma ks_rules_policy: "(\<exists>r\<in>set (ks_rules server tun lan). rule_matches r p) = ks_policy server tun lan p"
  by (auto simp: ks_rules_def ks_policy_def name_matches_def[of "''lo''"] split: option.splits)

lemma ks_rules_safe:
  "\<not> unsafe_tun_name tun \<Longrightarrow> (\<And>net pfx. lan = Some (net, pfx) \<Longrightarrow> length net = 4) \<Longrightarrow>
     \<forall>r\<in>set (ks_rules server tun lan). rule_safe r"
  by (auto simp: ks_rules_def unsafe_tun_name_def[of "''lo''"] split: option.splits)

lemma engage_loads:
  assumes nft: "nft_loads run flt" and run: "ks_engage Linux run server tun w = (r, w')"
  shows "case r of
           Ok ks \<Rightarrow> \<not> unsafe_tun_name tun \<and> ks = \<lparr> ks_engaged = True, ks_other_allow_rules = None \<rparr> \<and>
                     flt w' = Some (ks_policy server tun (fst (local_subnet run w)))
         | Err e \<Rightarrow> flt w' = flt w"
proof (cases "unsafe_tun_name tun")
  case True
  then show ?thesis using run by (auto simp: ks_engage_def)
next
  case False
  obtain lan w1 where lan: "local_subnet run w = (lan, w1)" by fastforce
  obtain q w2 where q: "nft_apply run (nft_text (ks_rules server tun lan)) w1 = (q, w2)" by fastforce
  have "\<forall>r\<in>set (ks_rules server tun lan). rule_safe r"
    by (rule ks_rules_safe[OF False]) (use lan local_subnet_length[of run w] in auto)
  from nft_load[OF nft this q]
  have "flt w2 = (case q of Ok _ \<Rightarrow> Some (ks_policy server tun lan) | Err _ \<Rightarrow> flt w)"
    using local_subnet_filter[OF nft, of w] lan by (simp add: ks_rules_policy split: sum.splits)
  then show ?thesis using run q lan False
    by (cases q) (auto simp: ks_engage_def engage_backend_def build_ruleset_rules other_allow_rules_hint_def)
qed

lemma engage_effect:
  assumes "nft_ok run flt" "ks_engage Linux run server tun w = (r, w')"
  shows "case r of
           Ok ks \<Rightarrow> \<not> unsafe_tun_name tun \<and> ks = \<lparr> ks_engaged = True, ks_other_allow_rules = None \<rparr> \<and>
                     flt w' = Some (ks_policy server tun (fst (local_subnet run w)))
         | Err e \<Rightarrow> flt w' = flt w"
  by (rule engage_loads [OF nft_ok_loads [OF assms(1)] assms(2)])

lemma query_effect: "nft_ok run flt \<Longrightarrow> fst (ks_is_engaged Linux run w) = (flt w \<noteq> None)"
  unfolding nft_ok_def Let_def case_prod_beta by (simp add: ks_is_engaged_def run_succeeds_ok)

lemma teardown_effect: "nft_ok run flt \<Longrightarrow> flt (ks_teardown Linux run w) = None"
  by (simp add: nft_ok_def ks_teardown_def)

text \<open>The egress the head of \<open>src/killswitch.rs\<close> lists: loopback, the tunnel interface, the server, the local subnet,
  DHCP, and of IPv6 only link-local addresses and neighbour discovery.\<close>

definition documented_egress :: "sock_addr \<Rightarrow> string \<Rightarrow> (bytes \<times> nat) option \<Rightarrow> packet \<Rightarrow> bool" where
  "documented_egress server tun lan p \<longleftrightarrow>
     p_oif p = ''lo'' \<or> p_oif p = tun \<or> show_ip (p_dst p) = show_ip (sa_ip server) \<or>
     (case lan of Some (net, pfx) \<Rightarrow> in_net net pfx (p_dst p) | None \<Rightarrow> False) \<or> p_udp p = Some (68, 67) \<or>
     link_local (p_dst p) \<or>
     (\<exists>ty\<in>set [''nd-neighbor-solicit'', ''nd-neighbor-advert'', ''nd-router-solicit'', ''nd-router-advert'']. p_icmp6 p = Some ty)"

lemma policy_documented:
  "ks_policy server tun lan p \<longleftrightarrow>
     documented_egress server tun lan p \<or> p_icmp6 p = Some ''echo-request'' \<or>
     tun \<noteq> [] \<and> last tun = CHR ''*'' \<and> starts_with (p_oif p) (butlast tun)"
proof -
  have "name_matches tun (p_oif p) \<or> p_oif p = tun \<longleftrightarrow>
      p_oif p = tun \<or> tun \<noteq> [] \<and> last tun = CHR ''*'' \<and> starts_with (p_oif p) (butlast tun)"
    by (auto simp: name_matches_def)
  moreover have "xs \<noteq> [] \<Longrightarrow> starts_with xs (butlast xs)" for xs
    using starts_with_append [of "butlast xs" "[last xs]"] by simp
  then have "p_oif p = tun \<Longrightarrow> name_matches tun (p_oif p)"
    by (auto simp: name_matches_def)
  ultimately have names: "name_matches tun (p_oif p) \<longleftrightarrow>
      p_oif p = tun \<or> tun \<noteq> [] \<and> last tun = CHR ''*'' \<and> starts_with (p_oif p) (butlast tun)" by blast
  have types: "(\<exists>ty\<in>set nd_types. p_icmp6 p = Some ty) \<longleftrightarrow> p_icmp6 p = Some ''echo-request'' \<or>
      (\<exists>ty\<in>set [''nd-neighbor-solicit'', ''nd-neighbor-advert'', ''nd-router-solicit'', ''nd-router-advert'']. p_icmp6 p = Some ty)"
    unfolding nd_types_def by auto
  have net: "(\<exists>net pfx. lan = Some (net, pfx) \<and> in_net net pfx (p_dst p)) \<longleftrightarrow>
      (case lan of Some (net, pfx) \<Rightarrow> in_net net pfx (p_dst p) | None \<Rightarrow> False)"
    by (auto split: option.splits)
  show ?thesis unfolding ks_policy_def documented_egress_def names types net by blast
qed

text \<open>C12: the kill switch on Linux, where \<open>nft\<close> loads a file atomically but may refuse to delete or to list. An unsafe
  tunnel name is refused before any program runs. When \<open>engage\<close> succeeds, exactly these packets leave the host: the
  egress the module documents (loopback, the tunnel interface, the server, the local subnet found, DHCP, IPv6 link-local
  and neighbour discovery) and, beyond what it documents, ICMPv6 echo requests to any destination and, for a tunnel name
  that ends in an asterisk, every interface whose name begins like it. When \<open>engage\<close> fails, whatever switch was in
  force stays in force. A query never reports a switch that is not there. Disengaging forgets the switch, and later calls
  do nothing; the rules are gone unless \<open>nft\<close> failed to delete them, in which case they stay as they are.\<close>

theorem engaged_switch_lets_out_policy_only:
  assumes nft: "nft_loads run flt" and run: "ks_engage Linux run server tun w = (r, w')"
  shows "(unsafe_tun_name tun \<longrightarrow> \<not> is_ok r \<and> w' = w) \<and>
         (\<forall>v. fst (ks_is_engaged Linux run v) \<longrightarrow> flt v \<noteq> None) \<and>
         (case r of
            Ok ks \<Rightarrow>
              (\<exists>f. flt w' = Some f \<and>
                 (\<forall>p. f p \<longleftrightarrow>
                    documented_egress server tun (fst (local_subnet run w)) p \<or> p_icmp6 p = Some ''echo-request'' \<or>
                    tun \<noteq> [] \<and> last tun = CHR ''*'' \<and> starts_with (p_oif p) (butlast tun))) \<and>
              (let (ks1, w1) = ks_disengage Linux run ks w'
               in \<not> ks_engaged ks1 \<and> (\<forall>v. ks_disengage Linux run ks1 v = (ks1, v)) \<and>
                  (flt w1 = None \<or>
                   flt w1 = flt w' \<and> \<not> ran_ok (fst (run [''nft'', ''delete'', ''table'', ''inet'', ''chameleon_ks''] [] w'))))
          | Err e \<Rightarrow> flt w' = flt w)"
proof -
  have query: "fst (ks_is_engaged Linux run v) \<Longrightarrow> flt v \<noteq> None" for v
    using nft unfolding nft_loads_def Let_def case_prod_beta by (auto simp: ks_is_engaged_def run_succeeds_ok)
  have unsafe: "\<not> is_ok r \<and> w' = w" if "unsafe_tun_name tun" using run that by (auto simp: ks_engage_def)
  have down: "flt (ks_teardown Linux run v) = None \<or> flt (ks_teardown Linux run v) = flt v \<and>
      \<not> ran_ok (fst (run [''nft'', ''delete'', ''table'', ''inet'', ''chameleon_ks''] [] v))" for v
    using nft unfolding nft_loads_def Let_def case_prod_beta ks_teardown_def platform.case by blast
  show ?thesis
  proof (cases r)
    case (Inl e)
    then show ?thesis using engage_loads [OF assms] unsafe query by auto
  next
    case (Inr ks)
    then have ks: "ks = \<lparr> ks_engaged = True, ks_other_allow_rules = None \<rparr>"
      "flt w' = Some (ks_policy server tun (fst (local_subnet run w)))"
      using engage_loads [OF assms] by auto
    have off: "ks_disengage Linux run ks w' = (ks\<lparr> ks_engaged := False \<rparr>, ks_teardown Linux run w')"
      "ks_disengage Linux run (ks\<lparr> ks_engaged := False \<rparr>) v = (ks\<lparr> ks_engaged := False \<rparr>, v)" for v
      by (simp_all add: ks_disengage_def ks(1))
    have "unsafe_tun_name tun \<longrightarrow> \<not> is_ok r \<and> w' = w" using unsafe by blast
    moreover have "\<exists>f. flt w' = Some f \<and> (\<forall>p. f p \<longleftrightarrow>
        documented_egress server tun (fst (local_subnet run w)) p \<or> p_icmp6 p = Some ''echo-request'' \<or>
        tun \<noteq> [] \<and> last tun = CHR ''*'' \<and> starts_with (p_oif p) (butlast tun))"
      by (intro exI conjI, rule ks(2)) (simp add: policy_documented)
    moreover have "\<not> ks_engaged (ks\<lparr> ks_engaged := False \<rparr>)" by simp
    ultimately show ?thesis
      using query down [of w'] off(2) unfolding Inr sum.case off(1) Let_def prod.case by blast
  qed
qed

text \<open>A runner that keeps the loaded file, and reads its rules line by line.\<close>

definition line_allows :: "packet \<Rightarrow> string \<Rightarrow> bool" where
  "line_allows p l =
     (let b = drop 2 l
      in if starts_with b ''oifname '' then name_matches (takeWhile (\<lambda>c. c \<noteq> CHR 0x22) (drop 9 b)) (p_oif p)
         else if starts_with b ''icmpv6 type '' then rule_matches NeighbourDiscovery p
         else if starts_with b ''ip6 daddr fe80::/10'' then link_local (p_dst p)
         else if starts_with b ''udp sport 68'' then p_udp p = Some (68, 67)
         else if starts_with b ''ip6 daddr '' then show_ip (p_dst p) = takeWhile (\<lambda>c. c \<noteq> CHR '' '') (drop 10 b)
         else if starts_with b ''ip daddr ''
         then (let a = takeWhile (\<lambda>c. c \<noteq> CHR '' '') (drop 9 b)
               in case split_once (CHR ''/'') a of
                    None \<Rightarrow> show_ip (p_dst p) = a
                  | Some (n, l) \<Rightarrow> (case (parse_v4 n, digits_val 10 0 l) of
                      (Some net, Some pfx) \<Rightarrow> in_net net pfx (p_dst p) | _ \<Rightarrow> False))
         else False)"

fun file_runner :: "string option runner" where
  "file_runner cmd inp w =
     (if cmd = [''nft'', ''-f'', ''-''] then (done_with [], Some inp)
      else if take 2 cmd = [''nft'', ''delete''] then ((if w = None then failed_with [] else done_with []), None)
      else if take 2 cmd = [''nft'', ''list''] then ((if w = None then failed_with [] else done_with []), w)
      else (done_with [], w))"

definition file_filter :: "string option \<Rightarrow> (packet \<Rightarrow> bool) option" where
  "file_filter w = map_option (\<lambda>text p. list_ex (line_allows p) (split_on (CHR 0x0A) text)) w"

lemma rule_text_line: "rule_safe r \<Longrightarrow> CHR 0x0A \<notin> set (rule_text r)"
  by (cases r rule: rule_text.cases)
    (auto simp: no_addr unsafe_tun_name_def DQ_def split: ip_addr.splits)

lemma line_allows_rule:
  assumes "rule_safe r"
  shows "line_allows p (TABS @ rule_text r) = rule_matches r p"
proof (cases r)
  case (OifName n)
  then have "\<forall>c\<in>set n. c \<noteq> CHR 0x22" using assms by (auto simp: unsafe_tun_name_def)
  then show ?thesis using OifName by (simp add: line_allows_def TABS_def DQ_def)
next
  case (Daddr ip)
  show ?thesis
  proof (cases ip)
    case (V4 bs)
    have "CHR ''/'' \<notin> set (show_v4 bs)" "\<forall>c\<in>set (show_v4 bs). c \<noteq> CHR '' ''" using no_addr by auto
    then show ?thesis using V4 Daddr by (simp add: line_allows_def TABS_def split_once_def)
  next
    case (V6 bs)
    have "CHR ''/'' \<notin> set (show_v6 bs @ '' accept'')" and sp: "\<forall>c\<in>set (show_v6 bs). c \<noteq> CHR '' ''" using no_addr by auto
    then have "\<not> starts_with (show_v6 bs @ '' accept'') ''fe80::/10''"
      using starts_with_subset[of "show_v6 bs @ '' accept''" "''fe80::/10''"] by auto
    then show ?thesis using V6 Daddr sp by (simp add: line_allows_def TABS_def)
  qed
next
  case (Dnet net pfx)
  have "CHR ''/'' \<notin> set (show_v4 net)" "\<forall>c\<in>set (show_v4 net @ ''/'' @ show_nat pfx). c \<noteq> CHR '' ''"
    using no_addr by auto
  then have "takeWhile (\<lambda>c. c \<noteq> CHR '' '') ((show_v4 net @ ''/'' @ show_nat pfx) @ '' accept'') = show_v4 net @ ''/'' @ show_nat pfx"
    "split_once (CHR ''/'') (show_v4 net @ ''/'' @ show_nat pfx) = Some (show_v4 net, show_nat pfx)"
    by (simp_all add: takeWhile_append2 split_once_append)
  then show ?thesis using Dnet assms by (simp add: line_allows_def TABS_def digits_val_show_nat parse_v4_show)
qed (simp_all add: line_allows_def TABS_def)

lemma file_filter_text:
  assumes "\<forall>r\<in>set rs. rule_safe r"
  shows "file_filter (Some (nft_text rs)) = Some (\<lambda>p. \<exists>r\<in>set rs. rule_matches r p)"
proof -
  let ?lines = "[''add table inet chameleon_ks'', ''delete table inet chameleon_ks'', ''table inet chameleon_ks {'',
         [CHR 0x09] @ ''chain output {'', TABS @ ''type filter hook output priority 0; policy drop;'']
        @ map (\<lambda>r. TABS @ rule_text r) rs @ [[CHR 0x09] @ ''}'', ''}'']"
  have "split_on (CHR 0x0A) (nft_text rs) = ?lines"
    unfolding nft_text_def by (rule split_on_join) (use assms rule_text_line in \<open>auto simp: TABS_def\<close>)
  moreover have "list_ex (line_allows p) (map (\<lambda>r. TABS @ rule_text r) rs) = (\<exists>r\<in>set rs. rule_matches r p)" for p
    using assms by (auto simp: list_ex_iff line_allows_rule)
  ultimately show ?thesis by (simp add: file_filter_def fun_eq_iff) (simp add: line_allows_def TABS_def)
qed

lemma file_runner_ok: "nft_ok file_runner file_filter"
  by (simp add: nft_ok_def file_filter_text) (simp add: file_filter_def)

text \<open>A host behind \<open>eth0\<close>; a packet to a resolver on the internet, outside the tunnel.\<close>

definition demo_endpoint :: sock_addr where
  "demo_endpoint = \<lparr> sa_ip = V4 [203, 0, 113, 7], sa_port = 51820 \<rparr>"

definition leak :: packet where
  "leak = \<lparr> p_oif = ''eth0'', p_dst = V4 [8, 8, 8, 8], p_udp = Some (5353, 53), p_icmp6 = None \<rparr>"

lemma demo_policy:
  "ks_policy demo_endpoint tun None leak = name_matches tun ''eth0''"
  "ks_policy demo_endpoint tun lan (leak\<lparr> p_dst := V4 [203, 0, 113, 7] \<rparr>)"
proof -
  have "show_ip (p_dst leak) \<noteq> show_ip (sa_ip demo_endpoint)"
    "\<not> link_local (p_dst leak)" "p_udp leak \<noteq> Some (68, 67)" "p_icmp6 leak = None" "p_oif leak \<noteq> ''lo''"
    by code_simp+
  moreover have "p_oif leak = ''eth0''" by (simp add: leak_def)
  ultimately show "ks_policy demo_endpoint tun None leak = name_matches tun ''eth0''"
    unfolding ks_policy_def by (metis option.inject option.distinct(1) prod.inject)
  show "ks_policy demo_endpoint tun lan (leak\<lparr> p_dst := V4 [203, 0, 113, 7] \<rparr>)"
    by (simp add: ks_policy_def demo_endpoint_def)
qed

text \<open>A runner on which \<open>nft\<close> cannot delete.\<close>

fun stuck_runner :: "string option runner" where
  "stuck_runner cmd inp w =
     (if take 2 cmd = [''nft'', ''delete''] then (failed_with [], w) else file_runner cmd inp w)"

text \<open>
  The switch holds the leak back and lets the tunnel's own packets out, and with them a ping to any IPv6 address. The
  check of the name admits the wildcard of \<open>oifname\<close>: with the name \<open>*\<close> the switch engages and holds nothing back.
\<close>

definition ping6 :: packet where
  "ping6 = \<lparr> p_oif = ''eth0'', p_dst = V6 [0x20, 1, 0x48, 0x60, 0x48, 0x60, 0, 0, 0, 0, 0, 0, 0, 0, 0x88, 0x88],
     p_udp = None, p_icmp6 = Some ''echo-request'' \<rparr>"

lemma ping6_undocumented: "\<not> documented_egress demo_endpoint ''chameleon0'' None ping6"
proof -
  have "segments [0x20, 1, 0x48, 0x60, 0x48, 0x60, 0, 0, 0, 0, 0, 0, 0, 0, 0x88, 0x88] = [8193, 18528, 18528, 0, 0, 0, 0, 34952]"
    by simp
  then have "CHR '':'' \<in> set (show_ip (p_dst ping6))"
    by (simp add: ping6_def show_v6_def show_hex.simps hex_char_def)
  moreover have "CHR '':'' \<notin> set (show_ip (sa_ip demo_endpoint))" by code_simp
  ultimately have "show_ip (p_dst ping6) \<noteq> show_ip (sa_ip demo_endpoint)" by metis
  then show ?thesis by (simp add: documented_egress_def ping6_def)
qed

theorem engaged_switch_lets_out_policy_only_witness:
  "(let (r, w) = ks_engage Linux file_runner demo_endpoint ''chameleon0'' None
    in is_ok r \<and> (\<exists>f. file_filter w = Some f \<and> \<not> f leak \<and> f (leak\<lparr> p_dst := V4 [203, 0, 113, 7] \<rparr>) \<and> f ping6)) \<and>
   (let (r, w) = ks_engage Linux file_runner demo_endpoint ''*'' None
    in is_ok r \<and> (\<exists>f. file_filter w = Some f \<and> f leak))"
proof -
  have ok: "is_ok (fst (ks_engage Linux file_runner demo_endpoint ''chameleon0'' None))"
    "is_ok (fst (ks_engage Linux file_runner demo_endpoint ''*'' None))" by code_simp+
  have lan: "fst (local_subnet file_runner None) = None" by code_simp
  have doc: "\<not> documented_egress demo_endpoint ''chameleon0'' None leak" "p_icmp6 leak = None"
    "documented_egress demo_endpoint ''chameleon0'' None (leak\<lparr> p_dst := V4 [203, 0, 113, 7] \<rparr>)"
    "p_icmp6 ping6 = Some ''echo-request''" "last ''chameleon0'' \<noteq> CHR ''*''" by code_simp+
  have wild: "''*'' \<noteq> []" "last ''*'' = CHR ''*''" "starts_with (p_oif leak) (butlast ''*'')" by code_simp+
  note T = engaged_switch_lets_out_policy_only [OF nft_ok_loads [OF file_runner_ok]]
  obtain r w where r: "ks_engage Linux file_runner demo_endpoint ''chameleon0'' None = (r, w)" by fastforce
  then obtain ks where "r = Ok ks" using ok(1) by (cases r) auto
  with T [OF r] obtain f where f: "file_filter w = Some f" "\<And>p. f p \<longleftrightarrow>
      documented_egress demo_endpoint ''chameleon0'' None p \<or> p_icmp6 p = Some ''echo-request'' \<or>
      ''chameleon0'' \<noteq> [] \<and> last ''chameleon0'' = CHR ''*'' \<and> starts_with (p_oif p) (butlast ''chameleon0'')"
    by (auto simp only: lan sum.case)
  have one: "\<not> f leak" "f (leak\<lparr> p_dst := V4 [203, 0, 113, 7] \<rparr>)" "f ping6"
    unfolding f(2) using doc by simp_all
  obtain r' w' where r': "ks_engage Linux file_runner demo_endpoint ''*'' None = (r', w')" by fastforce
  then obtain ks' where "r' = Ok ks'" using ok(2) by (cases r') auto
  with T [OF r'] obtain f' where f': "file_filter w' = Some f'" "\<And>p. f' p \<longleftrightarrow>
      documented_egress demo_endpoint ''*'' None p \<or> p_icmp6 p = Some ''echo-request'' \<or>
      ''*'' \<noteq> [] \<and> last ''*'' = CHR ''*'' \<and> starts_with (p_oif p) (butlast ''*'')"
    by (auto simp only: lan sum.case)
  have "f' leak" unfolding f'(2) using wild by blast
  then show ?thesis using ok r r' f(1) f'(1) one by auto
qed

text \<open>A failed deletion goes unnoticed: the switch is forgotten, and its rules stay.\<close>

lemma stuck_runner_loads: "nft_loads stuck_runner file_filter"
  by (simp add: nft_loads_def file_filter_text) (simp add: file_filter_def)

theorem disengage_ignores_failure:
  "ks_disengage Linux stuck_runner \<lparr> ks_engaged = True, ks_other_allow_rules = None \<rparr> w =
     (\<lparr> ks_engaged = False, ks_other_allow_rules = None \<rparr>, w)"
  by (simp add: ks_disengage_def ks_teardown_def)

end
