(* ===== verification/Gui.thy ===== *)
theory Gui
  imports Client Killswitch Setup
begin

text \<open>
  The desktop client (\<open>gui/src/main.rs\<close>): its state \<open>App\<close>, the messages of the user and of its background jobs, the
  handler \<open>update\<close>, the job that connects, and which buttons \<open>view\<close> offers. The host is that of \<open>Client\<close>; the
  firewall is that of \<open>Killswitch\<close>. \<open>gui_step\<close> interleaves messages, jobs, the tunnel of the client, other programs
  and a restart of the application; a message of a button is handled before the next is offered. Drawing, the
  diagnostics file, the browser and the file dialog are not modelled, the request for the latest release is its answer.
\<close>

section \<open>State and messages\<close>

text \<open>The version of the crate (\<open>Cargo.toml\<close>).\<close>

definition VERSION :: string where
  "VERSION = ''0.9.3''"

text \<open>\<open>Display\<close> of an error and of a profile.\<close>

definition hex_byte :: "byte \<Rightarrow> string" where
  "hex_byte b = ''0x'' @ [hex_digit (drop_bit 4 b), hex_digit (b AND 15)]"

fun error_text :: "chameleon_error \<Rightarrow> string" where
  "error_text (Io e) = ''UDP / IO error: '' @ e"
| "error_text (PacketTooShort got need) = ''Packet too short: got '' @ show_nat got @ '', need '' @ show_nat need"
| "error_text (UnknownFrameType b) = ''Unknown frame type byte: '' @ hex_byte b"
| "error_text (PayloadTooLarge n) = ''Payload exceeds maximum size '' @ show_nat n"
| "error_text (HandshakeErr st msg) = ''Handshake error in state '' @ SQ @ st @ SQ @ '': '' @ msg"
| "error_text DecryptionFailed = ''Decryption failed (tag mismatch, replay, or corrupt data)''"
| "error_text (Kdf e) = ''Key derivation failed: '' @ e"
| "error_text ChannelClosed = ''Channel closed (receiver dropped)''"
| "error_text RekeyRequired = ''Rekey required: nonce counter exhausted''"
| "error_text (RouteErr e) = ''Route error: '' @ e"
| "error_text (KillSwitchErr e) = ''Kill switch error: '' @ e"
| "error_text (DnsErr e) = ''DNS error: '' @ e"
| "error_text (InternalErr e) = ''Internal error: '' @ e"

fun profile_label :: "traffic_profile \<Rightarrow> string" where
  "profile_label ProfStealth = ''Maximum Privacy''"
| "profile_label ProfBalanced = ''Balanced''"
| "profile_label ProfThroughput = ''High Speed''"
| "profile_label ProfOff = ''Fastest''"
| "profile_label ProfCustom = ''Custom''"

fun profile_hint :: "traffic_profile \<Rightarrow> string" where
  "profile_hint ProfOff = ''No timing shaping: full line speed. Burst and idle patterns stay visible.''"
| "profile_hint ProfBalanced =
     ''Hides when you are active, with a small cover-traffic budget. Capped at ~118 Mbit/s each way.''"
| "profile_hint ProfThroughput =
     ''Like Balanced, capped at ~460 Mbit/s. About 20% slower than Fastest on a 300/150 line.''"
| "profile_hint ProfStealth =
     ''Constant traffic 24/7, capped at ~5 Mbit/s: downloads slow to ~5-10 Mbit/s and it uses bandwidth while connected.''"
| "profile_hint ProfCustom = ''Uses the individual [traffic] fields of your config.''"

datatype update_status = NotChecked | Checking | UpToDate | Available string | UpdateError string

record gh_release =
  gr_tag_name :: string
  gr_body :: string
  gr_html_url :: string

text \<open>The release notes are kept as their text; the parser of the markdown widget only shapes what is drawn.\<close>

record gui =
  a_config_path :: string
  a_config :: "app_config option"
  a_server :: string
  a_profile :: traffic_profile
  a_client :: "client option"
  a_status :: "status option"
  a_warnings :: "string list"
  a_log :: "string list"
  a_connecting :: bool
  a_kill_switch :: bool
  a_ks :: "kill_switch option"
  a_ks_orphan :: bool
  a_update_status :: update_status
  a_release_notes :: "string option"
  a_release_url :: "string option"

text \<open>How the connect ended, and what became of the kill switch.\<close>

type_synonym connect_outcome = "(string + client) \<times> (string + kill_switch) option"

datatype gui_message =
    ConfigPathChanged string
  | ServerChanged string
  | BrowseConfig
  | ConfigPicked "string option"
  | ProfileChanged traffic_profile
  | LoadConfig
  | Connect
  | Connected connect_outcome
  | Disconnect
  | Tick
  | ToggleKillSwitch bool
  | DisableKillSwitch
  | OpenRepo
  | CheckForUpdates
  | UpdateChecked "string + gh_release"
  | LinkClicked string
  | OpenLatestRelease

text \<open>What a connect was started with, and the job a message leaves behind.\<close>

record connect_job =
  cj_config :: app_config
  cj_server :: sock_addr
  cj_kill_switch :: bool

datatype gui_task = NoTask | PickFile | FetchRelease | ConnectTask connect_job

section \<open>Versions\<close>

definition strip_prefix_v :: "string \<Rightarrow> string" where
  "strip_prefix_v v = (if starts_with v ''v'' then drop 1 v else v)"

definition parse_semver :: "string \<Rightarrow> (nat \<times> nat \<times> nat) option" where
  "parse_semver v =
     (case split_on (CHR ''.'') (strip_prefix_v v) of
        major # minor # patch # _ \<Rightarrow>
          Option.bind (parse_uint (2 ^ 64) major) (\<lambda>ma.
          Option.bind (parse_uint (2 ^ 64) minor) (\<lambda>mi.
          map_option (\<lambda>pa. (ma, mi, pa)) (parse_uint (2 ^ 64) patch)))
      | _ \<Rightarrow> None)"

text \<open>The order of Rust tuples.\<close>

definition version_less :: "nat \<times> nat \<times> nat \<Rightarrow> nat \<times> nat \<times> nat \<Rightarrow> bool" where
  "version_less a b =
     (case (a, b) of ((a1, a2, a3), (b1, b2, b3)) \<Rightarrow>
        a1 < b1 \<or> a1 = b1 \<and> (a2 < b2 \<or> a2 = b2 \<and> a3 < b3))"

definition compare_release :: "string \<Rightarrow> update_status" where
  "compare_release tag =
     (case (parse_semver tag, parse_semver VERSION) of
        (Some latest, Some current) \<Rightarrow> if version_less current latest then Available tag else UpToDate
      | _ \<Rightarrow> UpdateError ''couldn't compare version numbers'')"

section \<open>The handlers\<close>

definition LOG_LINES :: nat where
  "LOG_LINES = 200"

definition log_line :: "string \<Rightarrow> gui \<Rightarrow> gui" where
  "log_line l g =
     (let lines = a_log g @ [l] in g\<lparr> a_log := (if length lines > LOG_LINES then tl lines else lines) \<rparr>)"

text \<open>The characters of the messages outside ASCII, in UTF-8.\<close>

definition WARN_SIGN :: string where
  "WARN_SIGN = [CHR 0xE2, CHR 0x9A, CHR 0xA0]"

definition ELLIPSIS :: string where
  "ELLIPSIS = [CHR 0xE2, CHR 0x80, CHR 0xA6]"

definition ARROW :: string where
  "ARROW = [CHR 0xE2, CHR 0x86, CHR 0x92]"

definition on_off :: "bool \<Rightarrow> string" where
  "on_off b = (if b then ''on'' else ''off'')"

definition gui_new :: "platform \<Rightarrow> 'w runner \<Rightarrow> 'w \<Rightarrow> gui \<times> 'w" where
  "gui_new plat run w =
     (let (orphan, w') = ks_is_engaged plat run w
      in (\<lparr> a_config_path = ''config.toml'', a_config = None, a_server = [], a_profile = ProfOff, a_client = None,
           a_status = None, a_warnings = [],
           a_log = [''Load a config and connect.''] @
             (if orphan then [WARN_SIGN @ '' Kill switch is still active from a previous session.''] else []),
           a_connecting = False, a_kill_switch = False, a_ks = None, a_ks_orphan = orphan,
           a_update_status = NotChecked, a_release_notes = None, a_release_url = None \<rparr>, w'))"

text \<open>What a handler meets: the file at the path, the clock, the faults of the file system when the DNS override is put
  back, and the random numbers of a Close frame.\<close>

record gui_env =
  ge_file :: "string + string"
  ge_now :: int
  ge_fault1 :: "fs_fault option"
  ge_fault2 :: "fs_fault option"
  ge_rng :: rng

definition on_profile :: "traffic_profile \<Rightarrow> gui \<Rightarrow> gui" where
  "on_profile p g =
     (let g1 = g\<lparr> a_profile := p, a_config := map_option (\<lambda>c. c\<lparr> ac_traffic := (ac_traffic c)\<lparr> tc_profile := p \<rparr> \<rparr>) (a_config g) \<rparr>;
          g2 = g1\<lparr> a_warnings := (case a_config g1 of None \<Rightarrow> [] | Some c \<Rightarrow> security_warnings c) \<rparr>
      in case a_client g2 of
           Some c \<Rightarrow>
             let tc = (case a_config g2 of None \<Rightarrow> traffic_default | Some cfg \<Rightarrow> ac_traffic cfg)
             in log_line (''Profile changed live '' @ ARROW @ '' '' @ profile_label p)
                  (g2\<lparr> a_client := Some (set_traffic (effective (tc\<lparr> tc_profile := p \<rparr>)) c) \<rparr>)
         | None \<Rightarrow> log_line (''Profile: '' @ profile_label p) g2)"

definition on_load :: "toml_lib \<Rightarrow> string + string \<Rightarrow> gui \<Rightarrow> gui" where
  "on_load T contents g =
     (case config_load T (a_config_path g) contents of
        Ok cfg \<Rightarrow>
          let g1 = g\<lparr> a_warnings := security_warnings cfg,
                      a_server := (case nc_server_addr (ac_network cfg) of Some s \<Rightarrow> show_sock_addr s | None \<Rightarrow> a_server g),
                      a_profile := tc_profile (ac_traffic cfg), a_kill_switch := tn_kill_switch (ac_tun cfg) \<rparr>;
              g2 = log_line (''Config loaded: '' @ a_config_path g @ '' (profile: '' @ profile_label (tc_profile (ac_traffic cfg)) @
                     '', kill switch: '' @ on_off (tn_kill_switch (ac_tun cfg)) @ '')'') g1
          in g2\<lparr> a_config := Some cfg \<rparr>
      | Err e \<Rightarrow> log_line (''Config error: '' @ error_text e) g)"

definition on_connect :: "gui \<Rightarrow> gui_task \<times> gui" where
  "on_connect g =
     (case a_config g of
        None \<Rightarrow> (NoTask, log_line ''Load a config first.'' g)
      | Some c \<Rightarrow>
          let cfg = c\<lparr> ac_traffic := (ac_traffic c)\<lparr> tc_profile := a_profile g \<rparr> \<rparr>
          in case (case parse_sock_addr (a_server g) of Some s \<Rightarrow> Some s | None \<Rightarrow> nc_server_addr (ac_network cfg)) of
               None \<Rightarrow> (NoTask, log_line ''No valid server address (host:port).'' g)
             | Some server \<Rightarrow>
                 (ConnectTask \<lparr> cj_config = cfg, cj_server = server, cj_kill_switch = a_kill_switch g \<rparr>,
                  log_line (''Connecting to '' @ show_sock_addr server @ '' '' @ ELLIPSIS) (g\<lparr> a_connecting := True \<rparr>)))"

definition take_switch :: "(string + kill_switch) option \<Rightarrow> gui \<Rightarrow> gui" where
  "take_switch ks g =
     (case ks of
        Some (Inr k) \<Rightarrow>
          let g1 = log_line (''Kill switch engaged '' @ DASH @ '' traffic is locked to the tunnel.'') g;
              g2 = (case ks_other_allow_rules k of
                 Some n \<Rightarrow> if n > 0
                   then log_line (WARN_SIGN @ '' '' @ show_nat n @ '' other outbound-allow firewall rule(s) found '' @ DASH @
                          '' traffic matching one of those could bypass the kill switch.'') g1
                   else g1
               | None \<Rightarrow> g1)
          in g2\<lparr> a_ks := Some k, a_ks_orphan := False \<rparr>
      | Some (Inl e) \<Rightarrow> log_line (''Kill switch: '' @ e) g
      | None \<Rightarrow> g)"

definition on_connected ::
  "platform \<Rightarrow> 'w runner \<Rightarrow> gui_env \<Rightarrow> connect_outcome \<Rightarrow> gui \<times> fs \<times> 'w \<Rightarrow> gui \<times> fs \<times> 'w" where
  "on_connected plat run env out s =
     (let (g, h) = s; g1 = take_switch (snd out) (g\<lparr> a_connecting := False \<rparr>)
      in case fst out of
           Inr c \<Rightarrow>
             let st = client_status c (ge_now env);
                 g2 = log_line (''Connected '' @ DASH @ '' session '' @ show_nat (unat (st_session_id st))) g1
             in (g2\<lparr> a_status := Some st, a_client := Some c \<rparr>, client_drop plat run (ge_fault1 env) (ge_fault2 env) (a_client g) h)
         | Inl e \<Rightarrow>
             let g2 = log_line (''Connection failed: '' @ e) g1
             in (if a_ks g2 \<noteq> None
                 then log_line (WARN_SIGN @ '' Kill switch still ACTIVE '' @ DASH @ '' traffic stays blocked. Retry, '' @
                        ''or disable the kill switch to go online without the VPN.'') g2
                 else g2, h))"

definition on_disconnect :: "platform \<Rightarrow> 'w runner \<Rightarrow> gui_env \<Rightarrow> gui \<times> fs \<times> 'w \<Rightarrow> gui \<times> fs \<times> 'w" where
  "on_disconnect plat run env s =
     (let (g, h) = s;
          h1 = (case a_client g of
                  Some c \<Rightarrow>
                    let (c', h') = client_disconnect plat run (ge_fault1 env) (ge_fault2 env) c h (ge_rng env)
                    in client_drop plat run (ge_fault1 env) (ge_fault2 env) (Some c') h'
                | None \<Rightarrow> h);
          g1 = g\<lparr> a_client := None, a_status := None \<rparr>;
          (g2, h2) = (case a_ks g1 of
             Some k \<Rightarrow> (log_line ''Kill switch disengaged.'' (g1\<lparr> a_ks := None \<rparr>), fst h1, snd (ks_disengage plat run k (snd h1)))
           | None \<Rightarrow> (g1, h1))
      in (log_line ''Disconnected.'' g2, h2))"

definition on_tick :: "platform \<Rightarrow> 'w runner \<Rightarrow> gui_env \<Rightarrow> gui \<times> fs \<times> 'w \<Rightarrow> gui \<times> fs \<times> 'w" where
  "on_tick plat run env s =
     (let (g, h) = s
      in case a_client g of
           None \<Rightarrow> (g, h)
         | Some c \<Rightarrow>
             let st = client_status c (ge_now env)
             in if \<not> st_connected st
                then let g1 = log_line (''Tunnel closed (background loops stopped). '' @
                                ''Details are in chameleon-gui.log next to the binary.'') g;
                         g2 = g1\<lparr> a_client := None, a_status := None \<rparr>
                     in (if a_ks g2 \<noteq> None
                         then log_line (WARN_SIGN @ '' Kill switch ACTIVE '' @ DASH @ '' traffic is blocked. Reconnect, '' @
                                ''or disable the kill switch to go online without the VPN.'') g2
                         else g2, client_drop plat run (ge_fault1 env) (ge_fault2 env) (Some c) h)
                else (g\<lparr> a_status := Some st \<rparr>, h))"

definition on_toggle :: "bool \<Rightarrow> gui \<Rightarrow> gui" where
  "on_toggle on g =
     log_line (''Kill switch preference: '' @ on_off on)
       (g\<lparr> a_kill_switch := on,
           a_config := map_option (\<lambda>c. c\<lparr> ac_tun := (ac_tun c)\<lparr> tn_kill_switch := on \<rparr> \<rparr>) (a_config g) \<rparr>)"

definition on_disable :: "platform \<Rightarrow> 'w runner \<Rightarrow> gui \<times> fs \<times> 'w \<Rightarrow> gui \<times> fs \<times> 'w" where
  "on_disable plat run s =
     (case s of (g, f, w) \<Rightarrow>
        (log_line (''Kill switch disabled '' @ DASH @ '' connectivity restored.'') (g\<lparr> a_ks := None, a_ks_orphan := False \<rparr>),
         f, ks_clear plat run w))"

definition on_update_checked :: "string + gh_release \<Rightarrow> gui \<Rightarrow> gui" where
  "on_update_checked res g =
     (case res of
        Inr rel \<Rightarrow> g\<lparr> a_release_notes := Some (gr_body rel), a_release_url := Some (gr_html_url rel),
                      a_update_status := compare_release (gr_tag_name rel) \<rparr>
      | Inl e \<Rightarrow> g\<lparr> a_update_status := UpdateError e \<rparr>)"

fun gui_update ::
  "platform \<Rightarrow> 'w runner \<Rightarrow> toml_lib \<Rightarrow> gui_env \<Rightarrow> gui_message \<Rightarrow> gui \<times> fs \<times> 'w \<Rightarrow> gui_task \<times> gui \<times> fs \<times> 'w" where
  "gui_update plat run T env (ConfigPathChanged v) (g, h) = (NoTask, g\<lparr> a_config_path := v \<rparr>, h)"
| "gui_update plat run T env (ServerChanged v) (g, h) = (NoTask, g\<lparr> a_server := v \<rparr>, h)"
| "gui_update plat run T env BrowseConfig (g, h) = (PickFile, g, h)"
| "gui_update plat run T env (ConfigPicked picked) (g, h) =
     (case picked of Some path \<Rightarrow> (NoTask, on_load T (ge_file env) (g\<lparr> a_config_path := path \<rparr>), h) | None \<Rightarrow> (NoTask, g, h))"
| "gui_update plat run T env (ProfileChanged p) (g, h) = (NoTask, on_profile p g, h)"
| "gui_update plat run T env LoadConfig (g, h) = (NoTask, on_load T (ge_file env) g, h)"
| "gui_update plat run T env Connect (g, h) = (case on_connect g of (t, g') \<Rightarrow> (t, g', h))"
| "gui_update plat run T env (Connected out) (g, h) = (NoTask, on_connected plat run env out (g, h))"
| "gui_update plat run T env Disconnect (g, h) = (NoTask, on_disconnect plat run env (g, h))"
| "gui_update plat run T env Tick (g, h) = (NoTask, on_tick plat run env (g, h))"
| "gui_update plat run T env (ToggleKillSwitch on) (g, h) = (NoTask, on_toggle on g, h)"
| "gui_update plat run T env DisableKillSwitch (g, h) = (NoTask, on_disable plat run (g, h))"
| "gui_update plat run T env OpenRepo (g, h) = (NoTask, g, h)"
| "gui_update plat run T env CheckForUpdates (g, h) = (FetchRelease, g\<lparr> a_update_status := Checking \<rparr>, h)"
| "gui_update plat run T env (UpdateChecked res) (g, h) = (NoTask, on_update_checked res g, h)"
| "gui_update plat run T env (LinkClicked url) (g, h) = (NoTask, g, h)"
| "gui_update plat run T env OpenLatestRelease (g, h) = (NoTask, g, h)"

section \<open>The job that connects\<close>

definition ENGAGE_RETRIES :: nat where
  "ENGAGE_RETRIES = 4"

fun engage_attempts :: "platform \<Rightarrow> 'w runner \<Rightarrow> sock_addr \<Rightarrow> string \<Rightarrow> nat \<Rightarrow> 'w \<Rightarrow> kill_switch result \<times> 'w" where
  "engage_attempts plat run server tun 0 w = ks_engage plat run server tun w"
| "engage_attempts plat run server tun (Suc n) w =
     (case ks_engage plat run server tun w of
        (Ok k, w') \<Rightarrow> (Ok k, w')
      | (Err e, w') \<Rightarrow> engage_attempts plat run server tun n w')"

definition job_switch :: "platform \<Rightarrow> 'w runner \<Rightarrow> connect_job \<Rightarrow> 'w \<Rightarrow> (string + kill_switch) option \<times> 'w" where
  "job_switch plat run j w =
     (if cj_kill_switch j
      then if tn_route_all (ac_tun (cj_config j))
           then (case engage_attempts plat run (cj_server j) (tn_name (ac_tun (cj_config j))) ENGAGE_RETRIES w of
                   (Ok k, w') \<Rightarrow> (Some (Inr k), w')
                 | (Err e, w') \<Rightarrow> (Some (Inl (error_text e)), w'))
           else (Some (Inl ''skipped: needs full-tunnel (tun.route_all = true)''), w)
      else (None, w))"

text \<open>\<open>tun\<close> is how the creation of the device ended.\<close>

definition run_job ::
  "platform \<Rightarrow> 'w runner \<Rightarrow> crypto_lib \<Rightarrow> aead_algo \<Rightarrow> unit result \<Rightarrow> connect_env \<Rightarrow> rng \<Rightarrow> connect_job \<Rightarrow> fs \<times> 'w \<Rightarrow>
    connect_outcome \<times> fs \<times> 'w" where
  "run_job plat run C pref tun env r j h =
     (case build_auth C (cj_config j) of
        Err e \<Rightarrow> ((Inl (error_text e), None), h)
      | Ok auth \<Rightarrow>
          (case tun of
             Err e \<Rightarrow> ((Inl (error_text e), None), h)
           | Ok _ \<Rightarrow>
               let (ks, w1) = job_switch plat run j (snd h);
                   (res, h2) = client_connect plat run C pref (cj_config j) (cj_server j) auth env (fst h, w1) r
               in ((case res of Ok c \<Rightarrow> Inr c | Err e \<Rightarrow> Inl (error_text e), ks), h2)))"

section \<open>What the window offers\<close>

text \<open>The banner about the kill switch, and the messages of the buttons and fields that can be used.\<close>

definition ks_stranded :: "gui \<Rightarrow> bool" where
  "ks_stranded g \<longleftrightarrow> a_client g = None \<and> \<not> a_connecting g \<and> (a_ks_orphan g \<or> a_ks g \<noteq> None)"

fun offered :: "gui \<Rightarrow> gui_message \<Rightarrow> bool" where
  "offered g Connect = (\<not> a_connecting g \<and> a_client g = None)"
| "offered g Disconnect = (\<not> a_connecting g \<and> a_client g \<noteq> None)"
| "offered g DisableKillSwitch = ks_stranded g"
| "offered g CheckForUpdates = (case a_update_status g of NotChecked \<Rightarrow> True | UpdateError e \<Rightarrow> True | _ \<Rightarrow> False)"
| "offered g OpenLatestRelease = (case a_update_status g of Available v \<Rightarrow> True | _ \<Rightarrow> False)"
| "offered g (LinkClicked url) = (a_release_notes g \<noteq> None)"
| "offered g (ConfigPicked p) = False"
| "offered g (Connected out) = False"
| "offered g Tick = False"
| "offered g (UpdateChecked res) = False"
| "offered g _ = True"

text \<open>Messages that arrive by themselves: the dialog's and the request's answers, and the timer's, which may still be
  queued after the client is gone.\<close>

fun arrives :: "gui_message \<Rightarrow> bool" where
  "arrives (ConfigPicked p) = True"
| "arrives (UpdateChecked res) = True"
| "arrives Tick = True"
| "arrives _ = False"

section \<open>The application at work\<close>

record 'w desktop =
  dk_gui :: gui
  dk_job :: "connect_job option"
  dk_done :: "connect_outcome option"
  dk_host :: "fs \<times> 'w"

datatype gui_event = Press gui_message | Arrive gui_message | JobRuns | Deliver | Tunnel | Elsewhere | Restart

definition handle ::
  "platform \<Rightarrow> 'w runner \<Rightarrow> toml_lib \<Rightarrow> gui_env \<Rightarrow> gui_message \<Rightarrow> 'w desktop \<Rightarrow> 'w desktop" where
  "handle plat run T env m d =
     (let (t, g, h) = gui_update plat run T env m (dk_gui d, dk_host d)
      in d\<lparr> dk_gui := g, dk_host := h, dk_job := (case t of ConnectTask j \<Rightarrow> Some j | _ \<Rightarrow> dk_job d) \<rparr>)"

definition desktop_start :: "platform \<Rightarrow> 'w runner \<Rightarrow> fs \<times> 'w \<Rightarrow> 'w desktop" where
  "desktop_start plat run h =
     (let (g, w) = gui_new plat run (snd h) in \<lparr> dk_gui = g, dk_job = None, dk_done = None, dk_host = (fst h, w) \<rparr>)"

text \<open>\<open>others\<close> is what other programs may do to the host. When the application is closed or crashes its client is dropped
  or not, its kill switch stays.\<close>

inductive gui_step ::
  "platform \<Rightarrow> 'w runner \<Rightarrow> crypto_lib \<Rightarrow> aead_algo \<Rightarrow> toml_lib \<Rightarrow> (fs \<times> 'w \<Rightarrow> fs \<times> 'w \<Rightarrow> bool) \<Rightarrow>
    gui_event \<Rightarrow> 'w desktop \<Rightarrow> 'w desktop \<Rightarrow> bool" for plat run C pref T others where
  press: "offered (dk_gui d) m \<Longrightarrow> gui_step plat run C pref T others (Press m) d (handle plat run T env m d)"
| arrive: "arrives m \<Longrightarrow> gui_step plat run C pref T others (Arrive m) d (handle plat run T env m d)"
| job_runs: "dk_job d = Some j \<Longrightarrow> run_job plat run C pref tun env r j (dk_host d) = (out, h) \<Longrightarrow>
    gui_step plat run C pref T others JobRuns d (d\<lparr> dk_job := None, dk_done := Some out, dk_host := h \<rparr>)"
| deliver: "dk_done d = Some out \<Longrightarrow>
    gui_step plat run C pref T others Deliver d ((handle plat run T env (Connected out) d)\<lparr> dk_done := None \<rparr>)"
| tunnel: "a_client (dk_gui d) = Some c \<Longrightarrow> tunnel_step (cl_conf c) sw (cl_node c) n \<Longrightarrow>
    gui_step plat run C pref T others Tunnel d (d\<lparr> dk_gui := (dk_gui d)\<lparr> a_client := Some (c\<lparr> cl_node := n \<rparr>) \<rparr> \<rparr>)"
| tunnel_new: "dk_done d = Some (Inr c, ks) \<Longrightarrow> tunnel_step (cl_conf c) sw (cl_node c) n \<Longrightarrow>
    gui_step plat run C pref T others Tunnel d (d\<lparr> dk_done := Some (Inr (c\<lparr> cl_node := n \<rparr>), ks) \<rparr>)"
| elsewhere: "others (dk_host d) h \<Longrightarrow> gui_step plat run C pref T others Elsewhere d (d\<lparr> dk_host := h \<rparr>)"
| restart: "h = dk_host d \<or> h = client_drop plat run fl1 fl2 (a_client (dk_gui d)) (dk_host d) \<Longrightarrow>
    gui_step plat run C pref T others Restart d (desktop_start plat run h)"

inductive gui_reach for plat run C pref T others where
  start: "gui_reach plat run C pref T others (desktop_start plat run h)"
| step: "gui_reach plat run C pref T others d \<Longrightarrow> gui_step plat run C pref T others ev d d' \<Longrightarrow> gui_reach plat run C pref T others d'"

section \<open>What the handlers leave alone\<close>

text \<open>\<open>ip\<close> has no part in the firewall.\<close>

definition ip_keeps :: "'w runner \<Rightarrow> ('w \<Rightarrow> 'f) \<Rightarrow> bool" where
  "ip_keeps run flt \<longleftrightarrow> (\<forall>args inp w. flt (snd (run (''ip'' # args) inp w)) = flt w)"

named_theorems keeps

lemma route_run_keeps [keeps]: "ip_keeps run flt \<Longrightarrow> flt (snd (route_run run (''ip'' # args) op what w)) = flt w"
  unfolding ip_keeps_def by (auto simp: route_run_def split: prod.splits sum.splits) (metis snd_conv)+

lemma route_op_keeps [keeps]: "ip_keeps run flt \<Longrightarrow> flt (snd (route_op Linux run op cidr gw tun w)) = flt w"
  by (cases op) (simp_all add: route_op_def route_run_keeps)

lemma default_gateway_keeps [keeps]: "ip_keeps run flt \<Longrightarrow> flt (snd (default_gateway Linux run w)) = flt w"
  using run_stdout_world [of run "[''ip'', ''route'', ''show'', ''default'']" w]
  by (auto simp: default_gateway_def ip_keeps_def split: prod.splits option.splits)

lemma pin_endpoint_keeps [keeps]: "ip_keeps run flt \<Longrightarrow> flt (snd (pin_endpoint Linux run ep w)) = flt w"
  using default_gateway_keeps [of run flt w] route_op_keeps [of run flt]
  by (auto simp: pin_endpoint_def split: prod.splits option.splits sum.splits) (metis snd_conv)+

lemma ft_remove_keeps [keeps]: "ip_keeps run flt \<Longrightarrow> flt (snd (ft_remove Linux run me w)) = flt w"
  by (simp add: ft_remove_def Let_def case_prod_beta route_op_keeps split: option.splits)

lemma ft_install_keeps [keeps]: "ip_keeps run flt \<Longrightarrow> flt (snd (ft_install Linux run gw ep tun w)) = flt w"
  using pin_endpoint_keeps [of run flt ep w] route_op_keeps [of run flt]
  by (auto simp: ft_install_def Let_def case_prod_beta ft_remove_keeps split: prod.splits option.splits sum.splits) (metis snd_conv)+

lemma route_attempts_keeps: "ip_keeps run flt \<Longrightarrow> flt (snd (route_attempts Linux run gw ep tun n w)) = flt w"
  by (induction n arbitrary: w) (auto split: prod.splits sum.splits dest: ft_install_keeps [of run flt gw ep tun] simp: prod_eq_iff)

text \<open>A client whose DNS guard is that of Linux, as every client made there.\<close>

definition linux_dns :: "dns_restore option \<Rightarrow> bool" where
  "linux_dns g \<longleftrightarrow> (\<forall>saved. g \<noteq> Some (WindowsRestore saved))"

lemma client_routes_keeps: "ip_keeps run flt \<Longrightarrow> flt (snd (client_routes Linux run t server w)) = flt w"
  by (simp add: client_routes_def route_attempts_keeps split: option.splits)

lemma drop_routes_keeps: "ip_keeps run flt \<Longrightarrow> flt (snd (drop_routes Linux run r h)) = flt (snd h)"
  by (simp add: drop_routes_def ft_drop_def ft_remove_keeps split: option.splits)

lemma client_dns_linux: "client_dns Linux run t fl h = (g, h') \<Longrightarrow> snd h' = snd h \<and> linux_dns g"
  by (auto simp: client_dns_def dns_install_def linux_dns_def Let_def split: if_splits prod.splits sum.splits)

lemma drop_dns_linux: "linux_dns g \<Longrightarrow> snd (drop_dns run fl1 fl2 g h) = snd h"
  by (cases g) (auto simp: drop_dns_def dns_drop_def linux_dns_def split: prod.splits dns_restore.splits)

lemma client_drop_keeps:
  "ip_keeps run flt \<Longrightarrow> (\<And>x. c = Some x \<Longrightarrow> linux_dns (cl_dns x)) \<Longrightarrow> flt (snd (client_drop Linux run fl1 fl2 c h)) = flt (snd h)"
  by (auto simp: client_drop_def drop_dns_linux drop_routes_keeps split: option.splits)

lemma disconnect_keeps:
  "ip_keeps run flt \<Longrightarrow> linux_dns (cl_dns c) \<Longrightarrow> flt (snd (snd (client_disconnect Linux run fl1 fl2 c h r))) = flt (snd h)"
  by (simp add: disconnect_host drop_dns_linux drop_routes_keeps)

lemma client_connect_keeps:
  assumes "ip_keeps run flt" "client_connect Linux run C pref cfg server auth env h r = (res, h')"
  shows "flt (snd h') = flt (snd h) \<and> (\<forall>c. res = Ok c \<longrightarrow> linux_dns (cl_dns c))"
  using assms(2)
proof (cases rule: connect_cases)
  case (2 c hs_obf s w1 routes dns)
  have "flt w1 = flt (snd h)" using client_routes_keeps [OF assms(1)] 2(2) by (metis snd_conv)
  then show ?thesis using client_dns_linux [OF 2(3)] 2 by simp
qed simp

text \<open>The part of the state that decides about the kill switch.\<close>

definition key :: "gui \<Rightarrow> kill_switch option \<times> bool \<times> bool \<times> dns_restore option option" where
  "key g = (a_ks g, a_ks_orphan g, a_connecting g, map_option cl_dns (a_client g))"

lemma log_line_fields [simp]:
  "a_config_path (log_line l g) = a_config_path g" "a_config (log_line l g) = a_config g" "a_server (log_line l g) = a_server g"
  "a_profile (log_line l g) = a_profile g" "a_client (log_line l g) = a_client g" "a_status (log_line l g) = a_status g"
  "a_warnings (log_line l g) = a_warnings g" "a_connecting (log_line l g) = a_connecting g"
  "a_kill_switch (log_line l g) = a_kill_switch g" "a_ks (log_line l g) = a_ks g" "a_ks_orphan (log_line l g) = a_ks_orphan g"
  "a_update_status (log_line l g) = a_update_status g" "a_release_notes (log_line l g) = a_release_notes g"
  "a_release_url (log_line l g) = a_release_url g" "key (log_line l g) = key g"
  by (simp_all add: log_line_def Let_def key_def)

lemma set_traffic_dns [simp]: "cl_dns (set_traffic eff c) = cl_dns c"
  by (simp add: set_traffic_def)

lemma on_profile_key [simp]: "key (on_profile p g) = key g"
  by (simp add: on_profile_def Let_def split: option.splits) (simp_all add: key_def)

lemma on_load_key [simp]: "key (on_load T contents g) = key g"
  by (simp add: on_load_def Let_def split: sum.splits option.splits) (simp add: key_def)

lemma on_toggle_key [simp]: "key (on_toggle on g) = key g"
  by (simp add: on_toggle_def) (simp add: key_def)

lemma on_update_checked_key [simp]: "key (on_update_checked res g) = key g"
  by (simp add: on_update_checked_def key_def split: sum.splits)

lemma key_updates [simp]:
  "key (g\<lparr> a_config_path := v \<rparr>) = key g" "key (g\<lparr> a_server := v \<rparr>) = key g" "key (g\<lparr> a_update_status := u \<rparr>) = key g"
  by (simp_all add: key_def)

text \<open>All but five messages leave the host and the kill switch alone, and start no connect.\<close>

lemma plain_messages:
  assumes "m \<noteq> Connect" "m \<noteq> Disconnect" "m \<noteq> Tick" "m \<noteq> DisableKillSwitch" "\<And>out. m \<noteq> Connected out"
    and "gui_update plat run T env m (g, h) = (t, g', h')"
  shows "key g' = key g \<and> h' = h \<and> (\<forall>j. t \<noteq> ConnectTask j)"
  using assms by (cases m) (auto split: option.splits)

section \<open>The kill switch of the running application\<close>

lemma engage_attempts_effect:
  assumes nft: "nft_ok run flt"
  shows "engage_attempts Linux run server tun n w = (r, w') \<Longrightarrow>
    (case r of Ok k \<Rightarrow> ks_engaged k \<and> (\<exists>lan. flt w' = Some (ks_policy server tun lan)) | Err e \<Rightarrow> flt w' = flt w)"
proof (induction n arbitrary: w)
  case 0
  then have e: "ks_engage Linux run server tun w = (r, w')" by simp
  show ?case using engage_effect [OF nft e] by (cases r) auto
next
  case (Suc n)
  obtain q w1 where q: "ks_engage Linux run server tun w = (q, w1)" by fastforce
  note eff = engage_effect [OF nft q]
  show ?case
  proof (cases q)
    case (Inl e)
    then have "engage_attempts Linux run server tun n w1 = (r, w')" and "flt w1 = flt w" using Suc.prems q eff by auto
    then show ?thesis using Suc.IH [of w1] by (cases r) simp_all
  qed (use Suc.prems q eff in auto)
qed

lemma run_job_effect:
  assumes nft: "nft_ok run flt" and ip: "ip_keeps run flt"
    and run: "run_job Linux run C pref tun env r j h = ((res, ks), h')"
  shows "(case ks of
            Some (Inr k) \<Rightarrow> ks_engaged k \<and> (\<exists>lan. flt (snd h') = Some (ks_policy (cj_server j) (tn_name (ac_tun (cj_config j))) lan))
          | _ \<Rightarrow> flt (snd h') = flt (snd h)) \<and> (\<forall>c. res = Inr c \<longrightarrow> linux_dns (cl_dns c))"
proof (cases "is_ok (build_auth C (cj_config j)) \<and> is_ok tun")
  case False
  then show ?thesis using run by (auto simp: run_job_def is_ok_def split: sum.splits)
next
  case True
  then obtain auth where auth: "build_auth C (cj_config j) = Ok auth" by (auto simp: is_ok_def split: sum.splits)
  obtain s w1 where s: "job_switch Linux run j (snd h) = (s, w1)" by fastforce
  obtain q h2 where q: "client_connect Linux run C pref (cj_config j) (cj_server j) auth env (fst h, w1) r = (q, h2)" by (metis surj_pair)
  have eq: "ks = s" "h' = h2" "\<And>c. res = Inr c \<Longrightarrow> q = Ok c"
    using run True by (auto simp: run_job_def is_ok_def auth s q split: sum.splits)
  have sw: "case s of
      Some (Inr k) \<Rightarrow> ks_engaged k \<and> (\<exists>lan. flt w1 = Some (ks_policy (cj_server j) (tn_name (ac_tun (cj_config j))) lan))
    | _ \<Rightarrow> flt w1 = flt (snd h)"
    using s by (auto simp: job_switch_def split: if_splits prod.splits sum.splits dest: engage_attempts_effect [OF nft])
  show ?thesis
    using client_connect_keeps [OF ip q] sw eq by (auto split: option.splits sum.splits)
qed

text \<open>The bookkeeping of a reachable application: one connect at a time, and a switch in force exactly when one is
  held, left over, or on its way in the result of a connect.\<close>

definition pending_client :: "'w desktop \<Rightarrow> client option" where
  "pending_client d = (case dk_done d of Some (Inr c, ks) \<Rightarrow> Some c | _ \<Rightarrow> None)"

definition pending_switch :: "'w desktop \<Rightarrow> kill_switch option" where
  "pending_switch d = (case dk_done d of Some (res, Some (Inr k)) \<Rightarrow> Some k | _ \<Rightarrow> None)"

definition client_linux :: "client option \<Rightarrow> bool" where
  "client_linux c \<longleftrightarrow> (\<forall>x. c = Some x \<longrightarrow> linux_dns (cl_dns x))"

definition switch_on :: "kill_switch option \<Rightarrow> bool" where
  "switch_on k \<longleftrightarrow> (\<forall>x. k = Some x \<longrightarrow> ks_engaged x)"

lemma client_linux_simps [simp]: "client_linux None" "client_linux (Some c) = linux_dns (cl_dns c)"
  by (simp_all add: client_linux_def)

lemma switch_on_simps [simp]: "switch_on None" "switch_on (Some k) = ks_engaged k"
  by (simp_all add: switch_on_def)

definition desk_inv :: "('w \<Rightarrow> (packet \<Rightarrow> bool) option) \<Rightarrow> 'w desktop \<Rightarrow> bool" where
  "desk_inv flt d \<longleftrightarrow>
     (let g = dk_gui d
      in (a_connecting g \<longleftrightarrow> dk_job d \<noteq> None \<or> dk_done d \<noteq> None) \<and> (dk_job d = None \<or> dk_done d = None) \<and>
         (a_connecting g \<longrightarrow> a_client g = None) \<and> client_linux (a_client g) \<and> client_linux (pending_client d) \<and>
         switch_on (a_ks g) \<and> switch_on (pending_switch d) \<and> (a_ks g \<noteq> None \<longrightarrow> \<not> a_ks_orphan g) \<and>
         (flt (snd (dk_host d)) \<noteq> None \<longleftrightarrow> a_ks g \<noteq> None \<or> a_ks_orphan g \<or> pending_switch d \<noteq> None))"

lemma desk_inv_start:
  assumes "nft_ok run flt"
  shows "desk_inv flt (desktop_start Linux run h)" "flt (snd (dk_host (desktop_start Linux run h))) = flt (snd h)"
proof -
  have "flt (snd (ks_is_engaged Linux run (snd h))) = flt (snd h)"
    using assms by (simp add: nft_ok_def Let_def case_prod_beta ks_is_engaged_def run_succeeds_world)
  then show "flt (snd (dk_host (desktop_start Linux run h))) = flt (snd h)"
    by (simp add: desktop_start_def gui_new_def Let_def case_prod_beta)
  then show "desk_inv flt (desktop_start Linux run h)"
    using query_effect [OF assms, of "snd h"]
    by (simp add: desk_inv_def Let_def) (simp add: desktop_start_def gui_new_def pending_client_def pending_switch_def Let_def case_prod_beta)
qed

lemma key_eq:
  "key g' = key g \<longleftrightarrow> a_ks g' = a_ks g \<and> a_ks_orphan g' = a_ks_orphan g \<and> a_connecting g' = a_connecting g \<and>
     map_option cl_dns (a_client g') = map_option cl_dns (a_client g)"
  by (auto simp: key_def)

lemma desk_inv_key:
  assumes "desk_inv flt d" "key (dk_gui d') = key (dk_gui d)" "dk_job d' = dk_job d" "dk_done d' = dk_done d"
    and "flt (snd (dk_host d')) = flt (snd (dk_host d))"
  shows "desk_inv flt d'"
proof -
  note k = assms(2) [unfolded key_eq]
  have "a_client (dk_gui d') = None \<longleftrightarrow> a_client (dk_gui d) = None" using k by (metis map_option_is_None)
  moreover have "client_linux (a_client (dk_gui d')) = client_linux (a_client (dk_gui d))"
    using k by (cases "a_client (dk_gui d')"; cases "a_client (dk_gui d)") simp_all
  moreover have "pending_client d' = pending_client d" "pending_switch d' = pending_switch d"
    by (simp_all add: pending_client_def pending_switch_def assms(4))
  ultimately show ?thesis using assms(1,3-5) k unfolding desk_inv_def Let_def by simp
qed

lemma idle_pending: "dk_done d = None \<Longrightarrow> pending_client d = None \<and> pending_switch d = None"
  by (simp add: pending_client_def pending_switch_def)

lemma desk_inv_idle:
  assumes "desk_inv flt d" "\<not> a_connecting (dk_gui d)"
  shows "dk_job d = None" "dk_done d = None"
  using assms unfolding desk_inv_def Let_def by blast+

text \<open>The handlers of the messages that matter.\<close>

lemma connect_step:
  assumes "desk_inv flt d" "offered (dk_gui d) Connect"
  shows "desk_inv flt (handle plat run T env Connect d) \<and> dk_host (handle plat run T env Connect d) = dk_host d"
proof -
  obtain t g' where c: "on_connect (dk_gui d) = (t, g')" by fastforce
  have h: "handle plat run T env Connect d = d\<lparr> dk_gui := g', dk_job := (case t of ConnectTask j \<Rightarrow> Some j | _ \<Rightarrow> dk_job d) \<rparr>"
    by (simp add: handle_def c)
  have idle: "\<not> a_connecting (dk_gui d)" "a_client (dk_gui d) = None" using assms(2) by auto
  consider "t = NoTask" "key g' = key (dk_gui d)"
    | j where "t = ConnectTask j" "a_connecting g'" "a_ks g' = a_ks (dk_gui d)" "a_ks_orphan g' = a_ks_orphan (dk_gui d)" "a_client g' = None"
    using c idle(2) by (auto simp: on_connect_def Let_def split: option.splits)
  then show ?thesis
  proof cases
    case 1
    have "desk_inv flt (handle plat run T env Connect d)" by (rule desk_inv_key [OF assms(1)]) (simp_all add: h 1)
    then show ?thesis by (simp add: h)
  next
    case 2
    then show ?thesis using assms(1) idle desk_inv_idle [OF assms(1)]
      by (simp add: h desk_inv_def Let_def pending_client_def pending_switch_def del: not_None_eq)
  qed
qed

lemma disconnect_step:
  assumes "nft_ok run flt" "ip_keeps run flt" "desk_inv flt d" "offered (dk_gui d) Disconnect"
    and d'_def: "d' = handle Linux run T env Disconnect d"
  shows "desk_inv flt d' \<and> flt (snd (dk_host d')) = (if a_ks (dk_gui d) = None then flt (snd (dk_host d)) else None)"
proof -
  let ?g = "dk_gui d"
  obtain c where c: "a_client ?g = Some c" and idle: "\<not> a_connecting ?g" using assms(4) by auto
  have dns: "linux_dns (cl_dns c)" using assms(3) c by (simp add: desk_inv_def Let_def)
  note no = desk_inv_idle [OF assms(3) idle] idle_pending [OF desk_inv_idle(2) [OF assms(3) idle]]
  obtain c' h' where dc: "client_disconnect Linux run (ge_fault1 env) (ge_fault2 env) c (dk_host d) (ge_rng env) = (c', h')" by (metis surj_pair)
  have "cl_dns c' = None" using disconnect_fields(2) [of Linux run _ _ c "dk_host d" "ge_rng env" c'] dc by (metis fst_conv)
  then have h: "flt (snd (client_drop Linux run (ge_fault1 env) (ge_fault2 env) (Some c') h')) = flt (snd (dk_host d))"
    using disconnect_keeps [OF assms(2) dns, of "ge_fault1 env" "ge_fault2 env" "dk_host d" "ge_rng env"] dc
    by (subst client_drop_keeps [OF assms(2)]) (auto simp: linux_dns_def)
  show ?thesis
  proof (cases "a_ks ?g")
    case None
    then show ?thesis
      using assms(3) no h c
      by (simp add: d'_def handle_def on_disconnect_def dc desk_inv_def Let_def pending_client_def pending_switch_def del: not_None_eq)
  next
    case (Some k)
    then have "ks_engaged k" using assms(3) by (simp add: desk_inv_def Let_def)
    then show ?thesis
      using assms(3) no h c Some
      by (simp add: d'_def handle_def on_disconnect_def dc desk_inv_def Let_def ks_disengage_def teardown_effect [OF assms(1)]
          pending_client_def pending_switch_def del: not_None_eq)
  qed
qed

lemma disable_step:
  assumes "nft_ok run flt" "desk_inv flt d" "offered (dk_gui d) DisableKillSwitch"
    and d'_def: "d' = handle Linux run T env DisableKillSwitch d"
  shows "desk_inv flt d' \<and> flt (snd (dk_host d')) = None"
proof -
  have idle: "\<not> a_connecting (dk_gui d)" using assms(3) by (simp add: ks_stranded_def)
  note no = desk_inv_idle [OF assms(2) idle]
  obtain f w where h: "dk_host d = (f, w)" by fastforce
  show ?thesis
    using assms(2) no idle
    by (simp add: d'_def handle_def on_disable_def h ks_clear_def teardown_effect [OF assms(1)] desk_inv_def Let_def
        pending_client_def pending_switch_def del: not_None_eq)
qed

lemma tick_step:
  assumes "ip_keeps run flt" "desk_inv flt d" and d'_def: "d' = handle Linux run T env Tick d"
  shows "desk_inv flt d' \<and> flt (snd (dk_host d')) = flt (snd (dk_host d))"
proof (cases "\<exists>c. a_client (dk_gui d) = Some c \<and> \<not> st_connected (client_status c (ge_now env))")
  case False
  have k: "on_tick Linux run env (dk_gui d, dk_host d) = (g', h') \<Longrightarrow> key g' = key (dk_gui d) \<and> h' = dk_host d" for g' h'
    using False by (auto simp: on_tick_def Let_def key_def split: option.splits)
  obtain g' h' where t: "on_tick Linux run env (dk_gui d, dk_host d) = (g', h')" by (metis surj_pair)
  have "desk_inv flt d'" by (rule desk_inv_key [OF assms(2)]) (use k [OF t] t in \<open>simp_all add: d'_def handle_def\<close>)
  then show ?thesis using k [OF t] t by (simp add: d'_def handle_def)
next
  case True
  then obtain c where c: "a_client (dk_gui d) = Some c" "\<not> st_connected (client_status c (ge_now env))" by blast
  have "linux_dns (cl_dns c)" and idle: "\<not> a_connecting (dk_gui d)" using assms(2) c by (auto simp: desk_inv_def Let_def)
  then have drop: "flt (snd (client_drop Linux run fl1 fl2 (Some c) (dk_host d))) = flt (snd (dk_host d))" for fl1 fl2
    by (subst client_drop_keeps [OF assms(1)]) auto
  show ?thesis
    using assms(2) desk_inv_idle [OF assms(2) idle] idle
    by (simp add: d'_def handle_def on_tick_def c drop desk_inv_def Let_def pending_client_def pending_switch_def del: not_None_eq)
qed

lemma take_switch_fields [simp]:
  "a_profile (take_switch ks g) = a_profile g" "a_config (take_switch ks g) = a_config g"
  "a_client (take_switch ks g) = a_client g" "a_connecting (take_switch ks g) = a_connecting g"
  "a_ks (take_switch ks g) = (case ks of Some (Inr k) \<Rightarrow> Some k | _ \<Rightarrow> a_ks g)"
  "a_ks_orphan (take_switch ks g) = (case ks of Some (Inr k) \<Rightarrow> False | _ \<Rightarrow> a_ks_orphan g)"
  by (simp_all add: take_switch_def Let_def split: option.splits sum.splits)

lemma deliver_step:
  assumes "desk_inv flt d" "dk_done d = Some out"
    and d'_def: "d' = (handle Linux run T env (Connected out) d)\<lparr> dk_done := None \<rparr>"
  shows "desk_inv flt d' \<and> dk_host d' = dk_host d"
proof -
  obtain res ks where out: "out = (res, ks)" by fastforce
  have busy: "a_connecting (dk_gui d)" "dk_job d = None" "a_client (dk_gui d) = None" and cl: "client_linux (pending_client d)"
    using assms(1,2) unfolding desk_inv_def Let_def by auto
  show ?thesis
    using assms(1,2) busy
    by (cases res; cases ks rule: option.exhaust [case_names none some]; (cases "the ks")?)
      (simp_all add: d'_def handle_def on_connected_def out client_drop_def desk_inv_def Let_def pending_client_def pending_switch_def
        del: not_None_eq)
qed

inductive_cases gui_stepE [consumes 1, case_names press arrive job_runs deliver tunnel tunnel_new elsewhere restart]: "gui_step plat run C pref T others ev d d'"

definition switch_change :: "('w \<Rightarrow> (packet \<Rightarrow> bool) option) \<Rightarrow> gui_event \<Rightarrow> 'w desktop \<Rightarrow> 'w desktop \<Rightarrow> bool" where
  "switch_change flt ev d d' \<longleftrightarrow>
     (case ev of
        JobRuns \<Rightarrow> \<exists>j lan. dk_job d = Some j \<and> cj_kill_switch j \<and> tn_route_all (ac_tun (cj_config j)) \<and>
                     flt (snd (dk_host d')) = Some (ks_policy (cj_server j) (tn_name (ac_tun (cj_config j))) lan)
      | Press Disconnect \<Rightarrow> a_ks (dk_gui d) \<noteq> None \<and> flt (snd (dk_host d')) = None
      | Press DisableKillSwitch \<Rightarrow> flt (snd (dk_host d')) = None
      | _ \<Rightarrow> False)"

lemma plain_step:
  assumes "desk_inv flt d" "d' = handle plat run T env m d"
    and "m \<noteq> Connect" "m \<noteq> Disconnect" "m \<noteq> Tick" "m \<noteq> DisableKillSwitch" "\<And>out. m \<noteq> Connected out"
  shows "desk_inv flt d' \<and> dk_host d' = dk_host d"
proof -
  obtain t g' h' where u: "gui_update plat run T env m (dk_gui d, dk_host d) = (t, g', h')" by (metis surj_pair)
  note p = plain_messages [OF assms(3-7) u]
  have "dk_job d' = dk_job d" using p by (simp add: assms(2) handle_def u split: gui_task.splits)
  moreover have "dk_done d' = dk_done d" "dk_host d' = dk_host d" "key (dk_gui d') = key (dk_gui d)"
    using p by (simp_all add: assms(2) handle_def u)
  ultimately show ?thesis using desk_inv_key [OF assms(1)] by simp
qed

lemma press_step:
  assumes "nft_ok run flt" "ip_keeps run flt" "desk_inv flt d" "offered (dk_gui d) m" "d' = handle Linux run T env m d"
  shows "desk_inv flt d' \<and> (flt (snd (dk_host d')) = flt (snd (dk_host d)) \<or> switch_change flt (Press m) d d')"
proof -
  consider "m = Connect" | "m = Disconnect" | "m = DisableKillSwitch"
    | "m \<noteq> Connect" "m \<noteq> Disconnect" "m \<noteq> Tick" "m \<noteq> DisableKillSwitch" "\<And>out. m \<noteq> Connected out"
    using assms(4) by (cases m) auto
  then show ?thesis
  proof cases
    case 1
    then show ?thesis using connect_step [OF assms(3)] assms(4,5) by simp
  next
    case 2
    then show ?thesis using disconnect_step [OF assms(1-3) _ assms(5) [unfolded 2]] assms(4) by (simp add: switch_change_def)
  next
    case 3
    then show ?thesis using disable_step [OF assms(1,3) _ assms(5) [unfolded 3]] assms(4) by (simp add: switch_change_def)
  next
    case 4
    then show ?thesis using plain_step [OF assms(3,5) 4] by simp
  qed
qed

lemma job_step:
  assumes "nft_ok run flt" "ip_keeps run flt" "desk_inv flt d" "dk_job d = Some j"
    and run: "run_job Linux run C pref tun env r j (dk_host d) = (out, h)"
    and d'_def: "d' = d\<lparr> dk_job := None, dk_done := Some out, dk_host := h \<rparr>"
  shows "desk_inv flt d' \<and> (flt (snd (dk_host d')) = flt (snd (dk_host d)) \<or> switch_change flt JobRuns d d')"
proof -
  obtain res ks where out: "out = (res, ks)" by fastforce
  note eff = run_job_effect [OF assms(1,2) run [unfolded out]]
  have wanted: "cj_kill_switch j \<and> tn_route_all (ac_tun (cj_config j))" if "ks = Some (Inr k)" for k
    using run that unfolding out
    by (auto simp: run_job_def job_switch_def Let_def split: sum.splits if_splits prod.splits)
  have new: "dk_gui d' = dk_gui d" "dk_job d' = None" "dk_done d' = Some out" "dk_host d' = h" by (simp_all add: d'_def)
  have pend: "pending_client d' = (case res of Inr c \<Rightarrow> Some c | Inl e \<Rightarrow> None)"
    "pending_switch d' = (case ks of Some (Inr k) \<Rightarrow> Some k | _ \<Rightarrow> None)"
    by (simp_all add: d'_def out pending_client_def pending_switch_def split: sum.splits option.splits)
  have "dk_done d = None" "a_connecting (dk_gui d)" "a_client (dk_gui d) = None"
    using assms(3,4) unfolding desk_inv_def Let_def by auto
  moreover have "client_linux (pending_client d')" using eff by (cases res) (simp_all add: pend)
  moreover have "pending_switch d = None" using \<open>dk_done d = None\<close> idle_pending by blast
  ultimately show ?thesis
    using assms(3,4) eff wanted
    by (cases ks rule: option.exhaust [case_names none some]; (cases "the ks")?)
      (simp_all add: desk_inv_def Let_def pend switch_change_def new del: not_None_eq, (auto simp del: not_None_eq)?)
qed

lemma step_effect:
  assumes nft: "nft_ok run flt" and ip: "ip_keeps run flt"
    and others: "\<And>h h'. others h h' \<Longrightarrow> flt (snd h') = flt (snd h)"
    and inv: "desk_inv flt d" and step: "gui_step Linux run C pref T others ev d d'"
  shows "desk_inv flt d' \<and> (flt (snd (dk_host d')) = flt (snd (dk_host d)) \<or> switch_change flt ev d d')"
  using step
proof (cases rule: gui_stepE)
  case (press m env)
  then show ?thesis using press_step [OF nft ip inv] press by blast
next
  case (arrive m env)
  show ?thesis
  proof (cases "m = Tick")
    case True
    then show ?thesis using tick_step [OF ip inv] arrive by blast
  next
    case False
    then show ?thesis using plain_step [OF inv arrive(2)] arrive(3) by (cases m) auto
  qed
next
  case (job_runs j tun env r out h)
  then show ?thesis using job_step [OF nft ip inv] by blast
next
  case (deliver out env)
  then show ?thesis using deliver_step [OF inv] by metis
next
  case (tunnel c sw n)
  have "desk_inv flt d'" by (rule desk_inv_key [OF inv]) (use tunnel in \<open>simp_all add: key_def\<close>)
  then show ?thesis using tunnel by simp
next
  case (tunnel_new c ks sw n)
  then show ?thesis
    using inv by (cases ks) (auto simp: desk_inv_def Let_def pending_client_def pending_switch_def split: sum.splits)
next
  case (elsewhere h)
  then have "flt (snd (dk_host d')) = flt (snd (dk_host d))" using others elsewhere by simp
  moreover from this have "desk_inv flt d'" using desk_inv_key [OF inv] elsewhere by simp
  ultimately show ?thesis by blast
next
  case (restart h fl1 fl2)
  have "client_linux (a_client (dk_gui d))" using inv by (simp add: desk_inv_def Let_def)
  then have "flt (snd (client_drop Linux run fl1 fl2 (a_client (dk_gui d)) (dk_host d))) = flt (snd (dk_host d))"
    by (intro client_drop_keeps [OF ip]) (simp add: client_linux_def)
  then show ?thesis using desk_inv_start [OF nft, of h] restart by auto
qed

lemma reach_inv:
  assumes "nft_ok run flt" "ip_keeps run flt" "\<And>h h'. others h h' \<Longrightarrow> flt (snd h') = flt (snd h)"
  shows "gui_reach Linux run C pref T others d \<Longrightarrow> desk_inv flt d"
  by (induction rule: gui_reach.induct) (use desk_inv_start(1) [OF assms(1)] step_effect [OF assms] in blast)+

text \<open>What the window shows.\<close>

definition shown :: "gui \<Rightarrow> bool" where
  "shown g \<longleftrightarrow>
     (case a_config g of
        None \<Rightarrow> a_warnings g = []
      | Some c \<Rightarrow> a_warnings g = security_warnings c \<and> a_profile g = tc_profile (ac_traffic c) \<and> a_kill_switch g = tn_kill_switch (ac_tun c)) \<and>
     (a_status g = None \<longleftrightarrow> a_client g = None) \<and> length (a_log g) \<le> LOG_LINES"

lemma log_line_length: "length (a_log g) \<le> LOG_LINES \<Longrightarrow> length (a_log (log_line l g)) \<le> LOG_LINES"
  by (simp add: log_line_def Let_def)

lemma shown_log_line [simp, intro]: "shown g \<Longrightarrow> shown (log_line l g)"
  unfolding shown_def by (cases "a_config g") (simp_all add: log_line_length)

lemma warnings_kill_switch [simp]: "security_warnings (c\<lparr> ac_tun := t \<rparr>) = security_warnings c"
  by (simp add: security_warnings_def)

lemma shown_updates [simp]:
  "shown (g\<lparr> a_config_path := x \<rparr>) = shown g" "shown (g\<lparr> a_server := x \<rparr>) = shown g" "shown (g\<lparr> a_connecting := b \<rparr>) = shown g"
  "shown (g\<lparr> a_ks := k \<rparr>) = shown g" "shown (g\<lparr> a_ks_orphan := b \<rparr>) = shown g" "shown (g\<lparr> a_update_status := u \<rparr>) = shown g"
  "shown (g\<lparr> a_release_notes := n \<rparr>) = shown g" "shown (g\<lparr> a_release_url := n \<rparr>) = shown g"
  by (cases "a_config g"; simp add: shown_def)+

lemma shown_handlers:
  assumes "shown g"
  shows "shown (on_profile p g)" "shown (on_load T contents g)" "shown (snd (on_connect g))" "shown (take_switch ks g)"
    "shown (on_toggle on g)" "shown (on_update_checked res g)"
proof -
  let ?g1 = "g\<lparr> a_profile := p, a_config := map_option (\<lambda>c. c\<lparr> ac_traffic := (ac_traffic c)\<lparr> tc_profile := p \<rparr> \<rparr>) (a_config g) \<rparr>"
  have g2: "shown (?g1\<lparr> a_warnings := (case a_config ?g1 of None \<Rightarrow> [] | Some c \<Rightarrow> security_warnings c) \<rparr>)" (is "shown ?g2")
    using assms by (auto simp: shown_def split: option.splits)
  moreover have "shown (?g2\<lparr> a_client := Some (set_traffic eff c) \<rparr>)" if "a_client g = Some c" for eff c
    using g2 that unfolding shown_def by (simp split: option.splits)
  ultimately show "shown (on_profile p g)"
    unfolding on_profile_def Let_def by (auto split: option.splits)
  show "shown (on_load T contents g)"
  proof (cases "config_load T (a_config_path g) contents")
    case (Inr cfg)
    then show ?thesis using assms unfolding shown_def by (simp add: on_load_def Let_def log_line_length)
  qed (use assms in \<open>simp add: on_load_def\<close>)
  show "shown (snd (on_connect g))" using assms by (auto simp: on_connect_def Let_def split: option.splits)
  show "shown (take_switch ks g)"
    using assms by (auto simp: take_switch_def Let_def split: option.splits sum.splits)
  show "shown (on_toggle on g)"
    using assms unfolding on_toggle_def by (intro shown_log_line) (auto simp: shown_def split: option.splits)
  show "shown (on_update_checked res g)" using assms by (simp add: on_update_checked_def split: sum.splits)
qed

lemma shown_client:
  "shown g \<Longrightarrow> shown (g\<lparr> a_client := None, a_status := None \<rparr>)"
  "shown g \<Longrightarrow> shown (g\<lparr> a_status := Some st, a_client := Some c \<rparr>)"
  "shown g \<Longrightarrow> a_client g = Some c \<Longrightarrow> shown (g\<lparr> a_status := Some st \<rparr>)"
  "shown g \<Longrightarrow> a_client g = Some c \<Longrightarrow> shown (g\<lparr> a_client := Some c' \<rparr>)"
  by (cases "a_config g"; auto simp: shown_def)+

lemma shown_update: "shown g \<Longrightarrow> gui_update plat run T env m (g, h) = (t, g', h') \<Longrightarrow> shown g'"
proof (cases m)
  case (Connected out)
  assume "shown g" and u: "gui_update plat run T env m (g, h) = (t, g', h')"
  then have "shown (take_switch (snd out) (g\<lparr> a_connecting := False \<rparr>))" by (simp add: shown_handlers(4))
  then show "shown g'"
    using u unfolding Connected by (auto simp: on_connected_def Let_def intro: shown_client split: sum.splits if_splits)
next
  case Disconnect
  assume "shown g" and u: "gui_update plat run T env m (g, h) = (t, g', h')"
  then have "shown (g\<lparr> a_client := None, a_status := None \<rparr>)" by (simp add: shown_client)
  then show "shown g'"
    using u unfolding Disconnect by (auto simp: on_disconnect_def Let_def split: option.splits prod.splits)
next
  case Tick
  assume "shown g" and u: "gui_update plat run T env m (g, h) = (t, g', h')"
  then show "shown g'"
    unfolding Tick by (auto simp: on_tick_def Let_def intro: shown_client split: option.splits if_splits)
next
  case Connect
  assume "shown g" and u: "gui_update plat run T env m (g, h) = (t, g', h')"
  then show "shown g'" using shown_handlers(3) [of g] unfolding Connect by (auto split: prod.splits)
qed (auto simp: shown_handlers on_disable_def split: option.splits prod.splits)

section \<open>Properties\<close>

text \<open>C13: The kill switch of the application fails closed. Whatever the user does, whenever connects fail, tunnels die, other
  programs run or the application is closed or crashes and starts again: a switch in force is removed only by the
  user's Disconnect, when it was engaged by this run, or by the button that disables it. It is changed otherwise only by a
  connect that was asked for a kill switch on a full tunnel, and then lets out what the policy for the server
  and the tunnel of this connect allows.\<close>

theorem gui_switch_fails_closed:
  assumes "nft_ok run flt" and "ip_keeps run flt" and "\<And>h h'. others h h' \<Longrightarrow> flt (snd h') = flt (snd h)"
    and "gui_reach Linux run C pref T others d" and "gui_step Linux run C pref T others ev d d'"
  shows "flt (snd (dk_host d')) = flt (snd (dk_host d)) \<or>
     (ev = Press Disconnect \<and> a_ks (dk_gui d) \<noteq> None \<or> ev = Press DisableKillSwitch) \<and> flt (snd (dk_host d')) = None \<or>
     ev = JobRuns \<and>
       (\<exists>j lan. dk_job d = Some j \<and> cj_kill_switch j \<and> tn_route_all (ac_tun (cj_config j)) \<and>
          flt (snd (dk_host d')) = Some (ks_policy (cj_server j) (tn_name (ac_tun (cj_config j))) lan))"
  using step_effect [OF assms(1-3) reach_inv [OF assms(1-4)] assms(5)]
  by (auto simp: switch_change_def split: gui_event.splits gui_message.splits)


text \<open>C37: What the window shows of its settings. In every reachable state the profile and the kill switch shown are those of
  the loaded configuration, the warnings are the warnings of that configuration (none without one), the status
  belongs to a client, and the log has at most 200 lines.\<close>

theorem gui_shows_its_config:
  assumes "gui_reach plat run C pref T others d"
  shows "(case a_config (dk_gui d) of
            None \<Rightarrow> a_warnings (dk_gui d) = []
          | Some c \<Rightarrow> a_warnings (dk_gui d) = security_warnings c \<and> a_profile (dk_gui d) = tc_profile (ac_traffic c) \<and>
                      a_kill_switch (dk_gui d) = tn_kill_switch (ac_tun c)) \<and>
         (a_status (dk_gui d) = None \<longleftrightarrow> a_client (dk_gui d) = None) \<and> length (a_log (dk_gui d)) \<le> LOG_LINES"
proof -
  have handled: "shown (dk_gui (handle plat run T env m d))" if "shown (dk_gui d)" for env m and d :: "'a desktop"
    using shown_update [OF that, of plat run T env m "dk_host d"]
    by (cases "gui_update plat run T env m (dk_gui d, dk_host d)") (simp add: handle_def)
  have fresh: "shown (dk_gui (desktop_start plat run h))" for h
    by (simp add: desktop_start_def gui_new_def shown_def LOG_LINES_def Let_def case_prod_beta)
  have "shown (dk_gui d)"
    using assms
  proof induction
    case (step d ev d')
    show ?case using step(2) by (cases rule: gui_stepE) (auto intro: handled fresh shown_client step(3))
  qed (rule fresh)
  then show ?thesis by (simp add: shown_def)
qed

text \<open>A profile chosen while a connect is under way is lost. The window shows it, as does the configuration, but the client that
  comes up runs the profile the connect was started with.\<close>

theorem profile_chosen_while_connecting_lost:
  assumes "a_connecting g" and "a_client g = None"
    and "run_job plat run C pref tun env r j h = ((Inr c, ks), h')"
    and "on_connected plat run genv (Inr c, ks) (on_profile p g, h') = (g', h'')"
  shows "a_profile g' = p \<and> (\<forall>cfg. a_config g' = Some cfg \<longrightarrow> tc_profile (ac_traffic cfg) = p) \<and>
         a_client g' = Some c \<and> et_profile (t_watch (n_tun (cl_node c))) = tc_profile (ac_traffic (cj_config j))"
proof -
  obtain auth w1 h2 where q: "client_connect plat run C pref (cj_config j) (cj_server j) auth env (fst h, w1) r = (Ok c, h2)"
    using assms(3) by (auto simp: run_job_def split: sum.splits prod.splits)
  have "t_watch (n_tun (cl_node c)) = effective (ac_traffic (cj_config j))"
    using q by (cases rule: connect_cases) (simp_all add: tunnel_start_def Let_def split: prod.splits)
  moreover have "a_profile (on_profile p g) = p" "\<And>cfg. a_config (on_profile p g) = Some cfg \<Longrightarrow> tc_profile (ac_traffic cfg) = p"
    using assms(2) by (auto simp: on_profile_def Let_def split: option.splits)
  ultimately show ?thesis
    using assms(4) by (auto simp: on_connected_def Let_def)
qed

text \<open>C38: The dropdown goes past the validation. For a configuration that loads with obfuscation off, choosing a paced
  profile gives a configuration the program refuses to load; the window drops its warning that nothing is paced,
  Connect uses it, and the tunnel it starts is not paced.\<close>

theorem profile_choice_unvalidated:
  assumes "config_load T (a_config_path g) contents = Ok cfg" and "\<not> oc_enabled (ac_obfuscation cfg)"
    and "p \<noteq> ProfOff" and "p \<noteq> ProfCustom"
  shows "\<exists>cfg'. a_config (on_profile p (on_load T contents g)) = Some cfg' \<and> \<not> is_ok (validate cfg') \<and>
           WARN_NO_PACING \<notin> set (a_warnings (on_profile p (on_load T contents g))) \<and>
           (\<forall>j g'. on_connect (on_profile p (on_load T contents g)) = (ConnectTask j, g') \<longrightarrow> cj_config j = cfg') \<and>
           (\<forall>K. cf_params K = from_config cfg' \<longrightarrow> \<not> o_paced (out_init K))"
proof -
  define cfg' where "cfg' = cfg\<lparr> ac_traffic := (ac_traffic cfg)\<lparr> tc_profile := p \<rparr> \<rparr>"
  let ?g = "on_profile p (on_load T contents g)"
  have c: "a_config ?g = Some cfg'" "a_profile ?g = p" "a_warnings ?g = security_warnings cfg'"
    using assms(1) by (auto simp: on_profile_def on_load_def cfg'_def Let_def split: option.splits)
  have on: "et_enabled (effective (ac_traffic cfg'))" "\<not> oc_enabled (ac_obfuscation cfg')"
    using effective_preset [OF assms(4,3)] assms(2) by (simp_all add: cfg'_def)
  then have "traffic_check (ac_traffic cfg') (oc_enabled (ac_obfuscation cfg')) \<noteq> Ok ()" by (simp add: traffic_check_def)
  then have "validate cfg' \<noteq> Ok x" for x by (auto simp: validate_def rbind_eq_Ok split: if_splits)
  then have "\<not> is_ok (validate cfg')" by (cases "validate cfg'") auto
  moreover have "WARN_NO_PACING \<notin> {WARN_CLASSICAL, WARN_NO_OBF}" by code_simp
  then have "WARN_NO_PACING \<notin> set (a_warnings ?g)" using on by (auto simp: c(3) security_warnings_def Let_def)
  moreover have "cfg'\<lparr> ac_traffic := (ac_traffic cfg')\<lparr> tc_profile := p \<rparr> \<rparr> = cfg'" by (simp add: cfg'_def)
  then have "\<forall>j g'. on_connect ?g = (ConnectTask j, g') \<longrightarrow> cj_config j = cfg'"
    by (auto simp: on_connect_def c Let_def split: option.splits)
  moreover have "\<forall>K. cf_params K = from_config cfg' \<longrightarrow> \<not> o_paced (out_init K)"
    using on(2) by (simp add: out_init_def from_config_def Let_def)
  ultimately show ?thesis using c(1) by blast
qed

lemma parse_semver_tag:
  assumes "a < 2 ^ 64" and "b < 2 ^ 64" and "c < 2 ^ 64" and "v = [] \<or> v = ''v''" and "rest = [] \<or> hd rest = CHR ''.''"
  shows "parse_semver (v @ show_nat a @ ''.'' @ show_nat b @ ''.'' @ show_nat c @ rest) = Some (a, b, c)"
proof -
  have no: "CHR ''.'' \<notin> set (show_nat n)" "CHR ''v'' \<notin> set (show_nat n)" for n
    using show_nat_dec [of "CHR ''.''" n] show_nat_dec [of "CHR ''v''" n] by (auto simp: dec_char_def)
  let ?tag = "v @ show_nat a @ ''.'' @ show_nat b @ ''.'' @ show_nat c @ rest"
  have "strip_prefix_v ?tag = show_nat a @ ''.'' @ show_nat b @ ''.'' @ show_nat c @ rest"
    using assms(4) no(2) [of a] show_nat_nonempty [of a] by (cases "show_nat a") (auto simp: strip_prefix_v_def)
  moreover obtain more where "split_on (CHR ''.'') (show_nat c @ rest) = show_nat c # more"
    using assms(5) split_on_append [OF no(1), of c] split_on_none [OF no(1), of c] by (cases rest) auto
  ultimately have "split_on (CHR ''.'') (strip_prefix_v ?tag) = show_nat a # show_nat b # show_nat c # more"
    using split_on_append [OF no(1)] by simp
  then show ?thesis
    unfolding parse_semver_def using assms(1-3) by (simp add: parse_uint_show)
qed

lemma parse_version: "parse_semver VERSION = Some (0, 9, 3)"
proof -
  have "VERSION = [] @ show_nat 0 @ ''.'' @ show_nat 9 @ ''.'' @ show_nat 3 @ []"
    by (simp add: VERSION_def show_nat.simps) code_simp
  then show ?thesis using parse_semver_tag [of 0 9 3 "[]" "[]"] by simp
qed

text \<open>The check for updates compares versions by number. A release \<open>x.y.z\<close>, with or without a leading \<open>v\<close>, is offered exactly when it is
  later than the running version. What follows a third dot is not looked at, so the shape of a tag is not checked to its
  end.\<close>

theorem update_check_by_number:
  assumes "a < 2 ^ 64" and "b < 2 ^ 64" and "c < 2 ^ 64" and "v = [] \<or> v = ''v''" and "rest = [] \<or> hd rest = CHR ''.''"
  shows "compare_release (v @ show_nat a @ ''.'' @ show_nat b @ ''.'' @ show_nat c @ rest) =
           (if version_less (0, 9, 3) (a, b, c)
            then Available (v @ show_nat a @ ''.'' @ show_nat b @ ''.'' @ show_nat c @ rest) else UpToDate)"
  by (simp add: compare_release_def parse_semver_tag [OF assms, simplified] parse_version)

theorem update_check_by_number_witness:
  "compare_release (''v'' @ show_nat 0 @ ''.'' @ show_nat 10 @ ''.'' @ show_nat 0 @ ''.1'') \<noteq> UpToDate \<and>
   compare_release ([] @ show_nat 0 @ ''.'' @ show_nat 9 @ ''.'' @ show_nat 3 @ []) = UpToDate"
  using update_check_by_number [of 0 10 0 "''v''" "''.1''"] update_check_by_number [of 0 9 3 "[]" "[]"]
  by (simp add: version_less_def)

section \<open>Witnesses\<close>

text \<open>A configuration for debugging, without obfuscation.\<close>

definition demo_hex :: "byte \<Rightarrow> string" where
  "demo_hex b = to_hex (replicate 32 b)"

lemma demo_hex [simp]: "plain (demo_hex b)" "hex_to_32 (demo_hex b) f = Ok (replicate 32 b)" "hex_to_vec (demo_hex b) f = Ok (replicate 32 b)"
  by (simp_all add: demo_hex_def to_hex_plain)

definition open_doc :: "doc_line list" where
  "open_doc =
     [Section ''identity'', Entry ''ed25519_seed_hex'' 1 (TStr (demo_hex 7)),
      Entry ''peer_ed25519_pub_hex'' 1 (TStr (demo_hex 9)), Section ''network'', Section ''tun'',
      Section ''obfuscation'', Entry ''enabled'' 1 (TBool False), Entry ''handshake'' 1 (TBool False)]"

lemma open_doc_tables:
  "tables None open_doc =
     [(''identity'', TTable [(''ed25519_seed_hex'', TStr (demo_hex 7)), (''peer_ed25519_pub_hex'', TStr (demo_hex 9))]),
      (''network'', TTable []), (''tun'', TTable []),
      (''obfuscation'', TTable [(''enabled'', TBool False), (''handshake'', TBool False)])]"
  by (simp add: open_doc_def close_section_def)

lemma open_doc_ok: "doc_ok open_doc"
proof -
  have str: "value_ok (TStr s) = plain s" for s by (simp add: plain_def)
  have "\<forall>l\<in>set open_doc. line_ok l"
    by (simp only: open_doc_def list.set ball_simps line_ok.simps value_ok.simps(2) str demo_hex literal_lines simp_thms)
  then show ?thesis unfolding doc_ok_def open_doc_tables by simp
qed

lemma open_doc_loads:
  "\<exists>cfg. config_load line_parser path (Inr (doc_text open_doc)) = Ok cfg \<and> \<not> oc_enabled (ac_obfuscation cfg)"
proof -
  have p: "tl_parse line_parser (doc_text open_doc) = Inr (tables None open_doc)"
    using line_parser_ok open_doc_ok by (simp add: toml_ok_def)
  obtain net where net: "de_network [] = Some net" by (simp add: de_network_def or_default_def maybe_def)
  obtain i where i: "de_identity [(''ed25519_seed_hex'', TStr (demo_hex 7)), (''peer_ed25519_pub_hex'', TStr (demo_hex 9))] = Some i"
    "seed_bytes i = Ok (replicate 32 7)" "peer_pub_bytes i = Ok (replicate 32 9)" "mldsa_secret_bytes i = Ok None"
    "peer_mldsa_pub_bytes i = Ok None" "ic_mldsa_secret_hex i = None" "ic_peer_mldsa_pub_hex i = None"
    by (simp add: de_identity_def required_def maybe_def seed_bytes_def peer_pub_bytes_def mldsa_secret_bytes_def
        peer_mldsa_pub_bytes_def transpose_opt_def)
  obtain t where t: "de_tun [] = Some t" "tn_mtu t = 1200" "\<not> tn_kill_switch t" "tn_dns t = []"
    by (simp add: de_tun_def or_default_def maybe_def)
  obtain oc where oc: "de_obfuscation [(''enabled'', TBool False), (''handshake'', TBool False)] = Some oc" "\<not> oc_enabled oc"
    "\<not> oc_handshake oc" "oc_psk_hex oc = None"
    by (simp add: de_obfuscation_def or_default_def maybe_def)
  define cfg where "cfg = \<lparr> ac_identity = i, ac_network = net, ac_tun = t, ac_engine = engine_default, ac_obfuscation = oc,
    ac_traffic = traffic_default \<rparr>"
  have "de_app (tables None open_doc) = Some cfg"
    by (simp add: open_doc_tables de_app_def required_def or_default_def net i(1) t(1) oc(1) cfg_def)
  moreover have "validate cfg = Ok ()"
    using i t oc by (simp add: validate_iff cfg_def psk_bytes_def transpose_opt_def traffic_default_def effective_def)
  ultimately show ?thesis
    using oc by (intro exI [of _ cfg]) (simp add: config_load_def from_toml_str_def p cfg_def)
qed

definition demo_window :: gui where
  "demo_window = fst (gui_new Linux file_runner None)"

theorem profile_choice_unvalidated_witness:
  "\<exists>cfg'. a_config (on_profile ProfBalanced (on_load line_parser (Inr (doc_text open_doc)) demo_window)) = Some cfg' \<and>
     \<not> is_ok (validate cfg')"
proof -
  obtain cfg where "config_load line_parser (a_config_path demo_window) (Inr (doc_text open_doc)) = Ok cfg"
    "\<not> oc_enabled (ac_obfuscation cfg)" using open_doc_loads by blast
  from profile_choice_unvalidated [OF this, of ProfBalanced] show ?thesis by auto
qed

text \<open>The client of a generated pair with a kill switch, loaded and connected while the network is down: the switch engages, the
  connect fails.\<close>

definition demo_job_env :: connect_env where
  "demo_job_env = \<lparr> ce_bind = Some ''Network unreachable'', ce_attempts = [], ce_faults = [], ce_counter = 1, ce_now = 0,
     ce_epoch = 1000, ce_max_gso = 1, ce_dns = no_faults \<rparr>"

definition demo_env :: "string + string \<Rightarrow> gui_env" where
  "demo_env file = \<lparr> ge_file = file, ge_now = 1000, ge_fault1 = None, ge_fault2 = None, ge_rng = (\<lambda>_. 0) \<rparr>"

lemma file_runner_keeps: "ip_keeps file_runner file_filter"
  by (simp add: ip_keeps_def)

lemma file_runner_engages:
  "\<exists>w'. ks_engage Linux file_runner server ''chameleon0'' w = (Ok \<lparr> ks_engaged = True, ks_other_allow_rules = None \<rparr>, w')"
proof -
  have "fst (local_subnet file_runner w) = None \<and> snd (local_subnet file_runner w) = w"
    by (simp add: local_subnet_def default_route_dev_def run_stdout_def done_with_def split_whitespace_def)
  moreover have "\<not> unsafe_tun_name ''chameleon0''" by code_simp
  ultimately show ?thesis
    by (simp add: ks_engage_def engage_backend_def nft_apply_def other_allow_rules_hint_def Let_def case_prod_beta done_with_def)
qed

abbreviation demo_step :: "gui_event \<Rightarrow> string option desktop \<Rightarrow> string option desktop \<Rightarrow> bool" where
  "demo_step \<equiv> gui_step Linux file_runner toy_crypto Aegis256X2 line_parser (\<lambda>_ _. False)"

abbreviation demo_reach :: "string option desktop \<Rightarrow> bool" where
  "demo_reach \<equiv> gui_reach Linux file_runner toy_crypto Aegis256X2 line_parser (\<lambda>_ _. False)"

lemma demo_connecting:
  obtains d j out h where "demo_reach d" "dk_job d = Some j" "dk_host d = (stub_fs, None)" "a_ks (dk_gui d) = None"
    "run_job Linux file_runner toy_crypto Aegis256X2 (Ok ()) demo_job_env (\<lambda>_. 5) j (stub_fs, None) = (out, h)"
    "\<exists>e k. out = (Inl e, Some (Inr k))"
proof -
  obtain srv cli r' where run: "init_pair toy_crypto demo_params (\<lambda>n. of_nat n) = ((srv, cli), r')"
    by (metis prod.collapse)
  obtain server client psk prof auth_s auth_c obf where load:
    "from_toml_str line_parser srv = Ok (server_config demo_params server client psk prof)"
    "from_toml_str line_parser cli = Ok (client_config demo_params server client psk prof)"
    "map_of profile_names (pp_profile demo_params) = Some prof"
    "build_auth toy_crypto (server_config demo_params server client psk prof) = Ok auth_s"
    "build_auth toy_crypto (client_config demo_params server client psk prof) = Ok auth_c"
    "trusts toy_crypto auth_s auth_c" "trusts toy_crypto auth_c auth_s" "auth_sig_len toy_crypto auth_c = 64 + c_mldsa_sig_len toy_crypto"
    "hs_obf_key toy_crypto (server_config demo_params server client psk prof) = Ok (Some obf)"
    "hs_obf_key toy_crypto (client_config demo_params server client psk prof) = Ok (Some obf)" "length obf = 32"
    by (rule init_pair_ok [OF toy_crypto_ok line_parser_ok demo_params_ok run])
  define cfg where "cfg = client_config demo_params server client psk prof"
  have cfg: "tn_route_all (ac_tun cfg)" "tn_kill_switch (ac_tun cfg)" "tn_name (ac_tun cfg) = ''chameleon0''"
    "nc_server_addr (ac_network cfg) = Some (pp_server_addr demo_params)"
    by (simp_all add: cfg_def client_config_def pair_config_def demo_params_def)
  define d0 where "d0 = desktop_start Linux file_runner (stub_fs, None)"
  define d1 where "d1 = handle Linux file_runner line_parser (demo_env (Inr cli)) LoadConfig d0"
  define d2 where "d2 = handle Linux file_runner line_parser (demo_env (Inr cli)) Connect d1"
  have g0: "a_client (dk_gui d0) = None" "\<not> a_connecting (dk_gui d0)" "a_ks (dk_gui d0) = None" "dk_host d0 = (stub_fs, None)"
    by (simp_all add: d0_def desktop_start_def gui_new_def Let_def case_prod_beta ks_is_engaged_def run_succeeds_def failed_with_def)
  have "config_load line_parser p (ge_file (demo_env (Inr cli))) = Ok cfg" for p
    by (simp add: config_load_def demo_env_def load(2) cfg_def)
  then have d1: "dk_gui d1 = on_load line_parser (ge_file (demo_env (Inr cli))) (dk_gui d0)" "dk_host d1 = dk_host d0"
    "a_config (dk_gui d1) = Some cfg" "a_kill_switch (dk_gui d1)" "a_profile (dk_gui d1) = tc_profile (ac_traffic cfg)"
    by (simp_all add: d1_def handle_def on_load_def Let_def cfg)
  have k1: "key (dk_gui d1) = key (dk_gui d0)" by (simp add: d1(1))
  obtain srvr where "(case parse_sock_addr (a_server (dk_gui d1)) of Some s \<Rightarrow> Some s | None \<Rightarrow> nc_server_addr (ac_network cfg)) = Some srvr"
    by (cases "parse_sock_addr (a_server (dk_gui d1))") (auto simp: cfg)
  moreover have "cfg\<lparr> ac_traffic := (ac_traffic cfg)\<lparr> tc_profile := tc_profile (ac_traffic cfg) \<rparr> \<rparr> = cfg" by simp
  ultimately have conn: "on_connect (dk_gui d1) =
      (ConnectTask \<lparr> cj_config = cfg, cj_server = srvr, cj_kill_switch = True \<rparr>,
       log_line (''Connecting to '' @ show_sock_addr srvr @ '' '' @ ELLIPSIS) ((dk_gui d1)\<lparr> a_connecting := True \<rparr>))"
    using d1(3-5) by (simp add: on_connect_def Let_def)
  define j where "j = \<lparr> cj_config = cfg, cj_server = srvr, cj_kill_switch = True \<rparr>"
  have d2: "dk_job d2 = Some j" "dk_host d2 = (stub_fs, None)" "a_ks (dk_gui d2) = None"
    using k1 g0 by (simp_all add: d2_def handle_def conn j_def d1(2) key_eq)
  have "demo_reach d0" unfolding d0_def by (rule gui_reach.start)
  moreover have "demo_step (Press LoadConfig) d0 d1" unfolding d1_def by (rule gui_step.press) simp
  moreover have "demo_step (Press Connect) d1 d2"
    unfolding d2_def by (rule gui_step.press) (use k1 g0 in \<open>simp add: key_eq\<close>)
  ultimately have reach: "demo_reach d2" by (blast intro: gui_reach.step)
  obtain w where "ks_engage Linux file_runner srvr ''chameleon0'' None = (Ok \<lparr> ks_engaged = True, ks_other_allow_rules = None \<rparr>, w)"
    using file_runner_engages by blast
  then have "job_switch Linux file_runner j None = (Some (Inr \<lparr> ks_engaged = True, ks_other_allow_rules = None \<rparr>), w)"
    by (simp add: job_switch_def j_def cfg ENGAGE_RETRIES_def numeral_eq_Suc)
  then have "\<exists>e. run_job Linux file_runner toy_crypto Aegis256X2 (Ok ()) demo_job_env (\<lambda>_. 5) j (stub_fs, None) =
      ((Inl e, Some (Inr \<lparr> ks_engaged = True, ks_other_allow_rules = None \<rparr>)), stub_fs, w)"
    using load(5) by (simp add: run_job_def j_def cfg_def client_connect_def demo_job_env_def next_session_id_def)
  then show thesis using that [OF reach d2] by blast
qed

theorem gui_switch_fails_closed_witness:
  "\<exists>d d'. demo_step JobRuns d d' \<and> file_filter (snd (dk_host d)) = None \<and> file_filter (snd (dk_host d')) \<noteq> None"
proof -
  obtain d j out h where *: "demo_reach d" "dk_job d = Some j" "dk_host d = (stub_fs, None)" "a_ks (dk_gui d) = None"
    "run_job Linux file_runner toy_crypto Aegis256X2 (Ok ()) demo_job_env (\<lambda>_. 5) j (stub_fs, None) = (out, h)"
    "\<exists>e k. out = (Inl e, Some (Inr k))" by (rule demo_connecting)
  define d' where "d' = d\<lparr> dk_job := None, dk_done := Some out, dk_host := h \<rparr>"
  have step: "demo_step JobRuns d d'" unfolding d'_def by (rule gui_step.job_runs [OF *(2)]) (use *(3,5) in simp)
  obtain e k where out: "out = (Inl e, Some (Inr k))" using *(6) by blast
  have "file_filter (snd h) \<noteq> None"
    using run_job_effect [OF file_runner_ok file_runner_keeps *(5) [unfolded out]] by auto
  moreover have "file_filter (snd (dk_host d)) = None" by (simp add: *(3) file_filter_def)
  moreover note gui_switch_fails_closed [OF file_runner_ok file_runner_keeps _ *(1) step]
  ultimately show ?thesis using step by (intro exI [of _ d] exI [of _ d']) (simp add: d'_def)
qed


theorem gui_shows_its_config_witness:
  "demo_reach (desktop_start Linux file_runner (stub_fs, None)) \<and>
   length (a_log (dk_gui (desktop_start Linux file_runner (stub_fs, None)))) \<le> LOG_LINES"
  using gui_shows_its_config [OF gui_reach.start] gui_reach.start by blast

text \<open>A connect that succeeds over the network of \<open>Net_Run\<close>, with keys in the configuration.\<close>

definition demo_wired :: app_config where
  "demo_wired = demo_full_tunnel\<lparr> ac_identity := \<lparr> ic_seed_hex = demo_hex 1, ic_peer_pub_hex = demo_hex 2,
     ic_mldsa_secret_hex = Some (demo_hex 1), ic_peer_mldsa_pub_hex = Some (demo_hex 2) \<rparr> \<rparr>"

definition demo_job :: connect_job where
  "demo_job = \<lparr> cj_config = demo_wired, cj_server = demo_src, cj_kill_switch = False \<rparr>"

lemma demo_job_connects:
  "\<exists>env c h'. run_job Linux file_runner toy_crypto Aegis256X2 (Ok ()) env (\<lambda>_. 5) demo_job (stub_fs, None) = ((Inr c, None), h')"
proof -
  obtain as si where hs: "fst (run_handshake_initiator toy_crypto (demo_auth 1 2) Aegis256X2 demo_src None 1 as [] (\<lambda>_. 5)) = Ok si"
    using demo_network_run by (metis fst_conv)
  define env where "env = \<lparr> ce_bind = None, ce_attempts = as, ce_faults = [], ce_counter = 1, ce_now = 0, ce_epoch = 1000,
    ce_max_gso = 1, ce_dns = no_faults \<rparr>"
  have auth: "build_auth toy_crypto demo_wired = Ok (demo_auth 1 2)"
    by (simp add: build_auth_def demo_wired_def Let_def seed_bytes_def peer_pub_bytes_def mldsa_secret_bytes_def
        peer_mldsa_pub_bytes_def transpose_opt_def ed25519_new_def mldsa_from_keys_def toy_crypto_def demo_auth_def)
  have obf: "hs_obf_key toy_crypto demo_wired = Ok None"
    by (simp add: hs_obf_key_def demo_wired_def demo_full_tunnel_def Let_def)
  obtain res h' where run: "client_connect Linux file_runner toy_crypto Aegis256X2 demo_wired demo_src (demo_auth 1 2) env (stub_fs, None) (\<lambda>_. 5) = (res, h')"
    by (metis surj_pair)
  have "is_ok res"
    using run hs obf by (auto simp: client_connect_def env_def next_session_id_def Let_def split: prod.splits)
  then obtain c where "res = Ok c" by (cases res) auto
  then have "run_job Linux file_runner toy_crypto Aegis256X2 (Ok ()) env (\<lambda>_. 5) demo_job (stub_fs, None) = ((Inr c, None), h')"
    using run by (simp add: run_job_def demo_job_def auth job_switch_def)
  then show ?thesis by blast
qed

theorem profile_chosen_while_connecting_lost_witness:
  "\<exists>env c h h' g'. run_job Linux file_runner toy_crypto Aegis256X2 (Ok ()) env (\<lambda>_. 5) demo_job (stub_fs, None) = ((Inr c, None), h) \<and>
     on_connected Linux file_runner (demo_env (Inl [])) (Inr c, None)
       (on_profile ProfStealth (demo_window\<lparr> a_connecting := True \<rparr>), h) = (g', h') \<and>
     a_profile g' = ProfStealth \<and> a_client g' = Some c \<and> et_profile (t_watch (n_tun (cl_node c))) = ProfOff"
proof -
  obtain env c h where run: "run_job Linux file_runner toy_crypto Aegis256X2 (Ok ()) env (\<lambda>_. 5) demo_job (stub_fs, None) = ((Inr c, None), h)"
    using demo_job_connects by blast
  obtain g' h' where on: "on_connected Linux file_runner (demo_env (Inl [])) (Inr c, None)
       (on_profile ProfStealth (demo_window\<lparr> a_connecting := True \<rparr>), h) = (g', h')" by (metis surj_pair)
  have "a_client (demo_window\<lparr> a_connecting := True \<rparr>) = None" by (simp add: demo_window_def gui_new_def Let_def case_prod_beta)
  then have "a_connecting (demo_window\<lparr> a_connecting := True \<rparr>)" "a_client (demo_window\<lparr> a_connecting := True \<rparr>) = None" by simp_all
  note lost = profile_chosen_while_connecting_lost [OF this run on]
  have "tc_profile (ac_traffic (cj_config demo_job)) = ProfOff"
    by (simp add: demo_job_def demo_wired_def demo_full_tunnel_def demo_config_def traffic_default_def Let_def)
  then show ?thesis
    using lost run on
    by (intro exI [of _ env] exI [of _ c] exI [of _ h] exI [of _ h'] exI [of _ g']) (simp only: simp_thms)
qed

end
