(* ===== verification/Watch.thy ===== *)
theory Watch
  imports Tunnel
begin

text \<open>
  Who writes the watch channel of a tunnel: the profile a live switch brings (\<open>traffic_tx\<close> of \<open>src/client.rs\<close>), and the
  inbound loop of a server that follows its peer. No other step of the loops of \<open>src/tunnel_loops.rs\<close> touches it.
\<close>

lemma watch_batch [simp]: "t_watch (send_batch K ds t) = t_watch t"
  by (simp add: send_batch_def)

lemma watch_sender [simp]: "t_watch (sender_task K t) = t_watch t"
  by (auto simp: sender_task_def split: list.splits)

lemma watch_drain [simp]: "t_watch (drain_sender K t) = t_watch t"
proof -
  have "t_watch ((sender_task K ^^ n) t) = t_watch t" for n by (induction n) simp_all
  then show ?thesis by (simp add: drain_sender_def)
qed

lemma watch_profile: "send_profile_frame C a pad i t r = (t', r') \<Longrightarrow> t_watch t' = t_watch t"
  by (auto simp: send_profile_frame_def Let_def split: prod.splits sum.splits)

lemma watch_announce: "announce_switch K wid now t r = (t', r') \<Longrightarrow> t_watch t' = t_watch t"
  by (auto simp: announce_switch_def Let_def dest!: watch_profile split: option.splits prod.splits if_splits)

lemma watch_recv: "out_recv K drained rs panics gone (t, o1) = (c, t', o2) \<Longrightarrow> t_watch t' = t_watch t"
  by (auto simp: out_recv_def Let_def split: prod.splits sum.splits if_splits)

lemma watch_paced: "tick_paced K nows (t, o1) r = ((t', o2), r') \<Longrightarrow> t_watch t' = t_watch t"
  by (auto simp: tick_paced_def Let_def split: prod.splits)

lemma watch_residue: "ship_residue K gone (t, o1) r = ((c, t', o2), r') \<Longrightarrow> t_watch t' = t_watch t"
  by (auto simp: ship_residue_def Let_def split: prod.splits sum.splits if_splits)

lemma watch_trigger: "rekey_trigger now (t, o1) = (t', o2) \<Longrightarrow> t_watch t' = t_watch t"
  by (auto simp: rekey_trigger_def Let_def split: prod.splits if_splits)

lemma watch_tick: "out_tick K nows now gone (t, o1) r = ((c, t', o2), r') \<Longrightarrow> t_watch t' = t_watch t"
  by (auto simp: out_tick_def split: prod.splits loop_ctl.splits if_splits
      dest!: watch_paced watch_residue watch_trigger)

lemma watch_switch:
  assumes "out_switch K changed now gone (t, o1) r = ((c, t', o2), r')"
  shows "t_watch t' = t_watch t"
proof (cases changed)
  case None
  then show ?thesis using assms by (auto simp: out_switch_def)
next
  case (Some eff)
  define np where "np = (et_enabled eff \<and> tp_obf_enabled (cf_params K))"
  define t1 where "t1 = (if \<not> o_paced o1 \<and> np then drain_sender K t else t)"
  obtain c1 t2 o3 r1 where res: "switch_residue K np gone (t1, o1) r = ((c1, t2, o3), r1)"
    by (metis prod.exhaust)
  have t2: "t_watch t2 = t_watch t"
    using res by (auto simp: switch_residue_def t1_def dest: watch_residue split: if_splits)
  obtain t3 r2 where ann: "announce_switch K (wire_id (et_profile eff)) now (t2\<lparr> t_paced := np \<rparr>) r1 = (t3, r2)"
    by fastforce
  have "t_watch t3 = t_watch t" using watch_announce [OF ann] t2 by simp
  then show ?thesis
    using assms res Some t2 ann
    by (cases c1) (auto simp: out_switch_def Let_def np_def [symmetric] t1_def [symmetric] apply_pacing_def)
qed

lemma watch_rekey_done: "out_rekey_done K envs faults now (t, o1) r = (t', o2) \<Longrightarrow> t_watch t' = t_watch t"
  by (auto simp: out_rekey_done_def Let_def split: option.splits prod.splits sum.splits)

lemma watch_rekey_io:
  "out_rekey_send d (t, o1) = (t', o2) \<Longrightarrow> t_watch t' = t_watch t" "out_rekey_take (t, o1) = (t', o2) \<Longrightarrow> t_watch t' = t_watch t"
  by (auto simp: out_rekey_send_def out_rekey_take_def split: option.splits handshake_sink.splits if_splits)

lemma watch_keepalive: "ka_tick K epoch t r = ((c, t'), r') \<Longrightarrow> t_watch t' = t_watch t"
  by (auto simp: ka_tick_def ka_frame_def Let_def dest!: watch_profile split: prod.splits option.splits sum.splits if_splits)

lemma watch_data:
  assumes "in_data_path K now epoch open_tun tx_ok src ft plain (t, i) = (c, t', i')" "tp_follow_peer (cf_params K) = None"
  shows "t_watch t' = t_watch t"
  using assms
  by (auto simp: in_data_path_def in_profile_def Let_def split: frame_type.splits if_splits prod.splits)

lemma watch_result:
  assumes "in_result K now epoch open_tun tx_ok (src, d, x) faults (t, i) r = ((c, t', i'), r')"
    "tp_follow_peer (cf_params K) = None"
  shows "t_watch t' = t_watch t"
  using assms(1)
proof (cases rule: in_result_cases)
  case (data ft plain)
  then show ?thesis using watch_data assms(2) by blast
next
  case (obf k)
  from obf_handshake_effect [OF this] show ?thesis by (simp add: guarded_def)
next
  case (clear f r'')
  from clear_handshake_effect [OF this] show ?thesis by (simp add: guarded_def)
next
  case (clear_data f)
  then show ?thesis by (auto simp: in_clear_data_def Let_def split: prod.splits sum.splits if_splits)
qed (simp add: guarded_def)

lemma step_watch:
  "tunnel_step K sw n n' \<Longrightarrow> tp_follow_peer (cf_params K) = None \<Longrightarrow>
    t_watch (n_tun n') = t_watch (n_tun n) \<or> (\<exists>eff. n' = n\<lparr> n_tun := (n_tun n)\<lparr> t_watch := eff \<rparr> \<rparr>)"
proof (induction rule: tunnel_step.induct)
  case (item n src d x items now epoch open_tun tx_ok faults r c t i r')
  then show ?case using watch_result by auto
qed (auto simp: in_recv_def sequential_sender_def resend_profile_def Let_def
  split: prod.splits sum.splits option.splits if_splits
  dest: watch_recv watch_tick watch_switch watch_rekey_done watch_rekey_io watch_keepalive watch_profile)

end
