(* ===== verification/Android.thy ===== *)
theory Android
  imports Client Setup Watch
begin

text \<open>
  The bridge to the Android application (\<open>android/rust-jni/src/lib.rs\<close>): the globals behind the exported functions, the
  overrides that fit a desktop configuration to a phone, and each \<open>*_inner\<close> function; \<open>nativeStart\<close> also in its phases, since
  the locks are not held while it connects and other calls may come in between (\<open>jni_step\<close>). The JNI wrappers, which
  marshal strings and turn errors and panics into exceptions, and the JSON text of the results are not modelled. Android
  builds the back-ends that are not Windows.
\<close>

section \<open>Globals and configuration\<close>

record jni =
  jn_client :: "client option"
  jn_override :: "traffic_profile option"
  jn_traffic :: "traffic_config option"

definition jni_init :: jni where
  "jni_init = \<lparr> jn_client = None, jn_override = None, jn_traffic = None \<rparr>"

definition jni_error :: "string \<Rightarrow> chameleon_error" where
  "jni_error msg = HandshakeErr ''jni'' msg"

definition effective_dns :: "tun_config \<Rightarrow> string list" where
  "effective_dns t = (if tn_dns t = [] then [''1.1.1.1'', ''1.0.0.1''] else tn_dns t)"

definition ANDROID_MAX_COOLDOWN_MS :: u64 where
  "ANDROID_MAX_COOLDOWN_MS = 100"

definition androidize :: "app_config \<Rightarrow> app_config" where
  "androidize cfg =
     (let t = ac_tun cfg; t1 = t\<lparr> tn_route_all := False, tn_kill_switch := False \<rparr>; tc = ac_traffic cfg
      in cfg\<lparr> ac_tun := t1\<lparr> tn_dns := effective_dns t1 \<rparr>,
              ac_traffic := (if tc_cooldown_ms tc > ANDROID_MAX_COOLDOWN_MS
                             then tc\<lparr> tc_cooldown_ms := ANDROID_MAX_COOLDOWN_MS \<rparr> else tc) \<rparr>)"

section \<open>The exported functions\<close>

record tun_params_json =
  tj_address :: string
  tj_netmask :: string
  tj_mtu :: u16
  tj_dns :: "string list"

definition native_tun_params :: "toml_lib \<Rightarrow> string \<Rightarrow> tun_params_json result" where
  "native_tun_params T toml =
     rbind (from_toml_str T toml) (\<lambda>cfg.
     Ok \<lparr> tj_address = tn_address (ac_tun cfg), tj_netmask = tn_netmask (ac_tun cfg), tj_mtu = tn_mtu (ac_tun cfg),
          tj_dns = effective_dns (ac_tun cfg) \<rparr>)"

text \<open>\<open>nativeStart\<close>: the check for a running client, the configuration with the profile chosen in the application, the
  connect, and the two writes at the end. \<open>tun\<close> is how attaching to the descriptor ended. A client that is
  overwritten is dropped, which leaves its background task running.\<close>

definition start_check :: "jni \<Rightarrow> unit result" where
  "start_check g =
     (if jn_client g \<noteq> None
      then Err (jni_error (''already connected '' @ [CHR 0xE2, CHR 0x80, CHR 0x94] @ '' call nativeStop first''))
      else Ok ())"

definition start_config :: "toml_lib \<Rightarrow> string \<Rightarrow> traffic_profile option \<Rightarrow> (app_config \<times> sock_addr) result" where
  "start_config T toml chosen =
     rbind (from_toml_str T toml) (\<lambda>cfg0.
       let cfg1 = androidize cfg0;
           cfg = (case chosen of Some p \<Rightarrow> cfg1\<lparr> ac_traffic := (ac_traffic cfg1)\<lparr> tc_profile := p \<rparr> \<rparr> | None \<Rightarrow> cfg1)
       in case nc_server_addr (ac_network cfg) of
            None \<Rightarrow> Err (jni_error ''network.server_addr not set in config'')
          | Some server \<Rightarrow> Ok (cfg, server))"

definition start_connect ::
  "'w runner \<Rightarrow> crypto_lib \<Rightarrow> aead_algo \<Rightarrow> unit result \<Rightarrow> connect_env \<Rightarrow> app_config \<Rightarrow> sock_addr \<Rightarrow> fs \<times> 'w \<Rightarrow> rng \<Rightarrow>
    client result \<times> fs \<times> 'w" where
  "start_connect run C pref tun env cfg server h r =
     (case rbind tun (\<lambda>_. build_auth C cfg) of
        Err e \<Rightarrow> (Err e, h)
      | Ok auth \<Rightarrow> client_connect Linux run C pref cfg server auth env h r)"

definition publish_traffic :: "app_config \<Rightarrow> jni \<Rightarrow> jni" where
  "publish_traffic cfg g = g\<lparr> jn_traffic := Some (ac_traffic cfg) \<rparr>"

definition publish_client :: "'w runner \<Rightarrow> client \<Rightarrow> jni \<times> fs \<times> 'w \<Rightarrow> jni \<times> fs \<times> 'w" where
  "publish_client run c s = (case s of (g, h) \<Rightarrow> (g\<lparr> jn_client := Some c \<rparr>, client_drop Linux run None None (jn_client g) h))"

definition native_start ::
  "'w runner \<Rightarrow> crypto_lib \<Rightarrow> aead_algo \<Rightarrow> toml_lib \<Rightarrow> unit result \<Rightarrow> connect_env \<Rightarrow> string \<Rightarrow> jni \<times> fs \<times> 'w \<Rightarrow> rng \<Rightarrow>
    unit result \<times> jni \<times> fs \<times> 'w" where
  "native_start run C pref T tun env toml s r =
     (case rbind (start_check (fst s)) (\<lambda>_. start_config T toml (jn_override (fst s))) of
        Err e \<Rightarrow> (Err e, s)
      | Ok (cfg, server) \<Rightarrow>
          (case start_connect run C pref tun env cfg server (snd s) r of
             (Err e, h) \<Rightarrow> (Err e, fst s, h)
           | (Ok c, h) \<Rightarrow> (Ok (), publish_client run c (publish_traffic cfg (fst s), h))))"

definition native_stop :: "'w runner \<Rightarrow> jni \<times> fs \<times> 'w \<Rightarrow> rng \<Rightarrow> jni \<times> fs \<times> 'w" where
  "native_stop run s r =
     (case s of (g, h) \<Rightarrow>
        (g\<lparr> jn_traffic := None, jn_client := None \<rparr>,
         case jn_client g of
           None \<Rightarrow> h
         | Some c \<Rightarrow> let (c', h') = client_disconnect_and_wait Linux run None None c h r in client_drop Linux run None None (Some c') h'))"

definition parse_profile :: "string \<Rightarrow> traffic_profile option" where
  "parse_profile name =
     (if name = ''off'' then Some ProfOff else if name = ''balanced'' then Some ProfBalanced
      else if name = ''throughput'' then Some ProfThroughput else if name = ''stealth'' then Some ProfStealth else None)"

definition native_set_profile :: "string \<Rightarrow> jni \<Rightarrow> unit result \<times> jni" where
  "native_set_profile name g =
     (case parse_profile name of
        None \<Rightarrow> (Err (jni_error (''unknown traffic profile '' @ [CHR 0x27] @ name @ [CHR 0x27])), g)
      | Some p \<Rightarrow>
          let g1 = g\<lparr> jn_override := Some p \<rparr>
          in (Ok (),
              case (jn_client g1, jn_traffic g1) of
                (Some c, Some tc) \<Rightarrow>
                  let tc' = tc\<lparr> tc_profile := p \<rparr>
                  in g1\<lparr> jn_traffic := Some tc', jn_client := Some (set_traffic (effective tc') c) \<rparr>
              | _ \<Rightarrow> g1))"

record status_json =
  sj_connected :: bool
  sj_session_id :: u32
  sj_tx_bytes :: u64
  sj_rx_bytes :: u64
  sj_uptime_secs :: u64

definition native_status :: "jni \<Rightarrow> int \<Rightarrow> status_json" where
  "native_status g now =
     (case jn_client g of
        Some c \<Rightarrow>
          let s = client_status c now
          in \<lparr> sj_connected = st_connected s, sj_session_id = st_session_id s, sj_tx_bytes = st_tx_bytes s,
               sj_rx_bytes = st_rx_bytes s, sj_uptime_secs = st_uptime_secs s \<rparr>
      | None \<Rightarrow> \<lparr> sj_connected = False, sj_session_id = 0, sj_tx_bytes = 0, sj_rx_bytes = 0, sj_uptime_secs = 0 \<rparr>)"

section \<open>Concurrent calls\<close>

text \<open>Where a call of \<open>nativeStart\<close> is: found no client, configuration read, connected, its \<open>TRAFFIC\<close> written. Any number of
  them may be under way. The two locks of a stop are taken one after the other. A set-profile is one step: what it
  does between its locks is local. The loops of a client move on by every step of theirs but the write of the watch
  channel, whose only writer here is \<open>set_traffic\<close>. \<open>br_loose\<close> are the clients dropped with their task running.\<close>

datatype start_phase = Checked string | Prepared app_config sock_addr | Joined app_config client | Announced client

fun phase_client :: "start_phase \<Rightarrow> client option" where
  "phase_client (Checked toml) = None"
| "phase_client (Prepared cfg server) = None"
| "phase_client (Joined cfg c) = Some c"
| "phase_client (Announced c) = Some c"

fun moved :: "client \<Rightarrow> start_phase \<Rightarrow> start_phase" where
  "moved c (Checked toml) = Checked toml"
| "moved c (Prepared cfg server) = Prepared cfg server"
| "moved c (Joined cfg _) = Joined cfg c"
| "moved c (Announced _) = Announced c"

record 'w bridge =
  br_globals :: jni
  br_starts :: "nat \<Rightarrow> start_phase option"
  br_loose :: "client list"
  br_host :: "fs \<times> 'w"

definition loops_move :: "client \<Rightarrow> node \<Rightarrow> bool" where
  "loops_move c n \<longleftrightarrow> (\<exists>sw. tunnel_step (cl_conf c) sw (cl_node c) n) \<and>
     (\<forall>eff. n = (cl_node c)\<lparr> n_tun := (n_tun (cl_node c))\<lparr> t_watch := eff \<rparr> \<rparr> \<longrightarrow> n = cl_node c)"

inductive jni_step :: "'w runner \<Rightarrow> crypto_lib \<Rightarrow> aead_algo \<Rightarrow> toml_lib \<Rightarrow> 'w bridge \<Rightarrow> 'w bridge \<Rightarrow> bool" for run C pref T where
  check: "br_starts b i = None \<Longrightarrow> start_check (br_globals b) = Ok () \<Longrightarrow>
    jni_step run C pref T b (b\<lparr> br_starts := (br_starts b)(i \<mapsto> Checked toml) \<rparr>)"
| prepare: "br_starts b i = Some (Checked toml) \<Longrightarrow> start_config T toml (jn_override (br_globals b)) = Ok (cfg, server) \<Longrightarrow>
    jni_step run C pref T b (b\<lparr> br_starts := (br_starts b)(i \<mapsto> Prepared cfg server) \<rparr>)"
| refuse: "br_starts b i = Some (Checked toml) \<Longrightarrow> start_config T toml (jn_override (br_globals b)) = Err e \<Longrightarrow>
    jni_step run C pref T b (b\<lparr> br_starts := (br_starts b)(i := None) \<rparr>)"
| joined: "br_starts b i = Some (Prepared cfg server) \<Longrightarrow> start_connect run C pref tun env cfg server (br_host b) r = (Ok c, h) \<Longrightarrow>
    jni_step run C pref T b (b\<lparr> br_starts := (br_starts b)(i \<mapsto> Joined cfg c), br_host := h \<rparr>)"
| failed: "br_starts b i = Some (Prepared cfg server) \<Longrightarrow> start_connect run C pref tun env cfg server (br_host b) r = (Err e, h) \<Longrightarrow>
    jni_step run C pref T b (b\<lparr> br_starts := (br_starts b)(i := None), br_host := h \<rparr>)"
| announce: "br_starts b i = Some (Joined cfg c) \<Longrightarrow>
    jni_step run C pref T b (b\<lparr> br_starts := (br_starts b)(i \<mapsto> Announced c), br_globals := publish_traffic cfg (br_globals b) \<rparr>)"
| publish: "br_starts b i = Some (Announced c) \<Longrightarrow> publish_client run c (br_globals b, br_host b) = (g, h) \<Longrightarrow>
    jni_step run C pref T b (b\<lparr> br_starts := (br_starts b)(i := None), br_globals := g, br_host := h,
      br_loose := br_loose b @ (case jn_client (br_globals b) of Some x \<Rightarrow> [x] | None \<Rightarrow> []) \<rparr>)"
| clear: "jni_step run C pref T b (b\<lparr> br_globals := (br_globals b)\<lparr> jn_traffic := None \<rparr> \<rparr>)"
| stop: "native_stop run (br_globals b, br_host b) r = (g, h) \<Longrightarrow>
    jni_step run C pref T b (b\<lparr> br_globals := g\<lparr> jn_traffic := jn_traffic (br_globals b) \<rparr>, br_host := h \<rparr>)"
| profile: "native_set_profile name (br_globals b) = (res, g) \<Longrightarrow> jni_step run C pref T b (b\<lparr> br_globals := g \<rparr>)"
| moves: "jn_client (br_globals b) = Some c \<Longrightarrow> loops_move c n \<Longrightarrow>
    jni_step run C pref T b (b\<lparr> br_globals := (br_globals b)\<lparr> jn_client := Some (c\<lparr> cl_node := n \<rparr>) \<rparr> \<rparr>)"
| moves_new: "br_starts b i = Some p \<Longrightarrow> phase_client p = Some c \<Longrightarrow> loops_move c n \<Longrightarrow>
    jni_step run C pref T b (b\<lparr> br_starts := (br_starts b)(i \<mapsto> moved (c\<lparr> cl_node := n \<rparr>) p) \<rparr>)"
| moves_loose: "k < length (br_loose b) \<Longrightarrow> loops_move (br_loose b ! k) n \<Longrightarrow>
    jni_step run C pref T b (b\<lparr> br_loose := (br_loose b)[k := (br_loose b ! k)\<lparr> cl_node := n \<rparr>] \<rparr>)"

definition bridge_start :: "fs \<times> 'w \<Rightarrow> 'w bridge" where
  "bridge_start h = \<lparr> br_globals = jni_init, br_starts = (\<lambda>_. None), br_loose = [], br_host = h \<rparr>"

inductive jni_reach for run C pref T h where
  start: "jni_reach run C pref T h (bridge_start h)"
| step: "jni_reach run C pref T h b \<Longrightarrow> jni_step run C pref T b b' \<Longrightarrow> jni_reach run C pref T h b'"

section \<open>Invariant\<close>

text \<open>A client of the phone owns nothing of the host, does not follow its peer's profile, and its cooldown is short.\<close>

definition phone_client :: "client \<Rightarrow> bool" where
  "phone_client c \<longleftrightarrow> cl_routes c = None \<and> cl_dns c = None \<and> tp_follow_peer (cf_params (cl_conf c)) = None \<and>
     et_cooldown_ms (t_watch (n_tun (cl_node c))) \<le> ANDROID_MAX_COOLDOWN_MS"

definition phone_config :: "app_config \<Rightarrow> bool" where
  "phone_config cfg \<longleftrightarrow> \<not> tn_route_all (ac_tun cfg) \<and> tc_cooldown_ms (ac_traffic cfg) \<le> ANDROID_MAX_COOLDOWN_MS"

fun phone_phase :: "start_phase \<Rightarrow> bool" where
  "phone_phase (Checked toml) = True"
| "phone_phase (Prepared cfg server) = phone_config cfg"
| "phone_phase (Joined cfg c) = (phone_config cfg \<and> phone_client c)"
| "phone_phase (Announced c) = phone_client c"

definition phone_globals :: "jni \<Rightarrow> bool" where
  "phone_globals g \<longleftrightarrow> (\<forall>c. jn_client g = Some c \<longrightarrow> phone_client c) \<and>
     (\<forall>tc. jn_traffic g = Some tc \<longrightarrow> tc_cooldown_ms tc \<le> ANDROID_MAX_COOLDOWN_MS)"

lemma androidize_phone: "phone_config (androidize cfg)"
  by (simp add: phone_config_def androidize_def Let_def linorder_not_less)

lemma effective_cooldown [simp]: "et_cooldown_ms (effective t) = tc_cooldown_ms t"
  by (cases "tc_profile t") (simp_all add: effective_def Let_def)

lemma config_phone: "start_config T toml chosen = Ok (cfg, server) \<Longrightarrow> phone_config cfg"
  using androidize_phone
  by (auto simp: start_config_def rbind_eq_Ok Let_def phone_config_def split: option.splits)

lemma connect_phone:
  assumes "phone_config cfg" "start_connect run C pref tun env cfg server h r = (res, h')"
  shows "h' = h \<and> (\<forall>c. res = Ok c \<longrightarrow> phone_client c \<and> cl_task c = Some False \<and>
           t_watch (n_tun (cl_node c)) = effective (ac_traffic cfg))"
proof (cases "rbind tun (\<lambda>_. build_auth C cfg)")
  case (Inr auth)
  then have "client_connect Linux run C pref cfg server auth env h r = (res, h')" using assms(2) by (simp add: start_connect_def)
  then show ?thesis
  proof (cases rule: connect_cases)
    case (2 c hs_obf s w1 routes dns)
    have "routes = None" "w1 = snd h" using 2(2) assms(1) by (simp_all add: client_routes_def phone_config_def)
    moreover from this have "dns = None" "h' = h" using 2(3) assms(1) by (simp_all add: client_dns_def phone_config_def)
    moreover have "t_watch (n_tun (cl_node c)) = effective (ac_traffic cfg)"
      by (simp add: 2(13) tunnel_start_def Let_def split: prod.splits)
    moreover have "tp_follow_peer (cf_params (cl_conf c)) = None" by (simp add: 2(14) from_config_def Let_def)
    ultimately show ?thesis using 2(1,4,5,6) assms(1) by (simp add: phone_client_def phone_config_def)
  qed simp
next
  case (Inl e)
  then show ?thesis using assms(2) by (auto simp: start_connect_def)
qed

lemma drop_phone: "(\<And>x. c = Some x \<Longrightarrow> phone_client x) \<Longrightarrow> client_drop Linux run fl1 fl2 c h = h"
  by (cases c) (simp_all add: client_drop_def phone_client_def drop_routes_def drop_dns_def)

lemma stop_phone:
  assumes "phone_globals g" "native_stop run (g, h) r = (g', h')"
  shows "h' = h" "jn_client g' = None" "jn_traffic g' = None" "jn_override g' = jn_override g"
proof -
  have "h' = h"
  proof (cases "jn_client g")
    case (Some c)
    then have "cl_routes c = None" "cl_dns c = None" using assms(1) by (simp_all add: phone_globals_def phone_client_def)
    moreover obtain c' h1 where d: "client_disconnect Linux run None None c h r = (c', h1)"
      by (cases "client_disconnect Linux run None None c h r")
    moreover from this have "cl_routes c' = None" "cl_dns c' = None"
      using disconnect_fields(1,2) [of Linux run None None c h r c'] by simp_all
    moreover have "h1 = drop_dns run None None (cl_dns c) (drop_routes Linux run (cl_routes c) h)"
      using disconnect_host [of Linux run None None c h r] d by simp
    ultimately show ?thesis
      using assms(2) Some
      by (simp add: native_stop_def client_disconnect_and_wait_def client_drop_def drop_routes_def drop_dns_def)
  qed (use assms(2) in \<open>simp add: native_stop_def\<close>)
  then show "h' = h" "jn_client g' = None" "jn_traffic g' = None" "jn_override g' = jn_override g"
    using assms(2) by (auto simp: native_stop_def)
qed

lemma set_traffic_phone: "phone_client c \<Longrightarrow> et_cooldown_ms eff \<le> ANDROID_MAX_COOLDOWN_MS \<Longrightarrow> phone_client (set_traffic eff c)"
  by (simp add: phone_client_def set_traffic_def)

lemma set_profile_phone:
  assumes "phone_globals g" "native_set_profile name g = (res, g')"
  shows "phone_globals g'"
proof (cases "parse_profile name")
  case (Some p)
  show ?thesis
  proof (cases "(jn_client g, jn_traffic g)")
    case (Pair cl tr)
    show ?thesis
    proof (cases "cl = None \<or> tr = None")
      case False
      then obtain c tc where g: "jn_client g = Some c" "jn_traffic g = Some tc" using Pair by auto
      then have "phone_client c" "tc_cooldown_ms tc \<le> ANDROID_MAX_COOLDOWN_MS" using assms(1) by (simp_all add: phone_globals_def)
      then have "phone_client (set_traffic (effective (tc\<lparr> tc_profile := p \<rparr>)) c)" by (simp add: set_traffic_phone)
      then show ?thesis
        using assms g Some by (auto simp: native_set_profile_def phone_globals_def Let_def)
    next
      case True
      then show ?thesis
        using assms Pair Some by (auto simp: native_set_profile_def phone_globals_def Let_def split: option.splits)
    qed
  qed
qed (use assms in \<open>simp add: native_set_profile_def\<close>)

text \<open>The loops of such a client leave its watch channel alone.\<close>

lemma loops_move_watch:
  assumes "tp_follow_peer (cf_params (cl_conf c)) = None" "loops_move c n"
  shows "t_watch (n_tun n) = t_watch (n_tun (cl_node c))"
proof -
  obtain sw where "tunnel_step (cl_conf c) sw (cl_node c) n" using assms(2) by (auto simp: loops_move_def)
  from step_watch [OF this assms(1)] show ?thesis using assms(2) unfolding loops_move_def by metis
qed

lemma move_phone: "phone_client c \<Longrightarrow> loops_move c n \<Longrightarrow> phone_client (c\<lparr> cl_node := n \<rparr>)"
  using loops_move_watch [of c n] by (simp add: phone_client_def)

lemma moved_phone:
  assumes "phone_phase p" "phase_client p = Some c" "loops_move c n"
  shows "phone_phase (moved (c\<lparr> cl_node := n \<rparr>) p)"
  using assms by (cases p) (simp_all add: move_phone)

definition bridge_inv :: "fs \<times> 'w \<Rightarrow> 'w bridge \<Rightarrow> bool" where
  "bridge_inv h b \<longleftrightarrow> br_host b = h \<and> phone_globals (br_globals b) \<and> list_all phone_client (br_loose b) \<and>
     (\<forall>i p. br_starts b i = Some p \<longrightarrow> phone_phase p)"

lemma bridge_invD:
  assumes "bridge_inv h b"
  shows "br_host b = h" "phone_globals (br_globals b)" "list_all phone_client (br_loose b)"
    "\<And>i p. br_starts b i = Some p \<Longrightarrow> phone_phase p"
    "\<And>c. jn_client (br_globals b) = Some c \<Longrightarrow> phone_client c"
  using assms by (auto simp: bridge_inv_def phone_globals_def)

inductive_cases jni_stepE [consumes 1,
    case_names check prepare refuse joined failed announce publish clear stop profile moves moves_new moves_loose]:
  "jni_step run C pref T b b'"

lemma bridge_step:
  assumes "bridge_inv h b" "jni_step run C pref T b b'"
  shows "bridge_inv h b'"
  using assms(2)
proof (cases rule: jni_stepE)
  case (check i toml)
  then show ?thesis using assms(1) by (simp add: bridge_inv_def)
next
  case (prepare i toml cfg server)
  then show ?thesis using assms(1) config_phone by (auto simp: bridge_inv_def)
next
  case (refuse i toml e)
  then show ?thesis using assms(1) by (simp add: bridge_inv_def)
next
  case (joined i cfg server tun env r c h')
  then have "phone_config cfg" using bridge_invD(4) [OF assms(1) joined(2)] by simp
  then show ?thesis using assms(1) joined(1) connect_phone [OF _ joined(3)] by (simp add: bridge_inv_def)
next
  case (failed i cfg server tun env r e h')
  then have "phone_config cfg" using bridge_invD(4) [OF assms(1) failed(2)] by simp
  then show ?thesis using assms(1) failed(1) connect_phone [OF _ failed(3)] by (simp add: bridge_inv_def)
next
  case (announce i cfg c)
  then have "phone_config cfg" "phone_client c" using bridge_invD(4) [OF assms(1) announce(2)] by simp_all
  then show ?thesis using assms(1) announce(1) by (simp add: bridge_inv_def publish_traffic_def phone_globals_def phone_config_def)
next
  case (publish i c g h')
  then have c: "phone_client c" using bridge_invD(4) [OF assms(1) publish(2)] by simp
  have "h' = br_host b" "g = (br_globals b)\<lparr> jn_client := Some c \<rparr>"
    using publish(3) bridge_invD(5) [OF assms(1)] by (auto simp: publish_client_def drop_phone)
  then show ?thesis
    using assms(1) publish(1) c by (auto simp: bridge_inv_def phone_globals_def split: option.splits)
next
  case clear
  then show ?thesis using assms(1) by (simp add: bridge_inv_def phone_globals_def)
next
  case (stop r g h')
  note s = stop_phone [OF bridge_invD(2) [OF assms(1)] stop(2)]
  show ?thesis using assms(1) stop(1) s by (simp add: bridge_inv_def phone_globals_def)
next
  case (profile name res g)
  then show ?thesis using assms(1) set_profile_phone [OF bridge_invD(2) [OF assms(1)] profile(2)] by (simp add: bridge_inv_def)
next
  case (moves c n)
  then show ?thesis using assms(1) move_phone [OF bridge_invD(5) [OF assms(1) moves(2)] moves(3)]
    by (simp add: bridge_inv_def phone_globals_def)
next
  case (moves_new i p c n)
  then show ?thesis using assms(1) moved_phone [OF bridge_invD(4) [OF assms(1) moves_new(2)]] by (simp add: bridge_inv_def)
next
  case (moves_loose k n)
  have "phone_client (br_loose b ! k)" using bridge_invD(3) [OF assms(1)] moves_loose(2) by (simp add: list_all_length)
  then show ?thesis
    using assms(1) moves_loose(1,2) move_phone [OF _ moves_loose(3)]
    by (auto simp: bridge_inv_def list_all_length nth_list_update)
qed

lemma bridge_start_inv: "bridge_inv h (bridge_start h)"
  by (simp add: bridge_start_def bridge_inv_def jni_init_def phone_globals_def)

lemma bridge_reach: "jni_reach run C pref T h b \<Longrightarrow> bridge_inv h b"
  by (induction rule: jni_reach.induct) (simp_all add: bridge_start_inv bridge_step)

text \<open>What publishing a client of the phone does.\<close>

lemma publish_phone:
  assumes "\<And>x. jn_client g = Some x \<Longrightarrow> phone_client x"
  shows "publish_client run c (g, h) = (g\<lparr> jn_client := Some c \<rparr>, h)"
  using assms by (simp add: publish_client_def drop_phone)

lemma loose_step:
  assumes "jni_step run C pref T b b'"
  shows "length (br_loose b) \<le> length (br_loose b') \<and>
    (\<forall>k < length (br_loose b). cl_task (br_loose b' ! k) = cl_task (br_loose b ! k))"
  using assms by (cases rule: jni_stepE) (auto simp: nth_append nth_list_update)

lemma loose_steps:
  assumes "(jni_step run C pref T)\<^sup>*\<^sup>* b b'"
  shows "length (br_loose b) \<le> length (br_loose b') \<and>
    (\<forall>k < length (br_loose b). cl_task (br_loose b' ! k) = cl_task (br_loose b ! k))"
  using assms by induction (use loose_step in fastforce)+

text \<open>A start whose configuration is read runs to its end without a call in between.\<close>

lemma start_completes:
  assumes "br_starts b i = Some (Joined cfg c)" "\<And>x. jn_client (br_globals b) = Some x \<Longrightarrow> phone_client x"
  shows "(jni_step run C pref T)\<^sup>*\<^sup>* b
    (b\<lparr> br_starts := (br_starts b)(i := None), br_globals := (publish_traffic cfg (br_globals b))\<lparr> jn_client := Some c \<rparr>,
       br_loose := br_loose b @ (case jn_client (br_globals b) of Some x \<Rightarrow> [x] | None \<Rightarrow> []) \<rparr>)"
proof -
  define b1 where "b1 = b\<lparr> br_starts := (br_starts b)(i \<mapsto> Announced c), br_globals := publish_traffic cfg (br_globals b) \<rparr>"
  have "jni_step run C pref T b b1" unfolding b1_def by (rule jni_step.announce [OF assms(1)])
  moreover have "publish_client run c (br_globals b1, br_host b1) =
      ((publish_traffic cfg (br_globals b))\<lparr> jn_client := Some c \<rparr>, br_host b)"
    using publish_phone [of "publish_traffic cfg (br_globals b)" run c "br_host b"] assms(2)
    by (simp add: b1_def publish_traffic_def)
  from jni_step.publish [OF _ this, of i C pref T] have "jni_step run C pref T b1
      (b1\<lparr> br_starts := (br_starts b1)(i := None), br_globals := (publish_traffic cfg (br_globals b))\<lparr> jn_client := Some c \<rparr>,
        br_host := br_host b, br_loose := br_loose b1 @ (case jn_client (br_globals b1) of Some x \<Rightarrow> [x] | None \<Rightarrow> []) \<rparr>)"
    by (simp add: b1_def)
  ultimately show ?thesis by (simp add: b1_def publish_traffic_def)
qed

text \<open>A start that has read its configuration and connects ends with its client published.\<close>

lemma start_connects:
  assumes "br_starts b i = Some (Prepared cfg server)" "jn_client (br_globals b) = None"
    and "start_connect run C pref tun env cfg server (br_host b) r = (Ok c, h)"
  shows "\<exists>b'. (jni_step run C pref T)\<^sup>*\<^sup>* b b' \<and> br_starts b' i = None \<and>
    br_globals b' = (publish_traffic cfg (br_globals b))\<lparr> jn_client := Some c \<rparr>"
proof -
  define b1 where "b1 = b\<lparr> br_starts := (br_starts b)(i \<mapsto> Joined cfg c), br_host := h \<rparr>"
  have "jni_step run C pref T b b1" unfolding b1_def by (rule jni_step.joined [OF assms(1,3)])
  moreover have "\<exists>b'. (jni_step run C pref T)\<^sup>*\<^sup>* b1 b' \<and> br_starts b' i = None \<and>
      br_globals b' = (publish_traffic cfg (br_globals b1))\<lparr> jn_client := Some c \<rparr>"
    by (intro exI conjI, rule start_completes) (simp_all add: b1_def assms(2))
  moreover have "br_globals b1 = br_globals b" by (simp add: b1_def)
  ultimately show ?thesis by (metis converse_rtranclp_into_rtranclp)
qed

section \<open>Properties\<close>

text \<open>C26: The bridge leaves the phone's routes, resolvers and files to the system: whatever calls come in whatever order, also
  while a start is under way, the host is as it was, and every client, also one overwritten by a second start,
  owns nothing of it and follows real traffic with at most 100 milliseconds of cover.\<close>

theorem bridge_leaves_host_alone:
  assumes "jni_reach run C pref T h b"
  shows "br_host b = h \<and>
    (\<forall>c. jn_client (br_globals b) = Some c \<or> c \<in> set (br_loose b) \<longrightarrow>
       cl_routes c = None \<and> cl_dns c = None \<and> et_cooldown_ms (t_watch (n_tun (cl_node c))) \<le> 100)"
  using bridge_invD [OF bridge_reach [OF assms]]
  by (auto simp: phone_client_def list_all_iff ANDROID_MAX_COOLDOWN_MS_def)


text \<open>A profile chosen while a start is under way, after it read the choice, is lost on the tunnel that comes up: the call
  succeeds and the choice is remembered, but the client and the traffic section kept for later switches have
  the profile the start was prepared with.\<close>

theorem profile_chosen_while_starting_lost:
  assumes "br_starts b i = Some (Checked toml)" "start_config T toml (jn_override (br_globals b)) = Ok (cfg, server)"
    and "jn_client (br_globals b) = None" "parse_profile name = Some p"
    and "start_connect run C pref tun env cfg server (br_host b) r = (Ok c, h)"
  shows "\<exists>b1 b2 b3. jni_step run C pref T b b1 \<and> br_starts b1 i = Some (Prepared cfg server) \<and>
    native_set_profile name (br_globals b1) = (Ok (), br_globals b2) \<and> jni_step run C pref T b1 b2 \<and>
    (jni_step run C pref T)\<^sup>*\<^sup>* b2 b3 \<and> br_starts b3 i = None \<and> jn_override (br_globals b3) = Some p \<and>
    jn_client (br_globals b3) = Some c \<and> et_profile (t_watch (n_tun (cl_node c))) = tc_profile (ac_traffic cfg) \<and>
    jn_traffic (br_globals b3) = Some (ac_traffic cfg)"
proof -
  define b1 where "b1 = b\<lparr> br_starts := (br_starts b)(i \<mapsto> Prepared cfg server) \<rparr>"
  define b2 where "b2 = b1\<lparr> br_globals := (br_globals b1)\<lparr> jn_override := Some p \<rparr> \<rparr>"
  have s1: "jni_step run C pref T b b1" unfolding b1_def by (rule jni_step.prepare [OF assms(1,2)])
  have set: "native_set_profile name (br_globals b1) = (Ok (), br_globals b2)"
    using assms(3,4) by (simp add: native_set_profile_def b1_def b2_def)
  have s2: "jni_step run C pref T b1 b2"
    using jni_step.profile [OF set, of run C pref T] by (simp add: b2_def)
  obtain b3 where b3: "(jni_step run C pref T)\<^sup>*\<^sup>* b2 b3" "br_starts b3 i = None"
    "br_globals b3 = (publish_traffic cfg (br_globals b2))\<lparr> jn_client := Some c \<rparr>"
    using start_connects [of b2 i cfg server run C pref tun env r c h T] assms(3,5) by (auto simp: b1_def b2_def)
  show ?thesis
    using s1 set s2 b3 connect_phone [OF config_phone [OF assms(2)] assms(5)]
    by (intro exI [of _ b1] exI [of _ b2] exI [of _ b3]) (simp add: b1_def b2_def publish_traffic_def)
qed

text \<open>C40: A stop while a start is under way does not end it: the stop returns with nothing to stop, and once the start has connected
  its client runs, on a descriptor its owner may have closed, until the next stop.\<close>

theorem stop_while_starting_lost:
  assumes "br_starts b i = Some (Checked toml)" "start_config T toml (jn_override (br_globals b)) = Ok (cfg, server)"
    and "jn_client (br_globals b) = None" "start_connect run C pref tun env cfg server (br_host b) r = (Ok c, h)"
  shows "\<exists>b1 b2 b3. jni_step run C pref T b b1 \<and> br_starts b1 i = Some (Prepared cfg server) \<and>
    native_stop run (br_globals b1, br_host b1) r' = (br_globals b2, br_host b2) \<and> (jni_step run C pref T)\<^sup>*\<^sup>* b1 b2 \<and>
    (jni_step run C pref T)\<^sup>*\<^sup>* b2 b3 \<and> br_starts b3 i = None \<and>
    jn_client (br_globals b3) = Some c \<and> cl_task c = Some False \<and> start_check (br_globals b3) \<noteq> Ok ()"
proof -
  define b1 where "b1 = b\<lparr> br_starts := (br_starts b)(i \<mapsto> Prepared cfg server) \<rparr>"
  define b2 where "b2 = b1\<lparr> br_globals := (br_globals b1)\<lparr> jn_traffic := None \<rparr> \<rparr>"
  have s1: "jni_step run C pref T b b1" unfolding b1_def by (rule jni_step.prepare [OF assms(1,2)])
  have clear: "jni_step run C pref T b1 b2" unfolding b2_def by (rule jni_step.clear)
  have "native_stop run (br_globals b2, br_host b2) r' = (br_globals b2, br_host b2)"
    using assms(3) by (simp add: native_stop_def b2_def b1_def)
  from jni_step.stop [OF this, of C pref T] have "jni_step run C pref T b2 b2" by simp
  with clear have s2: "(jni_step run C pref T)\<^sup>*\<^sup>* b1 b2" by (rule converse_rtranclp_into_rtranclp [OF _ r_into_rtranclp])
  have stop: "native_stop run (br_globals b1, br_host b1) r' = (br_globals b2, br_host b2)"
    using assms(3) by (simp add: native_stop_def b2_def b1_def)
  obtain b3 where b3: "(jni_step run C pref T)\<^sup>*\<^sup>* b2 b3" "br_starts b3 i = None"
    "br_globals b3 = (publish_traffic cfg (br_globals b2))\<lparr> jn_client := Some c \<rparr>"
    using start_connects [of b2 i cfg server run C pref tun env r c h T] assms(3,4) by (auto simp: b1_def b2_def)
  show ?thesis
    using s1 s2 stop b3 connect_phone [OF config_phone [OF assms(2)] assms(4)]
    by (intro exI [of _ b1] exI [of _ b2] exI [of _ b3]) (simp add: b1_def start_check_def)
qed

text \<open>Two starts that find no client both connect, and the second takes the place of the first: the first client is dropped with
  its background task running on the same device, and no later call ends that task.\<close>

theorem second_start_orphans_first:
  assumes "br_starts b i = None" "br_starts b j = None" "i \<noteq> j" "jn_client (br_globals b) = None"
    and "start_config T toml (jn_override (br_globals b)) = Ok (cfg, server)"
    and "start_connect run C pref tun env1 cfg server (br_host b) r1 = (Ok c1, h)"
    and "start_connect run C pref tun env2 cfg server (br_host b) r2 = (Ok c2, h')"
  shows "\<exists>b'. (jni_step run C pref T)\<^sup>*\<^sup>* b b' \<and> jn_client (br_globals b') = Some c2 \<and> br_starts b' = br_starts b \<and>
    br_loose b' = br_loose b @ [c1] \<and> cl_task c1 = Some False \<and>
    (\<forall>b''. (jni_step run C pref T)\<^sup>*\<^sup>* b' b'' \<longrightarrow>
       length (br_loose b) < length (br_loose b'') \<and> cl_task (br_loose b'' ! length (br_loose b)) = Some False)"
proof -
  note phone = config_phone [OF assms(5)]
  note p1 = connect_phone [OF phone assms(6)] and p2 = connect_phone [OF phone assms(7)]
  let ?step = "jni_step run C pref T"
  define st where "st x y = b\<lparr> br_starts := (br_starts b)(i := x, j := y) \<rparr>" for x y
  have st: "br_starts (st x y) i = x" "br_starts (st x y) j = y" "br_globals (st x y) = br_globals b"
    "br_host (st x y) = br_host b" "(st x y)\<lparr> br_starts := (br_starts (st x y))(i := x') \<rparr> = st x' y"
    "(st x y)\<lparr> br_starts := (br_starts (st x y))(j := y') \<rparr> = st x y'"
    "(st x y)\<lparr> br_host := br_host b \<rparr> = st x y" for x y x' y'
    using assms(3) by (auto simp: st_def fun_upd_twist)
  have b: "st None None = b" using assms(1,2) by (simp add: st_def fun_upd_idem)
  have check: "start_check (br_globals b) = Ok ()" using assms(4) by (simp add: start_check_def)
  have "?step (st None None) (st (Some (Checked toml)) None)"
    using jni_step.check [of "st None None" i] check by (simp add: st)
  moreover have "?step (st (Some (Checked toml)) None) (st (Some (Checked toml)) (Some (Checked toml)))"
    using jni_step.check [of "st (Some (Checked toml)) None" j] check by (simp add: st)
  moreover have "?step (st (Some (Checked toml)) (Some (Checked toml))) (st (Some (Prepared cfg server)) (Some (Checked toml)))"
    using jni_step.prepare [of "st (Some (Checked toml)) (Some (Checked toml))" i toml T cfg server run C pref] assms(5)
    by (simp add: st)
  moreover have "?step (st (Some (Prepared cfg server)) (Some (Checked toml))) (st (Some (Prepared cfg server)) (Some (Prepared cfg server)))"
    using jni_step.prepare [of "st (Some (Prepared cfg server)) (Some (Checked toml))" j toml T cfg server run C pref] assms(5)
    by (simp add: st)
  moreover have "?step (st (Some (Prepared cfg server)) (Some (Prepared cfg server))) (st (Some (Joined cfg c1)) (Some (Prepared cfg server)))"
    using jni_step.joined [of "st (Some (Prepared cfg server)) (Some (Prepared cfg server))" i cfg server run C pref tun env1 r1 c1 h T]
      assms(6) p1 by (simp add: st)
  moreover have "?step (st (Some (Joined cfg c1)) (Some (Prepared cfg server))) (st (Some (Joined cfg c1)) (Some (Joined cfg c2)))"
    using jni_step.joined [of "st (Some (Joined cfg c1)) (Some (Prepared cfg server))" j cfg server run C pref tun env2 r2 c2 h' T]
      assms(7) p2 by (simp add: st)
  ultimately have joined: "?step\<^sup>*\<^sup>* b (st (Some (Joined cfg c1)) (Some (Joined cfg c2)))"
    unfolding b by (meson converse_rtranclp_into_rtranclp r_into_rtranclp)
  define g where "g = publish_traffic cfg (br_globals b)"
  define b1 where "b1 = (st None (Some (Joined cfg c2)))\<lparr> br_globals := g\<lparr> jn_client := Some c1 \<rparr> \<rparr>"
  define b2 where "b2 = (st None None)\<lparr> br_globals := g\<lparr> jn_client := Some c2 \<rparr>, br_loose := br_loose b @ [c1] \<rparr>"
  have first: "?step\<^sup>*\<^sup>* (st (Some (Joined cfg c1)) (Some (Joined cfg c2))) b1"
    using start_completes [of "st (Some (Joined cfg c1)) (Some (Joined cfg c2))" i cfg c1 run C pref T] assms(3,4)
    by (simp add: st b1_def g_def) (simp add: st_def)
  have second: "?step\<^sup>*\<^sup>* b1 b2"
    using start_completes [of b1 j cfg c2 run C pref T] assms(3,4) p1
    by (simp add: b1_def b2_def st g_def publish_traffic_def) (simp add: st_def)
  have "?step\<^sup>*\<^sup>* b b2" using joined first second by (meson rtranclp_trans)
  moreover have "br_starts b2 = br_starts b" "br_loose b2 = br_loose b @ [c1]" "jn_client (br_globals b2) = Some c2"
    using assms(1,2) by (simp_all add: b2_def st_def fun_upd_idem)
  moreover have "length (br_loose b) < length (br_loose b'') \<and> cl_task (br_loose b'' ! length (br_loose b)) = Some False"
    if "?step\<^sup>*\<^sup>* b2 b''" for b''
    using loose_steps [OF that] p1 by (simp add: \<open>br_loose b2 = br_loose b @ [c1]\<close>)
  ultimately show ?thesis using p1 by blast
qed

text \<open>The life of a client. A start that fails leaves the globals as they were; one that succeeds found no client and leaves
  one that runs the traffic section kept for later switches, with the profile chosen in the application. A stop
  then leaves nothing of it but the choice: the status is that of no client, and the next start may go ahead.\<close>

theorem start_and_stop:
  "case native_start run C pref T tun env toml (g, h) r of
     (Err e, g', h') \<Rightarrow> g' = g \<and> h' = h
   | (Ok _, g', h') \<Rightarrow> jn_client g = None \<and> h' = h \<and> jn_override g' = jn_override g \<and>
       (\<exists>c tc cfg0. jn_client g' = Some c \<and> jn_traffic g' = Some tc \<and> t_watch (n_tun (cl_node c)) = effective tc \<and>
          cl_task c = Some False \<and> from_toml_str T toml = Ok cfg0 \<and>
          tc_profile tc = (case jn_override g of Some p \<Rightarrow> p | None \<Rightarrow> tc_profile (ac_traffic cfg0)) \<and>
          nc_server_addr (ac_network cfg0) = Some (cl_peer c)) \<and>
       start_check g' \<noteq> Ok () \<and>
       (case native_stop run (g', h') r' of (g2, h2) \<Rightarrow>
          g2 = g\<lparr> jn_traffic := None \<rparr> \<and> h2 = h \<and> start_check g2 = Ok () \<and> native_status g2 now = native_status jni_init now)"
proof (cases "rbind (start_check g) (\<lambda>_. start_config T toml (jn_override g))")
  case (Inl e)
  then show ?thesis by (simp add: native_start_def)
next
  case (Inr pair)
  obtain cfg server where pair: "pair = (cfg, server)" by fastforce
  have idle: "jn_client g = None" and cfg: "start_config T toml (jn_override g) = Ok (cfg, server)"
    using Inr pair by (auto simp: start_check_def rbind_eq_Ok split: if_splits)
  obtain res h1 where conn: "start_connect run C pref tun env cfg server h r = (res, h1)" by (metis surj_pair)
  note p = connect_phone [OF config_phone [OF cfg] conn]
  show ?thesis
  proof (cases res)
    case (Inl e)
    then show ?thesis using Inr pair conn p by (simp add: native_start_def)
  next
    case res: (Inr c)
    obtain auth where "client_connect Linux run C pref cfg server auth env h r = (Ok c, h1)"
      using conn res by (auto simp: start_connect_def split: sum.splits)
    then have peer: "cl_peer c = server" by (cases rule: connect_cases) simp_all
    define g' where "g' = (publish_traffic cfg g)\<lparr> jn_client := Some c \<rparr>"
    have start: "native_start run C pref T tun env toml (g, h) r = (Ok (), g', h)"
      using Inr pair conn p res idle
      by (simp add: native_start_def publish_client_def publish_traffic_def g'_def client_drop_def)
    have "phone_globals g'"
      using p res config_phone [OF cfg] by (simp add: phone_globals_def g'_def publish_traffic_def phone_config_def)
    moreover obtain g2 h2 where stop: "native_stop run (g', h) r' = (g2, h2)" by (metis surj_pair)
    ultimately have "h2 = h" "jn_client g2 = None" "jn_traffic g2 = None" "jn_override g2 = jn_override g'"
      by (rule stop_phone)+
    then have g2: "g2 = g\<lparr> jn_traffic := None \<rparr>" "h2 = h" using idle by (simp_all add: g'_def publish_traffic_def)
    have "\<exists>cfg0. from_toml_str T toml = Ok cfg0 \<and> nc_server_addr (ac_network cfg0) = Some server \<and>
        tc_profile (ac_traffic cfg) = (case jn_override g of Some p \<Rightarrow> p | None \<Rightarrow> tc_profile (ac_traffic cfg0))"
      using cfg by (auto simp: start_config_def rbind_eq_Ok androidize_def Let_def split: option.splits)
    then obtain cfg0 where "from_toml_str T toml = Ok cfg0" "nc_server_addr (ac_network cfg0) = Some server"
      "tc_profile (ac_traffic cfg) = (case jn_override g of Some p \<Rightarrow> p | None \<Rightarrow> tc_profile (ac_traffic cfg0))" by blast
    then show ?thesis
      using start stop g2 idle p res peer
      by (simp add: start_check_def native_status_def jni_init_def g'_def publish_traffic_def)
  qed
qed

section \<open>Witnesses\<close>

lemma start_config_Ok:
  assumes "from_toml_str T toml = Ok cfg0" "nc_server_addr (ac_network cfg0) = Some server"
  obtains cfg where "start_config T toml chosen = Ok (cfg, server)"
    "tc_profile (ac_traffic cfg) = (case chosen of Some p \<Rightarrow> p | None \<Rightarrow> tc_profile (ac_traffic cfg0))"
  using assms by (cases chosen) (simp_all add: start_config_def androidize_def Let_def)

lemma start_config_keeps:
  assumes "start_config T toml chosen = Ok (cfg, server)" "from_toml_str T toml = Ok cfg0"
  shows "build_auth C cfg = build_auth C cfg0" "hs_obf_key C cfg = hs_obf_key C cfg0"
  using assms by (auto simp: start_config_def androidize_def build_auth_def hs_obf_key_def Let_def split: option.splits)

text \<open>The client configuration of a generated pair connects over the network of \<open>Net_Run\<close>.\<close>

lemma demo_start:
  obtains cli cfg server env c where "start_config line_parser cli chosen = Ok (cfg, server)" "tc_profile (ac_traffic cfg) = (case chosen of Some p \<Rightarrow> p | None \<Rightarrow> ProfOff)"
    "start_connect run toy_crypto Aegis256X2 (Ok ()) env cfg server h (\<lambda>_. 5) = (Ok c, h)"
proof -
  obtain srv cli r' where run: "init_pair toy_crypto demo_params (\<lambda>n. of_nat n) = ((srv, cli), r')"
    by (metis prod.collapse)
  obtain server client psk prof auth_s auth_c key where *:
    "from_toml_str line_parser srv = Ok (server_config demo_params server client psk prof)"
    "from_toml_str line_parser cli = Ok (client_config demo_params server client psk prof)"
    "map_of profile_names (pp_profile demo_params) = Some prof"
    "build_auth toy_crypto (server_config demo_params server client psk prof) = Ok auth_s"
    "build_auth toy_crypto (client_config demo_params server client psk prof) = Ok auth_c"
    "trusts toy_crypto auth_s auth_c" "trusts toy_crypto auth_c auth_s" "auth_sig_len toy_crypto auth_c = 64 + c_mldsa_sig_len toy_crypto"
    "hs_obf_key toy_crypto (server_config demo_params server client psk prof) = Ok (Some key)"
    "hs_obf_key toy_crypto (client_config demo_params server client psk prof) = Ok (Some key)" "length key = 32"
    by (rule init_pair_ok [OF toy_crypto_ok line_parser_ok demo_params_ok run])
  have prof: "prof = ProfOff" using *(3) by (simp add: demo_params_def profile_names_def)
  define addr where "addr = pp_server_addr demo_params"
  have cfg0: "nc_server_addr (ac_network (client_config demo_params server client psk prof)) = Some addr"
    "tc_profile (ac_traffic (client_config demo_params server client psk prof)) = ProfOff"
    by (simp_all add: client_config_def pair_config_def prof addr_def)
  obtain cfg where cfg: "start_config line_parser cli chosen = Ok (cfg, addr)"
    "tc_profile (ac_traffic cfg) = (case chosen of Some p \<Rightarrow> p | None \<Rightarrow> ProfOff)"
    by (rule start_config_Ok [OF *(2) cfg0(1), of chosen, unfolded cfg0(2)])
  note keeps = start_config_keeps [OF cfg(1) *(2), of toy_crypto]
  have len: "auth_sig_len toy_crypto auth_c \<le> 6923" using *(8) by (simp add: toy_crypto_def)
  have hs: "Some key = None \<or> (\<exists>k. Some key = Some k \<and> length k = 32)" using *(11) by simp
  have time: "(0 :: int) \<le> 1000" "(1000 :: int) \<le> 1000" "(1000 :: int) \<le> 1000 + 120" by simp_all
  have pushed: "mset (map snd (map (Pair (0 :: instant)) ds)) = mset ds" for ds :: "bytes list"
    by (simp add: multiset.map_comp comp_def)
  obtain init1 challenge init2 response confirm si sr q' where runs: "\<And>a1 a2 a3 b1 b2.
      mset (map snd a1) = mset init1 \<Longrightarrow> mset (map snd b1) = mset challenge \<Longrightarrow>
      mset (map snd a2) = mset init2 \<Longrightarrow> mset (map snd b2) = mset response \<Longrightarrow> mset (map snd a3) = mset confirm \<Longrightarrow>
      run_handshake_initiator toy_crypto auth_c Aegis256X2 addr (Some key) 1
        [\<lparr> ae_faults = [], ae_events = recvs addr b1 \<rparr>, \<lparr> ae_faults = [], ae_events = recvs addr b2 \<rparr>] [] (\<lambda>_. 5) =
        (Ok si, init1 @ init2 @ confirm) \<and>
      run_handshake_responder toy_crypto auth_s Aegis256X2 (Some key) 2
        (arrivals 1000 demo_src a1 @ arrivals 1000 demo_src a2 @ arrivals 1000 demo_src a3) (\<lambda>_. 6) =
        (RP_Done sr demo_src, challenge @ response, q')"
    using network_run [where q = "\<lambda>_. 6" and pref_i = Aegis256X2 and pref_r = Aegis256X2 and peer = addr and sid = 1 and
        r = "\<lambda>_. 5" and sid' = 2 and ?t3.0 = 1000, OF toy_crypto_ok toy_contributory *(6,7) len hs demo_cookie time] by blast
  note both = runs [OF pushed pushed pushed pushed pushed]
  define as where "as = [\<lparr> ae_faults = [], ae_events = recvs addr (map (Pair 0) challenge) \<rparr>,
    \<lparr> ae_faults = [], ae_events = recvs addr (map (Pair 0) response) \<rparr>]"
  have net: "fst (run_handshake_initiator toy_crypto auth_c Aegis256X2 addr (Some key) 1 as [] (\<lambda>_. 5)) = Ok si"
    unfolding as_def by (simp only: both fst_conv)
  define env where "env = \<lparr> ce_bind = None, ce_attempts = as, ce_faults = [], ce_counter = 1, ce_now = 0, ce_epoch = 1000,
    ce_max_gso = 1, ce_dns = no_faults \<rparr>"
  obtain res h' where conn: "start_connect run toy_crypto Aegis256X2 (Ok ()) env cfg addr h (\<lambda>_. 5) = (res, h')" by (metis surj_pair)
  then have "client_connect Linux run toy_crypto Aegis256X2 cfg addr auth_c env h (\<lambda>_. 5) = (res, h')"
    by (simp add: start_connect_def keeps *(5))
  then have "is_ok res"
    using net by (auto simp: client_connect_def keeps *(10) env_def next_session_id_def Let_def split: prod.splits)
  then obtain c where "res = Ok c" by (cases res) auto
  moreover have "h' = h" using connect_phone [OF config_phone [OF cfg(1)] conn] by simp
  ultimately show thesis using that [OF cfg] conn by blast
qed

abbreviation demo_calls :: "table bridge \<Rightarrow> table bridge \<Rightarrow> bool" where
  "demo_calls \<equiv> jni_step table_runner toy_crypto Aegis256X2 line_parser"

abbreviation demo_bridge :: "table bridge" where
  "demo_bridge \<equiv> bridge_start (stub_fs, Map.empty)"

lemma demo_bridge [simp]:
  "br_starts demo_bridge i = None" "jn_client (br_globals demo_bridge) = None" "jn_override (br_globals demo_bridge) = None"
  "br_host demo_bridge = (stub_fs, Map.empty)" "br_loose demo_bridge = []" "start_check (br_globals demo_bridge) = Ok ()"
  by (simp_all add: bridge_start_def jni_init_def start_check_def)

lemma reach_steps: "(jni_step run C pref T)\<^sup>*\<^sup>* b b' \<Longrightarrow> jni_reach run C pref T h b \<Longrightarrow> jni_reach run C pref T h b'"
  by (induction rule: rtranclp_induct) (auto intro: jni_reach.step)

theorem profile_chosen_while_starting_lost_witness:
  "\<exists>b c. demo_calls\<^sup>*\<^sup>* demo_bridge b \<and> jn_override (br_globals b) = Some ProfStealth \<and>
     jn_client (br_globals b) = Some c \<and> et_profile (t_watch (n_tun (cl_node c))) = ProfOff"
proof -
  obtain cli cfg server env c where s: "start_config line_parser cli None = Ok (cfg, server)" "tc_profile (ac_traffic cfg) = ProfOff"
    "start_connect table_runner toy_crypto Aegis256X2 (Ok ()) env cfg server (stub_fs, Map.empty) (\<lambda>_. 5) = (Ok c, stub_fs, Map.empty)"
    by (rule demo_start [of None table_runner "(stub_fs, Map.empty)"]) simp
  define b where "b = demo_bridge\<lparr> br_starts := (br_starts demo_bridge)(0 \<mapsto> Checked cli) \<rparr>"
  have first: "demo_calls demo_bridge b" unfolding b_def by (rule jni_step.check) simp_all
  have b: "br_starts b 0 = Some (Checked cli)" "jn_override (br_globals b) = None" "jn_client (br_globals b) = None"
    "br_host b = (stub_fs, Map.empty)" by (simp_all add: b_def)
  have stealth: "parse_profile ''stealth'' = Some ProfStealth" by (simp add: parse_profile_def)
  from profile_chosen_while_starting_lost [OF b(1) _ b(3) stealth, of line_parser cfg server table_runner toy_crypto Aegis256X2
      "Ok ()" env "\<lambda>_. 5" c "(stub_fs, Map.empty)"]
  obtain b1 b2 b3 where "demo_calls b b1" "demo_calls b1 b2" "demo_calls\<^sup>*\<^sup>* b2 b3" "jn_override (br_globals b3) = Some ProfStealth"
    "jn_client (br_globals b3) = Some c" "et_profile (t_watch (n_tun (cl_node c))) = ProfOff"
    using s b by auto
  with first show ?thesis by (meson converse_rtranclp_into_rtranclp)
qed

theorem stop_while_starting_lost_witness:
  "\<exists>b c. demo_calls\<^sup>*\<^sup>* demo_bridge b \<and> jn_client (br_globals b) = Some c \<and> cl_task c = Some False"
proof -
  obtain cli cfg server env c where s: "start_config line_parser cli None = Ok (cfg, server)"
    "start_connect table_runner toy_crypto Aegis256X2 (Ok ()) env cfg server (stub_fs, Map.empty) (\<lambda>_. 5) = (Ok c, stub_fs, Map.empty)"
    by (rule demo_start [of None table_runner "(stub_fs, Map.empty)"])
  define b where "b = demo_bridge\<lparr> br_starts := (br_starts demo_bridge)(0 \<mapsto> Checked cli) \<rparr>"
  have first: "demo_calls demo_bridge b" unfolding b_def by (rule jni_step.check) simp_all
  have b: "br_starts b 0 = Some (Checked cli)" "jn_override (br_globals b) = None" "jn_client (br_globals b) = None"
    "br_host b = (stub_fs, Map.empty)" by (simp_all add: b_def)
  from stop_while_starting_lost [OF b(1) _ b(3), of line_parser cfg server table_runner toy_crypto Aegis256X2
      "Ok ()" env "\<lambda>_. 5" c "(stub_fs, Map.empty)" "\<lambda>_. 0"]
  obtain b1 b2 b3 where "demo_calls b b1" "demo_calls\<^sup>*\<^sup>* b1 b2" "demo_calls\<^sup>*\<^sup>* b2 b3"
    "jn_client (br_globals b3) = Some c" "cl_task c = Some False"
    using s b by auto
  with first show ?thesis by (meson converse_rtranclp_into_rtranclp rtranclp_trans)
qed

theorem bridge_leaves_host_alone_witness:
  "\<exists>b c. jni_reach table_runner toy_crypto Aegis256X2 line_parser (stub_fs, Map.empty) b \<and> jn_client (br_globals b) = Some c \<and>
     cl_routes c = None \<and> br_host b = (stub_fs, Map.empty)"
proof -
  obtain cli cfg server env c where s: "start_config line_parser cli None = Ok (cfg, server)"
    "start_connect table_runner toy_crypto Aegis256X2 (Ok ()) env cfg server (stub_fs, Map.empty) (\<lambda>_. 5) = (Ok c, stub_fs, Map.empty)"
    by (rule demo_start [of None table_runner "(stub_fs, Map.empty)"])
  define b1 where "b1 = demo_bridge\<lparr> br_starts := (br_starts demo_bridge)(0 \<mapsto> Checked cli) \<rparr>"
  define b2 where "b2 = b1\<lparr> br_starts := (br_starts b1)(0 \<mapsto> Prepared cfg server) \<rparr>"
  define b3 where "b3 = b2\<lparr> br_starts := (br_starts b2)(0 \<mapsto> Joined cfg c), br_host := (stub_fs, Map.empty) \<rparr>"
  have "demo_calls demo_bridge b1" unfolding b1_def by (rule jni_step.check) simp_all
  moreover have "demo_calls b1 b2" unfolding b2_def by (rule jni_step.prepare [where toml = cli]) (simp_all add: b1_def s(1))
  moreover have "demo_calls b2 b3"
    unfolding b3_def by (rule jni_step.joined [where tun = "Ok ()"]) (use s(2) in \<open>simp_all add: b2_def b1_def\<close>)
  moreover obtain b4 where "demo_calls\<^sup>*\<^sup>* b3 b4" "jn_client (br_globals b4) = Some c"
    using start_completes [of b3 0 cfg c table_runner toy_crypto Aegis256X2 line_parser] by (fastforce simp: b3_def b2_def b1_def)
  ultimately have "jni_reach table_runner toy_crypto Aegis256X2 line_parser (stub_fs, Map.empty) b4"
    by (meson jni_reach.intros reach_steps)
  from bridge_leaves_host_alone [OF this] this \<open>jn_client (br_globals b4) = Some c\<close> show ?thesis by blast
qed

theorem second_start_orphans_first_witness:
  "\<exists>b c. demo_calls\<^sup>*\<^sup>* demo_bridge b \<and> length (br_loose b) = 1 \<and> jn_client (br_globals b) = Some c"
proof -
  obtain cli cfg server env c where s: "start_config line_parser cli None = Ok (cfg, server)"
    "start_connect table_runner toy_crypto Aegis256X2 (Ok ()) env cfg server (stub_fs, Map.empty) (\<lambda>_. 5) = (Ok c, stub_fs, Map.empty)"
    by (rule demo_start [of None table_runner "(stub_fs, Map.empty)"])
  have "(0 :: nat) \<noteq> 1" by simp
  from second_start_orphans_first [of demo_bridge 0 1, OF _ _ this, of line_parser cli cfg server table_runner toy_crypto Aegis256X2
      "Ok ()" env "\<lambda>_. 5" c "(stub_fs, Map.empty)" env "\<lambda>_. 5" c "(stub_fs, Map.empty)"]
  obtain b where "demo_calls\<^sup>*\<^sup>* demo_bridge b" "jn_client (br_globals b) = Some c" "br_loose b = br_loose demo_bridge @ [c]"
    using s by fastforce
  then show ?thesis by (intro exI [of _ b] exI [of _ c]) simp
qed


end
