(* ===== verification/Spec2Isabelle.thy ===== *)
theory Spec2Isabelle
  imports Delivery Sysconf Client Killswitch Gui Android
begin

text \<open>
  Chameleon-PQ: a post-quantum VPN tunnel over UDP (the crate under \<open>src/\<close>).

  The program. Two peers with pinned identities run a mutually authenticated three-message
  handshake (hybrid X25519 and ML-KEM, \<open>tunnel.rs\<close>, \<open>crypto.rs\<close>) over UDP (\<open>net.rs\<close>), optionally
  sealed under a static key (\<open>hsobf.rs\<close>). It yields a session (\<open>session.rs\<close>) with directional AEAD
  keys (\<open>aead.rs\<close>), a transmit counter and a replay window. A session manager keeps the current
  session, the previous one for a grace period, and the claim of a running rekey (\<open>rekey.rs\<close>). The
  tunnel loops (\<open>tunnel_loops.rs\<close>) move packets: the outbound loop drains the TUN device, has batches
  sealed by a worker pool through the engine (\<open>engine.rs\<close>) and sent in reservation order, or, under
  a traffic profile, emits one paced slot per tick with cover datagrams (\<open>pacer.rs\<close>); the inbound
  loop opens datagrams in parallel and demultiplexes data, control and handshake frames
  (\<open>frame.rs\<close>, \<open>obf.rs\<close>); a keepalive task watches for a dead peer. The kernel batches datagrams
  (\<open>udp.rs\<close>). Parameters come from a validated configuration (\<open>config.rs\<close>), which the guided set-up
  writes for both ends (\<open>setup.rs\<close>). Around the tunnel stand the programs a user meets: the client library
  (\<open>client.rs\<close>), which connects, routes all traffic through the tunnel (\<open>route.rs\<close>) and takes over the resolvers
  (\<open>dns.rs\<close>); the desktop application (\<open>gui/src/main.rs\<close>), which also engages the kill switch (\<open>killswitch.rs\<close>);
  the installer of a server (\<open>sysconf.rs\<close>); and the bridge to the Android application.

  Theories, each with the file it models.
  \<^item> \<open>Prelude\<close>: byte strings, random streams, \<open>Result\<close> as a sum with \<open>rbind\<close> for \<open>?\<close>, the field codec
    of \<open>to_le_bytes\<close>, the collection \<open>codec\<close>, and the locale \<open>byte_code\<close> of one-byte codes, which the
    cipher identifiers, frame types, handshake types and profile identifiers interpret.
  \<^item> \<open>Errors\<close>: \<open>error.rs\<close> (its text is in \<open>Gui\<close>, which shows it). \<open>Crypto_Lib\<close>: the parameter \<open>crypto_lib\<close> that
    stands for the cryptographic crates, its contract \<open>crypto_ok\<close> and the concrete instance
    \<open>toy_crypto\<close> that satisfies it.
  \<^item> \<open>Aead\<close>: \<open>aead.rs\<close>, locale \<open>directional_aead\<close>. \<open>Frame\<close>: \<open>frame.rs\<close>. \<open>Obf\<close>: \<open>obf.rs\<close>.
  \<^item> \<open>Replay\<close>: \<open>ReplayWindow\<close> of \<open>session.rs\<close> on 32 words of 64 bits, refined to a set of accepted
    counters; locale \<open>replay_filter\<close>. \<open>Session\<close>: \<open>Session\<close> (keys, nonces, reservation of counters,
    sealing, opening with the two-phase replay check). \<open>Session_Manager\<close>: \<open>SessionManager\<close>.
  \<^item> \<open>Float32\<close>, \<open>Pacer\<close>: \<open>pacer.rs\<close>; the cover budget is an \<open>f32\<close>, modelled as rounded rationals.
  \<^item> \<open>Handshake_Msg\<close>, \<open>Reassembly\<close>, \<open>Handshake\<close>: the messages, the fragments and the state machine
    of \<open>tunnel.rs\<close>. \<open>Crypto_Core\<close>: \<open>crypto.rs\<close> (authenticators, transcript, derivations, cookie).
    \<open>Hsobf\<close>: \<open>hsobf.rs\<close>. \<open>Net\<close>: cookies, datagrams and the two drivers of \<open>net.rs\<close>,
    \<open>Net_Run\<close>: the drivers against each other.
  \<^item> \<open>Engine\<close>: \<open>engine.rs\<close>. \<open>Rekey\<close>: \<open>rekey.rs\<close>. \<open>Config\<close>: \<open>config.rs\<close>. \<open>Udp\<close>: \<open>udp.rs\<close>.
  \<^item> \<open>Tunnel_Send\<close>: \<open>dispatch_seal\<close>, \<open>run_sequential_sender\<close>. \<open>Tunnel_Out\<close>: the outbound loop and the
    sender task. \<open>Tunnel_In\<close>: the inbound loop and the keepalive task. \<open>Tunnel\<close>: \<open>run_tunnel_loops\<close>
    as the relation \<open>tunnel_step\<close> over \<open>node\<close>, one rule per arm of a \<open>select!\<close> and per spawned task.
  \<^item> \<open>Lineage\<close>: what every layer keeps of the sessions (locales \<open>manager_view\<close>, \<open>session_property\<close>,
    \<open>established_sessions\<close>), \<open>Pinning\<close>: where a tunnel sends, \<open>Watch\<close>: who writes its
    watch channel, \<open>Delivery\<close>: two tunnels back to back, with the receive calls and decrypt jobs of the inbound loop.
  \<^item> \<open>Text\<close>, \<open>Net_Addr\<close>: the text functions and the address parser of the standard library. \<open>Os\<close>: the external
    programs as a parameter \<open>runner\<close> and the file system as a map; \<open>Host\<close>: the same with permissions and faults.
  \<^item> \<open>Route\<close>: \<open>route.rs\<close>. \<open>Killswitch\<close>: \<open>killswitch.rs\<close>. \<open>Dns\<close>: \<open>dns.rs\<close>. \<open>Toml\<close>: loading of \<open>config.rs\<close>.
    \<open>Auth_Config\<close>, \<open>Client\<close>: \<open>client.rs\<close>. \<open>Setup\<close>: \<open>setup.rs\<close>. \<open>Sysconf\<close>: \<open>sysconf.rs\<close>.
    \<open>Gui\<close>: \<open>gui/src/main.rs\<close>, with the jobs it starts as the step relation \<open>gui_step\<close>.
    \<open>Android\<close>: \<open>android/rust-jni/src/lib.rs\<close>, with concurrent calls as the step relation \<open>jni_step\<close>.

  How state corresponds. A struct is a record, an enum a datatype with the constructors of the
  source, an integer a word of its width. State behind \<open>Arc\<close>, atomics and mutexes is passed
  explicitly, one atomic operation or critical section per step: \<open>concurrent_decrypt_delivers_once\<close>
  splits the two locks of \<open>decrypt\<close> into separate steps, \<open>tunnel_step\<close> interleaves whole arms of the
  loops, which run between two awaits. Channels are lists, the socket is the list \<open>t_wire\<close> of sent
  datagrams with their destinations, the TUN device \<open>t_to_tun\<close>. The operating system is a pair of a file system and
  a state of any type, which only the runner of external programs reads and changes. Clock readings, random streams,
  arriving datagrams, send faults and the order in which the pool works are arguments.

  What the lemmas show. Per component: round trips of every codec, lengths, functional behaviour with the error
  of each failing branch. Replay and sessions: the window is a set, a counter is used once, a datagram is
  delivered at most once under any interleaving of its decryption. Handshake: an honest run pairs the sessions;
  neither side establishes one before the signature of the other was verified over its own transcript. Rekey:
  lost attempts are survived, an unanswered one ends after its bounded attempts. Loops: control invariant
  (flags, claim, queue bounds), the sessions in use are the initial one or were installed on a proof of identity
  presented in this run, well-formed, the peer address is pinned without roaming, input that does not
  authenticate is confined, a paced slot has constant size and carries the pending packets in order, packets cross two
  tunnels unchanged, in order within each receive call. Host: a disconnect, a failed install or a
  drop takes back the routes and resolvers that were set, under the conditions the theorems name; an engaged
  switch lets out exactly what its policy names, which is more than its comments promise; a generated pair of configurations loads, trusts each other and
  connects; a configuration without warnings has full security; the installer changes nothing in a dry run and
  replaces an identity completely or not at all; the desktop application never loses or silently opens the kill switch.
  Some properties state behaviour the code has and its comments do not expect.

  Bounds and termination. Every definition is total. Retry loops recurse on the attempts left
  (\<open>MAX_REKEY_RETRIES\<close> = 4, \<open>HS_MAX_ATTEMPTS\<close>), receive loops on the datagrams their environment
  delivers before the timeout, the responder of the first handshake is a run over any event list,
  and the never-ending loops of a tunnel are a step relation, so no fuel is needed. Lengths that the
  code stores in fixed-width fields carry the bound of the field as a hypothesis (a batch has at
  most \<open>MAX_BATCH\<close> packets, a packet is shorter than \<open>2 ^ 16\<close> bytes).

  Trust. The theorems are relative to \<open>crypto_ok\<close>: output lengths, opening inverts sealing and
  accepts nothing else under the same key, nonce and associated data, both ends of a key agreement
  compute the same secret, honest signatures verify. No secrecy or unforgeability is assumed. Where a property is
  about the host, the documented behaviour of the programs is a hypothesis: \<open>ip_ok\<close> (what \<open>ip route\<close> adds, shows and
  deletes), \<open>nft_loads\<close> (a file loads atomically, deleting and listing may fail) and, for the application, the
  stronger \<open>nft_ok\<close> (they do what they say), \<open>ip_keeps\<close> (\<open>ip\<close> leaves the firewall alone),
  \<open>win_dns_ok\<close> (the resolver cmdlets), \<open>queries_quiet\<close> (the commands that only ask change nothing), \<open>toml_ok\<close> (the TOML
  parser on the documents the set-up writes). Each has a concrete instance that satisfies it.

  The receive arm of \<open>tunnel_step\<close> takes buffers of any number and size, which is more than \<open>RECV_BATCH\<close> buffers of
  \<open>RECV_BUF\<close> bytes allow; its invariants hold over all of these. \<open>Delivery\<close> keeps the bounds of the code.

  Not modelled. Log output, secret zeroisation and thread or task handles. The TOML parser (a parameter), the
  declarations of the command line (\<open>clap\<close>), the system calls of \<open>udp.rs\<close>
  (\<open>quinn-udp\<close>, \<open>socket2\<close>), the device in \<open>tun_iface.rs\<close> (two tasks that
  copy between it and the channels), the dispatch of the command line in \<open>main.rs\<close>, the string and
  exception wrappers of the Android bridge, and of the desktop application drawing, the diagnostics file and the
  request for the latest release.
\<close>

section \<open>Lemmas\<close>

lemma seal_one_obf_size:
  assumes "crypto_ok C" "session_wf (m_current (e_sessions e))" "e_obf e"
    "seal_one C e pkt r = (Ok d, e', r')" "length pkt \<le> 1232"
  shows "length d \<le> 1280"
proof -
  let ?s = "m_current (e_sessions e)"
  obtain n c q q' where "seal_obf_core C (?s\<lparr> s_tx_counter := n \<rparr>) c (ft_as_u8 FT_Data) pkt (e_pad e) q = (Ok d, q')"
    using assms(3,4)
    by (auto simp: seal_one_def sm_seal_obf_def seal_obf_def reserve_counters_def Let_def
        split: prod.splits if_splits)
  moreover have "session_wf (?s\<lparr> s_tx_counter := n \<rparr>)" using assms(2) by (simp add: session_wf_def)
  ultimately have "length d = 13 + pad_target (3 + length pkt) (e_pad e) (max_framed (tag_len (s_algo ?s))) + tag_len (s_algo ?s)"
    using seal_obf_core_length [OF assms(1)] by fastforce
  moreover have "3 + length pkt \<le> max_framed (tag_len (s_algo ?s))" "max_framed (tag_len (s_algo ?s)) + tag_len (s_algo ?s) = 1267"
    using assms(5) tag_len_le [of "s_algo ?s"] by (simp_all add: max_framed_def obf_consts)
  ultimately show ?thesis
    using pad_target_le [of "3 + length pkt" "e_pad e" "max_framed (tag_len (s_algo ?s))"] by simp
qed

section \<open>Properties that span components\<close>

text \<open>C33: a validated configuration keeps the obfuscated data path below the path MTU: with obfuscation on,
  every packet that fits the configured TUN MTU is sealed, under the configured padding and either
  cipher, to a datagram of at most 1280 bytes.\<close>

theorem validated_mtu_fits:
  assumes "validate cfg = Ok ()" "oc_enabled (ac_obfuscation cfg)" "crypto_ok C" "session_wf (m_current m)"
    "length pkt \<le> unat (tn_mtu (ac_tun cfg))"
    "seal_one C (engine_new m True (pad_policy_from (oc_padding (ac_obfuscation cfg)))) pkt r = (Ok d, e', r')"
  shows "length d \<le> 1280"
proof (rule seal_one_obf_size [OF assms(3) _ _ assms(6)])
  have "unat (tn_mtu (ac_tun cfg)) \<le> 1232"
    using assms(1,2) by (simp add: validate_iff Let_def)
  with assms(5) show "length pkt \<le> 1232" by simp
qed (use assms(4) in \<open>simp_all add: engine_new_def\<close>)

text \<open>Without obfuscation nothing bounds the MTU by the frame: \<open>validate\<close> accepts any from 576, but one
  packet that does not fit a frame, 1267 bytes less the cipher's tag, fails the whole batch it was
  drained with, so that no packet of the batch is sent.\<close>

theorem clear_oversize_drops_batch:
  assumes "crypto_ok C" "session_wf sess" "\<not> e_obf e" "pkt \<in> set batch"
    "1267 < length pkt + tag_len (s_algo sess)"
  shows "\<not> is_ok (seal_batch_with_counters C e sess base batch rs) \<and>
    (576 \<le> unat mtu \<longrightarrow> validate cfg = Ok () \<longrightarrow> \<not> oc_enabled (ac_obfuscation cfg) \<longrightarrow>
      validate (cfg\<lparr> ac_tun := (ac_tun cfg)\<lparr> tn_mtu := mtu \<rparr> \<rparr>) = Ok ())"
proof
  obtain i where i: "i < length batch" "batch ! i = pkt" using assms(4) by (auto simp: in_set_conv_nth)
  have "\<not> is_ok (seal_packet_with_counter C e sess c pkt q)" for c q
  proof (cases "seal_with_counter C sess c pkt")
    case (Inr ct)
    then have "length ct = length pkt + tag_len (s_algo sess)"
      using seal_with_counter_length [OF assms(1,2)] by blast
    with Inr assms(3,5) show ?thesis
      by (simp add: seal_packet_with_counter_def fr_encode_def new_data_def MAX_PAYLOAD_def HEADER_LEN_def)
  qed (use assms(3) in \<open>simp add: seal_packet_with_counter_def\<close>)
  note bad = this
  have mem: "seal_packet_with_counter C e sess (base + of_nat i) pkt (rs i) \<in>
      set (map (\<lambda>(i, pkt). seal_packet_with_counter C e sess (base + of_nat i) pkt (rs i)) (enumerate 0 batch))"
    using i by (force simp: in_set_enumerate_eq)
  show "\<not> is_ok (seal_batch_with_counters C e sess base batch rs)"
    unfolding seal_batch_with_counters_def by (rule collect_results_Err [OF mem bad])
  show "576 \<le> unat mtu \<longrightarrow> validate cfg = Ok () \<longrightarrow> \<not> oc_enabled (ac_obfuscation cfg) \<longrightarrow>
      validate (cfg\<lparr> ac_tun := (ac_tun cfg)\<lparr> tn_mtu := mtu \<rparr> \<rparr>) = Ok ()"
    by (auto simp: validate_iff Let_def)
qed

section \<open>Witnesses\<close>

theorem validated_mtu_fits_witness:
  "\<exists>d e' r'. seal_one toy_crypto (engine_new (sm_new (demo_session True) 0) True PadBucketed) [42] (\<lambda>_. 0) = (Ok d, e', r') \<and>
     length d \<le> 1280"
proof -
  obtain d a' r' where "seal_obf toy_crypto (demo_session True) (ft_as_u8 FT_Data) [42] PadBucketed (\<lambda>_. 0) = (Ok d, a', r')"
  proof -
    obtain d r' where "seal_obf_core toy_crypto ((demo_session True)\<lparr> s_tx_counter := 1 \<rparr>) 0 (ft_as_u8 FT_Data) [42]
        PadBucketed (\<lambda>_. 0) = (Ok d, r')"
      by (rule seal_obf_core_total [OF toy_crypto_ok, of "(demo_session True)\<lparr> s_tx_counter := 1 \<rparr>" "[42]"])
        (use demo_session in \<open>simp_all add: session_wf_def\<close>)
    then show thesis by (intro that) (simp add: seal_obf_def demo_reserve)
  qed
  then have s: "seal_one toy_crypto (engine_new (sm_new (demo_session True) 0) True
      (pad_policy_from (oc_padding (ac_obfuscation (demo_config traffic_default 200))))) [42] (\<lambda>_. 0) =
      (Ok d, (engine_new ((sm_new (demo_session True) 0)\<lparr> m_current := a' \<rparr>) True PadBucketed), r')"
    by (simp add: seal_one_def engine_new_def sm_seal_obf_def sm_new_def demo_config_def obfuscation_default_def)
  have "length d \<le> 1280"
    by (rule validated_mtu_fits [OF _ _ toy_crypto_ok _ _ s])
      (use demo_session in \<open>simp_all add: demo_config_valid effective_def traffic_default_def sm_new_def\<close>,
       simp_all add: demo_config_def obfuscation_default_def)
  with s show ?thesis by (auto simp: demo_config_def obfuscation_default_def)
qed

theorem clear_oversize_drops_batch_witness:
  "\<not> is_ok (seal_batch_with_counters toy_crypto (engine_new (sm_new (demo_session True) 0) False PadOff)
     (demo_session True) 0 [[1], replicate 1400 7] (\<lambda>_ _. 0))"
  using clear_oversize_drops_batch [OF toy_crypto_ok, of "demo_session True"
      "engine_new (sm_new (demo_session True) 0) False PadOff" "replicate 1400 7" "[[1], replicate 1400 7]"] demo_session
  by (simp add: engine_new_def)

end
